(* ===== verification/KPrelude.thy ===== *)
theory KPrelude
  imports Main "HOL-Library.Word" "HOL-Library.Monad_Syntax"
begin

text \<open>
  Shared ground of the development: the C integer types of the kernel
  (src/include/common/types.h), the ways a kernel operation can fail to return
  (src/include/common/macro.h, src/include/common/kprint.h), the rounding macros, and the
  lemmas on words that the components share.
\<close>

unbundle bit_operations_syntax

named_theorems kerr_simps \<open>rewriting with the result type of kernel operations\<close>
named_theorems word_round \<open>rounding and address arithmetic read as natural numbers\<close>

section \<open>Machine types\<close>

type_synonym u8 = "8 word"
type_synonym u32 = "32 word"
type_synonym u64 = "64 word"
type_synonym paddr_t = "64 word"
type_synonym vaddr_t = "64 word"
type_synonym size_t = "64 word"

abbreviation NULL :: "64 word" where
  "NULL \<equiv> 0"

section \<open>The direct map\<close>

definition KBASE :: u64 where "KBASE = 0xFFFFFF0000000000"

definition phys_to_virt :: "paddr_t \<Rightarrow> vaddr_t" where
  "phys_to_virt x = x + KBASE"

definition virt_to_phys :: "vaddr_t \<Rightarrow> paddr_t" where
  "virt_to_phys x = x - KBASE"

lemma virt_phys_inverse [simp]:
  "virt_to_phys (phys_to_virt x) = x"
  "phys_to_virt (virt_to_phys x) = x"
  by (simp_all add: virt_to_phys_def phys_to_virt_def)

section \<open>How an operation fails to return\<close>

text \<open>
  \<open>BUG\<close>: the \<open>BUG_ON\<close>/\<open>BUG\<close>/\<open>assert\<close> macros print and spin for ever.
  \<open>KERROR\<close>: the \<open>kerror\<close> macro prints and spins for ever.
  \<open>FAULT\<close>: an access outside the objects the kernel owns (a NULL or wild pointer, an array
  index out of range), or an operation C leaves undefined (a shift out of range, the negation of the
  smallest number, a division by zero).
  \<open>SPIN\<close>: \<open>spin_lock\<close> on a lock word that is already taken, with nobody to release it.
  \<open>DIVERGE\<close>: a loop of the code that does not end.
\<close>

datatype kerr = BUG | KERROR | FAULT | SPIN | DIVERGE

type_synonym 'a result = "kerr + 'a"

definition bindR :: "'a result \<Rightarrow> ('a \<Rightarrow> 'b result) \<Rightarrow> 'b result" where
  "bindR r f = (case r of Inl e \<Rightarrow> Inl e | Inr x \<Rightarrow> f x)"

definition of_option :: "'a option \<Rightarrow> 'a result" where
  "of_option x = (case x of None \<Rightarrow> Inl FAULT | Some y \<Rightarrow> Inr y)"

definition BUG_ON :: "bool \<Rightarrow> unit result" where
  "BUG_ON b = (if b then Inl BUG else Inr ())"

lemma bindR_simps [simp, kerr_simps]:
  "bindR (Inl e) f = Inl e"
  "bindR (Inr x) f = f x"
  by (simp_all add: bindR_def)

lemma of_option_simps [simp, kerr_simps]:
  "of_option None = Inl FAULT"
  "of_option (Some y) = Inr y"
  by (simp_all add: of_option_def)

lemma BUG_ON_simps [simp, kerr_simps]:
  "BUG_ON False = Inr ()"
  "BUG_ON True = Inl BUG"
  by (simp_all add: BUG_ON_def)

lemma bindR_Inr [kerr_simps]:
  "bindR r f = Inr y \<longleftrightarrow> (\<exists>x. r = Inr x \<and> f x = Inr y)"
  by (cases r) auto

lemma bindR_cong [fundef_cong]:
  "r = r' \<Longrightarrow> (\<And>x. r' = Inr x \<Longrightarrow> f x = g x) \<Longrightarrow> bindR r f = bindR r' g"
  by (cases r') auto

lemma of_option_Inr [kerr_simps]: "of_option x = Inr y \<longleftrightarrow> x = Some y"
  by (cases x) auto

lemma BUG_ON_Inr [kerr_simps]: "BUG_ON b = Inr u \<longleftrightarrow> \<not> b"
  by (cases b) auto

section \<open>Rounding\<close>

definition ROUND_UP :: "u64 \<Rightarrow> u64 \<Rightarrow> u64" where
  "ROUND_UP x n = (x + n - 1) AND NOT (n - 1)"

definition ROUND_DOWN :: "u64 \<Rightarrow> u64 \<Rightarrow> u64" where
  "ROUND_DOWN x n = x AND NOT (n - 1)"

lemma and_not_mask_eq_minus_mod: "(x :: u64) AND NOT (mask k) = x - take_bit k x"
proof -
  have "NOT x AND take_bit k x = 0"
    by (rule bit_word_eqI) (auto simp: bit_simps)
  then have "x - take_bit k x = x AND NOT (take_bit k x)"
    by (rule disjunctive_diff_eq_and_not)
  also have "\<dots> = x AND NOT (mask k)"
    by (rule bit_word_eqI) (auto simp: bit_simps)
  finally show ?thesis ..
qed

lemma unat_take_bit: "unat (take_bit k (x :: u64)) = unat x mod 2 ^ k"
  by (simp only: unsigned_take_bit_eq) (simp add: take_bit_eq_mod)

lemma unat_and_not_mask: "unat ((x :: u64) AND NOT (mask k)) = unat x div 2 ^ k * 2 ^ k"
proof -
  have "take_bit k x \<le> x"
    by (simp only: word_le_nat_alt unat_take_bit) simp
  then have "unat (x - take_bit k x) = unat x - unat x mod 2 ^ k"
    by (simp only: unat_sub unat_take_bit)
  then show ?thesis
    by (simp only: and_not_mask_eq_minus_mod minus_mod_eq_div_mult)
qed

lemma unat_2p [word_round]: "k < 64 \<Longrightarrow> unat (2 ^ k :: u64) = 2 ^ k"
  using unat_of_nat [where ?'a = 64, of "2 ^ k"] power_strict_increasing [of k 64 "2 :: nat"]
  by simp

lemma unat_ROUND_DOWN [word_round]:
  "unat (ROUND_DOWN x (2 ^ k)) = unat x div 2 ^ k * 2 ^ k"
  by (simp add: ROUND_DOWN_def unat_and_not_mask flip: mask_eq_exp_minus_1)

lemma unat_add_small [word_round]:
  "unat (x :: u64) + unat y < 2 ^ 64 \<Longrightarrow> unat (x + y) = unat x + unat y"
  using unat_add_lem [of x y] by simp

lemma unat_ROUND_UP [word_round]:
  assumes "k < 64" "unat x + 2 ^ k \<le> 2 ^ 64"
  shows "unat (ROUND_UP x (2 ^ k)) = (unat x + 2 ^ k - 1) div 2 ^ k * 2 ^ k"
proof -
  have "(1 :: u64) \<le> 2 ^ k"
    using assms(1) by (simp add: word_le_nat_alt unat_2p)
  then have m: "unat (2 ^ k - 1 :: u64) = 2 ^ k - 1"
    using assms(1) by (simp only: unat_sub unat_2p) simp
  have lt: "unat x + (2 ^ k - 1) < 2 ^ 64"
    using assms(2) by (simp add: less_le_trans)
  have "unat (x + (2 ^ k - 1)) = unat x + (2 ^ k - 1)"
    using lt m by (simp add: unat_add_small)
  moreover have "ROUND_UP x (2 ^ k) = (x + (2 ^ k - 1)) AND NOT (mask k)"
    by (simp add: ROUND_UP_def mask_eq_exp_minus_1 add_diff_eq)
  ultimately show ?thesis by (simp add: unat_and_not_mask)
qed

end
