(* ===== verification/KList.thy ===== *)
theory KList
  imports KPrelude
begin

text \<open>
  The intrusive circular doubly linked list of src/include/common/list.h. A list node is known
  by its address (any type \<open>'a\<close>); the nodes that exist live in a heap, a partial map from
  addresses to their \<open>prev\<close>/\<open>next\<close> words. Every operation is the source's sequence of
  reads and writes; touching an address that holds no node gives \<^term>\<open>None\<close>. \<open>dlist h l xs\<close>
  says that the heap holds a well linked circular list with head \<open>l\<close> and elements \<open>xs\<close>.
\<close>

section \<open>The nodes and the operations\<close>

record 'a list_head =
  lh_prev :: 'a
  lh_next :: 'a

type_synonym 'a lheap = "'a \<rightharpoonup> 'a list_head"

definition get_next :: "'a lheap \<Rightarrow> 'a \<Rightarrow> 'a option" where
  "get_next h n = map_option lh_next (h n)"

definition get_prev :: "'a lheap \<Rightarrow> 'a \<Rightarrow> 'a option" where
  "get_prev h n = map_option lh_prev (h n)"

definition set_next :: "'a lheap \<Rightarrow> 'a \<Rightarrow> 'a \<Rightarrow> 'a lheap option" where
  "set_next h n v = (case h n of None \<Rightarrow> None | Some c \<Rightarrow> Some (h(n \<mapsto> c\<lparr>lh_next := v\<rparr>)))"

definition set_prev :: "'a lheap \<Rightarrow> 'a \<Rightarrow> 'a \<Rightarrow> 'a lheap option" where
  "set_prev h n v = (case h n of None \<Rightarrow> None | Some c \<Rightarrow> Some (h(n \<mapsto> c\<lparr>lh_prev := v\<rparr>)))"

definition init_list_head :: "'a \<Rightarrow> 'a lheap \<Rightarrow> 'a lheap option" where
  "init_list_head l h = do {
     h \<leftarrow> set_next h l l;
     set_prev h l l
   }"

definition list_add :: "'a \<Rightarrow> 'a \<Rightarrow> 'a lheap \<Rightarrow> 'a lheap option" where
  "list_add new head h = do {
     n \<leftarrow> get_next h head;
     h \<leftarrow> set_next h new n;
     h \<leftarrow> set_prev h new head;
     n \<leftarrow> get_next h head;
     h \<leftarrow> set_prev h n new;
     set_next h head new
   }"

definition list_append :: "'a \<Rightarrow> 'a \<Rightarrow> 'a lheap \<Rightarrow> 'a lheap option" where
  "list_append new head h = do {
     tail \<leftarrow> get_prev h head;
     list_add new tail h
   }"

definition list_del :: "'a \<Rightarrow> 'a lheap \<Rightarrow> 'a lheap option" where
  "list_del node h = do {
     p \<leftarrow> get_prev h node;
     n \<leftarrow> get_next h node;
     h \<leftarrow> set_next h p n;
     n \<leftarrow> get_next h node;
     p \<leftarrow> get_prev h node;
     set_prev h n p
   }"

definition list_empty :: "'a \<Rightarrow> 'a lheap \<Rightarrow> bool option" where
  "list_empty head h = do {
     n \<leftarrow> get_next h head;
     Some (n = head)
   }"

text \<open>
  \<open>for_each_in_list\<close>: from \<open>cur\<close> follow \<open>next\<close> until the head comes round again.
  The outer option is the loop (\<^term>\<open>None\<close>: it never ends), the inner one the accesses of the
  body (\<^term>\<open>None\<close>: a read outside the heap). The nodes visited are collected in order.
\<close>

partial_function (option) for_each_in_list ::
  "'a lheap \<Rightarrow> 'a \<Rightarrow> 'a \<Rightarrow> 'a list \<Rightarrow> 'a list option option" where
  "for_each_in_list h head cur acc =
     (if cur = head then Some (Some (rev acc))
      else case get_next h cur of
             None \<Rightarrow> Some None
           | Some n \<Rightarrow> for_each_in_list h head n (cur # acc))"

text \<open>The same walk with a body that returns from the loop as soon as \<open>target\<close> is met.\<close>

partial_function (option) for_each_find ::
  "'a lheap \<Rightarrow> 'a \<Rightarrow> 'a \<Rightarrow> 'a \<Rightarrow> bool option option" where
  "for_each_find h head cur target =
     (if cur = head then Some (Some False)
      else if cur = target then Some (Some True)
      else case get_next h cur of
             None \<Rightarrow> Some None
           | Some n \<Rightarrow> for_each_find h head n target)"

declare for_each_in_list.simps [code] for_each_find.simps [code]

section \<open>Well linked lists\<close>

fun linked :: "'a lheap \<Rightarrow> 'a list \<Rightarrow> bool" where
  "linked h (x # y # zs) \<longleftrightarrow>
     get_next h x = Some y \<and> get_prev h y = Some x \<and> linked h (y # zs)"
| "linked h _ \<longleftrightarrow> True"

definition dlist :: "'a lheap \<Rightarrow> 'a \<Rightarrow> 'a list \<Rightarrow> bool" where
  "dlist h l xs \<longleftrightarrow> distinct (l # xs) \<and> linked h (l # xs @ [l])"

lemma get_upd [simp]:
  "get_next (h(a \<mapsto> c)) n = (if n = a then Some (lh_next c) else get_next h n)"
  "get_prev (h(a \<mapsto> c)) n = (if n = a then Some (lh_prev c) else get_prev h n)"
  by (simp_all add: get_next_def get_prev_def)

lemma get_SomeD:
  "get_next h n = Some v \<Longrightarrow> n \<in> dom h"
  "get_prev h n = Some v \<Longrightarrow> n \<in> dom h"
  by (auto simp: get_next_def get_prev_def)

lemma linked_append:
  "linked h (as @ x # bs) \<longleftrightarrow> linked h (as @ [x]) \<and> linked h (x # bs)"
proof (induction as)
  case (Cons a as)
  then show ?case by (cases as) auto
qed simp

lemma linked_frame:
  assumes "\<And>m. m \<in> set (butlast cs) \<Longrightarrow> get_next h' m = get_next h m"
    and "\<And>m. m \<in> set (tl cs) \<Longrightarrow> get_prev h' m = get_prev h m"
  shows "linked h' cs \<longleftrightarrow> linked h cs"
  using assms
proof (induction h cs rule: linked.induct)
  case (1 h x y zs)
  have "linked h' (y # zs) \<longleftrightarrow> linked h (y # zs)"
  proof (rule "1.IH")
    show "get_next h' m = get_next h m" if "m \<in> set (butlast (y # zs))" for m
      using that "1.prems"(1) by auto
    show "get_prev h' m = get_prev h m" if "m \<in> set (tl (y # zs))" for m
      using that "1.prems"(2) by auto
  qed
  then show ?case using "1.prems" by simp
qed auto

lemma dlist_frame:
  assumes "dlist h l xs" and "\<And>m. m \<in> set (l # xs) \<Longrightarrow> h' m = h m"
  shows "dlist h' l xs"
proof -
  have "linked h' (l # xs @ [l]) \<longleftrightarrow> linked h (l # xs @ [l])"
    by (rule linked_frame) (use assms(2) in \<open>auto simp: get_next_def get_prev_def\<close>)
  with assms(1) show ?thesis by (simp add: dlist_def)
qed

lemma linked_subset_dom:
  "linked h cs \<Longrightarrow> length cs > 1 \<Longrightarrow> set cs \<subseteq> dom h"
proof (induction h cs rule: linked.induct)
  case (1 h x y zs)
  then show ?case by (cases zs) (auto dest: get_SomeD)
qed auto

lemma dlist_dom: "dlist h l xs \<Longrightarrow> set (l # xs) \<subseteq> dom h"
  using linked_subset_dom [of h "l # xs @ [l]"] by (auto simp: dlist_def)

lemma dlist_distinct: "dlist h l xs \<Longrightarrow> distinct xs \<and> l \<notin> set xs"
  by (simp add: dlist_def)

lemma dlist_first: "dlist h l xs \<Longrightarrow> get_next h l = Some (case xs of [] \<Rightarrow> l | x # _ \<Rightarrow> x)"
  by (cases xs) (auto simp: dlist_def)

lemma dlist_last: "dlist h l xs \<Longrightarrow> get_prev h l = Some (last (l # xs))"
  by (cases xs rule: rev_cases)
    (auto simp: dlist_def linked_append [where bs = "[l]", of h "l # _", simplified])

section \<open>What the operations do\<close>

lemma init_list_head_correct:
  assumes "l \<in> dom h"
  obtains h' where "init_list_head l h = Some h'" and "dlist h' l []"
    and "dom h' = dom h" and "\<And>m. m \<noteq> l \<Longrightarrow> h' m = h m"
proof -
  obtain c where "h l = Some c" using assms by auto
  then show ?thesis
    by (intro that [of "h(l \<mapsto> c\<lparr>lh_next := l, lh_prev := l\<rparr>)"])
      (auto simp: init_list_head_def set_next_def set_prev_def dlist_def)
qed

text \<open>
  Insertion between neighbours \<open>a\<close> and \<open>b\<close> of the cycle: \<open>list_add\<close> inserts after
  the head, \<open>list_append\<close> after the last element. Removal is the reverse.
\<close>

lemma list_add_effect:
  assumes "get_next h a = Some b" "b \<in> dom h" "new \<in> dom h" "new \<noteq> a" "new \<noteq> b"
  obtains h' where "list_add new a h = Some h'" and "dom h' = dom h"
    and "\<And>m. get_next h' m =
           (if m = a then Some new else if m = new then Some b else get_next h m)"
    and "\<And>m. get_prev h' m =
           (if m = b then Some new else if m = new then Some a else get_prev h m)"
    and "\<And>m. m \<notin> {new, a, b} \<Longrightarrow> h' m = h m"
proof -
  obtain ca cb cn where c: "h a = Some ca" "h b = Some cb" "h new = Some cn" "lh_next ca = b"
    using assms by (auto simp: get_next_def)
  define h' where "h' = (let h2 = h(new \<mapsto> cn\<lparr>lh_next := b, lh_prev := a\<rparr>, b \<mapsto> cb\<lparr>lh_prev := new\<rparr>)
      in h2(a \<mapsto> (the (h2 a))\<lparr>lh_next := new\<rparr>))"
  have "list_add new a h = Some h'"
    using assms(4,5) c
    by (cases "a = b") (simp_all add: list_add_def set_next_def set_prev_def h'_def get_next_def)
  moreover have "dom h' = dom h" using c by (auto simp: h'_def Let_def)
  ultimately show ?thesis
    by (rule that) (use c assms(4,5) in \<open>auto simp: h'_def Let_def get_next_def get_prev_def\<close>)
qed

lemma list_del_effect:
  assumes "get_prev h n = Some a" "get_next h n = Some b" "a \<in> dom h" "b \<in> dom h"
    and "n \<noteq> a" "n \<noteq> b"
  obtains h' where "list_del n h = Some h'" and "dom h' = dom h"
    and "\<And>m. get_next h' m = (if m = a then Some b else get_next h m)"
    and "\<And>m. get_prev h' m = (if m = b then Some a else get_prev h m)"
    and "\<And>m. m \<notin> {a, b} \<Longrightarrow> h' m = h m"
proof -
  obtain ca cb cn where c: "h a = Some ca" "h b = Some cb" "h n = Some cn"
      "lh_prev cn = a" "lh_next cn = b"
    using assms by (auto simp: get_next_def get_prev_def)
  define h' where "h' = (let h1 = h(a \<mapsto> ca\<lparr>lh_next := b\<rparr>) in h1(b \<mapsto> (the (h1 b))\<lparr>lh_prev := a\<rparr>))"
  have "list_del n h = Some h'"
    using assms(5,6) c
    by (cases "a = b") (simp_all add: list_del_def set_next_def set_prev_def h'_def get_next_def
        get_prev_def)
  moreover have "dom h' = dom h" using c by (auto simp: h'_def Let_def)
  ultimately show ?thesis
    by (rule that) (use c assms(5,6) in \<open>auto simp: h'_def Let_def get_next_def get_prev_def\<close>)
qed

lemma dlist_split:
  assumes "dlist h l (xs @ ys)"
  obtains b bs where "ys @ [l] = b # bs" and "linked h (l # xs)"
    and "get_next h (last (l # xs)) = Some b" and "get_prev h b = Some (last (l # xs))"
    and "linked h (b # bs)"
proof -
  obtain b bs where b: "ys @ [l] = b # bs" by (cases ys) auto
  have "l # (xs @ ys) @ [l] = butlast (l # xs) @ last (l # xs) # b # bs"
    using b by (metis append.assoc append_Cons append_Nil append_butlast_last_id list.discI)
  then have "linked h (butlast (l # xs) @ last (l # xs) # b # bs)"
    using assms by (simp add: dlist_def)
  then show ?thesis
    using that [OF b] linked_append [of h "butlast (l # xs)" "last (l # xs)" "b # bs"]
    by (metis append_butlast_last_id linked.simps(1) list.discI)
qed

lemma dlist_join:
  assumes "distinct (l # xs @ ys)" "ys @ [l] = b # bs" "linked h (l # xs)" "linked h (b # bs)"
    and "get_next h (last (l # xs)) = Some b" "get_prev h b = Some (last (l # xs))"
  shows "dlist h l (xs @ ys)"
proof -
  have "l # (xs @ ys) @ [l] = butlast (l # xs) @ last (l # xs) # b # bs"
    using assms(2) by (metis append.assoc append_Cons append_Nil append_butlast_last_id list.discI)
  moreover have "linked h (butlast (l # xs) @ last (l # xs) # b # bs)"
    using assms(3-6) linked_append [of h "butlast (l # xs)" "last (l # xs)" "b # bs"]
    by (metis append_butlast_last_id linked.simps(1) list.discI)
  ultimately show ?thesis using assms(1) by (simp add: dlist_def)
qed

lemma linked_snoc:
  "cs \<noteq> [] \<Longrightarrow> linked h (cs @ [n]) \<longleftrightarrow>
     linked h cs \<and> get_next h (last cs) = Some n \<and> get_prev h n = Some (last cs)"
  using linked_append [of h "butlast cs" "last cs" "[n]"]
  by (simp flip: append_assoc) (metis append_Cons append_Nil append_assoc append_butlast_last_id)

lemma list_add_after:
  assumes dl: "dlist h l (xs @ ys)" and new: "new \<notin> set (l # xs @ ys)" "new \<in> dom h"
  obtains h' where "list_add new (last (l # xs)) h = Some h'" and "dlist h' l (xs @ new # ys)"
    and "dom h' = dom h" and "\<And>m. m \<notin> set (new # l # xs @ ys) \<Longrightarrow> h' m = h m"
proof -
  define a where "a = last (l # xs)"
  obtain b bs where b: "ys @ [l] = b # bs" "linked h (l # xs)" "linked h (b # bs)"
      "get_next h a = Some b" "get_prev h b = Some a"
    using dlist_split [OF dl] unfolding a_def by metis
  have a_in: "a \<in> set (l # xs)" unfolding a_def by (metis last_in_set list.discI)
  have b_in: "b \<in> set (l # ys)" using b(1) by (cases ys) auto
  have dist: "distinct (l # xs @ ys)" using dl by (simp add: dlist_def)
  have neq: "new \<noteq> a" "new \<noteq> b" using new(1) a_in b_in by auto
  obtain h' where h': "list_add new a h = Some h'" "dom h' = dom h"
      "\<And>m. get_next h' m = (if m = a then Some new else if m = new then Some b else get_next h m)"
      "\<And>m. get_prev h' m = (if m = b then Some new else if m = new then Some a else get_prev h m)"
      "\<And>m. m \<notin> {new, a, b} \<Longrightarrow> h' m = h m"
    by (rule list_add_effect [OF b(4) get_SomeD(2) [OF b(5)] new(2) neq]) blast
  have "linked h' (l # xs) \<longleftrightarrow> linked h (l # xs)"
  proof (rule linked_frame)
    fix m assume m: "m \<in> set (butlast (l # xs))"
    then have "m \<noteq> a" using dist unfolding a_def
      by (metis append_butlast_last_id distinct_append distinct_butlast list.discI
          not_distinct_conv_prefix append_Cons)
    moreover have "m \<noteq> new" using in_set_butlastD [OF m] new(1) by auto
    ultimately show "get_next h' m = get_next h m" using h'(3) by simp
  next
    fix m assume "m \<in> set (tl (l # xs))"
    then show "get_prev h' m = get_prev h m" using h'(4) new(1) b_in dist by auto
  qed
  moreover have "linked h' (b # bs) \<longleftrightarrow> linked h (b # bs)"
  proof (rule linked_frame)
    fix m assume "m \<in> set (butlast (b # bs))"
    then have "m \<in> set ys" using b(1) by (metis butlast_snoc)
    then show "get_next h' m = get_next h m" using h'(3) new(1) a_in dist by auto
  next
    fix m assume m: "m \<in> set (tl (b # bs))"
    have "distinct (b # bs)" "set (b # bs) = set (l # ys)" unfolding b(1) [symmetric] using dist by auto
    then show "get_prev h' m = get_prev h m" using h'(4) new(1) m by auto
  qed
  ultimately have "linked h' (l # xs @ [new])" "linked h' (b # bs)"
    using b(2,3) linked_snoc [of "l # xs" h' new] h'(3,4) new(1) b_in a_def by auto
  then have "dlist h' l ((xs @ [new]) @ ys)"
    by (intro dlist_join [OF _ b(1)]) (use dist new(1) h'(3,4) b_in a_in in auto)
  moreover have "h' m = h m" if "m \<notin> set (new # l # xs @ ys)" for m
    by (rule h'(5)) (use that a_in b_in in auto)
  ultimately show ?thesis using that h'(1,2) unfolding a_def by simp
qed

lemma list_add_correct:
  assumes "dlist h l xs" "new \<notin> set (l # xs)" "new \<in> dom h"
  obtains h' where "list_add new l h = Some h'" and "dlist h' l (new # xs)"
    and "dom h' = dom h" and "\<And>m. m \<notin> set (new # l # xs) \<Longrightarrow> h' m = h m"
  using list_add_after [of h l "[]" xs new] assms by auto

lemma list_append_correct:
  assumes "dlist h l xs" "new \<notin> set (l # xs)" "new \<in> dom h"
  obtains h' where "list_append new l h = Some h'" and "dlist h' l (xs @ [new])"
    and "dom h' = dom h" and "\<And>m. m \<notin> set (new # l # xs) \<Longrightarrow> h' m = h m"
  using list_add_after [of h l xs "[]" new] assms dlist_last [OF assms(1)]
  by (auto simp: list_append_def)

lemma list_del_correct:
  assumes dl: "dlist h l (xs @ n # ys)"
  obtains h' where "list_del n h = Some h'" and "dlist h' l (xs @ ys)"
    and "dom h' = dom h" and "\<And>m. m \<notin> set (l # xs @ ys) \<Longrightarrow> h' m = h m"
proof -
  define a where "a = last (l # xs)"
  have dist: "distinct (l # xs @ n # ys)" using dl by (simp add: dlist_def)
  obtain b bs where b: "ys @ [l] = b # bs" "linked h (l # xs @ [n])" "linked h (b # bs)"
      "get_next h n = Some b" "get_prev h b = Some n"
    using dlist_split [of h l "xs @ [n]" ys] dl
    by (metis append_Cons append_Nil append_assoc last_snoc last_ConsR snoc_eq_iff_butlast)
  have l1: "linked h (l # xs)" "get_prev h n = Some a" "get_next h a = Some n"
    using b(2) linked_snoc [of "l # xs" h n] unfolding a_def by auto
  have a_in: "a \<in> set (l # xs)" unfolding a_def by (metis last_in_set list.discI)
  have b_in: "b \<in> set (l # ys)" using b(1) by (cases ys) auto
  have "n \<noteq> a" "n \<noteq> b" using a_in b_in dist by auto
  then obtain h' where h': "list_del n h = Some h'" "dom h' = dom h"
      "\<And>m. get_next h' m = (if m = a then Some b else get_next h m)"
      "\<And>m. get_prev h' m = (if m = b then Some a else get_prev h m)"
      "\<And>m. m \<notin> {a, b} \<Longrightarrow> h' m = h m"
    using list_del_effect [of h n a b] l1 b(4,5) get_SomeD by metis
  have "linked h' (l # xs) \<longleftrightarrow> linked h (l # xs)"
  proof (rule linked_frame)
    fix m assume m: "m \<in> set (butlast (l # xs))"
    then have "m \<noteq> a" using dist unfolding a_def
      by (metis append_butlast_last_id distinct_append distinct_butlast list.discI
          not_distinct_conv_prefix append_Cons)
    then show "get_next h' m = get_next h m" using h'(3) by simp
  next
    fix m assume "m \<in> set (tl (l # xs))"
    then show "get_prev h' m = get_prev h m" using h'(4) b_in dist by auto
  qed
  moreover have "linked h' (b # bs) \<longleftrightarrow> linked h (b # bs)"
  proof (rule linked_frame)
    fix m assume "m \<in> set (butlast (b # bs))"
    then have "m \<in> set ys" using b(1) by (metis butlast_snoc)
    then show "get_next h' m = get_next h m" using h'(3) a_in dist by auto
  next
    fix m assume m: "m \<in> set (tl (b # bs))"
    have "distinct (b # bs)" unfolding b(1) [symmetric] using dist by auto
    then show "get_prev h' m = get_prev h m" using h'(4) m by auto
  qed
  ultimately have "dlist h' l (xs @ ys)"
    by (intro dlist_join [OF _ b(1)]) (use dist b(3) l1(1) h'(3,4) a_def in auto)
  moreover have "h' m = h m" if "m \<notin> set (l # xs @ ys)" for m
    by (rule h'(5)) (use that a_in b_in in auto)
  ultimately show ?thesis using that h'(1,2) by blast
qed

lemma list_empty_correct: "dlist h l xs \<Longrightarrow> list_empty l h = Some (xs = [])"
  using dlist_first [of h l xs] by (cases xs) (auto simp: list_empty_def dlist_def)

lemma for_each_in_list_from:
  assumes "linked h (cs @ [l])" "l \<notin> set cs"
  shows "for_each_in_list h l (hd (cs @ [l])) acc = Some (Some (rev acc @ cs))"
  using assms
proof (induction cs arbitrary: acc)
  case Nil
  then show ?case by (simp add: for_each_in_list.simps)
next
  case (Cons c cs)
  then have "get_next h c = Some (hd (cs @ [l]))" "linked h (cs @ [l])"
    by (cases cs; simp)+
  with Cons show ?case by (auto simp: for_each_in_list.simps [of _ _ c])
qed

lemma for_each_in_list_correct:
  assumes "dlist h l xs"
  shows "\<exists>n. get_next h l = Some n \<and> for_each_in_list h l n [] = Some (Some xs)"
proof -
  have "linked h (xs @ [l])" "l \<notin> set xs" using assms by (cases xs; simp add: dlist_def)+
  moreover have "get_next h l = Some (hd (xs @ [l]))"
    using dlist_first [OF assms] by (cases xs) auto
  ultimately show ?thesis using for_each_in_list_from [of h xs l "[]"] by simp
qed

lemma for_each_find_from:
  assumes "linked h (cs @ [l])" "l \<notin> set cs"
  shows "for_each_find h l (hd (cs @ [l])) t = Some (Some (t \<in> set cs))"
  using assms
proof (induction cs)
  case Nil
  then show ?case by (simp add: for_each_find.simps)
next
  case (Cons c cs)
  then have "get_next h c = Some (hd (cs @ [l]))" "linked h (cs @ [l])"
    by (cases cs; simp)+
  with Cons show ?case by (auto simp: for_each_find.simps [of _ _ c])
qed

lemma for_each_find_correct:
  assumes "dlist h l xs"
  shows "\<exists>n. get_next h l = Some n \<and> for_each_find h l n t = Some (Some (t \<in> set xs))"
proof -
  have "linked h (xs @ [l])" "l \<notin> set xs" using assms by (cases xs; simp add: dlist_def)+
  moreover have "get_next h l = Some (hd (xs @ [l]))"
    using dlist_first [OF assms] by (cases xs) auto
  ultimately show ?thesis using for_each_find_from [of h xs l] by simp
qed

section \<open>The interface: several lists in one heap\<close>

text \<open>
  The allocators keep many lists in one heap (a free list per order, a partial list per
  container). \<open>list_family R L\<close>: every head in \<open>dom L\<close> heads the list \<open>L\<close> gives it,
  and no node is on two lists. The locale states what a client relies on: inserting or
  removing a node changes one list and keeps every other one.
\<close>

definition list_family :: "('a \<Rightarrow> 'a list \<Rightarrow> bool) \<Rightarrow> ('a \<rightharpoonup> 'a list) \<Rightarrow> bool" where
  "list_family R L \<longleftrightarrow>
     (\<forall>l xs. L l = Some xs \<longrightarrow> R l xs) \<and>
     (\<forall>l xs k ys. L l = Some xs \<longrightarrow> L k = Some ys \<longrightarrow> l \<noteq> k \<longrightarrow> set (l # xs) \<inter> set (k # ys) = {})"

definition on_some_list :: "('a \<rightharpoonup> 'a list) \<Rightarrow> 'a \<Rightarrow> bool" where
  "on_some_list L n \<longleftrightarrow> (\<exists>l xs. L l = Some xs \<and> n \<in> set (l # xs))"

locale list_store =
  fixes rep :: "'h \<Rightarrow> 'a \<Rightarrow> 'a list \<Rightarrow> bool"
    and cells :: "'h \<Rightarrow> 'a set"
    and add :: "'a \<Rightarrow> 'a \<Rightarrow> 'h \<Rightarrow> 'h option"
    and append :: "'a \<Rightarrow> 'a \<Rightarrow> 'h \<Rightarrow> 'h option"
    and del :: "'a \<Rightarrow> 'h \<Rightarrow> 'h option"
    and agree :: "'h \<Rightarrow> 'h \<Rightarrow> 'a set \<Rightarrow> bool"
  assumes rep_frame: "rep h l xs \<Longrightarrow> agree h h' (set (l # xs)) \<Longrightarrow> rep h' l xs"
    and agree_subset: "agree h h' S \<Longrightarrow> T \<subseteq> S \<Longrightarrow> agree h h' T"
    and add_law: "rep h l xs \<Longrightarrow> n \<notin> set (l # xs) \<Longrightarrow> n \<in> cells h \<Longrightarrow>
      \<exists>h'. add n l h = Some h' \<and> rep h' l (n # xs) \<and> cells h' = cells h \<and>
           agree h h' (- set (n # l # xs))"
    and append_law: "rep h l xs \<Longrightarrow> n \<notin> set (l # xs) \<Longrightarrow> n \<in> cells h \<Longrightarrow>
      \<exists>h'. append n l h = Some h' \<and> rep h' l (xs @ [n]) \<and> cells h' = cells h \<and>
           agree h h' (- set (n # l # xs))"
    and del_law: "rep h l (xs @ n # ys) \<Longrightarrow>
      \<exists>h'. del n h = Some h' \<and> rep h' l (xs @ ys) \<and> cells h' = cells h \<and>
           agree h h' (- set (l # xs @ ys))"
begin

lemma family_update:
  assumes fam: "list_family (rep h) L" and l: "L l = Some xs"
    and new: "rep h' l xs'" and ag: "agree h h' (- set (l # xs @ ns))"
    and sub: "set xs' \<subseteq> set (xs @ ns)" and ns: "\<forall>n\<in>set ns. \<not> on_some_list L n"
  shows "list_family (rep h') (L(l \<mapsto> xs'))"
  unfolding list_family_def
proof (intro conjI allI impI)
  fix k ys assume k: "(L(l \<mapsto> xs')) k = Some ys"
  show "rep h' k ys"
  proof (cases "k = l")
    case False
    then have "set (k # ys) \<subseteq> - set (l # xs @ ns)"
      using fam l k ns by (fastforce simp: list_family_def on_some_list_def)
    then show ?thesis
      using rep_frame [OF _ agree_subset [OF ag]] fam k False by (auto simp: list_family_def)
  qed (use k new in simp)
next
  fix j zs k ys
  assume j: "(L(l \<mapsto> xs')) j = Some zs" and k: "(L(l \<mapsto> xs')) k = Some ys" and ne: "j \<noteq> k"
  have old: "set (l # xs @ ns) \<inter> set (i # us) = {}" if "L i = Some us" "i \<noteq> l" for i us
    using that fam l ns by (fastforce simp: list_family_def on_some_list_def)
  show "set (j # zs) \<inter> set (k # ys) = {}"
  proof (cases "j = l \<or> k = l")
    case True
    then show ?thesis using j k ne old [of k ys] old [of j zs] sub by (auto split: if_splits)
  next
    case False
    then show ?thesis using fam j k ne unfolding list_family_def by (metis fun_upd_other)
  qed
qed

lemma family_add:
  assumes "list_family (rep h) L" "L l = Some xs" "n \<in> cells h" "\<not> on_some_list L n"
  obtains h' where "add n l h = Some h'" and "list_family (rep h') (L(l \<mapsto> n # xs))"
    and "cells h' = cells h"
proof -
  have "rep h l xs" "n \<notin> set (l # xs)"
    using assms by (auto simp: list_family_def on_some_list_def)
  then obtain h' where h': "add n l h = Some h'" "rep h' l (n # xs)" "cells h' = cells h"
      "agree h h' (- set (n # l # xs))"
    using add_law assms(3) by blast
  have "list_family (rep h') (L(l \<mapsto> n # xs))"
    by (rule family_update [OF assms(1,2) h'(2), of "[n]"])
      (use h'(4) assms(4) in \<open>auto elim: agree_subset\<close>)
  with h' show ?thesis using that by blast
qed

lemma family_append:
  assumes "list_family (rep h) L" "L l = Some xs" "n \<in> cells h" "\<not> on_some_list L n"
  obtains h' where "append n l h = Some h'" and "list_family (rep h') (L(l \<mapsto> xs @ [n]))"
    and "cells h' = cells h"
proof -
  have "rep h l xs" "n \<notin> set (l # xs)"
    using assms by (auto simp: list_family_def on_some_list_def)
  then obtain h' where h': "append n l h = Some h'" "rep h' l (xs @ [n])" "cells h' = cells h"
      "agree h h' (- set (n # l # xs))"
    using append_law assms(3) by blast
  have "list_family (rep h') (L(l \<mapsto> xs @ [n]))"
    by (rule family_update [OF assms(1,2) h'(2), of "[n]"])
      (use h'(4) assms(4) in \<open>auto elim: agree_subset\<close>)
  with h' show ?thesis using that by blast
qed

lemma family_del:
  assumes "list_family (rep h) L" "L l = Some (xs @ n # ys)"
  obtains h' where "del n h = Some h'" and "list_family (rep h') (L(l \<mapsto> xs @ ys))"
    and "cells h' = cells h"
proof -
  have "rep h l (xs @ n # ys)" using assms by (simp add: list_family_def)
  then obtain h' where h': "del n h = Some h'" "rep h' l (xs @ ys)" "cells h' = cells h"
      "agree h h' (- set (l # xs @ ys))"
    using del_law by blast
  have "list_family (rep h') (L(l \<mapsto> xs @ ys))"
    by (rule family_update [OF assms h'(2), of "[]"]) (use h'(4) in \<open>auto elim: agree_subset\<close>)
  with h' show ?thesis using that by blast
qed

end

interpretation klist: list_store dlist dom list_add list_append list_del
  "\<lambda>h h' S. \<forall>m\<in>S. h' m = h m"
proof
  show "dlist h' l xs" if "dlist h l xs" "\<forall>m\<in>set (l # xs). h' m = h m"
    for h h' :: "'a lheap" and l xs
    using that dlist_frame by metis
next
  fix h :: "'a lheap" and l n xs assume a: "dlist h l xs" "n \<notin> set (l # xs)" "n \<in> dom h"
  show "\<exists>h'. list_add n l h = Some h' \<and> dlist h' l (n # xs) \<and> dom h' = dom h \<and>
      (\<forall>m\<in>- set (n # l # xs). h' m = h m)"
    using list_add_correct [OF a] by (metis ComplD)
  show "\<exists>h'. list_append n l h = Some h' \<and> dlist h' l (xs @ [n]) \<and> dom h' = dom h \<and>
      (\<forall>m\<in>- set (n # l # xs). h' m = h m)"
    using list_append_correct [OF a] by (metis ComplD)
next
  fix h :: "'a lheap" and l n xs ys assume a: "dlist h l (xs @ n # ys)"
  show "\<exists>h'. list_del n h = Some h' \<and> dlist h' l (xs @ ys) \<and> dom h' = dom h \<and>
      (\<forall>m\<in>- set (l # xs @ ys). h' m = h m)"
    using list_del_correct [OF a] by (metis ComplD)
qed auto

end
