(* ===== verification/HList.thy ===== *)
theory HList
  imports KList
begin

text \<open>
  The singly headed list of src/include/common/list.h (\<open>hlist\<close>), in which a node points back to the
  field that points to it: the \<open>next\<close> field of the head or of the node before. The fields are the
  cells of the heap, so that the write through \<open>pprev\<close> is a write to whichever cell that is. With
  the circular lists of the kernel it shares one contract, stated as a locale.
\<close>

section \<open>Cells and operations\<close>

datatype ('l, 'n) hcell = Head_next 'l | Node_next 'n

record ('l, 'n) hheap =
  hnext :: "('l, 'n) hcell \<rightharpoonup> 'n option"
  hpprev :: "'n \<rightharpoonup> ('l, 'n) hcell option"

definition set_hnext :: "('l, 'n) hcell \<Rightarrow> 'n option \<Rightarrow> ('l, 'n) hheap \<Rightarrow> ('l, 'n) hheap option" where
  "set_hnext c v h = (if hnext h c = None then None else Some (h\<lparr>hnext := (hnext h)(c \<mapsto> v)\<rparr>))"

definition set_pprev :: "'n \<Rightarrow> ('l, 'n) hcell option \<Rightarrow> ('l, 'n) hheap \<Rightarrow> ('l, 'n) hheap option" where
  "set_pprev n v h = (if hpprev h n = None then None else Some (h\<lparr>hpprev := (hpprev h)(n \<mapsto> v)\<rparr>))"

definition init_hlist_head :: "'l \<Rightarrow> ('l, 'n) hheap \<Rightarrow> ('l, 'n) hheap option" where
  "init_hlist_head l h = set_hnext (Head_next l) None h"

definition init_hlist_node :: "'n \<Rightarrow> ('l, 'n) hheap \<Rightarrow> ('l, 'n) hheap option" where
  "init_hlist_node n h = do {
     h \<leftarrow> set_hnext (Node_next n) None h;
     set_pprev n None h
   }"

definition hlist_add :: "'n \<Rightarrow> 'l \<Rightarrow> ('l, 'n) hheap \<Rightarrow> ('l, 'n) hheap option" where
  "hlist_add new head h = do {
     f \<leftarrow> hnext h (Head_next head);
     h \<leftarrow> set_hnext (Node_next new) f h;
     h \<leftarrow> set_pprev new (Some (Head_next head)) h;
     f \<leftarrow> hnext h (Head_next head);
     h \<leftarrow> (case f of None \<Rightarrow> Some h | Some x \<Rightarrow> set_pprev x (Some (Node_next new)) h);
     set_hnext (Head_next head) (Some new) h
   }"

definition hlist_del :: "'n \<Rightarrow> ('l, 'n) hheap \<Rightarrow> ('l, 'n) hheap option" where
  "hlist_del node h = do {
     f \<leftarrow> hnext h (Node_next node);
     h \<leftarrow> (case f of None \<Rightarrow> Some h | Some x \<Rightarrow> do { p \<leftarrow> hpprev h node; set_pprev x p h });
     p \<leftarrow> hpprev h node;
     f \<leftarrow> hnext h (Node_next node);
     c \<leftarrow> p;
     set_hnext c f h
   }"

definition hlist_empty :: "'l \<Rightarrow> ('l, 'n) hheap \<Rightarrow> bool option" where
  "hlist_empty head h = map_option (\<lambda>f. f = None) (hnext h (Head_next head))"

text \<open>\<open>for_each_in_hlist\<close>, from the cell \<open>c\<close> on: the nodes visited in order. The outer option is the loop, the inner
  one its reads.\<close>

partial_function (option) hlist_walk :: "('l, 'n) hheap \<Rightarrow> ('l, 'n) hcell \<Rightarrow> 'n list \<Rightarrow> 'n list option option" where
  "hlist_walk h c acc =
     (case hnext h c of
        None \<Rightarrow> Some None
      | Some None \<Rightarrow> Some (Some (rev acc))
      | Some (Some n) \<Rightarrow> hlist_walk h (Node_next n) (n # acc))"

definition for_each_in_hlist :: "'l \<Rightarrow> ('l, 'n) hheap \<Rightarrow> 'n list option option" where
  "for_each_in_hlist head h = hlist_walk h (Head_next head) []"

section \<open>Representation\<close>

fun hchain :: "('l, 'n) hheap \<Rightarrow> ('l, 'n) hcell \<Rightarrow> 'n list \<Rightarrow> bool" where
  "hchain h c [] \<longleftrightarrow> hnext h c = Some None"
| "hchain h c (x # xs) \<longleftrightarrow> hnext h c = Some (Some x) \<and> hpprev h x = Some (Some c) \<and> hchain h (Node_next x) xs"

definition hlist :: "('l, 'n) hheap \<Rightarrow> 'l \<Rightarrow> 'n list \<Rightarrow> bool" where
  "hlist h l xs \<longleftrightarrow> distinct xs \<and> hchain h (Head_next l) xs"

definition hnode :: "('l, 'n) hheap \<Rightarrow> 'l \<Rightarrow> 'n \<Rightarrow> bool" where
  "hnode h l n \<longleftrightarrow> hnext h (Node_next n) \<noteq> None \<and> hpprev h n \<noteq> None"

lemma hchain_frame:
  assumes "hchain h c xs" "hnext h' c = hnext h c" "\<forall>x \<in> set xs. hnext h' (Node_next x) = hnext h (Node_next x) \<and> hpprev h' x = hpprev h x"
  shows "hchain h' c xs"
  using assms by (induction xs arbitrary: c) auto

lemma hlist_walk_chain: "hchain h c xs \<Longrightarrow> hlist_walk h c acc = Some (Some (rev acc @ xs))"
  by (induction xs arbitrary: c acc) (subst hlist_walk.simps, simp)+

lemma hlist_add_correct:
  assumes "hlist h l xs" "n \<notin> set xs" "hnode h l n"
  shows "\<exists>h'. hlist_add n l h = Some h' \<and> hlist h' l (n # xs) \<and> (\<forall>m. hnode h' l m \<longleftrightarrow> hnode h l m)"
proof (cases xs)
  case Nil
  then show ?thesis using assms
    by (auto simp: hlist_def hlist_add_def set_hnext_def set_pprev_def hnode_def)
next
  case (Cons x ys)
  have x: "hnext h (Head_next l) = Some (Some x)" "hpprev h x = Some (Some (Head_next l))" "hchain h (Node_next x) ys" "distinct (x # ys)" "n \<noteq> x" "n \<notin> set ys"
    using assms(1,2) Cons by (auto simp: hlist_def)
  let ?h = "h\<lparr>hnext := (hnext h)(Node_next n \<mapsto> Some x, Head_next l \<mapsto> Some n), hpprev := (hpprev h)(n \<mapsto> Some (Head_next l), x \<mapsto> Some (Node_next n))\<rparr>"
  have run: "hlist_add n l h = Some ?h"
    using x assms(3) by (simp add: hlist_add_def set_hnext_def set_pprev_def hnode_def)
  have "hchain ?h (Node_next x) ys" by (rule hchain_frame [OF x(3)]) (use x(4-6) in auto)
  then have "hlist ?h l (n # xs)" using x Cons by (simp add: hlist_def)
  moreover have "hnode ?h l m \<longleftrightarrow> hnode h l m" for m using assms(3) x(2) by (auto simp: hnode_def)
  ultimately show ?thesis using run by blast
qed

text \<open>Taking a node out: the cell before it and the node after it change.\<close>

definition unhooked :: "'n \<Rightarrow> ('l, 'n) hcell \<Rightarrow> 'n option \<Rightarrow> ('l, 'n) hheap \<Rightarrow> ('l, 'n) hheap" where
  "unhooked n p f h = h\<lparr>hnext := (hnext h)(p \<mapsto> f),
     hpprev := (case f of None \<Rightarrow> hpprev h | Some x \<Rightarrow> (hpprev h)(x \<mapsto> Some p))\<rparr>"

lemma hchain_hooks:
  "hchain h c (xs @ n # ys) \<Longrightarrow> \<exists>p f. hpprev h n = Some (Some p) \<and> hnext h (Node_next n) = Some f \<and> hnext h p \<noteq> None \<and>
     f = (case ys of [] \<Rightarrow> None | y # _ \<Rightarrow> Some y) \<and> (\<forall>x. f = Some x \<longrightarrow> hpprev h x \<noteq> None)"
proof (induction xs arbitrary: c)
  case Nil
  then show ?case by (cases ys) auto
next
  case (Cons x xs)
  then have "hchain h (Node_next x) (xs @ n # ys)" by simp
  then show ?case by (rule Cons.IH)
qed

lemma hchain_unhooked:
  assumes "hchain h c (xs @ n # ys)" "distinct (xs @ n # ys)" "c \<notin> Node_next ` set (xs @ n # ys)"
    "hpprev h n = Some (Some p)" "hnext h (Node_next n) = Some f"
  shows "hchain (unhooked n p f h) c (xs @ ys) \<and> (p = c \<or> p \<in> Node_next ` set xs)"
  using assms
proof (induction xs arbitrary: c)
  case Nil
  have p: "p = c" using Nil.prems(1,4) by simp
  show ?case
  proof (cases ys)
    case Nil
    then show ?thesis using Nil.prems(1,5) p \<open>hchain h c ([] @ n # ys)\<close> by (simp add: unhooked_def)
  next
    case (Cons y zs)
    have y: "f = Some y" "hchain h (Node_next y) zs" using Nil.prems(1,5) Cons by auto
    have "hchain (unhooked n p f h) (Node_next y) zs"
      by (rule hchain_frame [OF y(2)]) (use Nil.prems(2,3) p y(1) Cons in \<open>auto simp: unhooked_def\<close>)
    then show ?thesis using y p Cons by (simp add: unhooked_def)
  qed
next
  case (Cons x xs)
  have d: "distinct (xs @ n # ys)" "Node_next x \<notin> Node_next ` set (xs @ n # ys)" using Cons.prems(2) by auto
  have ch: "hchain h (Node_next x) (xs @ n # ys)" "hnext h c = Some (Some x)" "hpprev h x = Some (Some c)" using Cons.prems(1) by auto
  note IH = Cons.IH [OF ch(1) d Cons.prems(4,5)]
  then have "c \<noteq> p" using Cons.prems(3) by auto
  moreover have "f \<noteq> Some x"
  proof -
    obtain f' where "hnext h (Node_next n) = Some f'" "f' = (case ys of [] \<Rightarrow> None | y # _ \<Rightarrow> Some y)"
      using hchain_hooks [OF ch(1)] by blast
    then show ?thesis using Cons.prems(2,5) by (cases ys) auto
  qed
  ultimately show ?case using IH ch by (auto simp: unhooked_def split: option.splits)
qed

lemma hlist_del_correct:
  assumes "hlist h l (xs @ n # ys)"
  shows "\<exists>h'. hlist_del n h = Some h' \<and> hlist h' l (xs @ ys) \<and> (\<forall>m. hnode h' l m \<longleftrightarrow> hnode h l m)"
proof -
  have c: "hchain h (Head_next l) (xs @ n # ys)" "distinct (xs @ n # ys)" using assms by (auto simp: hlist_def)
  obtain p f where h: "hpprev h n = Some (Some p)" "hnext h (Node_next n) = Some f" "hnext h p \<noteq> None"
    "f = (case ys of [] \<Rightarrow> None | y # _ \<Rightarrow> Some y)" "\<forall>x. f = Some x \<longrightarrow> hpprev h x \<noteq> None" using hchain_hooks [OF c(1)] by blast
  have "f \<noteq> Some n" using c(2) h(4) by (cases ys) auto
  then have "hlist_del n h = Some (unhooked n p f h)"
    using h(1-3,5) by (cases f) (auto simp: hlist_del_def set_hnext_def set_pprev_def unhooked_def)
  moreover have "hlist (unhooked n p f h) l (xs @ ys)"
    using hchain_unhooked [OF c _ h(1,2)] c(2) by (auto simp: hlist_def)
  moreover have "hnode (unhooked n p f h) l m \<longleftrightarrow> hnode h l m" for m
    using h(3,5) by (auto simp: hnode_def unhooked_def split: option.splits)
  ultimately show ?thesis by blast
qed

section \<open>The contract of an intrusive list\<close>

datatype 'n list_op = Insert 'n | Remove 'n

fun op_node :: "'n list_op \<Rightarrow> 'n" where
  "op_node (Insert n) = n"
| "op_node (Remove n) = n"

text \<open>What a sequence of operations does to the list of nodes; a node is inserted only when it is out, and removed only
  when it is in.\<close>

fun spec_run :: "'n list_op list \<Rightarrow> 'n list \<Rightarrow> 'n list option" where
  "spec_run [] xs = Some xs"
| "spec_run (Insert n # ops) xs = (if n \<in> set xs then None else spec_run ops (n # xs))"
| "spec_run (Remove n # ops) xs = (if n \<in> set xs then spec_run ops (remove1 n xs) else None)"

fun run_ops :: "('n \<Rightarrow> 'l \<Rightarrow> 'h \<Rightarrow> 'h option) \<Rightarrow> ('n \<Rightarrow> 'h \<Rightarrow> 'h option) \<Rightarrow> 'n list_op list \<Rightarrow> 'l \<Rightarrow> 'h \<Rightarrow> 'h option" where
  "run_ops add del [] l h = Some h"
| "run_ops add del (Insert n # ops) l h = Option.bind (add n l h) (run_ops add del ops l)"
| "run_ops add del (Remove n # ops) l h = Option.bind (del n h) (run_ops add del ops l)"

locale intrusive_list =
  fixes rep :: "'h \<Rightarrow> 'l \<Rightarrow> 'n list \<Rightarrow> bool"
    and node :: "'h \<Rightarrow> 'l \<Rightarrow> 'n \<Rightarrow> bool"
    and add :: "'n \<Rightarrow> 'l \<Rightarrow> 'h \<Rightarrow> 'h option"
    and del :: "'n \<Rightarrow> 'h \<Rightarrow> 'h option"
  assumes rep_distinct: "rep h l xs \<Longrightarrow> distinct xs"
    and add_front: "rep h l xs \<Longrightarrow> n \<notin> set xs \<Longrightarrow> node h l n \<Longrightarrow> \<exists>h'. add n l h = Some h' \<and> rep h' l (n # xs) \<and> (\<forall>m. node h' l m \<longleftrightarrow> node h l m)"
    and del_node: "rep h l (xs @ n # ys) \<Longrightarrow> \<exists>h'. del n h = Some h' \<and> rep h' l (xs @ ys) \<and> (\<forall>m. node h' l m \<longleftrightarrow> node h l m)"
begin

lemma run_refines:
  assumes "rep h l xs" "\<forall>r \<in> set ops. node h l (op_node r)" "spec_run ops xs = Some ys"
  shows "\<exists>h'. run_ops add del ops l h = Some h' \<and> rep h' l ys"
  using assms
proof (induction ops xs arbitrary: h rule: spec_run.induct)
  case (2 n ops xs)
  then have "n \<notin> set xs" "node h l n" "spec_run ops (n # xs) = Some ys" by (auto split: if_splits)
  from add_front [OF 2(2) this(1,2)] obtain h' where
    "add n l h = Some h'" "rep h' l (n # xs)" "\<forall>m. node h' l m \<longleftrightarrow> node h l m" by blast
  then show ?case using 2 \<open>n \<notin> set xs\<close> by auto
next
  case (3 n ops xs)
  then have n: "n \<in> set xs" "spec_run ops (remove1 n xs) = Some ys" by (auto split: if_splits)
  then obtain as bs where s: "xs = as @ n # bs" "n \<notin> set as" by (meson split_list_first)
  then have r: "remove1 n xs = as @ bs" by (simp add: remove1_append)
  obtain h' where "del n h = Some h'" "rep h' l (as @ bs)" "\<forall>m. node h' l m \<longleftrightarrow> node h l m"
    using del_node [of h l as n bs] 3(2) s(1) by blast
  then show ?case using 3 n r by auto
qed simp

end

interpretation hl: intrusive_list hlist hnode hlist_add hlist_del
  by unfold_locales (simp add: hlist_def, rule hlist_add_correct, assumption+, rule hlist_del_correct)

text \<open>The circular list: a node is any other cell of the heap.\<close>

definition other_node :: "'a lheap \<Rightarrow> 'a \<Rightarrow> 'a \<Rightarrow> bool" where
  "other_node h l n \<longleftrightarrow> n \<in> dom h \<and> n \<noteq> l"

interpretation cl: intrusive_list dlist other_node list_add list_del
proof
  fix h :: "'a lheap" and l xs n
  assume "dlist h l xs" "n \<notin> set xs" "other_node h l n"
  then show "\<exists>h'. list_add n l h = Some h' \<and> dlist h' l (n # xs) \<and> (\<forall>m. other_node h' l m \<longleftrightarrow> other_node h l m)"
    using list_add_correct [of h l xs n] unfolding other_node_def by (metis set_ConsD)
next
  fix h :: "'a lheap" and l xs n ys
  assume "dlist h l (xs @ n # ys)"
  then show "\<exists>h'. list_del n h = Some h' \<and> dlist h' l (xs @ ys) \<and> (\<forall>m. other_node h' l m \<longleftrightarrow> other_node h l m)"
    using list_del_correct [of h l xs n ys] unfolding other_node_def by metis
qed (simp add: dlist_def)

lemma list_runs:
  "dlist h l xs \<Longrightarrow> \<forall>r \<in> set ops. other_node h l (op_node r) \<Longrightarrow> spec_run ops xs = Some ys \<Longrightarrow>
   \<exists>h'. run_ops list_add list_del ops l h = Some h' \<and> dlist h' l ys"
  by (rule cl.run_refines)

section \<open>Properties\<close>

text \<open>C26: Every sequence of \<open>hlist_add\<close> and \<open>hlist_del\<close> that inserts only nodes that are out and removes only nodes that are
  in returns, and the traversal then ends and visits exactly the nodes of the abstract list, the last
  inserted first; \<open>hlist_empty\<close> tells whether there are any. A node is removed without knowing its list.\<close>

theorem hlist_refines:
  assumes "hlist h l xs" "\<forall>r \<in> set ops. hnode h l (op_node r)" "spec_run ops xs = Some ys"
  shows "\<exists>h'. run_ops hlist_add hlist_del ops l h = Some h' \<and> for_each_in_hlist l h' = Some (Some ys) \<and>
    hlist_empty l h' = Some (ys = [])"
proof -
  obtain h' where h': "run_ops hlist_add hlist_del ops l h = Some h'" "hlist h' l ys" using hl.run_refines [OF assms] by blast
  then have "for_each_in_hlist l h' = Some (Some ys)" using hlist_walk_chain [of h' "Head_next l" ys "[]"] by (simp add: for_each_in_hlist_def hlist_def)
  moreover have "hlist_empty l h' = Some (ys = [])" using h'(2) by (cases ys) (auto simp: hlist_def hlist_empty_def)
  ultimately show ?thesis using h'(1) by blast
qed

definition fresh_hheap :: "(nat, nat) hheap" where
  "fresh_hheap = \<lparr>hnext = (\<lambda>_. Some None), hpprev = (\<lambda>_. Some None)\<rparr>"

theorem hlist_refines_witness:
  "\<exists>h'. run_ops hlist_add hlist_del [Insert 1, Insert 2, Insert 3, Remove 2] 0 fresh_hheap = Some h' \<and>
     for_each_in_hlist 0 h' = Some (Some [3, 1])"
proof -
  have "hlist fresh_hheap 0 []" by (simp add: fresh_hheap_def hlist_def)
  moreover have "\<forall>r \<in> set [Insert 1, Insert 2, Insert 3, Remove 2]. hnode fresh_hheap 0 (op_node r)"
    by (simp add: fresh_hheap_def hnode_def)
  ultimately show ?thesis
    using hlist_refines [of fresh_hheap 0 "[]" "[Insert 1, Insert 2, Insert 3, Remove 2]" "[3, 1]"] by auto
qed

end
