(* ===== verification/Buddy.thy ===== *)
theory Buddy
  imports KList
begin

text \<open>
  The buddy system of src/mm/buddy.c and src/include/mm/buddy.h. A \<open>struct page *\<close> is the
  index of its page in \<open>page_arrry\<close> (\<^term>\<open>None\<close> is NULL), so pointer arithmetic on pages
  is arithmetic on indices; \<open>void *\<close> addresses are 64-bit words. The \<open>node\<close> members of the
  pages and the heads of the free lists live in one heap of list nodes (theory KList); its
  domain is what exists, so a dereference outside the page array is a \<^const>\<open>FAULT\<close>.
\<close>

section \<open>Data\<close>

definition PAGE_SHIFT :: nat where "PAGE_SHIFT = 12"
definition PAGE_SIZE :: u64 where "PAGE_SIZE = push_bit PAGE_SHIFT 1"
definition BUDDY_MAX_ORDER :: int where "BUDDY_MAX_ORDER = 11"

definition BUDDY_CHUNK_SIZE :: "int \<Rightarrow> u64" where
  "BUDDY_CHUNK_SIZE ord = push_bit (PAGE_SHIFT + nat ord) 1"

definition BUDDY_CHUNK_PAGES_COUNT :: "int \<Rightarrow> nat" where
  "BUDDY_CHUNK_PAGES_COUNT ord = push_bit (nat ord) 1"

type_synonym page_ptr = "nat option"

text \<open>The address of a list node: NULL, the head of the free list of an order, a page's node.\<close>

datatype lnode = LNull | FreeHead nat | PageNode nat

record page =
  page_allocated :: int
  page_order :: int
  page_slab :: vaddr_t

record mem_region =
  start_addr :: vaddr_t
  region_size :: size_t
  page_arrry :: vaddr_t
  page_num :: size_t
  free_lists_lock :: int
  nr_free :: "nat \<Rightarrow> u64"
  nodes :: "lnode lheap"
  pages :: "nat \<Rightarrow> page"

text \<open>\<open>lock\<close> and \<open>unlock\<close> as one core alone runs them: a taken lock is never given back.\<close>

definition lock_region :: "mem_region \<Rightarrow> mem_region result" where
  "lock_region m = (if free_lists_lock m = 0 then Inr (m\<lparr>free_lists_lock := 1\<rparr>) else Inl SPIN)"

definition unlock_region :: "mem_region \<Rightarrow> mem_region" where
  "unlock_region m = m\<lparr>free_lists_lock := 0\<rparr>"

text \<open>Reads and writes of \<open>page->field\<close>, and the index of a free list.\<close>

definition get_page :: "mem_region \<Rightarrow> nat \<Rightarrow> page result" where
  "get_page m i = (if i < unat (page_num m) then Inr (pages m i) else Inl FAULT)"

definition put_page :: "nat \<Rightarrow> (page \<Rightarrow> page) \<Rightarrow> mem_region \<Rightarrow> mem_region result" where
  "put_page i f m =
     (if i < unat (page_num m) then Inr (m\<lparr>pages := (pages m)(i := f (pages m i))\<rparr>) else Inl FAULT)"

definition free_list_index :: "int \<Rightarrow> nat result" where
  "free_list_index ord =
     (if 0 \<le> ord \<and> ord < BUDDY_MAX_ORDER then Inr (nat ord) else Inl FAULT)"

definition on_nodes :: "(lnode lheap \<Rightarrow> lnode lheap option) \<Rightarrow> mem_region \<Rightarrow> mem_region result" where
  "on_nodes f m = bindR (of_option (f (nodes m))) (\<lambda>h. Inr (m\<lparr>nodes := h\<rparr>))"

text \<open>\<open>list_entry(node, struct page, node)\<close>: \<open>node\<close> is the first member of \<open>struct page\<close>.\<close>

definition list_entry_page :: "lnode \<Rightarrow> page_ptr result" where
  "list_entry_page n =
     (case n of LNull \<Rightarrow> Inr None | PageNode i \<Rightarrow> Inr (Some i) | FreeHead _ \<Rightarrow> Inl FAULT)"

section \<open>Pages and addresses\<close>

definition page_to_virt :: "mem_region \<Rightarrow> nat \<Rightarrow> vaddr_t" where
  "page_to_virt m page = start_addr m + of_nat page * PAGE_SIZE"

definition virt_to_page :: "mem_region \<Rightarrow> vaddr_t \<Rightarrow> page_ptr" where
  "virt_to_page m ptr =
     (if ptr < start_addr m \<or> ptr \<ge> start_addr m + region_size m then None
      else let pfn = (ptr - start_addr m) div PAGE_SIZE
           in if pfn \<ge> page_num m then None else Some (unat pfn))"

definition page_in_list :: "mem_region \<Rightarrow> page_ptr \<Rightarrow> lnode \<Rightarrow> bool result" where
  "page_in_list m page l =
     (case page of
        None \<Rightarrow> Inr False
      | Some i \<Rightarrow>
          (if l = LNull then Inr False
           else bindR (of_option (list_empty l (nodes m))) (\<lambda>e.
             if e then Inr False
             else bindR (of_option (get_next (nodes m) l)) (\<lambda>n.
               case for_each_find (nodes m) l n (PageNode i) of
                 None \<Rightarrow> Inl DIVERGE
               | Some r \<Rightarrow> of_option r))))"

definition get_buddy_chunk :: "mem_region \<Rightarrow> page_ptr \<Rightarrow> page_ptr result" where
  "get_buddy_chunk m chunk =
     (case chunk of
        None \<Rightarrow> Inr None
      | Some c \<Rightarrow> bindR (get_page m c) (\<lambda>p.
          if page_order p = BUDDY_MAX_ORDER - 1 then Inr None
          else let chunk_merge = virt_to_page m
                     (ROUND_DOWN (page_to_virt m c) (BUDDY_CHUNK_SIZE (page_order p + 1)))
               in Inr (if chunk_merge = Some c
                       then Some (c + BUDDY_CHUNK_PAGES_COUNT (page_order p))
                       else chunk_merge)))"

section \<open>Splitting and merging\<close>

text \<open>Take the first chunk off a free list (the same statements in \<open>split_chunk\<close> and
  \<open>buddy_get_pages\<close>).\<close>

definition take_first_chunk :: "nat \<Rightarrow> mem_region \<Rightarrow> (page_ptr \<times> mem_region) result" where
  "take_first_chunk ix m =
     bindR (of_option (get_next (nodes m) (FreeHead ix))) (\<lambda>n.
     bindR (list_entry_page n) (\<lambda>chunk.
       case chunk of
         None \<Rightarrow> Inl BUG
       | Some c \<Rightarrow>
           bindR (on_nodes (list_del (PageNode c)) m) (\<lambda>m.
           Inr (chunk, m\<lparr>nr_free := (nr_free m)(ix := nr_free m ix - 1)\<rparr>))))"

text \<open>Lines 77-84 of \<open>split_chunk\<close>, \<open>ord\<close> being the order after \<open>order--\<close>.\<close>

definition split_halves :: "nat \<Rightarrow> int \<Rightarrow> mem_region \<Rightarrow> (page_ptr \<times> mem_region) result" where
  "split_halves chunk ord m =
     bindR (free_list_index ord) (\<lambda>ix.
     let chunk_buddy = chunk + BUDDY_CHUNK_PAGES_COUNT ord in
     bindR (put_page chunk (\<lambda>p. p\<lparr>page_order := ord\<rparr>) m) (\<lambda>m.
     bindR (put_page chunk_buddy (\<lambda>p. p\<lparr>page_order := ord\<rparr>) m) (\<lambda>m.
     bindR (on_nodes (list_add (PageNode chunk_buddy) (FreeHead ix)) m) (\<lambda>m.
     Inr (Some chunk, m\<lparr>nr_free := (nr_free m)(ix := nr_free m ix + 1)\<rparr>)))))"

function split_chunk :: "int \<Rightarrow> mem_region \<Rightarrow> (page_ptr \<times> mem_region) result" where
  "split_chunk ord m =
     (if ord < 1 \<or> ord \<ge> BUDDY_MAX_ORDER then Inr (None, m)
      else bindR (free_list_index ord) (\<lambda>ix.
        bindR (if nr_free m ix = 0 then split_chunk (ord + 1) m else take_first_chunk ix m)
          (\<lambda>(chunk, m). case chunk of
             None \<Rightarrow> Inr (None, m)
           | Some c \<Rightarrow> split_halves c (ord - 1) m)))"
  by pat_completeness auto
termination
  by (relation "measure (\<lambda>(ord, m). nat (BUDDY_MAX_ORDER - ord))") auto

declare split_chunk.simps [simp del]

function merge_chunk :: "page_ptr \<Rightarrow> mem_region \<Rightarrow> (page_ptr \<times> mem_region) result" where
  "merge_chunk chunk_origin m =
     (case chunk_origin of
        None \<Rightarrow> Inl BUG
      | Some c \<Rightarrow>
          bindR (get_page m c) (\<lambda>p.
          bindR (free_list_index (page_order p)) (\<lambda>ix.
            if nr_free m ix = 0 \<or> page_order p = BUDDY_MAX_ORDER - 1 then Inr (chunk_origin, m)
            else
              let chunk_merge = virt_to_page m
                    (ROUND_DOWN (page_to_virt m c) (BUDDY_CHUNK_SIZE (page_order p + 1)));
                  chunk_buddy = (if chunk_merge = Some c
                    then Some (c + BUDDY_CHUNK_PAGES_COUNT (page_order p)) else chunk_merge)
              in case chunk_buddy of
                   None \<Rightarrow> Inr (chunk_origin, m)
                 | Some b \<Rightarrow>
                     bindR (get_page m b) (\<lambda>pb.
                       if page_allocated pb = 1 \<or> page_order pb \<noteq> page_order p
                       then Inr (chunk_origin, m)
                       else
                         bindR (page_in_list m chunk_buddy (FreeHead ix)) (\<lambda>in_list.
                         bindR (BUG_ON (\<not> in_list)) (\<lambda>_.
                         bindR (on_nodes (list_del (PageNode b)) m) (\<lambda>m.
                         case chunk_merge of
                           None \<Rightarrow> Inl FAULT
                         | Some cm \<Rightarrow>
                             bindR (put_page cm (\<lambda>q. q\<lparr>page_order := page_order p + 1\<rparr>)
                               (m\<lparr>nr_free := (nr_free m)(ix := nr_free m ix - 1)\<rparr>)) (\<lambda>m.
                             merge_chunk (Some cm) m))))))))"
  by pat_completeness auto
termination
  by (relation "measure (\<lambda>(c, m). case c of None \<Rightarrow> 0
        | Some i \<Rightarrow> nat (BUDDY_MAX_ORDER - page_order (pages m i)))")
    (auto simp: put_page_def get_page_def free_list_index_def split: if_splits option.split)

declare merge_chunk.simps [simp del]

section \<open>Allocation and release\<close>

definition buddy_get_pages :: "int \<Rightarrow> mem_region \<Rightarrow> (page_ptr \<times> mem_region) result" where
  "buddy_get_pages ord m =
     bindR (lock_region m) (\<lambda>m.
     bindR (free_list_index ord) (\<lambda>ix.
     bindR (if nr_free m ix = 0 then split_chunk (ord + 1) m else take_first_chunk ix m)
       (\<lambda>(page, m). case page of
          None \<Rightarrow> Inr (None, unlock_region m)
        | Some i \<Rightarrow>
            bindR (get_page m i) (\<lambda>p.
            if page_allocated p = 1 then Inl KERROR
            else
              bindR (BUG_ON (page_allocated p = 1)) (\<lambda>_.
              bindR (BUG_ON (page_order p \<noteq> ord)) (\<lambda>_.
              bindR (put_page i (\<lambda>p. p\<lparr>page_allocated := 1\<rparr>) m) (\<lambda>m.
              Inr (page, unlock_region m))))))))"

definition buddy_free_pages :: "page_ptr \<Rightarrow> mem_region \<Rightarrow> mem_region result" where
  "buddy_free_pages page m =
     bindR (lock_region m) (\<lambda>m.
     case page of
       None \<Rightarrow> Inl FAULT
     | Some i \<Rightarrow>
         bindR (put_page i (\<lambda>p. p\<lparr>page_allocated := 0\<rparr>) m) (\<lambda>m.
         bindR (merge_chunk page m) (\<lambda>(merge_page, m).
         case merge_page of
           None \<Rightarrow> Inl FAULT
         | Some mp \<Rightarrow>
             bindR (get_page m mp) (\<lambda>p.
             bindR (free_list_index (page_order p)) (\<lambda>ix.
             bindR (on_nodes (list_add (PageNode mp) (FreeHead ix)) m) (\<lambda>m.
             Inr (unlock_region (m\<lparr>nr_free := (nr_free m)(ix := nr_free m ix + 1)\<rparr>))))))))"

section \<open>Initialisation\<close>

text \<open>The body of the loops of \<open>populate_page\<close>: one free chunk.\<close>

definition add_free_chunk :: "int \<Rightarrow> nat \<Rightarrow> mem_region \<Rightarrow> mem_region result" where
  "add_free_chunk ord page m =
     bindR (put_page page (\<lambda>p. p\<lparr>page_order := ord, page_allocated := 0, page_slab := NULL\<rparr>) m) (\<lambda>m.
     bindR (free_list_index ord) (\<lambda>ix.
     on_nodes (list_add (PageNode page) (FreeHead ix))
       (m\<lparr>nr_free := (nr_free m)(ix := nr_free m ix + 1)\<rparr>)))"

text \<open>The two inner loops, and the two outer loops (\<open>k\<close> orders left, the next one \<open>k - 1\<close>).\<close>

lemma BUDDY_CHUNK_PAGES_COUNT_pos [simp]: "0 < BUDDY_CHUNK_PAGES_COUNT ord"
  by (simp add: BUDDY_CHUNK_PAGES_COUNT_def)

lemma fill_decreases:
  "page + BUDDY_CHUNK_PAGES_COUNT ord - Suc 0 < limit \<Longrightarrow>
     limit - (page + BUDDY_CHUNK_PAGES_COUNT ord) < limit - page"
  "int page - int (BUDDY_CHUNK_PAGES_COUNT ord) \<ge> int first \<Longrightarrow>
     page - BUDDY_CHUNK_PAGES_COUNT ord < page"
  using BUDDY_CHUNK_PAGES_COUNT_pos [of ord] by linarith+

function fill_forward :: "int \<Rightarrow> nat \<Rightarrow> nat \<Rightarrow> mem_region \<Rightarrow> (nat \<times> mem_region) result" where
  "fill_forward ord page limit m =
     (if page + BUDDY_CHUNK_PAGES_COUNT ord - 1 < limit
      then bindR (add_free_chunk ord page m) (\<lambda>m.
           fill_forward ord (page + BUDDY_CHUNK_PAGES_COUNT ord) limit m)
      else Inr (page, m))"
  by pat_completeness auto
termination
  by (relation "measure (\<lambda>(ord, page, limit, m). limit - page)")
    (use fill_decreases(1) in auto)

function fill_backward :: "int \<Rightarrow> nat \<Rightarrow> nat \<Rightarrow> mem_region \<Rightarrow> (nat \<times> mem_region) result" where
  "fill_backward ord page first m =
     (if int page - int (BUDDY_CHUNK_PAGES_COUNT ord) \<ge> int first
      then let page = page - BUDDY_CHUNK_PAGES_COUNT ord in
           bindR (add_free_chunk ord page m) (\<lambda>m. fill_backward ord page first m)
      else Inr (page, m))"
  by pat_completeness auto
termination
  by (relation "measure (\<lambda>(ord, page, first, m). page)")
    (use fill_decreases(2) in auto)

declare fill_forward.simps [simp del] fill_backward.simps [simp del]

fun fill_orders_forward :: "nat \<Rightarrow> nat \<Rightarrow> nat \<Rightarrow> mem_region \<Rightarrow> (nat \<times> mem_region) result" where
  "fill_orders_forward 0 page limit m = Inr (page, m)"
| "fill_orders_forward (Suc k) page limit m =
     bindR (fill_forward (int k) page limit m) (\<lambda>(page, m). fill_orders_forward k page limit m)"

fun fill_orders_backward :: "nat \<Rightarrow> nat \<Rightarrow> nat \<Rightarrow> mem_region \<Rightarrow> (nat \<times> mem_region) result" where
  "fill_orders_backward 0 page first m = Inr (page, m)"
| "fill_orders_backward (Suc k) page first m =
     bindR (fill_backward (int k) page first m) (\<lambda>(page, m). fill_orders_backward k page first m)"

text \<open>
  A NULL \<open>first_aligned_page\<close> compares below every page, so the test that should catch it does
  not, and the first store of the forward loop goes through NULL.
\<close>

definition populate_page :: "nat \<Rightarrow> nat \<Rightarrow> mem_region \<Rightarrow> mem_region result" where
  "populate_page first_page npages m =
     (let first_aligned_page = virt_to_page m
            (ROUND_UP (page_to_virt m first_page) (BUDDY_CHUNK_SIZE (BUDDY_MAX_ORDER - 1)))
      in case first_aligned_page of
           None \<Rightarrow> Inl FAULT
         | Some fa \<Rightarrow>
             let fa = (if fa \<ge> first_page + npages then first_page else fa) in
             bindR (fill_orders_forward (nat BUDDY_MAX_ORDER) fa (first_page + npages) m) (\<lambda>(_, m).
             bindR (fill_orders_backward (nat (BUDDY_MAX_ORDER - 1)) fa first_page m) (\<lambda>(_, m).
             Inr m)))"

definition PHYS_MEM_END :: paddr_t where "PHYS_MEM_END = 0x3F000000"

text \<open>\<open>sizeof(struct page)\<close>: two pointers, two ints, one pointer.\<close>

definition sizeof_page :: u64 where "sizeof_page = 32"

text \<open>The static \<open>memory_region_g\<close> and the zeroed page array: the heads of the free lists and
  the nodes of \<open>n\<close> pages exist, and all their words are NULL.\<close>

definition zero_nodes :: "nat \<Rightarrow> lnode lheap" where
  "zero_nodes n l =
     (case l of LNull \<Rightarrow> None
      | FreeHead k \<Rightarrow> if k < nat BUDDY_MAX_ORDER then Some \<lparr>lh_prev = LNull, lh_next = LNull\<rparr> else None
      | PageNode i \<Rightarrow> if i < n then Some \<lparr>lh_prev = LNull, lh_next = LNull\<rparr> else None)"

definition zero_page :: page where
  "zero_page = \<lparr>page_allocated = 0, page_order = 0, page_slab = NULL\<rparr>"

fun init_free_lists :: "nat \<Rightarrow> mem_region \<Rightarrow> mem_region result" where
  "init_free_lists 0 m = Inr m"
| "init_free_lists (Suc k) m =
     bindR (init_free_lists k m) (\<lambda>m.
     on_nodes (init_list_head (FreeHead k)) (m\<lparr>nr_free := (nr_free m)(k := 0)\<rparr>))"

text \<open>\<open>img_end\<close>: the address the linker gives the end of the kernel image.\<close>

definition init_buddy :: "paddr_t \<Rightarrow> mem_region result" where
  "init_buddy img_end =
     (let available_phys_mem_start = ROUND_UP img_end PAGE_SIZE;
          available_phys_mem_end = ROUND_DOWN PHYS_MEM_END PAGE_SIZE;
          npages = (available_phys_mem_end - available_phys_mem_start) div (PAGE_SIZE + sizeof_page);
          free_phys_mem_start = ROUND_UP (available_phys_mem_start + npages * sizeof_page) PAGE_SIZE;
          npages = (available_phys_mem_end - free_phys_mem_start) div PAGE_SIZE;
          m = \<lparr>start_addr = phys_to_virt free_phys_mem_start,
               region_size = available_phys_mem_end - free_phys_mem_start,
               page_arrry = phys_to_virt available_phys_mem_start,
               page_num = npages,
               free_lists_lock = 0,
               nr_free = (\<lambda>_. 0),
               nodes = zero_nodes (unat npages),
               pages = (\<lambda>_. zero_page)\<rparr>
      in bindR (init_free_lists (nat BUDDY_MAX_ORDER) m) (\<lambda>m.
         populate_page 0 (unat npages) m))"

section \<open>Statistics\<close>

fun sum_orders :: "nat \<Rightarrow> (nat \<Rightarrow> u64) \<Rightarrow> u64" where
  "sum_orders 0 f = 0"
| "sum_orders (Suc k) f = sum_orders k f + f k"

definition get_free_pages_nums_from_buddy :: "mem_region \<Rightarrow> u64" where
  "get_free_pages_nums_from_buddy m =
     sum_orders (nat BUDDY_MAX_ORDER) (\<lambda>k. nr_free m k * of_nat (BUDDY_CHUNK_PAGES_COUNT (int k)))"

definition get_free_mem_size_from_buddy :: "mem_region \<Rightarrow> u64" where
  "get_free_mem_size_from_buddy m =
     sum_orders (nat BUDDY_MAX_ORDER) (\<lambda>k. nr_free m k * BUDDY_CHUNK_SIZE (int k))"

definition get_total_mem_size_from_buddy :: "mem_region \<Rightarrow> u64" where
  "get_total_mem_size_from_buddy m = region_size m"

text \<open>\<open>size_to_page_order\<close>: the loop runs below the size of the largest chunk, so it ends.\<close>

function size_to_page_order_loop :: "u64 \<Rightarrow> nat \<Rightarrow> int" where
  "size_to_page_order_loop sz k =
     (if k < nat BUDDY_MAX_ORDER \<and> sz > BUDDY_CHUNK_SIZE (int k)
      then size_to_page_order_loop sz (Suc k) else int k)"
  by pat_completeness auto
termination
  by (relation "measure (\<lambda>(sz, k). nat BUDDY_MAX_ORDER - k)") auto

declare size_to_page_order_loop.simps [simp del]

definition size_to_page_order :: "u64 \<Rightarrow> int" where
  "size_to_page_order sz =
     (if sz = 0 \<or> sz > BUDDY_CHUNK_SIZE (BUDDY_MAX_ORDER - 1) then -1
      else size_to_page_order_loop sz 0)"

end
