(* ===== verification/Slab.thy ===== *)
theory Slab
  imports Buddy
begin

text \<open>
  The slab allocator of src/mm/slab.c and src/include/mm/slab.h. A slab is a chunk of 32 pages
  cut into blocks of one size; its header lies in block 0 and the free blocks are chained through
  their first word. Memory is split by type: \<open>headers\<close> and \<open>next_block\<close> give the contents of
  memory read as a \<open>struct slab_header\<close> and as a \<open>struct slab_next_block\<close>, \<open>snodes\<close> the
  \<open>partial_list_node\<close> members and the list heads of the containers, \<open>bytes\<close> the payload of
  the blocks. An access outside the managed region is a \<^const>\<open>FAULT\<close>.
\<close>

section \<open>Data\<close>

definition MIN_SLAB_BLOCK_ORDER :: int where "MIN_SLAB_BLOCK_ORDER = 6"
definition MAX_SLAB_BLOCK_ORDER :: int where "MAX_SLAB_BLOCK_ORDER = 11"
definition SLAB_PAGE_ORDER :: int where "SLAB_PAGE_ORDER = 5"

definition SLAB_SIZE :: u64 where
  "SLAB_SIZE = push_bit (nat SLAB_PAGE_ORDER + PAGE_SHIFT) 1"

definition SLAB_PAGES_COUNT :: nat where
  "SLAB_PAGES_COUNT = BUDDY_CHUNK_PAGES_COUNT SLAB_PAGE_ORDER"

definition SLAB_POOL_SIZE :: nat where
  "SLAB_POOL_SIZE = nat (MAX_SLAB_BLOCK_ORDER - MIN_SLAB_BLOCK_ORDER + 1)"

definition EINVAL :: int where "EINVAL = 22"
definition ENOMEM :: int where "ENOMEM = 12"

definition slab_order_to_size :: "int \<Rightarrow> u64" where
  "slab_order_to_size ord = push_bit (nat ord) 1"

text \<open>The while loop of \<open>size_to_slab_order\<close>; a shift count is less than 64, the width of
  \<open>1UL\<close>. It stops at the largest order, since it is entered with a size no larger than its blocks.\<close>

function size_to_slab_order_loop :: "size_t \<Rightarrow> int \<Rightarrow> int" where
  "size_to_slab_order_loop sz ord =
     (if sz > slab_order_to_size ord \<and> ord < 64 then size_to_slab_order_loop sz (ord + 1) else ord)"
  by pat_completeness auto
termination
  by (relation "measure (\<lambda>(sz, ord). nat (64 - ord))") auto

declare size_to_slab_order_loop.simps [simp del]

definition size_to_slab_order :: "size_t \<Rightarrow> int" where
  "size_to_slab_order sz =
     (if sz \<le> 0 \<or> sz > slab_order_to_size MAX_SLAB_BLOCK_ORDER then -1
      else size_to_slab_order_loop sz MIN_SLAB_BLOCK_ORDER)"

record slab_header =
  slab_order :: int
  next_free_block :: vaddr_t
  free_block_count :: u32
  total_block_count :: u32

record slab_container =
  current :: vaddr_t
  sc_lock :: int

text \<open>A list node: the head of a container's partial list, or the node in the header at an address.\<close>

datatype snode = SLNull | PartialHead nat | SlabNode vaddr_t

record kmem =
  region :: mem_region
  slab_pool_g :: "nat \<Rightarrow> slab_container"
  headers :: "vaddr_t \<Rightarrow> slab_header"
  next_block :: "vaddr_t \<Rightarrow> vaddr_t"
  snodes :: "snode lheap"
  bytes :: "vaddr_t \<Rightarrow> u8"

section \<open>Accesses\<close>

definition slab_container_index :: "int \<Rightarrow> nat result" where
  "slab_container_index ord =
     (let ix = ord - MIN_SLAB_BLOCK_ORDER
      in if 0 \<le> ix \<and> ix < int SLAB_POOL_SIZE then Inr (nat ix) else Inl FAULT)"

definition mapped :: "kmem \<Rightarrow> vaddr_t \<Rightarrow> unit result" where
  "mapped k a = (if virt_to_page (region k) a = None then Inl FAULT else Inr ())"

definition get_header :: "kmem \<Rightarrow> vaddr_t \<Rightarrow> slab_header result" where
  "get_header k s = bindR (mapped k s) (\<lambda>_. Inr (headers k s))"

definition put_header :: "vaddr_t \<Rightarrow> (slab_header \<Rightarrow> slab_header) \<Rightarrow> kmem \<Rightarrow> kmem result" where
  "put_header s f k =
     bindR (mapped k s) (\<lambda>_. Inr (k\<lparr>headers := (headers k)(s := f (headers k s))\<rparr>))"

definition get_next_block :: "kmem \<Rightarrow> vaddr_t \<Rightarrow> vaddr_t result" where
  "get_next_block k b = bindR (mapped k b) (\<lambda>_. Inr (next_block k b))"

definition put_next_block :: "vaddr_t \<Rightarrow> vaddr_t \<Rightarrow> kmem \<Rightarrow> kmem result" where
  "put_next_block b v k = bindR (mapped k b) (\<lambda>_. Inr (k\<lparr>next_block := (next_block k)(b := v)\<rparr>))"

definition set_current :: "nat \<Rightarrow> vaddr_t \<Rightarrow> kmem \<Rightarrow> kmem" where
  "set_current ix s k = k\<lparr>slab_pool_g := (slab_pool_g k)(ix := (slab_pool_g k ix)\<lparr>current := s\<rparr>)\<rparr>"

definition lock_container :: "nat \<Rightarrow> kmem \<Rightarrow> kmem result" where
  "lock_container ix k =
     (if sc_lock (slab_pool_g k ix) = 0
      then Inr (k\<lparr>slab_pool_g := (slab_pool_g k)(ix := (slab_pool_g k ix)\<lparr>sc_lock := 1\<rparr>)\<rparr>)
      else Inl SPIN)"

definition unlock_container :: "nat \<Rightarrow> kmem \<Rightarrow> kmem" where
  "unlock_container ix k =
     k\<lparr>slab_pool_g := (slab_pool_g k)(ix := (slab_pool_g k ix)\<lparr>sc_lock := 0\<rparr>)\<rparr>"

definition on_snodes :: "(snode lheap \<Rightarrow> snode lheap option) \<Rightarrow> kmem \<Rightarrow> kmem result" where
  "on_snodes f k = bindR (of_option (f (snodes k))) (\<lambda>h. Inr (k\<lparr>snodes := h\<rparr>))"

text \<open>\<open>for (i = 0; i < n; i++, page++) page->slab = v;\<close>\<close>

fun set_page_slabs :: "nat \<Rightarrow> nat \<Rightarrow> vaddr_t \<Rightarrow> mem_region \<Rightarrow> mem_region result" where
  "set_page_slabs 0 page v m = Inr m"
| "set_page_slabs (Suc n) page v m =
     bindR (put_page page (\<lambda>p. p\<lparr>page_slab := v\<rparr>) m) (\<lambda>m. set_page_slabs n (page + 1) v m)"

definition update_region :: "(mem_region \<Rightarrow> mem_region result) \<Rightarrow> kmem \<Rightarrow> kmem result" where
  "update_region f k = bindR (f (region k)) (\<lambda>m. Inr (k\<lparr>region := m\<rparr>))"

section \<open>Slabs from and to the buddy system\<close>

definition container_is_free_enough :: "kmem \<Rightarrow> nat \<Rightarrow> bool result" where
  "container_is_free_enough k ix =
     (let s = current (slab_pool_g k ix) in
      if s = NULL then Inr False
      else bindR (get_header k s) (\<lambda>h. Inr (\<not> free_block_count h < total_block_count h div 2)))"

text \<open>The while loop that chains the blocks: the last block and the store.\<close>

partial_function (option) link_blocks :: "u64 \<Rightarrow> vaddr_t \<Rightarrow> vaddr_t \<Rightarrow> kmem \<Rightarrow> (vaddr_t \<times> kmem) result option" where
  "link_blocks sz lim block k =
     (if block < lim
      then let nxt = block + sz in
           (case put_next_block block nxt k of
              Inl e \<Rightarrow> Some (Inl e)
            | Inr k \<Rightarrow> link_blocks sz lim nxt k)
      else Some (Inr (block, k)))"

declare link_blocks.simps [code]

definition alloc_slab_from_buddy :: "int \<Rightarrow> kmem \<Rightarrow> (int \<times> kmem) result" where
  "alloc_slab_from_buddy ord k =
     bindR (slab_container_index ord) (\<lambda>ix.
     bindR (buddy_get_pages SLAB_PAGE_ORDER (region k)) (\<lambda>(page, m).
     let k = k\<lparr>region := m\<rparr> in
     case page of
       None \<Rightarrow> Inr (- ENOMEM, k)
     | Some page \<Rightarrow>
         let s = page_to_virt (region k) page;
             sz = slab_order_to_size ord;
             total = ucast (SLAB_SIZE div sz) in
         bindR (put_header s (\<lambda>h. h\<lparr>slab_order := ord, total_block_count := total,
           free_block_count := total - 1\<rparr>) k) (\<lambda>k.
         let k = set_current ix s k; block = s + sz in
         bindR (put_header (current (slab_pool_g k ix)) (\<lambda>h. h\<lparr>next_free_block := block\<rparr>) k) (\<lambda>k.
         case link_blocks sz (s + SLAB_SIZE - sz) block k of
           None \<Rightarrow> Inl DIVERGE
         | Some r \<Rightarrow>
             bindR r (\<lambda>(block, k).
             bindR (put_next_block block NULL k) (\<lambda>k.
             bindR (update_region (set_page_slabs SLAB_PAGES_COUNT page s) k) (\<lambda>k.
             Inr (0, k))))))))"

definition slab_get_free_block :: "vaddr_t \<Rightarrow> kmem \<Rightarrow> (vaddr_t \<times> kmem) result" where
  "slab_get_free_block s k =
     bindR (get_header k s) (\<lambda>h.
     bindR (BUG_ON (free_block_count h = 0)) (\<lambda>_.
     bindR (BUG_ON (next_free_block h = NULL)) (\<lambda>_.
     let block = next_free_block h in
     bindR (put_header s (\<lambda>h. h\<lparr>free_block_count := free_block_count h - 1\<rparr>) k) (\<lambda>k.
     bindR (get_next_block k block) (\<lambda>n.
     bindR (put_header s (\<lambda>h. h\<lparr>next_free_block := n\<rparr>) k) (\<lambda>k.
     Inr (block, k)))))))"

definition get_from_partial_list :: "nat \<Rightarrow> kmem \<Rightarrow> (vaddr_t \<times> kmem) result" where
  "get_from_partial_list ix k =
     bindR (of_option (list_empty (PartialHead ix) (snodes k))) (\<lambda>e.
     if e then Inr (NULL, k)
     else
       bindR (of_option (get_next (snodes k) (PartialHead ix))) (\<lambda>n.
       case n of
         SlabNode s \<Rightarrow> bindR (on_snodes (list_del (SlabNode s)) k) (\<lambda>k. Inr (s, k))
       | _ \<Rightarrow> Inl FAULT))"

definition set_new_current_slab :: "nat \<Rightarrow> int \<Rightarrow> kmem \<Rightarrow> kmem result" where
  "set_new_current_slab ix ord k =
     bindR (get_from_partial_list ix k) (\<lambda>(s, k).
     let k = set_current ix s k in
     if current (slab_pool_g k ix) = NULL
     then bindR (alloc_slab_from_buddy ord k) (\<lambda>(err, k).
          Inr (if err \<noteq> 0 then set_current ix NULL k else k))
     else Inr k)"

definition slab_alloc_order :: "int \<Rightarrow> kmem \<Rightarrow> (vaddr_t \<times> kmem) result" where
  "slab_alloc_order ord k =
     bindR (BUG_ON (ord < MIN_SLAB_BLOCK_ORDER \<or> ord > MAX_SLAB_BLOCK_ORDER)) (\<lambda>_.
     bindR (slab_container_index ord) (\<lambda>ix.
     bindR (lock_container ix k) (\<lambda>k.
     bindR (if current (slab_pool_g k ix) = NULL then alloc_slab_from_buddy ord k else Inr (0, k))
       (\<lambda>(err, k).
     if err \<noteq> 0 then Inr (NULL, unlock_container ix k)
     else
       bindR (slab_get_free_block (current (slab_pool_g k ix)) k) (\<lambda>(addr, k).
       bindR (get_header k (current (slab_pool_g k ix))) (\<lambda>h.
       bindR (if free_block_count h = 0
              then bindR (BUG_ON (next_free_block h \<noteq> NULL)) (\<lambda>_. set_new_current_slab ix ord k)
              else Inr k) (\<lambda>k.
       Inr (addr, unlock_container ix k))))))))"

definition put_slab_to_buddy :: "vaddr_t \<Rightarrow> kmem \<Rightarrow> (int \<times> kmem) result" where
  "put_slab_to_buddy s k =
     (case virt_to_page (region k) s of
        None \<Rightarrow> Inl KERROR
      | Some page \<Rightarrow>
          bindR (get_header k s) (\<lambda>h.
          if free_block_count h \<noteq> total_block_count h - 1 then Inl KERROR
          else
            bindR (update_region (set_page_slabs SLAB_PAGES_COUNT page NULL) k) (\<lambda>k.
            bindR (update_region (buddy_free_pages (Some page)) k) (\<lambda>k.
            Inr (0, k)))))"

definition slab_put_block :: "vaddr_t \<Rightarrow> vaddr_t \<Rightarrow> kmem \<Rightarrow> kmem result" where
  "slab_put_block s block k =
     bindR (BUG_ON (s = NULL)) (\<lambda>_.
     bindR (BUG_ON (block = NULL)) (\<lambda>_.
     bindR (get_header k s) (\<lambda>h.
     let sz = slab_order_to_size (slab_order h);
         block_index = (block - s) div sz;
         block = s + block_index * sz in
     bindR (put_next_block block (next_free_block h) k) (\<lambda>k.
     put_header s (\<lambda>h. h\<lparr>next_free_block := block, free_block_count := free_block_count h + 1\<rparr>) k))))"

text \<open>\<open>__slab_free\<close>: the header is read again for each test.\<close>

definition slab_free_block :: "vaddr_t \<Rightarrow> vaddr_t \<Rightarrow> kmem \<Rightarrow> (int \<times> kmem) result" where
  "slab_free_block s block k =
     bindR (get_header k s) (\<lambda>h.
     let ord = slab_order h in
     bindR (BUG_ON (ord < MIN_SLAB_BLOCK_ORDER \<or> ord > MAX_SLAB_BLOCK_ORDER)) (\<lambda>_.
     bindR (slab_container_index ord) (\<lambda>ix.
     bindR (lock_container ix k) (\<lambda>k.
     bindR (slab_put_block s block k) (\<lambda>k.
     bindR (get_header k s) (\<lambda>h.
     if free_block_count h = 1
     then bindR (on_snodes (list_append (SlabNode s) (PartialHead ix)) k) (\<lambda>k.
          bindR (BUG_ON (current (slab_pool_g k ix) = s)) (\<lambda>_.
          Inr (0, unlock_container ix k)))
     else if free_block_count h = total_block_count h - 1
     then bindR (put_slab_to_buddy s k) (\<lambda>(err, k).
          if err = 0
          then if current (slab_pool_g k ix) = s
               then bindR (get_from_partial_list ix k) (\<lambda>(c, k).
                    Inr (err, unlock_container ix (set_current ix c k)))
               else bindR (on_snodes (list_del (SlabNode s)) k) (\<lambda>k. Inr (err, unlock_container ix k))
          else Inl KERROR)
     else Inr (0, unlock_container ix k)))))))"

section \<open>The interface\<close>

definition is_aligned :: "vaddr_t \<Rightarrow> int \<Rightarrow> bool" where
  "is_aligned addr ord \<longleftrightarrow> (and) addr (slab_order_to_size ord - 1) = 0"

definition slab_get_header :: "vaddr_t \<Rightarrow> kmem \<Rightarrow> vaddr_t result" where
  "slab_get_header addr k =
     (case virt_to_page (region k) addr of
        None \<Rightarrow> Inl KERROR
      | Some page \<Rightarrow>
          bindR (get_page (region k) page) (\<lambda>p.
          if page_slab p = NULL then Inl KERROR else Inr (page_slab p)))"

fun init_containers :: "nat \<Rightarrow> kmem \<Rightarrow> kmem result" where
  "init_containers 0 k = Inr k"
| "init_containers (Suc n) k =
     bindR (init_containers n k) (\<lambda>k.
     bindR (on_snodes (init_list_head (PartialHead n)) (set_current n NULL k)) (\<lambda>k.
     Inr (unlock_container n k)))"

definition init_slab :: "kmem \<Rightarrow> kmem result" where
  "init_slab k = init_containers SLAB_POOL_SIZE k"

definition slab_alloc :: "size_t \<Rightarrow> kmem \<Rightarrow> (vaddr_t \<times> kmem) result" where
  "slab_alloc sz k =
     (let ord = size_to_slab_order sz
      in if ord = -1 then Inr (NULL, k) else slab_alloc_order ord k)"

definition slab_free :: "vaddr_t \<Rightarrow> kmem \<Rightarrow> (int \<times> kmem) result" where
  "slab_free addr k =
     (if addr = NULL then Inr (- EINVAL, k)
      else if \<not> is_aligned addr MIN_SLAB_BLOCK_ORDER then Inl KERROR
      else
        bindR (slab_get_header addr k) (\<lambda>s.
        bindR (slab_free_block s addr k) (\<lambda>(err, k).
        if err \<noteq> 0 then Inl KERROR else Inr (err, k))))"

text \<open>\<open>calculate_slab_free_block_count\<close> for one container: the loop over its partial list sums
  in an \<open>unsigned long\<close>, which is stored in an \<open>int\<close>.\<close>

fun sum_free_blocks :: "kmem \<Rightarrow> snode list \<Rightarrow> u64 \<Rightarrow> u64 result" where
  "sum_free_blocks k [] acc = Inr acc"
| "sum_free_blocks k (n # ns) acc =
     (case n of
        SlabNode s \<Rightarrow> bindR (get_header k s) (\<lambda>h. sum_free_blocks k ns (acc + ucast (free_block_count h)))
      | _ \<Rightarrow> Inl FAULT)"

definition calculate_slab_free_block_count :: "kmem \<Rightarrow> nat \<Rightarrow> u32 result" where
  "calculate_slab_free_block_count k ix =
     (let c = current (slab_pool_g k ix) in
      bindR (if c = NULL then Inr 0 else bindR (get_header k c) (\<lambda>h. Inr (ucast (free_block_count h))))
        (\<lambda>n.
      bindR (of_option (get_next (snodes k) (PartialHead ix))) (\<lambda>first.
      case for_each_in_list (snodes k) (PartialHead ix) first [] of
        None \<Rightarrow> Inl DIVERGE
      | Some ns \<Rightarrow> bindR (of_option ns) (\<lambda>ns. bindR (sum_free_blocks k ns n) (\<lambda>t. Inr (ucast t))))))"

end
