(* ===== verification/Chunks.thy ===== *)
theory Chunks
  imports KPrelude
begin

text \<open>
  The abstract state of the buddy system: a partition of a range of page frames into aligned
  power-of-two chunks, given by the map from each chunk's first page to its order. \<open>V\<close> is the
  frame number of page 0, since the code aligns virtual addresses and not page indices. The
  lemmas are the combinatorics of splitting, merging and of where a buddy can lie; they do not
  mention the code.
\<close>

type_synonym chunk_map = "nat \<rightharpoonup> nat"

definition chunks_ok :: "nat \<Rightarrow> nat \<Rightarrow> nat \<Rightarrow> chunk_map \<Rightarrow> bool" where
  "chunks_ok V lo hi ch \<longleftrightarrow>
     (\<forall>i k. ch i = Some k \<longrightarrow> lo \<le> i \<and> i + 2 ^ k \<le> hi \<and> k \<le> 10 \<and> 2 ^ k dvd V + i) \<and>
     (\<forall>i k j q. ch i = Some k \<longrightarrow> ch j = Some q \<longrightarrow> i < j \<longrightarrow> i + 2 ^ k \<le> j) \<and>
     (\<forall>x. lo \<le> x \<longrightarrow> x < hi \<longrightarrow> (\<exists>i k. ch i = Some k \<and> i \<le> x \<and> x < i + 2 ^ k))"

definition chunk_pages :: "nat \<Rightarrow> nat \<Rightarrow> nat set" where
  "chunk_pages i k = {i..<i + 2 ^ k}"

lemma chunks_okD:
  assumes "chunks_ok V lo hi ch" "ch i = Some k"
  shows "lo \<le> i" "i + 2 ^ k \<le> hi" "k \<le> 10" "2 ^ k dvd V + i" "i < hi"
proof -
  show *: "lo \<le> i" "i + 2 ^ k \<le> hi" "k \<le> 10" "2 ^ k dvd V + i"
    using assms by (auto simp: chunks_ok_def)
  show "i < hi" using *(2) less_le_trans [of i "i + 2 ^ k" hi] by simp
qed

lemma chunks_ok_order:
  "chunks_ok V lo hi ch \<Longrightarrow> ch i = Some k \<Longrightarrow> ch j = Some q \<Longrightarrow> i < j \<Longrightarrow> i + 2 ^ k \<le> j"
  by (auto simp: chunks_ok_def)

lemma chunks_ok_cover:
  assumes "chunks_ok V lo hi ch" "lo \<le> x" "x < hi"
  obtains i k where "ch i = Some k" "i \<le> x" "x < i + 2 ^ k"
  using assms by (auto simp: chunks_ok_def)

lemma chunks_ok_disjoint:
  assumes "chunks_ok V lo hi ch" "ch i = Some k" "ch j = Some q" "i \<noteq> j"
  shows "chunk_pages i k \<inter> chunk_pages j q = {}"
  using assms chunks_ok_order [of V lo hi ch i k j q] chunks_ok_order [of V lo hi ch j q i k]
  by (cases "i < j") (auto simp: chunk_pages_def)

lemma chunks_ok_interior:
  assumes "chunks_ok V lo hi ch" "ch i = Some k" "i < x" "x < i + 2 ^ k"
  shows "ch x = None"
  using assms chunks_ok_order [of V lo hi ch i k x] by (cases "ch x") auto

text \<open>Two aligned blocks either nest or are disjoint.\<close>

lemma aligned_nest:
  fixes a b :: nat
  assumes "2 ^ k dvd a" "2 ^ q dvd b" "k \<le> q" "b \<le> a + r" "r < 2 ^ k" "a + r < b + 2 ^ q"
  shows "b \<le> a" "a + 2 ^ k \<le> b + 2 ^ q"
proof -
  have "(2 :: nat) ^ k dvd 2 ^ q" using assms(3) by (rule le_imp_power_dvd)
  then have kb: "2 ^ k dvd b" "2 ^ k dvd b + 2 ^ q" using assms(2) by (auto intro: dvd_trans)
  show "b \<le> a"
  proof (rule ccontr)
    assume "\<not> b \<le> a"
    then have "2 ^ k dvd b - a" "0 < b - a" using kb(1) assms(1) by (auto intro: dvd_diff_nat)
    then have "2 ^ k \<le> b - a" by (rule dvd_imp_le)
    then show False using assms(4,5) \<open>\<not> b \<le> a\<close> by linarith
  qed
  have "2 ^ k dvd (b + 2 ^ q) - a" "0 < b + 2 ^ q - a"
    using kb(2) assms(1,6) by (auto intro: dvd_diff_nat)
  then have "2 ^ k \<le> b + 2 ^ q - a" by (rule dvd_imp_le)
  then show "a + 2 ^ k \<le> b + 2 ^ q" using assms(6) by linarith
qed

text \<open>
  The buddy of a chunk: the other half of the enclosing block of the next order. If the buddy's
  first page lies in the range, it starts a chunk whose order is at most the chunk's own.
\<close>

definition parent_of :: "nat \<Rightarrow> nat \<Rightarrow> nat \<Rightarrow> nat" where
  "parent_of V c k = (V + c) div 2 ^ Suc k * 2 ^ Suc k"

definition buddy_of :: "nat \<Rightarrow> nat \<Rightarrow> nat \<Rightarrow> nat" where
  "buddy_of V c k = (if parent_of V c k = V + c then c + 2 ^ k else c - 2 ^ k)"

lemma parent_of_cases:
  assumes "2 ^ k dvd V + c"
  shows "parent_of V c k = V + c \<or> parent_of V c k + 2 ^ k = V + c"
proof -
  obtain d where d: "V + c = 2 ^ k * d" using assms by (auto elim: dvdE)
  have "(2 ^ k * d) div (2 ^ k * 2) = d div 2" by (simp add: div_mult2_eq)
  then have p: "parent_of V c k = d div 2 * (2 * 2 ^ k)"
    using d by (simp add: parent_of_def mult.commute)
  show ?thesis
  proof (cases "even d")
    case True
    then show ?thesis using p d by (auto elim!: evenE)
  next
    case False
    then show ?thesis using p d by (auto elim!: oddE simp: algebra_simps)
  qed
qed

lemma parent_of_dvd: "2 ^ Suc k dvd parent_of V c k"
  by (simp add: parent_of_def)

lemma buddy_is_chunk:
  assumes ok: "chunks_ok V lo hi ch" and c: "ch c = Some k"
    and al: "2 ^ Suc k dvd a" and ca: "V + c = a \<or> V + c = a + 2 ^ k"
    and b: "V + b = a \<or> V + b = a + 2 ^ k" "b \<noteq> c" "lo \<le> b" "b < hi"
  obtains q where "ch b = Some q" "q \<le> k"
proof -
  obtain i q where i: "ch i = Some q" "i \<le> b" "b < i + 2 ^ q"
    using chunks_ok_cover [OF ok b(3,4)] by blast
  have kd: "(2 :: nat) ^ k dvd 2 ^ Suc k" by (rule le_imp_power_dvd) simp
  then have bd: "2 ^ k dvd V + b" using al b(1) by (auto intro: dvd_trans)
  have iq: "2 ^ q dvd V + i" using chunks_okD(4) [OF ok i(1)] .
  have "q \<le> k"
  proof (rule ccontr)
    assume "\<not> q \<le> k"
    then have "Suc k \<le> q" by simp
    obtain r where r: "V + b = a + r" "r < 2 ^ Suc k" using b(1) by force
    have "V + i \<le> a" "a + 2 ^ Suc k \<le> V + i + 2 ^ q"
      using aligned_nest [OF al iq \<open>Suc k \<le> q\<close>, of r] r i by auto
    moreover have "(1 :: nat) \<le> 2 ^ k" "2 ^ Suc k = 2 * (2 :: nat) ^ k" by simp_all
    ultimately have "i \<le> c" "c < i + 2 ^ q" using ca by linarith+
    then have "c \<in> chunk_pages i q" "c \<in> chunk_pages c k" by (auto simp: chunk_pages_def)
    then have "i = c" using chunks_ok_disjoint [OF ok i(1) c] by blast
    then show False using i(1) c \<open>\<not> q \<le> k\<close> by simp
  qed
  moreover have "b = i"
  proof -
    have "V + b \<le> V + i"
      using aligned_nest(1) [OF iq bd \<open>q \<le> k\<close>, of "b - i"] i by simp
    then show ?thesis using i(2) by simp
  qed
  ultimately show ?thesis using that i(1) by simp
qed

section \<open>Splitting and merging\<close>

lemma chunks_ok_replace:
  assumes ok: "chunks_ok V lo hi ch"
    and out: "\<And>i k. ch' i = Some k \<Longrightarrow> ch i = Some k \<or> i \<in> S"
    and new: "\<And>i k. ch' i = Some k \<Longrightarrow> i \<in> S \<Longrightarrow>
                lo \<le> i \<and> i + 2 ^ k \<le> hi \<and> k \<le> 10 \<and> 2 ^ k dvd V + i"
    and sep: "\<And>i k j q. ch' i = Some k \<Longrightarrow> ch' j = Some q \<Longrightarrow> i \<in> S \<or> j \<in> S \<Longrightarrow> i < j \<Longrightarrow> i + 2 ^ k \<le> j"
    and cov: "\<And>i k x. ch i = Some k \<Longrightarrow> i \<le> x \<Longrightarrow> x < i + 2 ^ k \<Longrightarrow>
                \<exists>j q. ch' j = Some q \<and> j \<le> x \<and> x < j + 2 ^ q"
  shows "chunks_ok V lo hi ch'"
  unfolding chunks_ok_def
proof (intro conjI allI impI)
  fix i k assume i: "ch' i = Some k"
  have "lo \<le> i \<and> i + 2 ^ k \<le> hi \<and> k \<le> 10 \<and> 2 ^ k dvd V + i"
    using out [OF i] new [OF i] chunks_okD [OF ok, of i k] by blast
  then show "lo \<le> i" "i + 2 ^ k \<le> hi" "k \<le> 10" "2 ^ k dvd V + i" by auto
next
  fix i k j q assume a: "ch' i = Some k" "ch' j = Some q" "i < j"
  show "i + 2 ^ k \<le> j"
    using out [OF a(1)] out [OF a(2)] sep [OF a(1,2) _ a(3)] chunks_ok_order [OF ok _ _ a(3)] by blast
next
  fix x assume "lo \<le> x" "x < hi"
  then show "\<exists>j q. ch' j = Some q \<and> j \<le> x \<and> x < j + 2 ^ q"
    using chunks_ok_cover [OF ok] cov by metis
qed

lemma pow2_pos_nat: "(0 :: nat) < 2 ^ k"
  by simp

lemma chunks_ok_split:
  assumes ok: "chunks_ok V lo hi ch" and c: "ch c = Some (Suc k)"
  shows "chunks_ok V lo hi (ch(c \<mapsto> k, c + 2 ^ k \<mapsto> k))"
proof (rule chunks_ok_replace [OF ok, where S = "{c, c + 2 ^ k}"])
  have d: "2 ^ k dvd V + c" "2 ^ k dvd V + (c + 2 ^ k)"
    using chunks_okD(4) [OF ok c] by (auto dest: dvd_mult_right simp flip: add.assoc)
  show "lo \<le> i \<and> i + 2 ^ q \<le> hi \<and> q \<le> 10 \<and> 2 ^ q dvd V + i"
    if "(ch(c \<mapsto> k, c + 2 ^ k \<mapsto> k)) i = Some q" "i \<in> {c, c + 2 ^ k}" for i q
    using that chunks_okD [OF ok c] d by (auto split: if_splits)
next
  fix i q j r
  assume a: "(ch(c \<mapsto> k, c + 2 ^ k \<mapsto> k)) i = Some q" "(ch(c \<mapsto> k, c + 2 ^ k \<mapsto> k)) j = Some r"
    "i \<in> {c, c + 2 ^ k} \<or> j \<in> {c, c + 2 ^ k}" "i < j"
  have old: "n + 2 ^ l \<le> c \<or> c + 2 * 2 ^ k \<le> n" if "ch n = Some l" "n \<noteq> c" for n l
    using chunks_ok_order [OF ok that(1) c] chunks_ok_order [OF ok c that(1)] that(2)
    by (cases "n < c") auto
  show "i + 2 ^ q \<le> j"
    using a old [of i q] old [of j r] pow2_pos_nat [of k] by (auto split: if_splits)
next
  fix i q x assume a: "ch i = Some q" "i \<le> x" "x < i + 2 ^ q"
  show "\<exists>j r. (ch(c \<mapsto> k, c + 2 ^ k \<mapsto> k)) j = Some r \<and> j \<le> x \<and> x < j + 2 ^ r"
  proof (cases "i = c")
    case True
    then show ?thesis using a c by (cases "x < c + 2 ^ k") (auto intro: exI [of _ c] exI [of _ "c + 2 ^ k"])
  next
    case False
    have "ch (c + 2 ^ k) = None" by (rule chunks_ok_interior [OF ok c]) auto
    then show ?thesis using a False by (intro exI [of _ i] exI [of _ q]) auto
  qed
qed (auto split: if_splits)

lemma chunks_ok_merge:
  assumes ok: "chunks_ok V lo hi ch" and c: "ch a = Some k" "ch (a + 2 ^ k) = Some k"
    and al: "2 ^ Suc k dvd V + a" and k: "k < 10"
  shows "chunks_ok V lo hi (ch(a \<mapsto> Suc k, a + 2 ^ k := None))"
proof (rule chunks_ok_replace [OF ok, where S = "{a}"])
  show "lo \<le> i \<and> i + 2 ^ q \<le> hi \<and> q \<le> 10 \<and> 2 ^ q dvd V + i"
    if "(ch(a \<mapsto> Suc k, a + 2 ^ k := None)) i = Some q" "i \<in> {a}" for i q
    using that chunks_okD [OF ok c(1)] chunks_okD [OF ok c(2)] al k by (auto split: if_splits)
next
  fix i q j r
  assume a: "(ch(a \<mapsto> Suc k, a + 2 ^ k := None)) i = Some q"
    "(ch(a \<mapsto> Suc k, a + 2 ^ k := None)) j = Some r" "i \<in> {a} \<or> j \<in> {a}" "i < j"
  show "i + 2 ^ q \<le> j"
  proof (cases "i = a")
    case True
    then have "ch j = Some r" "j \<noteq> a + 2 ^ k" "q = Suc k" using a by (auto split: if_splits)
    moreover have "a + 2 ^ k \<le> j"
      using chunks_ok_order [OF ok c(1) \<open>ch j = Some r\<close>] a(4) True by simp
    ultimately show ?thesis using chunks_ok_order [OF ok c(2), of j r] True by simp
  next
    case False
    then show ?thesis using a c chunks_ok_order [OF ok _ c(1), of i q] by (auto split: if_splits)
  qed
next
  fix i q x assume a: "ch i = Some q" "i \<le> x" "x < i + 2 ^ q"
  show "\<exists>j r. (ch(a \<mapsto> Suc k, a + 2 ^ k := None)) j = Some r \<and> j \<le> x \<and> x < j + 2 ^ r"
  proof (cases "i = a \<or> i = a + 2 ^ k")
    case True
    then show ?thesis using a c by (intro exI [of _ a] exI [of _ "Suc k"]) auto
  next
    case False
    then show ?thesis using a by (intro exI [of _ i] exI [of _ q]) auto
  qed
qed (auto split: if_splits)

text \<open>The chunks' pages partition the range, so their sizes add up to its length.\<close>

lemma chunks_ok_sum:
  assumes ok: "chunks_ok V lo hi ch" and le: "lo \<le> hi"
  shows "finite (dom ch)" "(\<Sum>i\<in>dom ch. 2 ^ the (ch i)) = hi - lo"
proof -
  have sub: "dom ch \<subseteq> {lo..<hi}" using chunks_okD(1,5) [OF ok] by auto
  then show fin: "finite (dom ch)" by (rule finite_subset) simp
  have "(\<Union>i\<in>dom ch. chunk_pages i (the (ch i))) = {lo..<hi}"
  proof
    show "(\<Union>i\<in>dom ch. chunk_pages i (the (ch i))) \<subseteq> {lo..<hi}"
      using chunks_okD(1,2) [OF ok] by (fastforce simp: chunk_pages_def)
    show "{lo..<hi} \<subseteq> (\<Union>i\<in>dom ch. chunk_pages i (the (ch i)))"
    proof
      fix x assume "x \<in> {lo..<hi}"
      then obtain i k where "ch i = Some k" "i \<le> x" "x < i + 2 ^ k"
        using chunks_ok_cover [OF ok, of x] by auto
      then show "x \<in> (\<Union>i\<in>dom ch. chunk_pages i (the (ch i)))"
        by (intro UN_I [of i]) (auto simp: chunk_pages_def)
    qed
  qed
  moreover have "card (\<Union>i\<in>dom ch. chunk_pages i (the (ch i))) =
      (\<Sum>i\<in>dom ch. card (chunk_pages i (the (ch i))))"
    by (rule card_UN_disjoint) (use fin chunks_ok_disjoint [OF ok] in \<open>auto simp: chunk_pages_def\<close>)
  ultimately show "(\<Sum>i\<in>dom ch. 2 ^ the (ch i)) = hi - lo"
    by (simp add: chunk_pages_def)
qed

section \<open>Buddies\<close>

text \<open>\<open>buddies V k a b\<close>: the two halves of an aligned block of order \<open>k + 1\<close>. A state is
  coalesced when no list of free chunks holds both halves of such a block.\<close>

definition buddies :: "nat \<Rightarrow> nat \<Rightarrow> nat \<Rightarrow> nat \<Rightarrow> bool" where
  "buddies V k a b \<longleftrightarrow>
     (2 ^ Suc k dvd V + a \<and> b = a + 2 ^ k) \<or> (2 ^ Suc k dvd V + b \<and> a = b + 2 ^ k)"

definition coalesced :: "nat \<Rightarrow> (nat \<Rightarrow> nat list) \<Rightarrow> bool" where
  "coalesced V L \<longleftrightarrow> (\<forall>k < 10. \<forall>a \<in> set (L k). \<forall>b \<in> set (L k). \<not> buddies V k a b)"

lemma buddies_sym: "buddies V k a b \<longleftrightarrow> buddies V k b a"
  by (auto simp: buddies_def)

lemma not_dvd_half: "2 ^ Suc k dvd x \<Longrightarrow> \<not> 2 ^ Suc k dvd x + (2 :: nat) ^ k"
  by (auto dest: dvd_diff_nat [of _ "x + 2 ^ k" x] dvd_imp_le)

lemma buddies_unique: "buddies V k a b \<Longrightarrow> buddies V k a c \<Longrightarrow> b = c"
  unfolding buddies_def using not_dvd_half [of k] by (metis add.assoc add_right_cancel)

lemma buddies_irrefl: "\<not> buddies V k a a"
  by (simp add: buddies_def)

lemma coalesced_subset:
  "coalesced V L \<Longrightarrow> (\<And>k. set (L' k) \<subseteq> set (L k)) \<Longrightarrow> coalesced V L'"
  unfolding coalesced_def by blast

lemma coalesced_add:
  assumes "coalesced V L" and "k < 10 \<Longrightarrow> \<forall>b \<in> set (L k). \<not> buddies V k a b"
  shows "coalesced V (L(k := a # L k))"
  using assms buddies_irrefl by (auto simp: coalesced_def buddies_sym [of _ _ _ a])

lemma buddies_parent:
  assumes "2 ^ k dvd V + c" "buddies V k c b"
  shows "parent_of V c k = V + min c b"
proof -
  have dvd: "2 ^ Suc k dvd V + min c b" "max c b = min c b + 2 ^ k"
    using assms(2) by (auto simp: buddies_def)
  have "parent_of V (min c b) k = V + min c b"
    using dvd(1) by (simp add: parent_of_def dvd_div_mult_self del: power_Suc)
  moreover have "parent_of V (min c b + 2 ^ k) k = V + min c b"
  proof -
    obtain d where d: "V + min c b = 2 ^ Suc k * d" using dvd(1) by (auto elim: dvdE simp del: power_Suc)
    have "(2 ^ Suc k * d + 2 ^ k) div 2 ^ Suc k = d" by (simp add: div_add1_eq [of "_ * _"] del: div_add1_eq)
    then show ?thesis using d by (simp add: parent_of_def add.assoc [symmetric] del: power_Suc)
  qed
  ultimately show ?thesis using dvd(2) by (metis max_def min_def)
qed

section \<open>Growing a partition at its ends\<close>

lemma chunks_ok_empty: "chunks_ok V lo lo Map.empty"
  by (simp add: chunks_ok_def)

lemma chunks_ok_extend:
  assumes ok: "chunks_ok V lo hi ch" "lo \<le> hi" and k: "k \<le> 10" "2 ^ k dvd V + i"
    and i: "i = hi \<and> lo' = lo \<and> hi' = hi + 2 ^ k \<or> i + 2 ^ k = lo \<and> lo' = i \<and> hi' = hi"
  shows "chunks_ok V lo' hi' (ch(i \<mapsto> k))"
  unfolding chunks_ok_def
proof (intro conjI allI impI)
  fix j q assume j: "(ch(i \<mapsto> k)) j = Some q"
  have "lo' \<le> j \<and> j + 2 ^ q \<le> hi' \<and> q \<le> 10 \<and> 2 ^ q dvd V + j"
  proof (cases "j = i")
    case False
    then show ?thesis using chunks_okD [OF ok(1), of j q] j i ok(2) by auto
  qed (use j k i ok(2) in auto)
  then show "lo' \<le> j" "j + 2 ^ q \<le> hi'" "q \<le> 10" "2 ^ q dvd V + j" by auto
next
  fix j q l r assume a: "(ch(i \<mapsto> k)) j = Some q" "(ch(i \<mapsto> k)) l = Some r" "j < l"
  have old: "lo \<le> n \<and> n + 2 ^ p \<le> hi" if "ch n = Some p" for n p
    using chunks_okD [OF ok(1) that] by auto
  show "j + 2 ^ q \<le> l"
    using a old [of j q] old [of l r] chunks_ok_order [OF ok(1), of j q l r] i
    by (auto split: if_splits)
next
  fix x assume x: "lo' \<le> x" "x < hi'"
  show "\<exists>j q. (ch(i \<mapsto> k)) j = Some q \<and> j \<le> x \<and> x < j + 2 ^ q"
  proof (cases "lo \<le> x \<and> x < hi")
    case True
    then obtain j q where "ch j = Some q" "j \<le> x" "x < j + 2 ^ q"
      using chunks_ok_cover [OF ok(1)] by blast
    moreover have "j \<noteq> i" using chunks_okD(1,5) [OF ok(1) calculation(1)] i pow2_pos_nat [of k] by auto
    ultimately show ?thesis by (intro exI [of _ j] exI [of _ q]) auto
  next
    case False
    then show ?thesis using x i by (intro exI [of _ i] exI [of _ k]) auto
  qed
qed

section \<open>Coalescing leaves no aligned block in pieces\<close>

lemma coalesced_block:
  assumes ok: "chunks_ok V lo hi ch"
    and no: "\<And>c b q. \<lbrakk>ch c = Some q; ch b = Some q; q < k; i \<le> c; c < i + 2 ^ k; i \<le> b; b < i + 2 ^ k\<rbrakk>
      \<Longrightarrow> \<not> buddies V q c b"
    and i: "2 ^ k dvd V + i" "lo \<le> i" "i + 2 ^ k \<le> hi"
  shows "\<exists>c q. ch c = Some q \<and> k \<le> q \<and> c \<le> i \<and> i + 2 ^ k \<le> c + 2 ^ q"
  using no i
proof (induction k arbitrary: i)
  case 0
  then have "i < hi" by simp
  from chunks_ok_cover [OF ok 0(3) this] obtain c q where "ch c = Some q" "c \<le> i" "i < c + 2 ^ q" .
  then show ?case by (intro exI [of _ c] exI [of _ q]) simp
next
  case (Suc k)
  let ?j = "i + 2 ^ k"
  have half: "2 ^ k dvd V + i" "2 ^ k dvd V + ?j"
    using Suc.prems(2) by (auto simp flip: add.assoc elim: dvd_mult_right)
  have whole: "c \<le> i" "i + 2 ^ Suc k \<le> c + 2 ^ q"
    if "ch c = Some q" "Suc k \<le> q" "c \<le> x" "x < c + 2 ^ q" "i \<le> x" "x < i + 2 ^ Suc k" for c q x
    using aligned_nest [OF Suc.prems(2) chunks_okD(4) [OF ok that(1)] that(2), of "x - i"] that by linarith+
  have "\<exists>c q. ch c = Some q \<and> k \<le> q \<and> c \<le> i \<and> i + 2 ^ k \<le> c + 2 ^ q"
    by (rule Suc.IH) (use Suc.prems half in auto)
  then obtain c1 q1 where 1: "ch c1 = Some q1" "k \<le> q1" "c1 \<le> i" "i + 2 ^ k \<le> c1 + 2 ^ q1" by blast
  have "\<exists>c q. ch c = Some q \<and> k \<le> q \<and> c \<le> ?j \<and> ?j + 2 ^ k \<le> c + 2 ^ q"
    by (rule Suc.IH) (use Suc.prems half in auto)
  then obtain c2 q2 where 2: "ch c2 = Some q2" "k \<le> q2" "c2 \<le> ?j" "?j + 2 ^ k \<le> c2 + 2 ^ q2" by blast
  show ?case
  proof (cases "Suc k \<le> q1 \<or> Suc k \<le> q2")
    case True
    then show ?thesis
      using whole [OF 1(1), of i] whole [OF 2(1), of ?j] 1 2 pow2_pos_nat [of k] by force
  next
    case False
    then have "q1 = k" "q2 = k" using 1(2) 2(2) by auto
    then have "ch i = Some k" "ch ?j = Some k" using 1 2 by auto
    moreover have "buddies V k i ?j" using Suc.prems(2) by (simp add: buddies_def)
    ultimately show ?thesis using Suc.prems(1) [of i k ?j] pow2_pos_nat [of k] by simp
  qed
qed

end
