(* ===== verification/Buddy_Correct.thy ===== *)
theory Buddy_Correct
  imports Buddy Chunks
begin

text \<open>
  The invariant of the buddy system and the correctness of its operations. \<open>buddy_rep\<close>
  relates a region to a partition of its pages into chunks (theory Chunks) and to the contents
  of the free lists; the chunks in the set \<open>D\<close> are detached: free, but on no list, as between
  the statements of an operation. \<open>buddy_inv\<close> is the invariant between operations.
\<close>

section \<open>The invariant\<close>

abbreviation npages :: "mem_region \<Rightarrow> nat" where
  "npages m \<equiv> unat (page_num m)"

definition base_frame :: "mem_region \<Rightarrow> nat" where
  "base_frame m = unat (start_addr m) div 4096"

definition region_ok :: "mem_region \<Rightarrow> bool" where
  "region_ok m \<longleftrightarrow>
     unat (start_addr m) mod 4096 = 0 \<and>
     unat (region_size m) = npages m * 4096 \<and>
     unat (start_addr m) + npages m * 4096 < 2 ^ 64 \<and>
     (base_frame m + npages m) mod 1024 = 0"

definition free_family :: "(nat \<Rightarrow> nat list) \<Rightarrow> (lnode \<rightharpoonup> lnode list)" where
  "free_family L l =
     (case l of FreeHead k \<Rightarrow> if k \<le> 10 then Some (map PageNode (L k)) else None | _ \<Rightarrow> None)"

definition region_cells :: "nat \<Rightarrow> lnode set" where
  "region_cells n = FreeHead ` {..10} \<union> PageNode ` {..<n}"

definition pages_agree :: "mem_region \<Rightarrow> chunk_map \<Rightarrow> bool" where
  "pages_agree m ch \<longleftrightarrow>
     (\<forall>i k. ch i = Some k \<longrightarrow> page_order (pages m i) = int k) \<and>
     (\<forall>i < npages m. page_allocated (pages m i) = 0 \<or>
        (page_allocated (pages m i) = 1 \<and> ch i \<noteq> None))"

definition lists_agree :: "mem_region \<Rightarrow> nat set \<Rightarrow> chunk_map \<Rightarrow> (nat \<Rightarrow> nat list) \<Rightarrow> bool" where
  "lists_agree m D ch L \<longleftrightarrow>
     (\<forall>k \<le> 10. nr_free m k = of_nat (length (L k)) \<and>
        set (L k) = {i. ch i = Some k \<and> page_allocated (pages m i) = 0 \<and> i \<notin> D})"

definition buddy_rep ::
  "mem_region \<Rightarrow> nat set \<Rightarrow> nat \<Rightarrow> nat \<Rightarrow> chunk_map \<Rightarrow> (nat \<Rightarrow> nat list) \<Rightarrow> bool" where
  "buddy_rep m D lo hi ch L \<longleftrightarrow>
     region_ok m \<and> hi \<le> npages m \<and> chunks_ok (base_frame m) lo hi ch \<and> D \<subseteq> dom ch \<and>
     pages_agree m ch \<and> dom (nodes m) = region_cells (npages m) \<and>
     list_family (dlist (nodes m)) (free_family L) \<and> lists_agree m D ch L \<and>
     coalesced (base_frame m) L"

definition buddy_inv :: "mem_region \<Rightarrow> bool" where
  "buddy_inv m \<longleftrightarrow> free_lists_lock m = 0 \<and> (\<exists>ch L. buddy_rep m {} 0 (npages m) ch L)"

text \<open>What a client sees: the chunks handed out, and the pages that belong to none of them.\<close>

definition live_chunks :: "mem_region \<Rightarrow> (nat \<times> nat) set" where
  "live_chunks m =
     {(i, nat (page_order (pages m i))) | i. i < npages m \<and> page_allocated (pages m i) = 1}"

definition region_frame :: "mem_region \<Rightarrow> mem_region \<Rightarrow> bool" where
  "region_frame m m' \<longleftrightarrow>
     start_addr m' = start_addr m \<and> region_size m' = region_size m \<and> page_num m' = page_num m \<and>
     free_lists_lock m' = free_lists_lock m \<and>
     (\<forall>i. page_slab (pages m' i) = page_slab (pages m i) \<and>
          page_allocated (pages m' i) = page_allocated (pages m i))"

lemma region_frame_refl [simp]: "region_frame m m"
  by (simp add: region_frame_def)

lemma region_frame_trans: "region_frame m m' \<Longrightarrow> region_frame m' m'' \<Longrightarrow> region_frame m m''"
  by (simp add: region_frame_def)

lemma region_frame_ok: "region_frame m m' \<Longrightarrow> region_ok m' = region_ok m"
  by (simp add: region_frame_def region_ok_def base_frame_def)

lemma region_frame_base: "region_frame m m' \<Longrightarrow> base_frame m' = base_frame m"
  by (simp add: region_frame_def base_frame_def)

lemma buddy_repD:
  assumes "buddy_rep m D lo hi ch L"
  shows "region_ok m" "hi \<le> npages m" "chunks_ok (base_frame m) lo hi ch" "D \<subseteq> dom ch"
    "pages_agree m ch" "dom (nodes m) = region_cells (npages m)"
    "list_family (dlist (nodes m)) (free_family L)" "lists_agree m D ch L"
    "coalesced (base_frame m) L"
  using assms by (auto simp: buddy_rep_def)

lemma lists_agreeD:
  assumes "lists_agree m D ch L" "k \<le> 10"
  shows "nr_free m k = of_nat (length (L k))"
    and "i \<in> set (L k) \<longleftrightarrow> ch i = Some k \<and> page_allocated (pages m i) = 0 \<and> i \<notin> D"
  using assms by (auto simp: lists_agree_def)

lemma lists_agreeI:
  assumes "\<And>k. k \<le> 10 \<Longrightarrow> nr_free m k = of_nat (length (L k))"
    and "\<And>k i. k \<le> 10 \<Longrightarrow>
           i \<in> set (L k) \<longleftrightarrow> ch i = Some k \<and> page_allocated (pages m i) = 0 \<and> i \<notin> D"
  shows "lists_agree m D ch L"
  using assms by (auto simp: lists_agree_def)

section \<open>Addresses\<close>

lemma base_frame_start: "region_ok m \<Longrightarrow> unat (start_addr m) = base_frame m * 4096"
  by (auto simp: region_ok_def base_frame_def)

lemma unat_PAGE_SIZE: "unat PAGE_SIZE = 4096"
  by (simp add: PAGE_SIZE_def PAGE_SHIFT_def)

lemma PAGE_SIZE_eq: "PAGE_SIZE = 4096"
  by (simp add: PAGE_SIZE_def PAGE_SHIFT_def)

lemma unat_of_nat_small: "n < 2 ^ 64 \<Longrightarrow> unat (of_nat n :: u64) = n"
  by (simp add: unat_of_nat)

lemma npages_bound: "region_ok m \<Longrightarrow> npages m < 2 ^ 52"
  by (auto simp: region_ok_def)

lemma unat_page_to_virt:
  assumes "region_ok m" "i < npages m"
  shows "unat (page_to_virt m i) = (base_frame m + i) * 4096"
proof -
  have "i * 4096 < npages m * 4096" using assms(2) by simp
  then have lt: "unat (start_addr m) + i * 4096 < 2 ^ 64"
    using assms(1) by (simp add: region_ok_def)
  then have "unat (of_nat i * PAGE_SIZE) = i * 4096"
    by (simp add: PAGE_SIZE_eq unat_word_ariths unat_of_nat)
  then show ?thesis
    using lt assms(1) by (simp add: page_to_virt_def unat_add_small base_frame_start algebra_simps)
qed

lemma virt_to_page_frame:
  assumes ok: "region_ok m" and w: "unat w = f * 4096 + r" "r < 4096"
  shows "virt_to_page m w =
    (if base_frame m \<le> f \<and> f < base_frame m + npages m then Some (f - base_frame m) else None)"
proof -
  let ?V = "base_frame m"
  have s: "unat (start_addr m) = ?V * 4096" by (rule base_frame_start [OF ok])
  have e: "unat (start_addr m + region_size m) = (?V + npages m) * 4096"
    using ok s by (simp add: region_ok_def unat_add_small algebra_simps)
  have c1: "w < start_addr m \<longleftrightarrow> f < ?V"
    using w s by (auto simp: word_less_nat_alt)
  have c2: "w \<ge> start_addr m + region_size m \<longleftrightarrow> ?V + npages m \<le> f"
    using w e by (auto simp: word_le_nat_alt)
  show ?thesis
  proof (cases "?V \<le> f \<and> f < ?V + npages m")
    case True
    then have "start_addr m \<le> w" using c1 by (simp add: not_less)
    then have d: "unat (w - start_addr m) = (f - ?V) * 4096 + r"
      using w s True by (simp add: unat_sub diff_mult_distrib)
    have "unat ((w - start_addr m) div PAGE_SIZE) = f - ?V"
      using w(2) by (simp add: unat_div_distrib d unat_PAGE_SIZE)
    moreover from this have "\<not> (w - start_addr m) div PAGE_SIZE \<ge> page_num m"
      using True by (simp add: word_le_nat_alt) linarith
    ultimately show ?thesis using True c1 c2 by (simp add: virt_to_page_def Let_def)
  qed (use c1 c2 in \<open>auto simp: virt_to_page_def\<close>)
qed

lemma virt_to_page_page_to_virt:
  "region_ok m \<Longrightarrow> i < npages m \<Longrightarrow> virt_to_page m (page_to_virt m i) = Some i"
  using virt_to_page_frame [of m "page_to_virt m i" "base_frame m + i" 0]
  by (simp add: unat_page_to_virt)

lemma BUDDY_CHUNK_SIZE_eq: "BUDDY_CHUNK_SIZE (int k) = 2 ^ (12 + k)"
  by (simp add: BUDDY_CHUNK_SIZE_def PAGE_SHIFT_def push_bit_eq_mult)

lemma BUDDY_CHUNK_PAGES_COUNT_eq [simp]: "BUDDY_CHUNK_PAGES_COUNT (int k) = 2 ^ k"
  by (simp add: BUDDY_CHUNK_PAGES_COUNT_def)

lemma virt_to_page_parent:
  assumes "region_ok m" "i < npages m" "k \<le> 10"
  shows "virt_to_page m (ROUND_DOWN (page_to_virt m i) (BUDDY_CHUNK_SIZE (int k + 1))) =
    (if base_frame m \<le> parent_of (base_frame m) i k
     then Some (parent_of (base_frame m) i k - base_frame m) else None)"
proof -
  let ?V = "base_frame m"
  have sz: "BUDDY_CHUNK_SIZE (int k + 1) = 2 ^ (12 + Suc k)"
    using BUDDY_CHUNK_SIZE_eq [of "Suc k"] by (simp add: add.commute)
  have "(2 :: nat) ^ (12 + Suc k) = 2 ^ Suc k * 4096" by (simp add: power_add)
  moreover have "(?V + i) * 4096 div (2 ^ Suc k * 4096) = (?V + i) div 2 ^ Suc k"
    by (rule div_mult_mult2) simp
  ultimately have "unat (ROUND_DOWN (page_to_virt m i) (BUDDY_CHUNK_SIZE (int k + 1))) =
      parent_of ?V i k * 4096"
    using assms(1,2) by (simp only: sz unat_ROUND_DOWN unat_page_to_virt parent_of_def mult.assoc)
  moreover have "parent_of ?V i k \<le> ?V + i" by (simp add: parent_of_def)
  ultimately show ?thesis
    using virt_to_page_frame [OF assms(1), of _ "parent_of ?V i k" 0] assms(2) by simp
qed

section \<open>The free lists\<close>

lemma free_family_upd:
  "k \<le> 10 \<Longrightarrow> (free_family L)(FreeHead k \<mapsto> map PageNode xs) = free_family (L(k := xs))"
  by (auto simp: free_family_def fun_eq_iff split: lnode.split)

lemma free_family_at: "k \<le> 10 \<Longrightarrow> free_family L (FreeHead k) = Some (map PageNode (L k))"
  by (simp add: free_family_def)

lemma on_free_list:
  "on_some_list (free_family L) (PageNode i) \<longleftrightarrow> (\<exists>k \<le> 10. i \<in> set (L k))"
proof
  assume "on_some_list (free_family L) (PageNode i)"
  then obtain l xs where "free_family L l = Some xs" "PageNode i \<in> set (l # xs)"
    by (auto simp: on_some_list_def)
  then show "\<exists>k \<le> 10. i \<in> set (L k)"
    by (cases l) (auto simp: free_family_def split: if_splits)
next
  assume "\<exists>k \<le> 10. i \<in> set (L k)"
  then show "on_some_list (free_family L) (PageNode i)"
    using free_family_at by (fastforce simp: on_some_list_def)
qed

lemma free_list_add:
  assumes fam: "list_family (dlist h) (free_family L)" and dom: "dom h = region_cells n"
    and k: "k \<le> 10" and i: "i < n" and fresh: "\<forall>q \<le> 10. i \<notin> set (L q)"
  obtains h' where "list_add (PageNode i) (FreeHead k) h = Some h'" and "dom h' = region_cells n"
    and "list_family (dlist h') (free_family (L(k := i # L k)))"
proof -
  have "PageNode i \<in> dom h" using dom i by (auto simp: region_cells_def)
  moreover have "\<not> on_some_list (free_family L) (PageNode i)" using fresh by (auto simp: on_free_list)
  ultimately show ?thesis
    using klist.family_add [OF fam free_family_at [OF k]] that dom free_family_upd [OF k, of L "i # L k"]
    by (metis list.simps(9))
qed

lemma free_list_del:
  assumes fam: "list_family (dlist h) (free_family L)" and k: "k \<le> 10" and L: "L k = xs @ i # ys"
  obtains h' where "list_del (PageNode i) h = Some h'" and "dom h' = dom h"
    and "list_family (dlist h') (free_family (L(k := xs @ ys)))"
proof -
  have "free_family L (FreeHead k) = Some (map PageNode xs @ PageNode i # map PageNode ys)"
    using free_family_at [OF k, of L] L by simp
  from klist.family_del [OF fam this] show ?thesis
    using that free_family_upd [OF k, of L "xs @ ys"] by (metis map_append)
qed

lemma free_list_dlist:
  "list_family (dlist h) (free_family L) \<Longrightarrow> k \<le> 10 \<Longrightarrow> dlist h (FreeHead k) (map PageNode (L k))"
  using free_family_at [of k L] by (auto simp: list_family_def)

lemma free_list_distinct:
  "list_family (dlist h) (free_family L) \<Longrightarrow> k \<le> 10 \<Longrightarrow> distinct (L k)"
  using dlist_distinct [OF free_list_dlist, of h L k] by (simp add: distinct_map)

lemma free_list_first:
  assumes "list_family (dlist h) (free_family L)" "k \<le> 10" "L k = i # xs"
  shows "get_next h (FreeHead k) = Some (PageNode i)"
  using dlist_first [OF free_list_dlist [OF assms(1,2)]] assms(3) by simp

lemma buddy_rep_length:
  assumes "buddy_rep m D lo hi ch L" "k \<le> 10"
  shows "length (L k) \<le> npages m"
proof -
  have "set (L k) \<subseteq> {..<npages m}"
    using assms buddy_repD(2,3,8) [OF assms(1)] chunks_okD(5) [OF buddy_repD(3) [OF assms(1)]]
    by (fastforce simp: lists_agree_def)
  then have "card (set (L k)) \<le> npages m"
    using card_mono [of "{..<npages m}" "set (L k)"] by simp
  then show ?thesis
    using free_list_distinct [OF buddy_repD(7) [OF assms(1)] assms(2)] by (simp add: distinct_card)
qed

lemma nr_free_zero:
  assumes "buddy_rep m D lo hi ch L" "k \<le> 10"
  shows "nr_free m k = 0 \<longleftrightarrow> L k = []"
proof -
  have "length (L k) < 2 ^ 64"
    using buddy_rep_length [OF assms] npages_bound [OF buddy_repD(1) [OF assms(1)]] by simp
  then have "(of_nat (length (L k)) :: u64) = 0 \<longleftrightarrow> length (L k) = 0"
    using unat_of_nat_small [of "length (L k)"] by auto
  then show ?thesis using assms buddy_repD(8) [OF assms(1)] by (simp add: lists_agree_def)
qed

lemma free_list_index_int [simp]: "k \<le> 10 \<Longrightarrow> free_list_index (int k) = Inr k"
  by (simp add: free_list_index_def BUDDY_MAX_ORDER_def)

lemma page_in_list_correct:
  assumes fam: "list_family (dlist (nodes m)) (free_family L)" and k: "k \<le> 10"
  shows "page_in_list m (Some i) (FreeHead k) = Inr (i \<in> set (L k))"
proof -
  note dl = free_list_dlist [OF fam k]
  obtain n where "get_next (nodes m) (FreeHead k) = Some n"
    "for_each_find (nodes m) (FreeHead k) n (PageNode i) =
       Some (Some (PageNode i \<in> set (map PageNode (L k))))"
    using for_each_find_correct [OF dl] by blast
  moreover have "PageNode i \<in> set (map PageNode (L k)) \<longleftrightarrow> i \<in> set (L k)" by auto
  ultimately show ?thesis using list_empty_correct [OF dl] by (auto simp: page_in_list_def)
qed

section \<open>Taking, splitting\<close>

lemma take_first_chunk_correct:
  assumes rep: "buddy_rep m D lo hi ch L" and k: "k \<le> 10" and L: "L k = c # xs"
  obtains m' where "take_first_chunk k m = Inr (Some c, m')" and "region_frame m m'"
    and "pages m' = pages m" and "buddy_rep m' (insert c D) lo hi ch (L(k := xs))"
proof -
  note r = buddy_repD [OF rep]
  obtain h' where h': "list_del (PageNode c) (nodes m) = Some h'" "dom h' = dom (nodes m)"
      "list_family (dlist h') (free_family (L(k := xs)))"
    using free_list_del [OF r(7) k, of "[]" c xs] L by auto
  define m' where "m' = m\<lparr>nodes := h', nr_free := (nr_free m)(k := nr_free m k - 1)\<rparr>"
  have run: "take_first_chunk k m = Inr (Some c, m')"
    using free_list_first [OF r(7) k L] h'(1)
    by (simp add: take_first_chunk_def list_entry_page_def on_nodes_def m'_def)
  have fr: "region_frame m m'" "pages m' = pages m" by (simp_all add: m'_def region_frame_def)
  have c: "ch c = Some k" using r(8) k L by (force simp: lists_agree_def)
  have "distinct (c # xs)" using free_list_distinct [OF r(7) k] L by simp
  then have xs: "i \<in> set xs \<longleftrightarrow> ch i = Some k \<and> page_allocated (pages m i) = 0 \<and> i \<notin> insert c D" for i
    using lists_agreeD(2) [OF r(8) k, of i] L by auto
  have nr: "nr_free m k - 1 = of_nat (length xs)"
    using lists_agreeD(1) [OF r(8) k] L by simp
  have "lists_agree m' (insert c D) ch (L(k := xs))"
    by (rule lists_agreeI) (use lists_agreeD [OF r(8)] c xs nr in \<open>auto simp: m'_def\<close>)
  moreover have "coalesced (base_frame m) (L(k := xs))"
    by (rule coalesced_subset [OF r(9)]) (use L in auto)
  ultimately have "buddy_rep m' (insert c D) lo hi ch (L(k := xs))"
    using r h' c region_frame_ok [OF fr(1)] region_frame_base [OF fr(1)]
    by (auto simp: buddy_rep_def m'_def pages_agree_def)
  then show ?thesis using that run fr by blast
qed

lemma split_halves_correct:
  assumes rep: "buddy_rep m D lo hi ch L" and c: "ch c = Some (Suc k)" "c \<in> D"
    and free: "page_allocated (pages m c) = 0"
  obtains m' where "split_halves c (int k) m = Inr (Some c, m')" and "region_frame m m'"
    and "buddy_rep m' D lo hi (ch(c \<mapsto> k, c + 2 ^ k \<mapsto> k)) (L(k := (c + 2 ^ k) # L k))"
proof -
  note r = buddy_repD [OF rep]
  let ?b = "c + 2 ^ k"
  have cc: "c + 2 ^ Suc k \<le> hi" "Suc k \<le> 10" using chunks_okD [OF r(3) c(1)] by auto
  have in_r: "c < npages m" "?b < npages m"
    using cc(1) r(2) pow2_pos_nat [of k] unfolding power_Suc by linarith+
  have bN: "ch ?b = None" by (rule chunks_ok_interior [OF r(3) c(1)]) auto
  then have bfree: "page_allocated (pages m ?b) = 0" "?b \<notin> D" "?b \<noteq> c"
    using r(4,5) in_r c by (auto simp: pages_agree_def)
  have "\<forall>q \<le> 10. ?b \<notin> set (L q)" using r(8) bN by (auto simp: lists_agree_def)
  then obtain h' where h': "list_add (PageNode ?b) (FreeHead k) (nodes m) = Some h'"
      "dom h' = region_cells (npages m)"
      "list_family (dlist h') (free_family (L(k := ?b # L k)))"
    using free_list_add [OF r(7,6), of k ?b] cc in_r by auto
  define m' where "m' = m\<lparr>pages := (pages m)(c := (pages m c)\<lparr>page_order := int k\<rparr>,
      ?b := (pages m ?b)\<lparr>page_order := int k\<rparr>), nodes := h',
      nr_free := (nr_free m)(k := nr_free m k + 1)\<rparr>"
  have run: "split_halves c (int k) m = Inr (Some c, m')"
    using cc(2) in_r h'(1) bfree(3)
    by (simp add: split_halves_def put_page_def on_nodes_def m'_def Let_def)
  have fr: "region_frame m m'" by (simp add: m'_def region_frame_def)
  have "pages_agree m' (ch(c \<mapsto> k, ?b \<mapsto> k))"
    using r(5) bfree free c(1) by (auto simp: pages_agree_def m'_def)
  moreover have "lists_agree m' D (ch(c \<mapsto> k, ?b \<mapsto> k)) (L(k := ?b # L k))"
    by (rule lists_agreeI)
      (use lists_agreeD [OF r(8)] bfree bN c cc(2) in \<open>auto simp: m'_def add.commute\<close>)
  moreover have "coalesced (base_frame m) (L(k := ?b # L k))"
  proof (rule coalesced_add [OF r(9)])
    have "buddies (base_frame m) k ?b c"
      using chunks_okD(4) [OF r(3) c(1)] by (simp add: buddies_def)
    moreover have "c \<notin> set (L k)"
      using lists_agreeD(2) [OF r(8), of k c] cc(2) c(2) by simp
    ultimately show "\<forall>x \<in> set (L k). \<not> buddies (base_frame m) k ?b x"
      using buddies_unique by blast
  qed
  ultimately have "buddy_rep m' D lo hi (ch(c \<mapsto> k, ?b \<mapsto> k)) (L(k := ?b # L k))"
    using r h' chunks_ok_split [OF r(3) c(1)] region_frame_ok [OF fr] region_frame_base [OF fr]
    by (auto simp: buddy_rep_def m'_def)
  then show ?thesis using that run fr by blast
qed

text \<open>What an operation on free chunks keeps: every chunk that is allocated or detached.\<close>

definition keeps :: "mem_region \<Rightarrow> nat set \<Rightarrow> chunk_map \<Rightarrow> chunk_map \<Rightarrow> bool" where
  "keeps m D ch ch' \<longleftrightarrow> (\<forall>i < npages m. page_allocated (pages m i) = 1 \<or> i \<in> D \<longrightarrow> ch' i = ch i)"

definition split_result ::
  "mem_region \<Rightarrow> nat set \<Rightarrow> nat \<Rightarrow> nat \<Rightarrow> chunk_map \<Rightarrow> nat \<Rightarrow> nat \<Rightarrow> mem_region \<Rightarrow> bool" where
  "split_result m D lo hi ch k c m' \<longleftrightarrow>
     region_frame m m' \<and> c \<notin> D \<and> page_allocated (pages m c) = 0 \<and>
     (\<exists>ch' L'. buddy_rep m' (insert c D) lo hi ch' L' \<and> ch' c = Some k \<and> keeps m D ch ch')"

lemma take_first_split_result:
  assumes rep: "buddy_rep m D lo hi ch L" and k: "k \<le> 10" and L: "L k \<noteq> []"
  obtains c m' where "take_first_chunk k m = Inr (Some c, m')" and "split_result m D lo hi ch k c m'"
proof -
  obtain c xs where c: "L k = c # xs" using L by (cases "L k") auto
  then have "ch c = Some k" "page_allocated (pages m c) = 0" "c \<notin> D"
    using lists_agreeD(2) [OF buddy_repD(8) [OF rep] k, of c] by auto
  moreover obtain m' where "take_first_chunk k m = Inr (Some c, m')" "region_frame m m'"
      "buddy_rep m' (insert c D) lo hi ch (L(k := xs))"
    by (rule take_first_chunk_correct [OF rep k c])
  ultimately show ?thesis by (intro that) (auto simp: split_result_def keeps_def)
qed

lemma split_halves_split_result:
  assumes rep: "buddy_rep m D lo hi ch L" and res: "split_result m D lo hi ch (Suc k) c m1"
  obtains m' where "split_halves c (int k) m1 = Inr (Some c, m')" and "split_result m D lo hi ch k c m'"
proof -
  obtain ch1 L1 where r1: "region_frame m m1" "c \<notin> D" "page_allocated (pages m c) = 0"
      "buddy_rep m1 (insert c D) lo hi ch1 L1" "ch1 c = Some (Suc k)" "keeps m D ch ch1"
    using res by (auto simp: split_result_def)
  then have "page_allocated (pages m1 c) = 0" by (simp add: region_frame_def)
  then obtain m' where m': "split_halves c (int k) m1 = Inr (Some c, m')" "region_frame m1 m'"
      "buddy_rep m' (insert c D) lo hi (ch1(c \<mapsto> k, c + 2 ^ k \<mapsto> k)) (L1(k := (c + 2 ^ k) # L1 k))"
    using split_halves_correct [OF r1(4,5)] by blast
  have "ch1 (c + 2 ^ k) = None"
    by (rule chunks_ok_interior [OF buddy_repD(3) [OF r1(4)] r1(5)]) auto
  then have "keeps m D ch (ch1(c \<mapsto> k, c + 2 ^ k \<mapsto> k))"
    using r1 buddy_repD(4,5) [OF r1(4)] by (auto simp: keeps_def pages_agree_def region_frame_def)
  moreover have "(ch1(c \<mapsto> k, c + 2 ^ k \<mapsto> k)) c = Some k" by simp
  ultimately have "split_result m D lo hi ch k c m'"
    using m'(3) r1(2,3) region_frame_trans [OF r1(1) m'(2)] unfolding split_result_def by blast
  then show ?thesis using that m'(1) by blast
qed

lemma split_chunk_correct:
  assumes rep: "buddy_rep m D lo hi ch L" and k: "1 \<le> k" "k \<le> 11"
  shows "if \<exists>q. k \<le> q \<and> q \<le> 10 \<and> L q \<noteq> []
         then \<exists>c m'. split_chunk (int k) m = Inr (Some c, m') \<and> split_result m D lo hi ch (k - 1) c m'
         else split_chunk (int k) m = Inr (None, m)"
  using k
proof (induction "11 - k" arbitrary: k)
  case 0
  then show ?case by (auto simp: split_chunk.simps BUDDY_MAX_ORDER_def)
next
  case (Suc n)
  then have k: "1 \<le> k" "k \<le> 10" by auto
  then obtain j where j: "k = Suc j" by (cases k) auto
  have unf: "split_chunk (int k) m =
      bindR (if L k = [] then split_chunk (int (Suc k)) m else take_first_chunk k m)
        (\<lambda>(chunk, m). case chunk of None \<Rightarrow> Inr (None, m) | Some c \<Rightarrow> split_halves c (int j) m)"
  proof -
    have "int k - 1 = int j" "int k + 1 = int (Suc k)" using j by auto
    then show ?thesis
      using k nr_free_zero [OF rep k(2)] split_chunk.simps [of "int k" m]
      by (simp only: free_list_index_int) (simp add: BUDDY_MAX_ORDER_def)
  qed
  have step: "\<exists>c m'. split_chunk (int k) m = Inr (Some c, m') \<and> split_result m D lo hi ch (k - 1) c m'"
    if got: "(if L k = [] then split_chunk (int (Suc k)) m else take_first_chunk k m) = Inr (Some c, m1)"
      and res: "split_result m D lo hi ch k c m1" for c m1
  proof -
    obtain m' where "split_halves c (int j) m1 = Inr (Some c, m')" "split_result m D lo hi ch j c m'"
      using split_halves_split_result [OF rep] res j by blast
    then show ?thesis using got unf j by auto
  qed
  show ?case
  proof (cases "L k = []")
    case True
    then have ex: "(\<exists>q. k \<le> q \<and> q \<le> 10 \<and> L q \<noteq> []) \<longleftrightarrow> (\<exists>q. Suc k \<le> q \<and> q \<le> 10 \<and> L q \<noteq> [])"
      by (metis Suc_leD le_antisym not_less_eq_eq)
    have "n = 11 - Suc k" "1 \<le> Suc k" "Suc k \<le> 11" using Suc.hyps(2) k by auto
    from Suc.hyps(1) [OF this] show ?thesis using ex True unf step by (auto split: if_splits)
  next
    case False
    then show ?thesis using take_first_split_result [OF rep k(2) False] step k by auto
  qed
qed

section \<open>Merging\<close>

text \<open>The chunk and its buddy as \<open>merge_chunk\<close> computes them.\<close>

definition merge_target :: "mem_region \<Rightarrow> nat \<Rightarrow> nat \<Rightarrow> page_ptr" where
  "merge_target m c k =
     virt_to_page m (ROUND_DOWN (page_to_virt m c) (BUDDY_CHUNK_SIZE (int k + 1)))"

definition merge_buddy :: "mem_region \<Rightarrow> nat \<Rightarrow> nat \<Rightarrow> page_ptr" where
  "merge_buddy m c k =
     (if merge_target m c k = Some c then Some (c + 2 ^ k) else merge_target m c k)"

lemma buddy_in_range:
  assumes "region_ok m" "k < 10" "2 ^ Suc k dvd base_frame m + a" "a < npages m"
  shows "a + 2 ^ k < npages m"
proof -
  let ?e = "base_frame m + npages m"
  have "1024 dvd ?e" using assms(1) by (simp add: region_ok_def mod_eq_0_iff_dvd)
  moreover have "(2 :: nat) ^ Suc k dvd 1024"
    using assms(2) le_imp_power_dvd [of "Suc k" 10 "2 :: nat"] by simp
  ultimately have "2 ^ Suc k dvd ?e" by (rule dvd_trans [rotated])
  then have "2 ^ Suc k dvd ?e - (base_frame m + a)" using assms(3) by (rule dvd_diff_nat)
  then have "2 ^ Suc k \<le> npages m - a" using assms(4) by (intro dvd_imp_le) auto
  then show ?thesis using pow2_pos_nat [of k] unfolding power_Suc by linarith
qed

lemma merge_target_cases:
  assumes ok: "region_ok m" and c: "c < npages m" "2 ^ k dvd base_frame m + c" and k: "k < 10"
  obtains (outside) "merge_buddy m c k = None" "\<forall>b. \<not> buddies (base_frame m) k c b"
  | (inside) a b where "merge_target m c k = Some a" "merge_buddy m c k = Some b"
      "a = min c b" "max c b = a + 2 ^ k" "2 ^ Suc k dvd base_frame m + a" "b < npages m"
      "buddies (base_frame m) k c b"
proof -
  let ?V = "base_frame m"
  have t: "merge_target m c k =
      (if ?V \<le> parent_of ?V c k then Some (parent_of ?V c k - ?V) else None)"
    unfolding merge_target_def using virt_to_page_parent [OF ok c(1), of k] k by simp
  have d: "2 ^ Suc k dvd parent_of ?V c k" by (rule parent_of_dvd)
  consider (low) "parent_of ?V c k = ?V + c" | (high) "parent_of ?V c k + 2 ^ k = ?V + c"
    using parent_of_cases [OF c(2)] by blast
  then show ?thesis
  proof cases
    case low
    then have "2 ^ Suc k dvd ?V + c" using d by simp
    moreover have "c + 2 ^ k < npages m" by (rule buddy_in_range [OF ok k calculation c(1)])
    ultimately show ?thesis
      using low t by (intro inside [of c "c + 2 ^ k"]) (auto simp: merge_buddy_def buddies_def)
  next
    case high
    show ?thesis
    proof (cases "?V \<le> parent_of ?V c k")
      case True
      then have "2 ^ k \<le> c" "?V + (c - 2 ^ k) = parent_of ?V c k" using high by linarith+
      moreover from this have "2 ^ Suc k dvd ?V + (c - 2 ^ k)" using d by (simp del: power_Suc)
      ultimately show ?thesis
        using high t True c(1)
        by (intro inside [of "c - 2 ^ k" "c - 2 ^ k"])
          (auto simp: merge_buddy_def buddies_def min_def max_def)
    next
      case False
      have "\<not> buddies ?V k c b" for b
        using buddies_parent [OF c(2), of b] False by auto
      then show ?thesis using t False by (intro outside) (auto simp: merge_buddy_def)
    qed
  qed
qed

lemma merge_chunk_unfold:
  assumes "c < npages m" "page_order (pages m c) = int k" "k \<le> 10"
  shows "merge_chunk (Some c) m =
    (if nr_free m k = 0 \<or> k = 10 then Inr (Some c, m)
     else case merge_buddy m c k of
       None \<Rightarrow> Inr (Some c, m)
     | Some b \<Rightarrow> bindR (get_page m b) (\<lambda>pb.
         if page_allocated pb = 1 \<or> page_order pb \<noteq> int k then Inr (Some c, m)
         else bindR (page_in_list m (Some b) (FreeHead k)) (\<lambda>in_list.
           bindR (BUG_ON (\<not> in_list)) (\<lambda>_.
           bindR (on_nodes (list_del (PageNode b)) m) (\<lambda>m1.
           case merge_target m c k of
             None \<Rightarrow> Inl FAULT
           | Some cm \<Rightarrow>
               bindR (put_page cm (\<lambda>q. q\<lparr>page_order := int k + 1\<rparr>)
                 (m1\<lparr>nr_free := (nr_free m1)(k := nr_free m1 k - 1)\<rparr>)) (\<lambda>m. merge_chunk (Some cm) m))))))"
  using assms
  by (subst merge_chunk.simps)
    (auto simp: get_page_def merge_buddy_def merge_target_def Let_def BUDDY_MAX_ORDER_def
      split: option.split)

definition merge_result :: "mem_region \<Rightarrow> chunk_map \<Rightarrow> nat \<Rightarrow> nat \<Rightarrow> mem_region \<Rightarrow> bool" where
  "merge_result m ch k c m' \<longleftrightarrow>
     region_frame m m' \<and> page_allocated (pages m c) = 0 \<and>
     (\<exists>ch' L'. buddy_rep m' {c} 0 (npages m') ch' L' \<and> ch' c = Some k \<and> keeps m {} ch ch')"

lemma merge_with_buddy:
  assumes rep: "buddy_rep m {c} 0 (npages m) ch L"
    and c: "ch c = Some k" "page_allocated (pages m c) = 0" and k: "k < 10"
    and b: "b \<in> set (L k)" "a = min c b" "max c b = a + 2 ^ k" "2 ^ Suc k dvd base_frame m + a"
  obtains m1 m' where "on_nodes (list_del (PageNode b)) m = Inr m1"
    and "put_page a (\<lambda>q. q\<lparr>page_order := int k + 1\<rparr>)
           (m1\<lparr>nr_free := (nr_free m1)(k := nr_free m1 k - 1)\<rparr>) = Inr m'"
    and "merge_result m ch (Suc k) a m'"
proof -
  note r = buddy_repD [OF rep]
  have bk: "ch b = Some k" "page_allocated (pages m b) = 0" "b \<noteq> c"
    using lists_agreeD(2) [OF r(8), of k b] b(1) k by auto
  obtain xs ys where L: "L k = xs @ b # ys" using b(1) by (auto dest: split_list)
  obtain h' where h': "list_del (PageNode b) (nodes m) = Some h'" "dom h' = dom (nodes m)"
      "list_family (dlist h') (free_family (L(k := xs @ ys)))"
    using free_list_del [OF r(7) _ L] k by auto
  have a: "a < npages m" "a \<in> {c, b}" "a + 2 ^ k \<in> {c, b}" "a + 2 ^ k \<noteq> a"
    using chunks_okD(5) [OF r(3) c(1)] b(2,3) by (auto simp: min_def max_def split: if_splits)
  define m' where "m' = m\<lparr>nodes := h', nr_free := (nr_free m)(k := nr_free m k - 1),
      pages := (pages m)(a := (pages m a)\<lparr>page_order := int k + 1\<rparr>)\<rparr>"
  let ?ch = "ch(a \<mapsto> Suc k, a + 2 ^ k := None)"
  have fr: "region_frame m m'" by (simp add: m'_def region_frame_def)
  have ok: "chunks_ok (base_frame m) 0 (npages m) ?ch"
    by (rule chunks_ok_merge [OF r(3)]) (use a(2,3) c(1) bk(1) b(4) k in auto)
  have al: "page_allocated (pages m i) = 0" if "i \<in> {a, a + 2 ^ k}" for i
    using that a(2,3) c(2) bk(2) by auto
  have dist: "b \<notin> set (xs @ ys)" using free_list_distinct [OF r(7), of k] L k by simp
  have "lists_agree m' {a} ?ch (L(k := xs @ ys))"
  proof (rule lists_agreeI)
    show "nr_free m' q = of_nat (length ((L(k := xs @ ys)) q))" if "q \<le> 10" for q
      using lists_agreeD(1) [OF r(8) that] L by (auto simp: m'_def)
    have kset: "i \<in> set (xs @ ys) \<longleftrightarrow> i \<in> set (L k) \<and> i \<noteq> b" for i using L dist by auto
    show "i \<in> set ((L(k := xs @ ys)) q) \<longleftrightarrow>
        ?ch i = Some q \<and> page_allocated (pages m' i) = 0 \<and> i \<notin> {a}" if "q \<le> 10" for q i
      using lists_agreeD(2) [OF r(8) that, of i] a bk c b(2,3) kset [of i]
      by (auto simp: m'_def min_def max_def split: if_splits)
  qed
  moreover have "pages_agree m' ?ch"
    using r(5) al by (auto simp: pages_agree_def m'_def)
  moreover have "coalesced (base_frame m) (L(k := xs @ ys))"
    by (rule coalesced_subset [OF r(9)]) (use L in auto)
  ultimately have "buddy_rep m' {a} 0 (npages m') ?ch (L(k := xs @ ys))"
    using r(1,6) h' ok region_frame_ok [OF fr] region_frame_base [OF fr]
    by (auto simp: buddy_rep_def m'_def)
  moreover have "keeps m {} ch ?ch" using al by (auto simp: keeps_def)
  moreover have "?ch a = Some (Suc k)" using a(4) by simp
  ultimately have "merge_result m ch (Suc k) a m'"
    using fr al unfolding merge_result_def by blast
  then show ?thesis
    by (intro that [of "m\<lparr>nodes := h'\<rparr>" m']) (use h'(1) a(1) in \<open>auto simp: on_nodes_def put_page_def m'_def\<close>)
qed

definition settled :: "mem_region \<Rightarrow> chunk_map \<Rightarrow> nat \<Rightarrow> mem_region \<Rightarrow> bool" where
  "settled m ch c m' \<longleftrightarrow>
     region_frame m m' \<and> page_allocated (pages m c) = 0 \<and>
     (\<exists>ch' L' k. buddy_rep m' {c} 0 (npages m') ch' L' \<and> ch' c = Some k \<and> keeps m {} ch ch' \<and>
        (k < 10 \<longrightarrow> (\<forall>b \<in> set (L' k). \<not> buddies (base_frame m') k c b)))"

lemma settled_refl:
  assumes "buddy_rep m {c} 0 (npages m) ch L" "ch c = Some k" "page_allocated (pages m c) = 0"
    and "k < 10 \<Longrightarrow> \<forall>b \<in> set (L k). \<not> buddies (base_frame m) k c b"
  shows "settled m ch c m"
  using assms unfolding settled_def keeps_def by (fastforce intro: exI [of _ ch])

lemma settled_trans:
  assumes "merge_result m ch k a m1" "\<And>ch1 L1. buddy_rep m1 {a} 0 (npages m1) ch1 L1 \<Longrightarrow>
      ch1 a = Some k \<Longrightarrow> page_allocated (pages m1 a) = 0 \<Longrightarrow>
      \<exists>c' m'. merge_chunk (Some a) m1 = Inr (Some c', m') \<and> settled m1 ch1 c' m'"
  shows "\<exists>c' m'. merge_chunk (Some a) m1 = Inr (Some c', m') \<and> settled m ch c' m'"
proof -
  obtain ch1 L1 where r1: "region_frame m m1" "page_allocated (pages m a) = 0"
      "buddy_rep m1 {a} 0 (npages m1) ch1 L1" "ch1 a = Some k" "keeps m {} ch ch1"
    using assms(1) by (auto simp: merge_result_def)
  then have "page_allocated (pages m1 a) = 0" by (simp add: region_frame_def)
  then obtain c' m' where m': "merge_chunk (Some a) m1 = Inr (Some c', m')" "settled m1 ch1 c' m'"
    using assms(2) r1(3,4) by blast
  have "keeps m1 {} ch1 ch' \<Longrightarrow> keeps m {} ch ch'" for ch'
    using r1(1,5) by (simp add: keeps_def region_frame_def)
  moreover have "region_frame m m'" "page_allocated (pages m c') = 0"
    using m'(2) r1(1) by (auto simp: settled_def region_frame_def)
  ultimately have "settled m ch c' m'" using m'(2) unfolding settled_def by blast
  with m'(1) show ?thesis by blast
qed

lemma merge_chunk_correct:
  assumes "buddy_rep m {c} 0 (npages m) ch L" "ch c = Some k" "page_allocated (pages m c) = 0"
  shows "\<exists>c' m'. merge_chunk (Some c) m = Inr (Some c', m') \<and> settled m ch c' m'"
  using assms
proof (induction "10 - k" arbitrary: m c ch L k rule: less_induct)
  case less
  note rep = less.prems(1) and c = less.prems(2,3)
  note r = buddy_repD [OF rep]
  have ck: "c < npages m" "k \<le> 10" "2 ^ k dvd base_frame m + c" "page_order (pages m c) = int k"
    using chunks_okD [OF r(3) c(1)] r(5) c(1) by (auto simp: pages_agree_def)
  note unf = merge_chunk_unfold [OF ck(1,4,2)]
  have stop: ?case if "merge_chunk (Some c) m = Inr (Some c, m)"
    "k < 10 \<Longrightarrow> \<forall>b \<in> set (L k). \<not> buddies (base_frame m) k c b"
    using settled_refl [OF rep c] that by blast
  show ?case
  proof (cases "L k = [] \<or> k = 10")
    case True
    then show ?thesis using stop unf nr_free_zero [OF rep ck(2)] by auto
  next
    case False
    then have k: "k < 10" and nz: "\<not> (nr_free m k = 0 \<or> k = 10)"
      using ck(2) nr_free_zero [OF rep ck(2)] by auto
    from r(1) ck(1,3) k show ?thesis
    proof (cases rule: merge_target_cases)
      case outside
      then show ?thesis using stop unf nz by simp
    next
      case (inside a b)
      have "base_frame m + c = base_frame m + a \<or> base_frame m + c = base_frame m + a + 2 ^ k"
        "base_frame m + b = base_frame m + a \<or> base_frame m + b = base_frame m + a + 2 ^ k" "b \<noteq> c"
        using inside(3,4,7) buddies_irrefl by (auto simp: min_def max_def split: if_splits)
      then obtain q where q: "ch b = Some q" "q \<le> k"
        using buddy_is_chunk [OF r(3) c(1) inside(5), of b] inside(6) by auto
      then have ob: "page_order (pages m b) = int q" using r(5) by (simp add: pages_agree_def)
      show ?thesis
      proof (cases "b \<in> set (L k)")
        case False
        then have "page_allocated (pages m b) = 1 \<or> page_order (pages m b) \<noteq> int k"
          using lists_agreeD(2) [OF r(8) ck(2), of b] q(1) ob r(5) inside(6) \<open>b \<noteq> c\<close>
          by (auto simp: pages_agree_def)
        then have "merge_chunk (Some c) m = Inr (Some c, m)"
          using unf nz inside(2,6) by (simp add: get_page_def)
        then show ?thesis using stop False buddies_unique [OF inside(7)] by blast
      next
        case True
        then have bf: "page_allocated (pages m b) = 0" "page_order (pages m b) = int k"
          using lists_agreeD(2) [OF r(8) ck(2), of b] r(5) by (auto simp: pages_agree_def)
        obtain m1 m' where m': "on_nodes (list_del (PageNode b)) m = Inr m1"
            "put_page a (\<lambda>q. q\<lparr>page_order := int k + 1\<rparr>)
               (m1\<lparr>nr_free := (nr_free m1)(k := nr_free m1 k - 1)\<rparr>) = Inr m'"
            "merge_result m ch (Suc k) a m'"
          using merge_with_buddy [OF rep c k True inside(3,4,5)] by blast
        have "merge_chunk (Some c) m = merge_chunk (Some a) m'"
          using unf nz inside(1,2,6) bf m'(1,2) True page_in_list_correct [OF r(7) ck(2), of b]
          by (simp add: get_page_def)
        moreover have "10 - Suc k < 10 - k" using k by simp
        ultimately show ?thesis using settled_trans [OF m'(3)] less.hyps by metis
      qed
    qed
  qed
qed

section \<open>Allocation and release\<close>

definition same_layout :: "mem_region \<Rightarrow> mem_region \<Rightarrow> bool" where
  "same_layout m m' \<longleftrightarrow>
     start_addr m' = start_addr m \<and> region_size m' = region_size m \<and> page_num m' = page_num m \<and>
     (\<forall>i. page_slab (pages m' i) = page_slab (pages m i))"

lemma same_layout_trans: "same_layout m m' \<Longrightarrow> same_layout m' m'' \<Longrightarrow> same_layout m m''"
  by (simp add: same_layout_def)

lemma region_frame_layout: "region_frame m m' \<Longrightarrow> same_layout m m'"
  by (simp add: region_frame_def same_layout_def)

lemma same_layout_base: "same_layout m m' \<Longrightarrow> base_frame m' = base_frame m"
  by (simp add: same_layout_def base_frame_def)

lemma buddy_rep_lock [simp]: "buddy_rep (m\<lparr>free_lists_lock := x\<rparr>) D lo hi ch L = buddy_rep m D lo hi ch L"
  by (simp add: buddy_rep_def region_ok_def base_frame_def pages_agree_def lists_agree_def)

lemma live_chunks_lock [simp]: "live_chunks (m\<lparr>free_lists_lock := x\<rparr>) = live_chunks m"
  by (simp add: live_chunks_def)

lemma live_chunks_iff:
  assumes "buddy_rep m D lo hi ch L"
  shows "(i, k) \<in> live_chunks m \<longleftrightarrow> i < npages m \<and> page_allocated (pages m i) = 1 \<and> ch i = Some k"
  using buddy_repD(5) [OF assms] by (auto simp: live_chunks_def pages_agree_def)

lemma buddy_rep_allocate:
  assumes rep: "buddy_rep m {c} lo hi ch L" and c: "ch c = Some k"
  shows "buddy_rep (m\<lparr>pages := (pages m)(c := (pages m c)\<lparr>page_allocated := 1\<rparr>)\<rparr>) {} lo hi ch L"
proof -
  note r = buddy_repD [OF rep]
  let ?m = "m\<lparr>pages := (pages m)(c := (pages m c)\<lparr>page_allocated := 1\<rparr>)\<rparr>"
  have "lists_agree ?m {} ch L"
    by (rule lists_agreeI) (use lists_agreeD [OF r(8)] in auto)
  moreover have "pages_agree ?m ch" using r(5) c by (auto simp: pages_agree_def)
  ultimately show ?thesis
    using r by (simp add: buddy_rep_def region_ok_def base_frame_def)
qed

lemma buddy_rep_release:
  assumes rep: "buddy_rep m {} lo hi ch L" and c: "ch c = Some k" "page_allocated (pages m c) = 1"
  shows "buddy_rep (m\<lparr>pages := (pages m)(c := (pages m c)\<lparr>page_allocated := 0\<rparr>)\<rparr>) {c} lo hi ch L"
proof -
  note r = buddy_repD [OF rep]
  let ?m = "m\<lparr>pages := (pages m)(c := (pages m c)\<lparr>page_allocated := 0\<rparr>)\<rparr>"
  have "lists_agree ?m {c} ch L"
    by (rule lists_agreeI) (use lists_agreeD [OF r(8)] c in auto)
  moreover have "pages_agree ?m ch" using r(5) c by (auto simp: pages_agree_def)
  ultimately show ?thesis
    using r c by (auto simp: buddy_rep_def region_ok_def base_frame_def)
qed

lemma buddy_rep_attach:
  assumes rep: "buddy_rep m {c} lo hi ch L" and c: "ch c = Some k" "page_allocated (pages m c) = 0"
    and nb: "k < 10 \<Longrightarrow> \<forall>b \<in> set (L k). \<not> buddies (base_frame m) k c b"
  obtains m1 where "on_nodes (list_add (PageNode c) (FreeHead k)) m = Inr m1"
    and "region_frame m m1" and "pages m1 = pages m"
    and "buddy_rep (m1\<lparr>nr_free := (nr_free m1)(k := nr_free m1 k + 1)\<rparr>) {} lo hi ch (L(k := c # L k))"
proof -
  note r = buddy_repD [OF rep]
  have k: "k \<le> 10" "c < npages m" using chunks_okD [OF r(3) c(1)] r(2) by auto
  have "\<forall>q \<le> 10. c \<notin> set (L q)" using lists_agreeD(2) [OF r(8)] by auto
  then obtain h' where h': "list_add (PageNode c) (FreeHead k) (nodes m) = Some h'"
      "dom h' = region_cells (npages m)" "list_family (dlist h') (free_family (L(k := c # L k)))"
    using free_list_add [OF r(7,6) k] by blast
  let ?m = "m\<lparr>nodes := h', nr_free := (nr_free m)(k := nr_free m k + 1)\<rparr>"
  have "lists_agree ?m {} ch (L(k := c # L k))"
    by (rule lists_agreeI) (use lists_agreeD [OF r(8)] c in \<open>auto simp: add.commute\<close>)
  moreover have "pages_agree ?m ch" using r(5) by (simp add: pages_agree_def)
  moreover have "coalesced (base_frame m) (L(k := c # L k))" by (rule coalesced_add [OF r(9) nb])
  ultimately have "buddy_rep ?m {} lo hi ch (L(k := c # L k))"
    using r h' by (simp add: buddy_rep_def region_ok_def base_frame_def)
  then show ?thesis
    by (intro that [of "m\<lparr>nodes := h'\<rparr>"]) (use h'(1) in \<open>simp_all add: on_nodes_def region_frame_def\<close>)
qed

lemma live_chunks_keeps:
  assumes rep: "buddy_rep m D lo hi ch L" and rep': "buddy_rep m' D' lo' hi' ch' L'"
    and fr: "region_frame m m'" and kp: "keeps m {} ch ch'"
  shows "live_chunks m' = live_chunks m"
proof (rule set_eqI, clarify)
  fix i k
  show "(i, k) \<in> live_chunks m' \<longleftrightarrow> (i, k) \<in> live_chunks m"
    using live_chunks_iff [OF rep, of i k] live_chunks_iff [OF rep', of i k] fr kp
    by (auto simp: region_frame_def keeps_def)
qed

text \<open>The free chunk an allocation finds, before its page is marked.\<close>

lemma find_free_chunk:
  assumes rep: "buddy_rep m {} 0 (npages m) ch L" and k: "k \<le> 10"
  shows "if \<exists>q. k \<le> q \<and> q \<le> 10 \<and> L q \<noteq> []
     then \<exists>c m'. (if nr_free m k = 0 then split_chunk (int k + 1) m else take_first_chunk k m) =
            Inr (Some c, m') \<and> split_result m {} 0 (npages m) ch k c m'
     else (if nr_free m k = 0 then split_chunk (int k + 1) m else take_first_chunk k m) = Inr (None, m)"
proof (cases "L k = []")
  case True
  then have "(\<exists>q. k \<le> q \<and> q \<le> 10 \<and> L q \<noteq> []) \<longleftrightarrow> (\<exists>q. Suc k \<le> q \<and> q \<le> 10 \<and> L q \<noteq> [])"
    by (metis Suc_leD le_antisym not_less_eq_eq)
  moreover have "nr_free m k = 0" using nr_free_zero [OF rep k] True by simp
  moreover have "1 \<le> Suc k" "Suc k \<le> 11" using k by auto
  note split_chunk_correct [OF rep this]
  then have "if \<exists>q. Suc k \<le> q \<and> q \<le> 10 \<and> L q \<noteq> []
    then \<exists>c m'. split_chunk (int k + 1) m = Inr (Some c, m') \<and> split_result m {} 0 (npages m) ch k c m'
    else split_chunk (int k + 1) m = Inr (None, m)"
    by (simp only: of_nat_Suc add.commute [of 1] diff_Suc_1)
  ultimately show ?thesis by simp
next
  case False
  then obtain c m' where "take_first_chunk k m = Inr (Some c, m')"
      "split_result m {} 0 (npages m) ch k c m'"
    using take_first_split_result [OF rep k] by blast
  then show ?thesis using False nr_free_zero [OF rep k] k by auto
qed

lemma buddy_get_pages_correct:
  assumes inv: "buddy_inv m" and k: "k \<le> 10"
  shows "(\<exists>i m'. buddy_get_pages (int k) m = Inr (Some i, m') \<and> buddy_inv m' \<and> same_layout m m' \<and>
            i + 2 ^ k \<le> npages m \<and> 2 ^ k dvd base_frame m + i \<and>
            live_chunks m' = insert (i, k) (live_chunks m) \<and>
            (\<forall>(j, q) \<in> live_chunks m. chunk_pages i k \<inter> chunk_pages j q = {})) \<or>
         (buddy_get_pages (int k) m = Inr (None, m) \<and> (\<forall>q. k \<le> q \<and> q \<le> 10 \<longrightarrow> nr_free m q = 0))"
proof -
  obtain ch L where l0: "free_lists_lock m = 0" and rep0: "buddy_rep m {} 0 (npages m) ch L"
    using inv by (auto simp: buddy_inv_def)
  define m0 where "m0 = m\<lparr>free_lists_lock := 1\<rparr>"
  have rep: "buddy_rep m0 {} 0 (npages m0) ch L" using rep0 by (simp add: m0_def)
  have lk: "lock_region m = Inr m0" and un: "unlock_region m0 = m"
    using l0 by (simp_all add: lock_region_def unlock_region_def m0_def)
  note find = find_free_chunk [OF rep k]
  show ?thesis
  proof (cases "\<exists>q. k \<le> q \<and> q \<le> 10 \<and> L q \<noteq> []")
    case False
    then have "buddy_get_pages (int k) m = Inr (None, m)"
      using find lk un k by (simp add: buddy_get_pages_def)
    then show ?thesis using False nr_free_zero [OF rep0] by blast
  next
    case True
    then obtain c m1 where got: "(if nr_free m0 k = 0 then split_chunk (int k + 1) m0
          else take_first_chunk k m0) = Inr (Some c, m1)"
        and sr: "split_result m0 {} 0 (npages m0) ch k c m1"
      using find by auto
    then obtain ch' L' where s: "region_frame m0 m1" "page_allocated (pages m0 c) = 0"
        "buddy_rep m1 {c} 0 (npages m0) ch' L'" "ch' c = Some k" "keeps m0 {} ch ch'"
      by (auto simp: split_result_def)
    note r1 = buddy_repD [OF s(3)] and ck = chunks_okD [OF buddy_repD(3) [OF s(3)] s(4)]
    have p1: "npages m1 = npages m" "base_frame m1 = base_frame m"
      using s(1) region_frame_base [OF s(1)] by (simp_all add: m0_def region_frame_def base_frame_def)
    define m2 where "m2 = m1\<lparr>pages := (pages m1)(c := (pages m1 c)\<lparr>page_allocated := 1\<rparr>)\<rparr>"
    have c1: "c < npages m1" "page_order (pages m1 c) = int k" "page_allocated (pages m1 c) = 0"
      using ck(5) r1(5) s by (auto simp: pages_agree_def region_frame_def)
    have run: "buddy_get_pages (int k) m = Inr (Some c, unlock_region m2)"
      using lk got k c1 by (simp add: buddy_get_pages_def get_page_def put_page_def m2_def)
    have rep2: "buddy_rep m2 {} 0 (npages m2) ch' L'"
      using buddy_rep_allocate [OF s(3,4)] s(1) by (simp add: m2_def region_frame_def)
    then have inv2: "buddy_inv (unlock_region m2)"
      by (auto simp: buddy_inv_def unlock_region_def)
    have lay: "same_layout m (unlock_region m2)"
      using s(1) by (auto simp: same_layout_def unlock_region_def m2_def region_frame_def m0_def)
    have live1: "live_chunks m1 = live_chunks m"
      using live_chunks_keeps [OF rep s(3,1,5)] by (simp add: m0_def)
    have live: "live_chunks (unlock_region m2) = insert (c, k) (live_chunks m)"
      unfolding live1 [symmetric] unlock_region_def live_chunks_lock
      using c1 by (auto simp: live_chunks_def m2_def)
    have "chunk_pages c k \<inter> chunk_pages j q = {}" if "(j, q) \<in> live_chunks m" for j q
    proof -
      have "page_allocated (pages m1 j) = 1" "ch' j = Some q"
        using that live1 live_chunks_iff [OF s(3), of j q] by auto
      moreover from this c1(3) have "c \<noteq> j" by auto
      ultimately show ?thesis using chunks_ok_disjoint [OF r1(3) s(4)] by blast
    qed
    then show ?thesis
      using run inv2 lay live ck(2,4) p1 s(1) by (intro disjI1) (auto simp: m0_def)
  qed
qed

lemma buddy_free_pages_correct:
  assumes inv: "buddy_inv m" and c: "(c, k) \<in> live_chunks m"
  shows "\<exists>m'. buddy_free_pages (Some c) m = Inr m' \<and> buddy_inv m' \<and> same_layout m m' \<and>
           live_chunks m' = live_chunks m - {(c, k)}"
proof -
  obtain ch L where l0: "free_lists_lock m = 0" and rep0: "buddy_rep m {} 0 (npages m) ch L"
    using inv by (auto simp: buddy_inv_def)
  define m0 where "m0 = m\<lparr>free_lists_lock := 1\<rparr>"
  have rep: "buddy_rep m0 {} 0 (npages m0) ch L" using rep0 by (simp add: m0_def)
  have lk: "lock_region m = Inr m0" using l0 by (simp add: lock_region_def m0_def)
  have c0: "c < npages m0" "page_allocated (pages m0 c) = 1" "ch c = Some k"
    using c live_chunks_iff [OF rep0, of c k] by (auto simp: m0_def)
  define m1 where "m1 = m0\<lparr>pages := (pages m0)(c := (pages m0 c)\<lparr>page_allocated := 0\<rparr>)\<rparr>"
  have rep1: "buddy_rep m1 {c} 0 (npages m1) ch L"
    using buddy_rep_release [OF rep c0(3,2)] by (simp add: m1_def)
  then obtain c' m2 where mg: "merge_chunk (Some c) m1 = Inr (Some c', m2)" "settled m1 ch c' m2"
    using merge_chunk_correct [OF rep1 c0(3)] by (auto simp: m1_def)
  then obtain ch' L' k' where s: "region_frame m1 m2" "page_allocated (pages m1 c') = 0"
      "buddy_rep m2 {c'} 0 (npages m2) ch' L'" "ch' c' = Some k'" "keeps m1 {} ch ch'"
      "k' < 10 \<longrightarrow> (\<forall>b \<in> set (L' k'). \<not> buddies (base_frame m2) k' c' b)"
    by (auto simp: settled_def)
  have c2: "c' < npages m2" "k' \<le> 10" "page_order (pages m2 c') = int k'"
      "page_allocated (pages m2 c') = 0"
    using chunks_okD [OF buddy_repD(3) [OF s(3)] s(4)] buddy_repD(5) [OF s(3)] s
    by (auto simp: pages_agree_def region_frame_def)
  obtain m3 where m3: "on_nodes (list_add (PageNode c') (FreeHead k')) m2 = Inr m3"
      "region_frame m2 m3" "pages m3 = pages m2"
      "buddy_rep (m3\<lparr>nr_free := (nr_free m3)(k' := nr_free m3 k' + 1)\<rparr>) {} 0 (npages m2) ch' (L'(k' := c' # L' k'))"
    using buddy_rep_attach [OF s(3,4) c2(4)] s(6) by blast
  define m4 where "m4 = m3\<lparr>nr_free := (nr_free m3)(k' := nr_free m3 k' + 1)\<rparr>"
  have run: "buddy_free_pages (Some c) m = Inr (unlock_region m4)"
    using lk c0(1) mg(1) c2 m3(1)
    by (simp add: buddy_free_pages_def put_page_def get_page_def m1_def m4_def)
  have np: "npages m4 = npages m2" using m3(2) by (simp add: m4_def region_frame_def)
  have inv4: "buddy_inv (unlock_region m4)"
    using m3(4) np by (auto simp: buddy_inv_def unlock_region_def m4_def)
  have lay: "same_layout m (unlock_region m4)"
    using s(1) m3(2) by (auto simp: same_layout_def unlock_region_def m4_def m1_def m0_def region_frame_def)
  have "live_chunks m4 = live_chunks m2" using m3(3) np by (simp add: m4_def live_chunks_def)
  also have "\<dots> = live_chunks m1" by (rule live_chunks_keeps [OF rep1 s(3,1,5)])
  also have "\<dots> = live_chunks m - {(c, k)}"
    using c0 live_chunks_iff [OF rep0] live_chunks_iff [OF rep1]
    by (auto simp: m1_def m0_def split: if_splits)
  finally show ?thesis using run inv4 lay by (auto simp: unlock_region_def)
qed

section \<open>Accounting\<close>

definition live_pages :: "mem_region \<Rightarrow> nat" where
  "live_pages m = (\<Sum>(i, k) \<in> live_chunks m. 2 ^ k)"

lemma sum_orders_of_nat: "sum_orders n (\<lambda>k. of_nat (f k)) = of_nat (\<Sum>k<n. f k)"
  by (induction n) simp_all

lemma sum_orders_cong:
  "(\<And>k. k < n \<Longrightarrow> f k = g k) \<Longrightarrow> sum_orders n f = sum_orders n g"
  by (induction n) simp_all

lemma sum_orders_mult: "sum_orders n (\<lambda>k. c * f k) = c * sum_orders n f"
  by (induction n) (simp_all add: distrib_left)

lemma free_list_pages:
  assumes rep: "buddy_rep m {} lo hi ch L"
  shows "(\<Sum>k<11. length (L k) * 2 ^ k) =
    (\<Sum>i \<in> {i \<in> dom ch. page_allocated (pages m i) = 0}. 2 ^ the (ch i))"
proof -
  note r = buddy_repD [OF rep]
  have iff: "i \<in> set (L k) \<longleftrightarrow> ch i = Some k \<and> page_allocated (pages m i) = 0" if "k < 11" for i k
    using lists_agreeD(2) [OF r(8), of k i] that by auto
  have "(\<Sum>k<11. length (L k) * 2 ^ k) = (\<Sum>k<11. \<Sum>i\<in>set (L k). 2 ^ the (ch i))"
  proof (rule sum.cong [OF refl])
    fix k :: nat assume "k \<in> {..<11}"
    then have "(\<Sum>i\<in>set (L k). (2 :: nat) ^ the (ch i)) = (\<Sum>i\<in>set (L k). 2 ^ k)" "distinct (L k)"
      using iff free_list_distinct [OF r(7), of k] by (auto intro: sum.cong)
    then show "length (L k) * 2 ^ k = (\<Sum>i\<in>set (L k). 2 ^ the (ch i))"
      by (simp add: distinct_card)
  qed
  also have "\<dots> = (\<Sum>i \<in> (\<Union>k<11. set (L k)). 2 ^ the (ch i))"
    by (rule sum.UNION_disjoint [symmetric]) (use iff in auto)
  also have "(\<Union>k<11. set (L k)) = {i \<in> dom ch. page_allocated (pages m i) = 0}"
    using iff chunks_okD(3) [OF r(3)] by fastforce
  finally show ?thesis .
qed

lemma free_live_pages:
  assumes rep: "buddy_rep m {} 0 (npages m) ch L"
  shows "(\<Sum>k<11. length (L k) * 2 ^ k) + live_pages m = npages m"
proof -
  note r = buddy_repD [OF rep]
  let ?F = "{i \<in> dom ch. page_allocated (pages m i) = 0}"
  let ?A = "{i \<in> dom ch. page_allocated (pages m i) = 1}"
  have inN: "i < npages m" if "ch i = Some k" for i k using chunks_okD(5) [OF r(3) that] .
  have dom: "dom ch = ?F \<union> ?A" "?F \<inter> ?A = {}" "finite ?F" "finite ?A"
    using r(5) inN chunks_ok_sum(1) [OF r(3)] by (fastforce simp: pages_agree_def)+
  have "live_chunks m = (\<lambda>i. (i, the (ch i))) ` ?A"
    using live_chunks_iff [OF rep] inN by (auto simp: image_iff)
  then have "live_pages m = (\<Sum>i\<in>?A. 2 ^ the (ch i))"
    by (simp add: live_pages_def sum.reindex inj_on_def)
  moreover have "(\<Sum>i\<in>dom ch. 2 ^ the (ch i)) = npages m" using chunks_ok_sum(2) [OF r(3)] by simp
  moreover have "(\<Sum>i\<in>dom ch. 2 ^ the (ch i)) = (\<Sum>i\<in>?F. 2 ^ the (ch i)) + (\<Sum>i\<in>?A. (2 :: nat) ^ the (ch i))"
    using dom by (metis (no_types, lifting) sum.union_disjoint)
  ultimately show ?thesis using free_list_pages [OF rep] by simp
qed

lemma free_pages_count:
  assumes "buddy_inv m"
  shows "unat (get_free_pages_nums_from_buddy m) + live_pages m = npages m"
proof -
  obtain ch L where rep: "buddy_rep m {} 0 (npages m) ch L" using assms by (auto simp: buddy_inv_def)
  note r = buddy_repD [OF rep]
  have "get_free_pages_nums_from_buddy m = sum_orders 11 (\<lambda>k. of_nat (length (L k) * 2 ^ k))"
    unfolding get_free_pages_nums_from_buddy_def BUDDY_MAX_ORDER_def
    by (simp, rule sum_orders_cong) (use lists_agreeD(1) [OF r(8)] in simp)
  then have "get_free_pages_nums_from_buddy m = of_nat (\<Sum>k<11. length (L k) * 2 ^ k)"
    by (simp only: sum_orders_of_nat)
  moreover have "(\<Sum>k<11. length (L k) * 2 ^ k) < 2 ^ 64"
    using free_live_pages [OF rep] npages_bound [OF r(1)] by simp
  ultimately show ?thesis using free_live_pages [OF rep] by (simp only: unat_of_nat_small)
qed

lemma free_mem_size:
  assumes "buddy_inv m"
  shows "unat (get_free_mem_size_from_buddy m) + live_pages m * 4096 = unat (get_total_mem_size_from_buddy m)"
proof -
  have ok: "region_ok m" using assms buddy_repD(1) by (auto simp: buddy_inv_def)
  have "get_free_mem_size_from_buddy m = 4096 * get_free_pages_nums_from_buddy m"
    unfolding get_free_mem_size_from_buddy_def get_free_pages_nums_from_buddy_def sum_orders_mult [symmetric]
    by (rule sum_orders_cong) (simp add: BUDDY_CHUNK_SIZE_eq power_add)
  moreover have "4096 * unat (get_free_pages_nums_from_buddy m) < 2 ^ 64"
    using free_pages_count [OF assms] npages_bound [OF ok] by simp
  ultimately have "unat (get_free_mem_size_from_buddy m) = 4096 * unat (get_free_pages_nums_from_buddy m)"
    by (simp add: unat_word_ariths)
  then show ?thesis
    using free_pages_count [OF assms] ok
    by (simp add: get_total_mem_size_from_buddy_def region_ok_def flip: distrib_left)
qed

end
