(* ===== verification/Buddy_Init.thy ===== *)
theory Buddy_Init
  imports Buddy_Correct
begin

text \<open>
  \<open>init_buddy\<close> and \<open>populate_page\<close> establish the invariant of the buddy system: the forward
  loop covers the pages from the first 4MB boundary up, the backward loop the rest, one chunk
  per order. The end of memory is 4MB aligned (PHYS_MEM_END), the start is wherever the kernel
  image ends.
\<close>

text \<open>Nothing is handed out while the region is populated, and the region itself is fixed.\<close>

definition fresh_from :: "mem_region \<Rightarrow> mem_region \<Rightarrow> bool" where
  "fresh_from m0 m \<longleftrightarrow>
     start_addr m = start_addr m0 \<and> region_size m = region_size m0 \<and> page_num m = page_num m0 \<and>
     page_arrry m = page_arrry m0 \<and> free_lists_lock m = free_lists_lock m0 \<and>
     (\<forall>i. page_allocated (pages m i) = 0 \<and> page_slab (pages m i) = NULL)"

lemma fresh_from_same:
  "fresh_from m0 m \<Longrightarrow> npages m = npages m0 \<and> base_frame m = base_frame m0"
  by (simp add: fresh_from_def base_frame_def)

lemma add_free_chunk_correct:
  assumes fr: "fresh_from m0 m" and rep: "buddy_rep m {} lo hi ch L" and le: "lo \<le> hi" "hi' \<le> npages m"
    and k: "k \<le> 10" "2 ^ k dvd base_frame m + i"
    and i: "i = hi \<and> lo' = lo \<and> hi' = hi + 2 ^ k \<or> i + 2 ^ k = lo \<and> lo' = i \<and> hi' = hi"
    and nb: "k < 10 \<Longrightarrow> L k = []"
  obtains m' where "add_free_chunk (int k) i m = Inr m'" and "fresh_from m0 m'"
    and "buddy_rep m' {} lo' hi' (ch(i \<mapsto> k)) (L(k := i # L k))"
proof -
  note r = buddy_repD [OF rep]
  have iN: "i < npages m" using i le pow2_pos_nat [of k] by linarith
  have out: "ch i = None"
  proof (rule ccontr)
    assume "ch i \<noteq> None"
    then obtain q where "ch i = Some q" by blast
    from chunks_okD(1,5) [OF r(3) this] show False using i pow2_pos_nat [of k] pow2_pos_nat [of q] by linarith
  qed
  have "\<forall>q \<le> 10. i \<notin> set (L q)" using lists_agreeD(2) [OF r(8)] out by auto
  then obtain h' where h': "list_add (PageNode i) (FreeHead k) (nodes m) = Some h'"
      "dom h' = region_cells (npages m)" "list_family (dlist h') (free_family (L(k := i # L k)))"
    using free_list_add [OF r(7,6) k(1) iN] by blast
  define m' where "m' = m\<lparr>pages := (pages m)(i := (pages m i)\<lparr>page_order := int k,
      page_allocated := 0, page_slab := NULL\<rparr>), nr_free := (nr_free m)(k := nr_free m k + 1), nodes := h'\<rparr>"
  have run: "add_free_chunk (int k) i m = Inr m'"
    using iN k(1) h'(1) by (simp add: add_free_chunk_def put_page_def on_nodes_def m'_def)
  have same: "npages m' = npages m" "base_frame m' = base_frame m"
    by (simp_all add: m'_def base_frame_def)
  have fr': "fresh_from m0 m'" using fr by (simp add: m'_def fresh_from_def)
  have "lists_agree m' {} (ch(i \<mapsto> k)) (L(k := i # L k))"
    by (rule lists_agreeI) (use lists_agreeD [OF r(8)] out k in \<open>auto simp: m'_def add.commute\<close>)
  moreover have "pages_agree m' (ch(i \<mapsto> k))" using r(5) by (auto simp: pages_agree_def m'_def)
  moreover have "coalesced (base_frame m) (L(k := i # L k))"
    by (rule coalesced_add [OF r(9)]) (use nb in simp)
  moreover have "region_ok m'" using r(1) by (simp add: region_ok_def base_frame_def m'_def)
  ultimately have "buddy_rep m' {} lo' hi' (ch(i \<mapsto> k)) (L(k := i # L k))"
    using h' chunks_ok_extend [OF r(3) le(1) k i] le(2) same by (simp add: buddy_rep_def m'_def)
  then show ?thesis using that run fr' by blast
qed

text \<open>The invariant of the loops: the same memory region, with \<open>[lo, hi)\<close> populated.\<close>

definition populated :: "mem_region \<Rightarrow> mem_region \<Rightarrow> nat \<Rightarrow> nat \<Rightarrow> nat \<Rightarrow> bool" where
  "populated m0 m lo hi k \<longleftrightarrow>
     fresh_from m0 m \<and> (\<exists>ch L. buddy_rep m {} lo hi ch L \<and> (\<forall>q < k. L q = []))"

lemma populatedI:
  "fresh_from m0 m \<Longrightarrow> buddy_rep m {} lo hi ch L \<Longrightarrow> (\<And>q. q < k \<Longrightarrow> L q = []) \<Longrightarrow> populated m0 m lo hi k"
  unfolding populated_def by blast

lemma populated_add:
  assumes "populated m0 m lo hi k'" and le: "lo \<le> hi" "hi' \<le> npages m0"
    and k: "k \<le> 10" "2 ^ k dvd base_frame m0 + i" "k \<le> k'" "k = 10 \<or> k < k'"
    and i: "i = hi \<and> lo' = lo \<and> hi' = hi + 2 ^ k \<or> i + 2 ^ k = lo \<and> lo' = i \<and> hi' = hi"
  shows "\<exists>m'. add_free_chunk (int k) i m = Inr m' \<and> populated m0 m' lo' hi' k"
proof -
  obtain ch L where P: "fresh_from m0 m" "buddy_rep m {} lo hi ch L" "\<forall>q < k'. L q = []"
    using assms(1) by (auto simp: populated_def)
  have pre: "hi' \<le> npages m" "2 ^ k dvd base_frame m + i" "k < 10 \<Longrightarrow> L k = []"
    using fresh_from_same [OF P(1)] P(3) le k by auto
  obtain m1 where m1: "add_free_chunk (int k) i m = Inr m1" "fresh_from m0 m1"
      "buddy_rep m1 {} lo' hi' (ch(i \<mapsto> k)) (L(k := i # L k))"
    using add_free_chunk_correct [OF P(1,2) le(1) pre(1) k(1) pre(2) i pre(3)] by metis
  have "populated m0 m1 lo' hi' k"
    by (rule populatedI [OF m1(2,3)]) (use P k(3) in auto)
  then show ?thesis using m1(1) by blast
qed

lemma fill_forward_max:
  assumes "populated m0 m lo p 10" "lo \<le> p" "p \<le> npages m0" "1024 dvd base_frame m0 + p"
    "1024 dvd npages m0 - p"
  shows "\<exists>m'. fill_forward 10 p (npages m0) m = Inr (npages m0, m') \<and> populated m0 m' lo (npages m0) 10"
  using assms
proof (induction "npages m0 - p" arbitrary: p m rule: less_induct)
  case less
  have cnt: "BUDDY_CHUNK_PAGES_COUNT 10 = 1024"
    using BUDDY_CHUNK_PAGES_COUNT_eq [of 10] by simp
  show ?case
  proof (cases "p = npages m0")
    case True
    then show ?thesis using less.prems(1) cnt by (subst fill_forward.simps) simp
  next
    case False
    then have "0 < npages m0 - p" using less.prems(3) by simp
    from dvd_imp_le [OF less.prems(5) this] have room: "p + 1024 \<le> npages m0" by simp
    obtain m1 where m1: "add_free_chunk 10 p m = Inr m1" "populated m0 m1 lo (p + 1024) 10"
      using populated_add [OF less.prems(1,2) room, of 10 p lo] less.prems(4) by auto
    have "1024 dvd base_frame m0 + (p + 1024)" "1024 dvd npages m0 - (p + 1024)"
      using less.prems(4,5) room by (auto simp: dvd_add_left_iff simp flip: add.assoc diff_diff_left)
    then have "\<exists>m'. fill_forward 10 (p + 1024) (npages m0) m1 = Inr (npages m0, m') \<and>
        populated m0 m' lo (npages m0) 10"
      using less.hyps [of "p + 1024" m1] m1(2) room less.prems(2) by auto
    then show ?thesis using m1(1) cnt room fill_forward.simps [of 10 p "npages m0" m] by simp
  qed
qed

lemma fill_orders_forward_done:
  "fill_orders_forward k n n m = Inr (n, m)"
proof (induction k)
  case (Suc k)
  have "fill_forward (int k) n n m = Inr (n, m)"
    using BUDDY_CHUNK_PAGES_COUNT_pos [of "int k"]
    by (subst fill_forward.simps, subst if_not_P) (linarith, rule refl)
  then show ?case using Suc by simp
qed simp

lemma fill_backward_order:
  assumes "populated m0 m p (npages m0) (Suc k)" "p \<le> npages m0" "k \<le> 9" "p < 2 ^ Suc k"
    "2 ^ Suc k dvd base_frame m0 + p"
  shows "\<exists>p' m'. fill_backward (int k) p 0 m = Inr (p', m') \<and> populated m0 m' p' (npages m0) k \<and>
    p' < 2 ^ k \<and> p' \<le> npages m0 \<and> 2 ^ k dvd base_frame m0 + p'"
proof (cases "2 ^ k \<le> p")
  case True
  have d: "2 ^ k dvd base_frame m0 + (p - 2 ^ k)"
    using assms(5) True power_le_dvd [of 2 "Suc k" _ k] by (metis Nat.add_diff_assoc dvd_diffD1 dvd_diff_nat dvd_refl le_SucI order_refl)
  obtain m1 where m1: "add_free_chunk (int k) (p - 2 ^ k) m = Inr m1"
      "populated m0 m1 (p - 2 ^ k) (npages m0) k"
    using populated_add [OF assms(1,2) order_refl _ d] True assms(3) by auto
  have lt: "p - 2 ^ k < 2 ^ k" using assms(4) True by simp
  have "fill_backward (int k) (p - 2 ^ k) 0 m1 = Inr (p - 2 ^ k, m1)"
    using lt by (subst fill_backward.simps) (simp add: BUDDY_CHUNK_PAGES_COUNT_eq)
  then have "fill_backward (int k) p 0 m = Inr (p - 2 ^ k, m1)"
    using m1(1) True by (subst fill_backward.simps) (simp add: BUDDY_CHUNK_PAGES_COUNT_eq)
  then show ?thesis using m1(2) lt d assms(2) by auto
next
  case False
  have "fill_backward (int k) p 0 m = Inr (p, m)"
    using False by (subst fill_backward.simps) (simp add: BUDDY_CHUNK_PAGES_COUNT_eq)
  moreover have "populated m0 m p (npages m0) k"
    using assms(1) unfolding populated_def by (meson less_SucI)
  moreover have "2 ^ k dvd base_frame m0 + p" using assms(5) power_le_dvd [of 2 "Suc k"] by (metis le_SucI order_refl)
  ultimately show ?thesis using False assms(2) by auto
qed

lemma fill_orders_backward_correct:
  assumes "populated m0 m p (npages m0) k" "p \<le> npages m0" "k \<le> 10" "p < 2 ^ k"
    "2 ^ k dvd base_frame m0 + p"
  shows "\<exists>m'. fill_orders_backward k p 0 m = Inr (0, m') \<and> populated m0 m' 0 (npages m0) 0"
  using assms
proof (induction k arbitrary: p m)
  case (Suc k)
  from fill_backward_order [of m0 m p k] Suc.prems obtain p' m' where
    "fill_backward (int k) p 0 m = Inr (p', m')" "populated m0 m' p' (npages m0) k"
    "p' < 2 ^ k" "p' \<le> npages m0" "2 ^ k dvd base_frame m0 + p'" by auto
  then show ?case using Suc.IH [of m' p'] Suc.prems(3) by auto
qed auto

section \<open>The whole initialisation\<close>

lemma init_free_lists_correct:
  assumes "dom (nodes m) = region_cells n" "nr_free m = (\<lambda>_. 0)" "k \<le> 11"
  shows "\<exists>h. init_free_lists k m = Inr (m\<lparr>nodes := h\<rparr>) \<and> dom h = region_cells n \<and>
    (\<forall>q < k. dlist h (FreeHead q) [])"
  using assms(3)
proof (induction k)
  case 0
  then show ?case using assms(1) by (auto intro: exI [of _ "nodes m"])
next
  case (Suc k)
  then obtain h where h: "init_free_lists k m = Inr (m\<lparr>nodes := h\<rparr>)" "dom h = region_cells n"
      "\<forall>q < k. dlist h (FreeHead q) []" by auto
  have "FreeHead k \<in> dom h" using h(2) Suc.prems by (auto simp: region_cells_def)
  from init_list_head_correct [OF this] obtain h' where h': "init_list_head (FreeHead k) h = Some h'"
      "dlist h' (FreeHead k) []" "dom h' = dom h" "\<And>l. l \<noteq> FreeHead k \<Longrightarrow> h' l = h l" by blast
  have "dlist h' (FreeHead q) []" if "q < Suc k" for q
    using that h(3) h'(2,4) dlist_frame [of h "FreeHead q" "[]" h'] by (cases "q = k") auto
  moreover have "(nr_free m)(k := 0) = nr_free m" using assms(2) by auto
  ultimately show ?case using h h' by (auto simp: on_nodes_def)
qed

lemma populated_empty:
  assumes "region_ok m" "dom (nodes m) = region_cells (npages m)" "nr_free m = (\<lambda>_. 0)"
    "\<forall>q \<le> 10. dlist (nodes m) (FreeHead q) []" "p \<le> npages m"
    "\<forall>i. page_allocated (pages m i) = 0 \<and> page_slab (pages m i) = NULL"
  shows "populated m m p p 10"
proof -
  have "list_family (dlist (nodes m)) (free_family (\<lambda>_. []))"
    using assms(4) by (auto simp: list_family_def free_family_def split: lnode.splits if_splits)
  then have "buddy_rep m {} p p Map.empty (\<lambda>_. [])"
    using assms by (simp add: buddy_rep_def chunks_ok_empty pages_agree_def lists_agree_def coalesced_def)
  then show ?thesis using assms(6) by (intro populatedI) (auto simp: fresh_from_def)
qed

text \<open>\<open>populate_page\<close> needs a 4MB aligned page in the region; without one it stores through NULL.\<close>

lemma round_up_1024:
  fixes V N :: nat
  defines "f \<equiv> (V + 1023) div 1024 * 1024"
  assumes "1024 dvd V + N"
  shows "V \<le> f" "f < V + 1024" "1024 dvd f" "f < V + N \<longleftrightarrow> 1024 \<le> N"
proof -
  obtain t where t: "V + N = 1024 * t" using assms(2) by blast
  have "(V + 1023) div 1024 * 1024 + (V + 1023) mod 1024 = V + 1023" "(V + 1023) mod 1024 < 1024"
    by (rule div_mult_mod_eq) simp
  then show *: "V \<le> f" "f < V + 1024" unfolding f_def by linarith+
  show "1024 dvd f" by (simp add: f_def)
  then obtain c where "f = 1024 * c" by blast
  then have "f < V + N \<longleftrightarrow> c + 1 \<le> t" "1024 * c < V + 1024" using * t by auto
  then show "f < V + N \<longleftrightarrow> 1024 \<le> N" using * t \<open>f = 1024 * c\<close> by linarith
qed

lemma first_aligned_page:
  assumes "region_ok m" "0 < npages m"
  shows "virt_to_page m (ROUND_UP (page_to_virt m 0) (BUDDY_CHUNK_SIZE (BUDDY_MAX_ORDER - 1))) =
    (if 1024 \<le> npages m then Some ((base_frame m + 1023) div 1024 * 1024 - base_frame m) else None)"
proof -
  let ?V = "base_frame m" and ?N = "npages m"
  define f where "f = (?V + 1023) div 1024 * 1024"
  have ok: "(?V + ?N) * 4096 < 2 ^ 64" "1024 dvd ?V + ?N"
    using assms(1) base_frame_start [OF assms(1)] by (auto simp: region_ok_def add_mult_distrib)
  then obtain t where t: "?V + ?N = 1024 * t" by blast
  have sz: "BUDDY_CHUNK_SIZE (BUDDY_MAX_ORDER - 1) = 2 ^ 22"
    using BUDDY_CHUNK_SIZE_eq [of 10] by (simp add: BUDDY_MAX_ORDER_def)
  have u: "unat (page_to_virt m 0) = ?V * 4096" using unat_page_to_virt [OF assms] by simp
  have "?V * 4096 + 2 ^ 22 \<le> 2 ^ 64" using ok(1) t assms(2) by simp
  then have "unat (ROUND_UP (page_to_virt m 0) (2 ^ 22)) = f * 4096"
    using unat_ROUND_UP [of 22 "page_to_virt m 0"] u by (simp add: f_def)
  moreover have "?V \<le> f" "f < ?V + ?N \<longleftrightarrow> 1024 \<le> ?N" using round_up_1024(1,4) [OF ok(2)] by (simp_all only: f_def)
  ultimately show ?thesis
    using virt_to_page_frame [OF assms(1), of _ f 0] by (simp add: sz f_def)
qed

lemma populate_page_correct:
  assumes ok: "region_ok m" "dom (nodes m) = region_cells (npages m)" "nr_free m = (\<lambda>_. 0)"
    "\<forall>q \<le> 10. dlist (nodes m) (FreeHead q) []"
    "\<forall>i. page_allocated (pages m i) = 0 \<and> page_slab (pages m i) = NULL"
    and big: "1024 \<le> npages m"
  shows "\<exists>m'. populate_page 0 (npages m) m = Inr m' \<and> populated m m' 0 (npages m) 0"
proof -
  let ?V = "base_frame m" and ?N = "npages m"
  define p where "p = (?V + 1023) div 1024 * 1024 - ?V"
  have d: "1024 dvd ?V + ?N" using ok(1) by (auto simp: region_ok_def)
  note f = round_up_1024 [OF this]
  have p: "p < 1024" "p < ?N" using f(1,2,4) big unfolding p_def by linarith+
  have "?V + p = (?V + 1023) div 1024 * 1024" using f(1) by (simp add: p_def)
  then have p3: "1024 dvd ?V + p" using f(3) by simp
  have "?N - p = (?V + ?N) - (?V + p)" by simp
  then have "1024 dvd ?N - p" using dvd_diff_nat [OF d p3] by (simp only:)
  then obtain m1 where m1: "fill_forward 10 p ?N m = Inr (?N, m1)" "populated m m1 p ?N 10"
    using fill_forward_max [OF populated_empty [OF ok(1-4) _ ok(5), of p]] p p3 by auto
  then have "fill_orders_forward (Suc 10) p ?N m = Inr (?N, m1)"
    by (subst fill_orders_forward.simps) (simp add: fill_orders_forward_done)
  moreover obtain m2 where "fill_orders_backward 10 p 0 m1 = Inr (0, m2)" "populated m m2 0 ?N 0"
    using fill_orders_backward_correct [OF m1(2)] p p3 by auto
  ultimately show ?thesis
    using first_aligned_page [OF ok(1)] big p(2) unfolding populate_page_def
    by (simp add: p_def [symmetric] BUDDY_MAX_ORDER_def)
qed

section \<open>The layout of physical memory\<close>

text \<open>The pages between the end of the image and the end of memory, and what \<open>init_buddy\<close>
  makes of them: the pages that hold the page array, then the allocatable pages.\<close>

definition avail_pages :: "paddr_t \<Rightarrow> nat" where
  "avail_pages img_end = (0x3F000000 - unat (ROUND_UP img_end PAGE_SIZE)) div 4096"

definition array_pages :: "nat \<Rightarrow> nat" where
  "array_pages P = (P * 4096 div 4128 * 32 + 4095) div 4096"

lemma avail_start:
  assumes "unat img_end \<le> 0x3F000000"
  shows "unat (ROUND_UP img_end PAGE_SIZE) + avail_pages img_end * 4096 = 0x3F000000"
    and "unat (ROUND_UP img_end PAGE_SIZE) = (unat img_end + 4095) div 4096 * 4096"
proof -
  show *: "unat (ROUND_UP img_end PAGE_SIZE) = (unat img_end + 4095) div 4096 * 4096"
    using unat_ROUND_UP [of 12 img_end] assms by (simp add: PAGE_SIZE_eq)
  have "(unat img_end + 4095) div 4096 \<le> 0x3F000" using div_le_mono [of "unat img_end + 4095" "0x3F000FFF" 4096] assms by simp
  then show "unat (ROUND_UP img_end PAGE_SIZE) + avail_pages img_end * 4096 = 0x3F000000"
    using * by (simp add: avail_pages_def)
qed

lemma array_pages_split:
  assumes "P = 129 * q + r" "r < 129"
  shows "array_pages P = q + (if r \<le> 1 then 0 else 1)"
proof -
  have "P * 4096 div 4128 = 128 * q + (r - 1)"
    by (rule div_nat_eqI; cases r; use assms in simp)
  then have a: "array_pages P = ((128 * q + (r - 1)) * 32 + 4095) div 4096" by (simp add: array_pages_def)
  show ?thesis unfolding a by (rule div_nat_eqI; cases r; use assms in simp)
qed

lemma array_pages_bound: "array_pages P \<le> P div 129 + 1"
  using array_pages_split [of P "P div 129" "P mod 129"] by simp

lemma array_fits: "P \<le> 129 * array_pages P \<longleftrightarrow> P mod 129 \<noteq> 1"
proof -
  define q r where "q = P div 129" and "r = P mod 129"
  have "P = 129 * q + r" "r < 129" by (simp_all add: q_def r_def)
  moreover from this have "array_pages P = q + (if r \<le> 1 then 0 else 1)" by (rule array_pages_split)
  ultimately have "P \<le> 129 * array_pages P \<longleftrightarrow> r \<noteq> 1" by auto
  then show ?thesis by (simp add: r_def)
qed

lemma free_start:
  assumes "unat img_end \<le> 0x3F000000"
  defines "a \<equiv> ROUND_UP img_end PAGE_SIZE" and "e \<equiv> ROUND_DOWN PHYS_MEM_END PAGE_SIZE"
  shows "e = 0x3F000000"
    and "unat (ROUND_UP (a + (e - a) div (PAGE_SIZE + sizeof_page) * sizeof_page) PAGE_SIZE) =
      unat a + array_pages (avail_pages img_end) * 4096"
proof -
  let ?P = "avail_pages img_end"
  note A = avail_start [OF assms(1), folded a_def]
  have e: "unat e = 0x3F000000"
    using unat_ROUND_DOWN [of PHYS_MEM_END 12] by (simp add: e_def PHYS_MEM_END_def PAGE_SIZE_eq)
  then show "e = 0x3F000000" by (simp add: word_unat_eq_iff)
  have "a \<le> e" using A(1) e by (simp add: word_le_nat_alt)
  then have "unat (e - a) = ?P * 4096" using A(1) e by (simp add: unat_sub)
  then have n: "unat ((e - a) div (PAGE_SIZE + sizeof_page)) = ?P * 4096 div 4128"
    by (simp add: unat_div_distrib PAGE_SIZE_eq sizeof_page_def)
  have "?P * 4096 \<le> 0x3F000000" using A(1) by linarith
  then have "?P * 4096 div 4128 * 32 \<le> 0x3F000000"
    using div_times_less_eq_dividend [of "?P * 4096" 4128] by linarith
  then have b: "unat (a + (e - a) div (PAGE_SIZE + sizeof_page) * sizeof_page) =
      unat a + ?P * 4096 div 4128 * 32" "unat a + ?P * 4096 div 4128 * 32 + 2 ^ 12 \<le> 2 ^ 64"
    using n A(1) by (simp_all add: sizeof_page_def unat_word_ariths)
  have r: "(unat a + x + 4095) div 4096 * 4096 = unat a + (x + 4095) div 4096 * 4096" for x
    using A(2) by (simp add: add.assoc)
  have c: "(unat a + x + 2 ^ 12 - 1) div 2 ^ 12 * 2 ^ 12 = unat a + (x + 4095) div 4096 * 4096" for x
  proof -
    have "unat a + x + 2 ^ 12 - 1 = unat a + x + 4095" "(2 :: nat) ^ 12 = 4096" by simp_all
    then show ?thesis by (simp only: r)
  qed
  have "PAGE_SIZE = 2 ^ 12" by (simp add: PAGE_SIZE_eq)
  then show "unat (ROUND_UP (a + (e - a) div (PAGE_SIZE + sizeof_page) * sizeof_page) PAGE_SIZE) =
      unat a + array_pages ?P * 4096"
    using unat_ROUND_UP [of 12 "a + (e - a) div (PAGE_SIZE + sizeof_page) * sizeof_page"]
      b c by (simp only: array_pages_def)
qed

text \<open>The region \<open>init_buddy\<close> populates.\<close>

definition boot_region :: "paddr_t \<Rightarrow> u64 \<Rightarrow> mem_region" where
  "boot_region img_end fs = \<lparr>start_addr = phys_to_virt fs, region_size = 0x3F000000 - fs,
     page_arrry = phys_to_virt (ROUND_UP img_end PAGE_SIZE), page_num = (0x3F000000 - fs) div PAGE_SIZE,
     free_lists_lock = 0, nr_free = (\<lambda>_. 0), nodes = zero_nodes (unat ((0x3F000000 - fs) div PAGE_SIZE)),
     pages = (\<lambda>_. zero_page)\<rparr>"

lemma dom_zero_nodes: "dom (zero_nodes n) = region_cells n"
proof (rule set_eqI)
  fix l
  show "l \<in> dom (zero_nodes n) \<longleftrightarrow> l \<in> region_cells n"
    by (cases l) (auto simp: zero_nodes_def region_cells_def BUDDY_MAX_ORDER_def split: if_splits)
qed

lemma boot_region_ok:
  fixes img_end fs :: u64
  assumes "unat fs + N * 4096 = 0x3F000000" "unat fs mod 4096 = 0"
  defines "m \<equiv> boot_region img_end fs"
  shows "npages m = N" and "region_ok m" and "unat (start_addr m) = unat KBASE + unat fs"
proof -
  have le: "fs \<le> 0x3F000000" using assms(1) by (simp add: word_le_nat_alt)
  then have sz: "unat (0x3F000000 - fs) = N * 4096" using assms(1) by (simp add: unat_sub)
  then show n: "npages m = N"
    by (simp add: m_def boot_region_def unat_div_distrib PAGE_SIZE_eq)
  show st: "unat (start_addr m) = unat KBASE + unat fs"
    using assms(1) by (simp add: m_def boot_region_def phys_to_virt_def KBASE_def unat_add_small)
  obtain f where f: "unat fs = 4096 * f" using assms(2) by auto
  then have "base_frame m = 0xFFFFFF0000000 + f" using st by (simp add: base_frame_def KBASE_def)
  moreover have "f + N = 0x3F000" using assms(1) f by simp
  ultimately have "base_frame m + npages m = 0xFFFFFF003F000" using n by simp
  then show "region_ok m"
    using st n sz assms(1) f by (auto simp: region_ok_def m_def boot_region_def KBASE_def)
qed

lemma init_buddy_unfold:
  assumes "unat img_end \<le> 0x3F000000"
  obtains fs where "unat fs = unat (ROUND_UP img_end PAGE_SIZE) + array_pages (avail_pages img_end) * 4096"
    and "init_buddy img_end = bindR (init_free_lists 11 (boot_region img_end fs))
      (populate_page 0 (npages (boot_region img_end fs)))"
proof -
  note e = free_start(1) [OF assms]
  from free_start(2) [OF assms] show ?thesis
    by (rule that) (simp add: init_buddy_def e boot_region_def Let_def BUDDY_MAX_ORDER_def)
qed

text \<open>The size of the region, from the 0x3F000000 bytes the kernel assumes.\<close>

lemma region_pages:
  assumes "unat img_end \<le> 0x3E800000"
  shows "array_pages (avail_pages img_end) + 1024 \<le> avail_pages img_end"
proof -
  have "unat (ROUND_UP img_end PAGE_SIZE) \<le> 0x3E800000"
    using avail_start(2) [of img_end] assms div_le_mono [of "unat img_end + 4095" "0x3E800FFF" 4096] by simp
  then have "2048 \<le> avail_pages img_end" using avail_start(1) [of img_end] assms by simp
  then show ?thesis using array_pages_bound [of "avail_pages img_end"] by simp
qed

lemma init_buddy_correct:
  assumes img: "unat img_end \<le> 0x3E800000"
  obtains m where "init_buddy img_end = Inr m" and "buddy_inv m" and "live_chunks m = {}"
    and "\<forall>i. page_slab (pages m i) = NULL"
    and "npages m + array_pages (avail_pages img_end) = avail_pages img_end"
    and "page_arrry m = phys_to_virt (ROUND_UP img_end PAGE_SIZE)"
    and "unat (start_addr m) = unat (page_arrry m) + array_pages (avail_pages img_end) * 4096"
    and "unat (start_addr m) + npages m * 4096 = unat (phys_to_virt 0x3F000000)"
proof -
  let ?P = "avail_pages img_end" and ?a = "ROUND_UP img_end PAGE_SIZE"
  have img': "unat img_end \<le> 0x3F000000" using img by simp
  note A = avail_start [OF img']
  obtain fs where fs: "unat fs = unat ?a + array_pages ?P * 4096"
      "init_buddy img_end = bindR (init_free_lists 11 (boot_region img_end fs))
         (populate_page 0 (npages (boot_region img_end fs)))"
    using init_buddy_unfold [OF img'] by blast
  let ?m = "boot_region img_end fs" and ?N = "?P - array_pages ?P"
  note big = region_pages [OF img]
  then have big': "1024 \<le> ?N" by simp
  have tot: "unat fs + ?N * 4096 = 0x3F000000" using fs(1) A(1) big by (simp add: diff_mult_distrib)
  have "unat fs mod 4096 = 0" using fs(1) A(2) by simp
  note ok = boot_region_ok [OF tot this, of img_end]
  obtain h where h: "init_free_lists 11 ?m = Inr (?m\<lparr>nodes := h\<rparr>)" "dom h = region_cells (npages ?m)"
      "\<forall>q < 11. dlist h (FreeHead q) []"
    using init_free_lists_correct [of ?m "npages ?m" 11] dom_zero_nodes by (auto simp: boot_region_def)
  define m1 where "m1 = ?m\<lparr>nodes := h\<rparr>"
  have m1: "npages m1 = npages ?m" "region_ok m1"
    using ok(2) by (simp_all add: m1_def region_ok_def base_frame_def)
  have pre: "nodes m1 = h" "nr_free m1 = (\<lambda>_. 0)"
      "\<forall>i. page_allocated (pages m1 i) = 0 \<and> page_slab (pages m1 i) = NULL"
    by (simp_all add: m1_def boot_region_def zero_page_def)
  obtain m' where m': "populate_page 0 (npages m1) m1 = Inr m'" "populated m1 m' 0 (npages m1) 0"
    using populate_page_correct [of m1] m1 pre h(2,3) ok(1) big' by auto
  then have fr: "fresh_from m1 m'" and rep: "\<exists>ch L. buddy_rep m' {} 0 (npages m') ch L"
    using fresh_from_same unfolding populated_def by metis+
  have same: "start_addr m' = start_addr ?m" "page_arrry m' = phys_to_virt ?a" "npages m' = ?N"
      "free_lists_lock m' = 0"
    using fr ok(1) by (auto simp: fresh_from_def m1_def boot_region_def)
  have pa: "unat (phys_to_virt ?a) = unat KBASE + unat ?a" "unat (phys_to_virt 0x3F000000) = unat KBASE + 0x3F000000"
    using A(1) by (simp_all add: phys_to_virt_def KBASE_def unat_add_small)
  show ?thesis
  proof (rule that)
    show "init_buddy img_end = Inr m'" using fs(2) h(1) m'(1) m1(1) by (simp add: m1_def)
    show "buddy_inv m'" using rep same(4) by (simp add: buddy_inv_def)
    show "live_chunks m' = {}" using fr by (auto simp: live_chunks_def fresh_from_def)
    show "\<forall>i. page_slab (pages m' i) = NULL" using fr by (simp add: fresh_from_def)
    show "npages m' + array_pages ?P = ?P" using same(3) big by simp
    show "page_arrry m' = phys_to_virt ?a" by (rule same(2))
    show "unat (start_addr m') = unat (page_arrry m') + array_pages ?P * 4096"
      using same(1,2) ok(3) fs(1) pa(1) by simp
    show "unat (start_addr m') + npages m' * 4096 = unat (phys_to_virt 0x3F000000)"
      using same(1,3) ok(3) tot pa(2) by simp
  qed
qed

end
