(* ===== verification/Alloc_Spec.thy ===== *)
theory Alloc_Spec
  imports KPrelude
begin

text \<open>
  What every memory allocator of the kernel promises, as an interface: a state represents the
  set of objects handed out, an allocation adds one whose memory no other object has, a release
  takes one away, and neither ever faults, hangs or trips an assertion. The lemmas follow a
  client through any sequence of requests. The buddy system and kmalloc are instances.
\<close>

section \<open>A client\<close>

text \<open>A client asks for an object, or gives back the n-th object it holds.\<close>

datatype 'r request = Get 'r | Put nat

fun run_client ::
  "('r \<Rightarrow> 's \<Rightarrow> ('h \<times> 's) result) \<Rightarrow> ('h \<Rightarrow> 's \<Rightarrow> 's result) \<Rightarrow> 'h \<Rightarrow>
   'r request list \<Rightarrow> 'h list \<Rightarrow> 's \<Rightarrow> ('h list \<times> 's) result" where
  "run_client alloc release null [] held s = Inr (held, s)"
| "run_client alloc release null (Get r # rs) held s =
     bindR (alloc r s) (\<lambda>(h, s).
     run_client alloc release null rs (if h = null then held else h # held) s)"
| "run_client alloc release null (Put n # rs) held s =
     (if n < length held
      then bindR (release (held ! n) s) (\<lambda>s.
           run_client alloc release null rs (take n held @ drop (Suc n) held) s)
      else run_client alloc release null rs held s)"

lemma run_client_append:
  "run_client alloc release null (rs @ rs') held s =
     bindR (run_client alloc release null rs held s) (\<lambda>(held, s). run_client alloc release null rs' held s)"
proof (induction alloc release null rs held s rule: run_client.induct)
  case (2 alloc release null r rs held s)
  then show ?case by (cases "alloc r s") auto
next
  case (3 alloc release null n rs held s)
  then show ?case by (cases "release (held ! n) s") auto
qed simp

section \<open>The interface\<close>

definition disjoint_feet :: "('o \<Rightarrow> 'a set) \<Rightarrow> 'o set \<Rightarrow> bool" where
  "disjoint_feet foot A \<longleftrightarrow> (\<forall>x\<in>A. \<forall>y\<in>A. x \<noteq> y \<longrightarrow> foot x \<inter> foot y = {})"

locale object_allocator =
  fixes rep :: "'s \<Rightarrow> 'o set \<Rightarrow> bool"
    and alloc :: "'r \<Rightarrow> 's \<Rightarrow> ('h \<times> 's) result"
    and release :: "'h \<Rightarrow> 's \<Rightarrow> 's result"
    and null :: 'h
    and handle :: "'o \<Rightarrow> 'h"
    and foot :: "'o \<Rightarrow> 'a set"
    and valid :: "'r \<Rightarrow> bool"
    and serves :: "'r \<Rightarrow> 'o \<Rightarrow> bool"
  assumes alloc_law: "rep s A \<Longrightarrow> valid r \<Longrightarrow>
      (\<exists>s'. alloc r s = Inr (null, s') \<and> rep s' A) \<or>
      (\<exists>x s'. alloc r s = Inr (handle x, s') \<and> handle x \<noteq> null \<and> serves r x \<and>
         rep s' (insert x A) \<and> (\<forall>y\<in>A. foot x \<inter> foot y = {}))"
    and release_law: "rep s A \<Longrightarrow> x \<in> A \<Longrightarrow>
      \<exists>s'. release (handle x) s = Inr s' \<and> rep s' (A - {x})"
    and handle_foot: "serves r x \<Longrightarrow> serves r' y \<Longrightarrow> handle x = handle y \<Longrightarrow> foot x \<inter> foot y \<noteq> {}"
begin

text \<open>What a client holds: objects it asked for, with disjoint memory and distinct handles.\<close>

definition held_ok :: "'o list \<Rightarrow> 's \<Rightarrow> bool" where
  "held_ok xs s \<longleftrightarrow> rep s (set xs) \<and> distinct xs \<and> disjoint_feet foot (set xs) \<and>
     (\<forall>x\<in>set xs. \<exists>r. valid r \<and> serves r x)"

lemma held_ok_nil: "rep s {} \<Longrightarrow> held_ok [] s"
  by (simp add: held_ok_def disjoint_feet_def)

lemma held_ok_handles:
  assumes "held_ok xs s"
  shows "distinct (map handle xs)"
proof -
  have "inj_on handle (set xs)"
    using assms handle_foot unfolding held_ok_def inj_on_def disjoint_feet_def by metis
  then show ?thesis using assms by (simp add: held_ok_def distinct_map)
qed

lemma held_ok_get:
  assumes "held_ok xs s" "valid r"
  shows "(\<exists>s'. alloc r s = Inr (null, s') \<and> held_ok xs s') \<or>
    (\<exists>x s'. alloc r s = Inr (handle x, s') \<and> handle x \<noteq> null \<and> held_ok (x # xs) s')"
proof -
  have h: "rep s (set xs)" "distinct xs" "disjoint_feet foot (set xs)"
      "\<forall>x\<in>set xs. \<exists>r. valid r \<and> serves r x"
    using assms(1) by (simp_all add: held_ok_def)
  from alloc_law [OF h(1) assms(2)] show ?thesis
  proof (elim disjE exE conjE)
    fix x s'
    assume x: "alloc r s = Inr (handle x, s')" "handle x \<noteq> null" "serves r x"
      "rep s' (insert x (set xs))" "\<forall>y\<in>set xs. foot x \<inter> foot y = {}"
    have "x \<notin> set xs" using x(3,5) handle_foot [OF x(3,3)] by auto
    then have "held_ok (x # xs) s'"
      using h x assms(2) by (auto simp: held_ok_def disjoint_feet_def)
    then show ?thesis using x by blast
  qed (use h in \<open>auto simp: held_ok_def\<close>)
qed

lemma held_ok_put:
  assumes "held_ok xs s" "n < length xs"
  shows "\<exists>s'. release (handle (xs ! n)) s = Inr s' \<and> held_ok (take n xs @ drop (Suc n) xs) s'"
proof -
  let ?ys = "take n xs @ drop (Suc n) xs"
  have h: "rep s (set xs)" "distinct xs" using assms(1) by (simp_all add: held_ok_def)
  obtain s' where s': "release (handle (xs ! n)) s = Inr s'" "rep s' (set xs - {xs ! n})"
    using release_law [OF h(1)] assms(2) by force
  have "distinct (take n xs @ xs ! n # drop (Suc n) xs)" "set xs = set (take n xs @ xs ! n # drop (Suc n) xs)"
    using h(2) id_take_nth_drop [OF assms(2)] by simp_all
  then have "set ?ys = set xs - {xs ! n}" "distinct ?ys" by auto
  moreover have "disjoint_feet foot (set xs - {xs ! n})" "\<forall>x\<in>set xs - {xs ! n}. \<exists>r. valid r \<and> serves r x"
    using assms(1) by (auto simp: held_ok_def disjoint_feet_def)
  ultimately show ?thesis using s' by (auto simp: held_ok_def)
qed

theorem run_client_safe:
  assumes "held_ok xs s" "\<forall>r. Get r \<in> set rs \<longrightarrow> valid r"
  shows "\<exists>xs' s'. run_client alloc release null rs (map handle xs) s = Inr (map handle xs', s') \<and> held_ok xs' s'"
  using assms
proof (induction rs arbitrary: xs s)
  case (Cons q rs)
  show ?case
  proof (cases q)
    case (Get r)
    then have "valid r" using Cons.prems(2) by simp
    from held_ok_get [OF Cons.prems(1) this] show ?thesis
    proof (elim disjE exE conjE)
      fix s' assume "alloc r s = Inr (null, s')" "held_ok xs s'"
      then show ?thesis using Cons.IH [of xs s'] Cons.prems(2) Get by auto
    next
      fix x s' assume "alloc r s = Inr (handle x, s')" "handle x \<noteq> null" "held_ok (x # xs) s'"
      then show ?thesis using Cons.IH [of "x # xs" s'] Cons.prems(2) Get by auto
    qed
  next
    case (Put n)
    show ?thesis
    proof (cases "n < length xs")
      case True
      from held_ok_put [OF Cons.prems(1) this] obtain s' where
        "release (handle (xs ! n)) s = Inr s'" "held_ok (take n xs @ drop (Suc n) xs) s'" by blast
      then show ?thesis
        using Cons.IH [of "take n xs @ drop (Suc n) xs" s'] Cons.prems(2) Put True
        by (auto simp: take_map drop_map)
    qed (use Cons.IH [of xs s] Cons.prems Put in auto)
  qed
qed auto

text \<open>Giving everything back, in the order of the list, leaves nothing handed out.\<close>

theorem run_client_return_all:
  assumes "held_ok xs s"
  shows "\<exists>s'. run_client alloc release null (replicate (length xs) (Put 0)) (map handle xs) s = Inr ([], s') \<and>
    rep s' {}"
  using assms
proof (induction xs arbitrary: s)
  case Nil
  then show ?case by (simp add: held_ok_def)
next
  case (Cons x xs)
  from held_ok_put [OF Cons.prems, of 0] obtain s' where
    "release (handle x) s = Inr s'" "held_ok xs s'" by auto
  then show ?case using Cons.IH by simp
qed

end

end
