(* ===== verification/Buddy_Props.thy ===== *)
theory Buddy_Props
  imports Buddy_Init Alloc_Spec
begin

text \<open>
  The buddy system as an allocator: the interface of theory Alloc_Spec holds of
  \<open>buddy_get_pages\<close> and \<open>buddy_free_pages\<close>, allocation is complete (it fails only when
  memory is), and the properties of the component are stated.
\<close>

section \<open>The interface\<close>

definition chunks_out :: "mem_region \<Rightarrow> (nat \<times> nat) set \<Rightarrow> bool" where
  "chunks_out m A \<longleftrightarrow> buddy_inv m \<and> live_chunks m = A"

definition chunk_handle :: "nat \<times> nat \<Rightarrow> page_ptr" where
  "chunk_handle = (\<lambda>(i, k). Some i)"

definition chunk_foot :: "nat \<times> nat \<Rightarrow> nat set" where
  "chunk_foot = (\<lambda>(i, k). chunk_pages i k)"

definition order_serves :: "int \<Rightarrow> nat \<times> nat \<Rightarrow> bool" where
  "order_serves ord = (\<lambda>(i, k). ord = int k)"

interpretation buddy: object_allocator chunks_out buddy_get_pages buddy_free_pages None
  chunk_handle chunk_foot "\<lambda>ord. 0 \<le> ord \<and> ord < BUDDY_MAX_ORDER" order_serves
proof
  fix s A and r :: int
  assume rep: "chunks_out s A" and r: "0 \<le> r \<and> r < BUDDY_MAX_ORDER"
  then obtain k where k: "r = int k" "k \<le> 10" by (auto simp: BUDDY_MAX_ORDER_def elim: nonneg_int_cases)
  from rep have inv: "buddy_inv s" "live_chunks s = A" by (auto simp: chunks_out_def)
  show "(\<exists>s'. buddy_get_pages r s = Inr (None, s') \<and> chunks_out s' A) \<or>
    (\<exists>x s'. buddy_get_pages r s = Inr (chunk_handle x, s') \<and> chunk_handle x \<noteq> None \<and> order_serves r x \<and>
       chunks_out s' (insert x A) \<and> (\<forall>y\<in>A. chunk_foot x \<inter> chunk_foot y = {}))"
    using buddy_get_pages_correct [OF inv(1) k(2)] rep inv(2) k(1)
    by (fastforce simp: chunks_out_def chunk_handle_def chunk_foot_def order_serves_def)
next
  fix s A x assume "chunks_out s A" "x \<in> A"
  then show "\<exists>s'. buddy_free_pages (chunk_handle x) s = Inr s' \<and> chunks_out s' (A - {x})"
    using buddy_free_pages_correct [of s "fst x" "snd x"]
    by (auto simp: chunks_out_def chunk_handle_def split: prod.splits)
next
  fix r r' x y assume "order_serves r x" "order_serves r' y" "chunk_handle x = chunk_handle y"
  then show "chunk_foot x \<inter> chunk_foot y \<noteq> {}"
    using pow2_pos_nat [of "snd x"] pow2_pos_nat [of "snd y"]
    by (auto simp: chunk_handle_def chunk_foot_def chunk_pages_def split: prod.splits)
qed

section \<open>Completeness of allocation\<close>

lemma exhausted_blocks:
  assumes inv: "buddy_inv m" and k: "k \<le> 10" and none: "\<forall>q. k \<le> q \<and> q \<le> 10 \<longrightarrow> nr_free m q = 0"
    and i: "2 ^ k dvd base_frame m + i" "i + 2 ^ k \<le> npages m"
  shows "\<exists>(j, q) \<in> live_chunks m. chunk_pages i k \<inter> chunk_pages j q \<noteq> {}"
proof (rule ccontr)
  assume no: "\<not> ?thesis"
  obtain ch L where rep: "buddy_rep m {} 0 (npages m) ch L" using inv by (auto simp: buddy_inv_def)
  note r = buddy_repD [OF rep]
  have free: "c \<in> set (L q)" if "ch c = Some q" "chunk_pages i k \<inter> chunk_pages c q \<noteq> {}" for c q
  proof -
    have "(c, q) \<notin> live_chunks m" using no that(2) by blast
    then have "page_allocated (pages m c) = 0"
      using live_chunks_iff [OF rep, of c q] r(5) chunks_okD(5) [OF r(3) that(1)] that(1)
      by (auto simp: pages_agree_def)
    then show ?thesis using lists_agreeD(2) [OF r(8)] chunks_okD(3) [OF r(3) that(1)] that(1) by simp
  qed
  have meets: "chunk_pages i k \<inter> chunk_pages c q \<noteq> {}" if "c \<le> x" "x < c + 2 ^ q" "i \<le> x" "x < i + 2 ^ k" for c q x
    using that by (auto simp: chunk_pages_def)
  have "\<exists>c q. ch c = Some q \<and> k \<le> q \<and> c \<le> i \<and> i + 2 ^ k \<le> c + 2 ^ q"
  proof (rule coalesced_block [OF r(3) _ i(1) _ i(2)])
    fix c b q assume a: "ch c = Some q" "ch b = Some q" "q < k" "i \<le> c" "c < i + 2 ^ k" "i \<le> b" "b < i + 2 ^ k"
    have "c \<in> set (L q)" "b \<in> set (L q)"
      using a meets [of c c q] meets [of b b q] free by auto
    then show "\<not> buddies (base_frame m) q c b" using r(9) a(3) k by (auto simp: coalesced_def)
  qed simp
  then obtain c q where c: "ch c = Some q" "k \<le> q" "c \<le> i" "i + 2 ^ k \<le> c + 2 ^ q" by blast
  moreover have "chunk_pages i k \<inter> chunk_pages c q \<noteq> {}"
    using c(3,4) pow2_pos_nat [of k] by (intro meets [of c i]) linarith+
  ultimately have "c \<in> set (L q)" "q \<le> 10" using free chunks_okD(3) [OF r(3)] by auto
  then show False using none c(2) nr_free_zero [OF rep, of q] by auto
qed

section \<open>Sizes\<close>

lemma size_to_page_order_loop_spec:
  assumes "k \<le> 10" "unat sz \<le> 2 ^ 22" "k = 0 \<or> 2 ^ (11 + k) < unat sz"
  shows "\<exists>q. size_to_page_order_loop sz k = int q \<and> k \<le> q \<and> q \<le> 10 \<and> unat sz \<le> 2 ^ (12 + q) \<and>
    (q = 0 \<or> 2 ^ (11 + q) < unat sz)"
  using assms
proof (induction "10 - k" arbitrary: k)
  case 0
  have "k = 10" using 0 by simp
  moreover have "\<not> sz > BUDDY_CHUNK_SIZE 10"
    using 0(3) BUDDY_CHUNK_SIZE_eq [of 10] by (simp add: word_less_nat_alt unat_2p)
  ultimately show ?case using 0 by (subst size_to_page_order_loop.simps) auto
next
  case (Suc n)
  have sz: "sz > BUDDY_CHUNK_SIZE (int k) \<longleftrightarrow> 2 ^ (12 + k) < unat sz"
    using Suc by (simp add: BUDDY_CHUNK_SIZE_eq word_less_nat_alt unat_2p)
  show ?case
  proof (cases "2 ^ (12 + k) < unat sz")
    case True
    then have "size_to_page_order_loop sz k = size_to_page_order_loop sz (Suc k)"
      using sz Suc by (subst size_to_page_order_loop.simps) (simp add: BUDDY_MAX_ORDER_def)
    moreover have "n = 10 - Suc k" "Suc k \<le> 10" "2 ^ (11 + Suc k) < unat sz" using Suc(2) True by auto
    ultimately show ?thesis using Suc.hyps(1) [of "Suc k"] Suc.prems(2) by auto
  next
    case False
    then have "size_to_page_order_loop sz k = int k"
      using sz by (subst size_to_page_order_loop.simps) simp
    then show ?thesis using False Suc.prems by auto
  qed
qed

lemma size_to_page_order_fits:
  assumes "0 < unat sz" "unat sz \<le> 2 ^ 22"
  obtains k where "size_to_page_order sz = int k" "k \<le> 10" "unat sz \<le> 2 ^ (12 + k)"
    "k = 0 \<or> 2 ^ (11 + k) < unat sz"
proof -
  have "sz \<noteq> 0" "\<not> sz > BUDDY_CHUNK_SIZE (BUDDY_MAX_ORDER - 1)"
    using assms BUDDY_CHUNK_SIZE_eq [of 10]
    by (auto simp: word_less_nat_alt unat_2p BUDDY_MAX_ORDER_def)
  then show ?thesis
    using that size_to_page_order_loop_spec [of 0 sz] assms(2) by (auto simp: size_to_page_order_def)
qed

lemma all_free:
  assumes "buddy_inv m" "live_chunks m = {}"
  shows "get_free_mem_size_from_buddy m = region_size m"
  using free_mem_size [OF assms(1)] assms(2)
  by (simp add: live_pages_def get_total_mem_size_from_buddy_def word_unat_eq_iff)

text \<open>A region of one page, which is handed out.\<close>

definition full_region :: mem_region where
  "full_region = \<lparr>start_addr = 0x3FF000, region_size = 4096, page_arrry = 0x3FE000, page_num = 1,
     free_lists_lock = 0, nr_free = (\<lambda>_. 0),
     nodes = (\<lambda>l. case l of LNull \<Rightarrow> None
       | FreeHead k \<Rightarrow> if k \<le> 10 then Some \<lparr>lh_prev = l, lh_next = l\<rparr> else None
       | PageNode i \<Rightarrow> if i < 1 then Some \<lparr>lh_prev = LNull, lh_next = LNull\<rparr> else None),
     pages = (\<lambda>i. \<lparr>page_allocated = (if i = 0 then 1 else 0), page_order = 0, page_slab = NULL\<rparr>)\<rparr>"

lemma full_region_inv: "buddy_inv full_region" "live_chunks full_region = {(0, 0)}"
  "base_frame full_region = 1023" "npages full_region = 1"
proof -
  let ?m = full_region
  show f: "base_frame ?m = 1023" "npages ?m = 1" by (simp_all add: full_region_def base_frame_def)
  have "region_ok ?m" using f by (simp add: region_ok_def) (simp add: full_region_def)
  moreover have "chunks_ok 1023 0 1 [0 \<mapsto> 0]" by (auto simp: chunks_ok_def)
  moreover have "dom (nodes ?m) = region_cells 1"
  proof (rule set_eqI)
    fix l show "l \<in> dom (nodes ?m) \<longleftrightarrow> l \<in> region_cells 1"
      by (cases l) (auto simp: full_region_def region_cells_def split: if_splits)
  qed
  moreover have "list_family (dlist (nodes ?m)) (free_family (\<lambda>_. []))"
    by (auto simp: list_family_def free_family_def dlist_def get_next_def get_prev_def full_region_def
        split: lnode.splits if_splits)
  moreover have "pages_agree ?m [0 \<mapsto> 0]" "lists_agree ?m {} [0 \<mapsto> 0] (\<lambda>_. [])"
    by (auto simp: pages_agree_def lists_agree_def full_region_def)
  ultimately have "buddy_rep ?m {} 0 (npages ?m) [0 \<mapsto> 0] (\<lambda>_. [])"
    using f by (simp add: buddy_rep_def coalesced_def)
  then show "buddy_inv ?m" unfolding buddy_inv_def by (auto simp: full_region_def)
  show "live_chunks ?m = {(0, 0)}" by (auto simp: live_chunks_def full_region_def)
qed

section \<open>Properties\<close>

text \<open>A region as \<open>init_buddy\<close> leaves it, for an image that ends at 1MB.\<close>

lemma boot_example: "\<exists>m. init_buddy 0x100000 = Inr m \<and> buddy_inv m \<and> live_chunks m = {} \<and> 1024 \<le> npages m"
proof -
  have img: "unat (0x100000 :: u64) \<le> 0x3E800000" by simp
  from init_buddy_correct [OF img] obtain m where "init_buddy 0x100000 = Inr m" "buddy_inv m" "live_chunks m = {}"
      "npages m + array_pages (avail_pages 0x100000) = avail_pages 0x100000" by metis
  then show ?thesis using region_pages [OF img] by auto
qed

text \<open>C7: \<open>buddy_get_pages\<close> on every region that satisfies the invariant returns, keeps the invariant
  and the layout, and either hands out a chunk of the order asked for, inside the region, aligned to
  its size and disjoint from every chunk already handed out, or returns NULL, changes nothing, and
  no free list of that or a higher order has a chunk.\<close>

theorem buddy_get_pages_spec:
  assumes "buddy_inv m" "k \<le> 10"
  shows "(\<exists>i m'. buddy_get_pages (int k) m = Inr (Some i, m') \<and> buddy_inv m' \<and> same_layout m m' \<and>
            i + 2 ^ k \<le> npages m \<and> 2 ^ k dvd base_frame m + i \<and>
            live_chunks m' = insert (i, k) (live_chunks m) \<and>
            (\<forall>(j, q) \<in> live_chunks m. chunk_pages i k \<inter> chunk_pages j q = {})) \<or>
         (buddy_get_pages (int k) m = Inr (None, m) \<and> (\<forall>q. k \<le> q \<and> q \<le> 10 \<longrightarrow> nr_free m q = 0))"
  by (rule buddy_get_pages_correct [OF assms])

theorem buddy_get_pages_spec_witness:
  "\<exists>m. init_buddy 0x100000 = Inr m \<and>
    ((\<exists>i m'. buddy_get_pages (int 3) m = Inr (Some i, m') \<and> live_chunks m' = insert (i, 3) (live_chunks m)) \<or>
     buddy_get_pages (int 3) m = Inr (None, m))"
proof -
  obtain m where m: "init_buddy 0x100000 = Inr m" "buddy_inv m" using boot_example by blast
  have "3 \<le> (10 :: nat)" by simp
  from buddy_get_pages_spec [OF m(2) this] m(1) show ?thesis by blast
qed

text \<open>C16: allocation is complete. When \<open>buddy_get_pages\<close> returns NULL, every aligned block of that
  many pages in the region meets a chunk that is handed out: merging on release leaves no aligned
  free block split into pieces.\<close>

theorem buddy_get_pages_complete:
  assumes "buddy_inv m" "k \<le> 10" "buddy_get_pages (int k) m = Inr (None, m')"
    and "2 ^ k dvd base_frame m + i" "i + 2 ^ k \<le> npages m"
  shows "m' = m \<and> (\<exists>(j, q) \<in> live_chunks m. chunk_pages i k \<inter> chunk_pages j q \<noteq> {})"
  using buddy_get_pages_correct [OF assms(1,2)] exhausted_blocks [OF assms(1,2) _ assms(4,5)] assms(3) by auto

theorem buddy_get_pages_complete_witness:
  "buddy_get_pages (int 0) full_region = Inr (None, full_region) \<and>
   (\<exists>(j, q) \<in> live_chunks full_region. chunk_pages 0 0 \<inter> chunk_pages j q \<noteq> {})"
proof -
  have run: "buddy_get_pages (int 0) full_region = Inr (None, full_region)"
    using buddy_get_pages_correct [OF full_region_inv(1), of 0] full_region_inv(2,4) by (auto simp: chunk_pages_def)
  from buddy_get_pages_complete [OF full_region_inv(1) _ run, of 0] full_region_inv(3,4) run
  show ?thesis by simp
qed

text \<open>C8: \<open>buddy_free_pages\<close> of a chunk that is handed out returns, keeps the invariant (the merged
  chunk has no free buddy left), and takes exactly that chunk out of the chunks handed out.\<close>

theorem buddy_free_pages_spec:
  assumes "buddy_inv m" "(c, k) \<in> live_chunks m"
  shows "\<exists>m'. buddy_free_pages (Some c) m = Inr m' \<and> buddy_inv m' \<and> same_layout m m' \<and>
    live_chunks m' = live_chunks m - {(c, k)}"
  by (rule buddy_free_pages_correct [OF assms])

theorem buddy_free_pages_spec_witness:
  "\<exists>m'. buddy_free_pages (Some 0) full_region = Inr m' \<and> buddy_inv m' \<and> live_chunks m' = {}"
  using buddy_free_pages_spec [OF full_region_inv(1), of 0 0] full_region_inv(2) by auto

text \<open>The counters are exact. The free memory the buddy system reports and the memory of the
  chunks handed out add up to the region, with no wrap-around of the 64-bit sums.\<close>

lemma buddy_accounting:
  assumes "buddy_inv m"
  shows "unat (get_free_pages_nums_from_buddy m) + live_pages m = npages m \<and>
    unat (get_free_mem_size_from_buddy m) + live_pages m * 4096 = unat (get_total_mem_size_from_buddy m)"
  using free_pages_count [OF assms] free_mem_size [OF assms] by simp

text \<open>C17: \<open>init_buddy\<close> establishes the invariant for every kernel image that leaves 8MB of memory: all
  pages from the page array to the end of memory are free and in the largest chunks possible.\<close>

theorem init_buddy_spec:
  assumes "unat img_end \<le> 0x3E800000"
  shows "\<exists>m. init_buddy img_end = Inr m \<and> buddy_inv m \<and> live_chunks m = {} \<and> 1024 \<le> npages m \<and>
    get_free_mem_size_from_buddy m = region_size m \<and>
    unat (start_addr m) + npages m * 4096 = unat (phys_to_virt PHYS_MEM_END)"
proof -
  obtain m where m: "init_buddy img_end = Inr m" "buddy_inv m" "live_chunks m = {}"
      "npages m + array_pages (avail_pages img_end) = avail_pages img_end"
      "unat (start_addr m) + npages m * 4096 = unat (phys_to_virt 0x3F000000)"
    using init_buddy_correct [OF assms] by metis
  then show ?thesis using region_pages [OF assms] all_free [OF m(2,3)] by (auto simp: PHYS_MEM_END_def)
qed

theorem init_buddy_spec_witness:
  "\<exists>m. init_buddy 0x100000 = Inr m \<and> buddy_inv m \<and> live_chunks m = {} \<and> 1024 \<le> npages m"
  using init_buddy_spec [of "0x100000"] by auto

text \<open>C34: \<open>init_buddy\<close> counts the pages again after rounding the start of the free memory up, which
  can give one page more than the array has room for: the 32-byte entries of all pages lie below the
  first allocatable page exactly when the number of available pages is not 1 modulo 129.\<close>

theorem page_array_fits:
  assumes "unat img_end \<le> 0x3E800000"
  shows "\<exists>m. init_buddy img_end = Inr m \<and>
    (unat (page_arrry m) + npages m * 32 \<le> unat (start_addr m) \<longleftrightarrow> avail_pages img_end mod 129 \<noteq> 1)"
proof -
  let ?P = "avail_pages img_end"
  obtain m where m: "init_buddy img_end = Inr m" "npages m + array_pages ?P = ?P"
      "unat (start_addr m) = unat (page_arrry m) + array_pages ?P * 4096"
    using init_buddy_correct [OF assms] by metis
  have "unat (page_arrry m) + npages m * 32 \<le> unat (start_addr m) \<longleftrightarrow> ?P \<le> 129 * array_pages ?P"
    using m(2,3) by linarith
  then show ?thesis using m(1) array_fits [of ?P] by blast
qed

text \<open>The image of 0xB0000 bytes leaves 0x3EF50 pages: the entry of the last page overlaps page 0.\<close>

theorem page_array_fits_witness:
  "\<exists>m. init_buddy 0xB0000 = Inr m \<and> unat (start_addr m) < unat (page_arrry m) + npages m * 32"
proof -
  have "avail_pages 0xB0000 mod 129 = 1"
    using avail_start(2) [of "0xB0000"] by (simp add: avail_pages_def)
  then show ?thesis using page_array_fits [of "0xB0000"] by (auto simp: not_le)
qed

text \<open>C2: from boot on, whatever sequence of allocations of legal orders and releases of held chunks
  a client performs, every call returns, and the chunks it holds are disjoint and exactly those the
  buddy system counts as handed out.\<close>

theorem buddy_client_safe:
  assumes "unat img_end \<le> 0x3E800000" "\<forall>ord. Get ord \<in> set rs \<longrightarrow> 0 \<le> ord \<and> ord < BUDDY_MAX_ORDER"
  shows "\<exists>m xs m'. init_buddy img_end = Inr m \<and>
    run_client buddy_get_pages buddy_free_pages None rs [] m = Inr (map chunk_handle xs, m') \<and>
    buddy_inv m' \<and> live_chunks m' = set xs \<and> distinct (map chunk_handle xs) \<and> disjoint_feet chunk_foot (set xs)"
proof -
  obtain m where m: "init_buddy img_end = Inr m" "chunks_out m {}"
    using init_buddy_correct [OF assms(1)] by (metis chunks_out_def)
  then show ?thesis
    using buddy.run_client_safe [OF buddy.held_ok_nil [OF m(2)] assms(2)] buddy.held_ok_handles
    unfolding buddy.held_ok_def chunks_out_def by (metis list.simps(8))
qed

theorem buddy_client_safe_witness:
  "\<exists>m xs m'. init_buddy 0x100000 = Inr m \<and>
    run_client buddy_get_pages buddy_free_pages None [Get 0, Get 10, Put 1, Get 3] [] m =
      Inr (map chunk_handle xs, m') \<and> disjoint_feet chunk_foot (set xs)"
proof -
  have "\<forall>ord. Get ord \<in> set [Get 0, Get 10, Put 1, Get 3] \<longrightarrow> 0 \<le> ord \<and> ord < BUDDY_MAX_ORDER"
    by (auto simp: BUDDY_MAX_ORDER_def)
  from buddy_client_safe [OF _ this, of "0x100000"] show ?thesis by auto
qed

text \<open>C14: nothing leaks. When the client then gives back everything it holds, the buddy system again
  reports the whole region as free.\<close>

theorem buddy_no_leak:
  assumes "unat img_end \<le> 0x3E800000" "\<forall>ord. Get ord \<in> set rs \<longrightarrow> 0 \<le> ord \<and> ord < BUDDY_MAX_ORDER"
  shows "\<exists>m n m'. init_buddy img_end = Inr m \<and>
    run_client buddy_get_pages buddy_free_pages None (rs @ replicate n (Put 0)) [] m = Inr ([], m') \<and>
    buddy_inv m' \<and> live_chunks m' = {} \<and> get_free_mem_size_from_buddy m' = region_size m'"
proof -
  obtain m where m: "init_buddy img_end = Inr m" "chunks_out m {}"
    using init_buddy_correct [OF assms(1)] by (metis chunks_out_def)
  obtain xs m1 where 1: "run_client buddy_get_pages buddy_free_pages None rs [] m = Inr (map chunk_handle xs, m1)"
      "buddy.held_ok xs m1"
    using buddy.run_client_safe [OF buddy.held_ok_nil [OF m(2)] assms(2)] by auto
  obtain m2 where 2: "run_client buddy_get_pages buddy_free_pages None (replicate (length xs) (Put 0))
      (map chunk_handle xs) m1 = Inr ([], m2)" "chunks_out m2 {}"
    using buddy.run_client_return_all [OF 1(2)] by blast
  have "buddy_inv m2" "live_chunks m2 = {}" using 2(2) by (auto simp: chunks_out_def)
  moreover have "run_client buddy_get_pages buddy_free_pages None (rs @ replicate (length xs) (Put 0)) [] m = Inr ([], m2)"
    using 1(1) 2(1) by (simp add: run_client_append)
  ultimately show ?thesis using m(1) all_free by blast
qed

theorem buddy_no_leak_witness:
  "\<exists>m n m'. init_buddy 0x100000 = Inr m \<and>
    run_client buddy_get_pages buddy_free_pages None ([Get 2, Get 9] @ replicate n (Put 0)) [] m = Inr ([], m') \<and>
    get_free_mem_size_from_buddy m' = region_size m'"
proof -
  have "\<forall>ord. Get ord \<in> set [Get 2, Get 9] \<longrightarrow> 0 \<le> ord \<and> ord < BUDDY_MAX_ORDER"
    by (auto simp: BUDDY_MAX_ORDER_def)
  from buddy_no_leak [OF _ this, of "0x100000"] show ?thesis by auto
qed

text \<open>\<open>virt_to_page\<close> maps every address of a page back to it, and only addresses of the region
  to a page.\<close>

lemma virt_page_roundtrip:
  assumes "buddy_inv m" "i < npages m" "unat off < 4096"
  shows "virt_to_page m (page_to_virt m i + off) = Some i"
proof -
  have ok: "region_ok m" using assms(1) buddy_repD(1) by (auto simp: buddy_inv_def)
  have "(base_frame m + i) * 4096 + 4096 \<le> (base_frame m + npages m) * 4096" using assms(2) by simp
  also have "\<dots> < 2 ^ 64" using ok base_frame_start [OF ok] by (simp add: region_ok_def algebra_simps)
  finally have "unat (page_to_virt m i + off) = (base_frame m + i) * 4096 + unat off"
    using unat_page_to_virt [OF ok assms(2)] assms(3) by (simp add: unat_add_small)
  from virt_to_page_frame [OF ok this assms(3)] show ?thesis using assms(2) by simp
qed

text \<open>\<open>size_to_page_order\<close> gives the smallest order whose chunks hold the size, for all sizes up to
  the largest chunk, and -1 for size 0 and for larger sizes.\<close>

lemma size_to_page_order_spec:
  "if sz = 0 \<or> unat sz > 2 ^ 22 then size_to_page_order sz = -1
   else \<exists>k \<le> 10. size_to_page_order sz = int k \<and> unat sz \<le> unat (BUDDY_CHUNK_SIZE (int k)) \<and>
     (k = 0 \<or> unat (BUDDY_CHUNK_SIZE (int k - 1)) < unat sz)"
proof (cases "sz = 0 \<or> unat sz > 2 ^ 22")
  case True
  then show ?thesis using BUDDY_CHUNK_SIZE_eq [of 10]
    by (auto simp: size_to_page_order_def BUDDY_MAX_ORDER_def word_less_nat_alt unat_2p)
next
  case False
  then have "0 < unat sz" "unat sz \<le> 2 ^ 22" by (auto simp: unat_gt_0)
  from size_to_page_order_fits [OF this] obtain k where k: "size_to_page_order sz = int k" "k \<le> 10"
    "unat sz \<le> 2 ^ (12 + k)" "k = 0 \<or> 2 ^ (11 + k) < unat sz" .
  have "unat (BUDDY_CHUNK_SIZE (int k)) = 2 ^ (12 + k)" "k \<noteq> 0 \<Longrightarrow> unat (BUDDY_CHUNK_SIZE (int k - 1)) = 2 ^ (11 + k)"
    using k(2) BUDDY_CHUNK_SIZE_eq [of k] BUDDY_CHUNK_SIZE_eq [of "k - 1"] by (auto simp: unat_2p of_nat_diff)
  then show ?thesis using False k by (cases "k = 0") auto
qed

end
