(* ===== verification/Slab_Correct.thy ===== *)
theory Slab_Correct
  imports Slab Buddy_Props
begin

text \<open>
  The invariant of the slab allocator and the correctness of its operations. The ghost map \<open>S\<close>
  gives the order and the chain of free block numbers of every slab, \<open>P\<close> the partial lists.
  \<open>slab_core\<close> relates them to memory, \<open>pool_ok\<close> says which slabs the containers know.
\<close>

section \<open>The geometry of a slab\<close>

definition blk :: "vaddr_t \<Rightarrow> nat \<Rightarrow> nat \<Rightarrow> vaddr_t" where
  "blk s ord j = s + of_nat (j * 2 ^ ord)"

abbreviation blocks_of :: "nat \<Rightarrow> nat" where
  "blocks_of ord \<equiv> 2 ^ (17 - ord)"

definition slab_at :: "mem_region \<Rightarrow> vaddr_t \<Rightarrow> nat \<Rightarrow> bool" where
  "slab_at m s i \<longleftrightarrow> (i, 5) \<in> live_chunks m \<and> s = page_to_virt m i"

lemma blocks_of_times: "ord \<le> 17 \<Longrightarrow> blocks_of ord * 2 ^ ord = (2 ^ 17 :: nat)"
  by (simp add: power_add [symmetric])

lemma block_offset:
  assumes "ord \<le> 17" "j < blocks_of ord"
  shows "j * 2 ^ ord + 2 ^ ord \<le> (2 ^ 17 :: nat)"
proof -
  have "Suc j * 2 ^ ord \<le> blocks_of ord * (2 :: nat) ^ ord" using assms(2) by (intro mult_right_mono) auto
  then show ?thesis using blocks_of_times [OF assms(1)] by simp
qed

lemma block_start:
  assumes "ord \<le> 17" "j < blocks_of ord"
  shows "j * 2 ^ ord < (2 ^ 17 :: nat)"
  using block_offset [OF assms] pow2_pos_nat [of ord] by linarith

lemma unat_blk:
  assumes "ord \<le> 17" "j < blocks_of ord" "unat s + 2 ^ 17 < 2 ^ 64"
  shows "unat (blk s ord j) = unat s + j * 2 ^ ord"
proof -
  show ?thesis using block_start [OF assms(1,2)] assms(3) by (simp only: blk_def unat_add_small unat_of_nat_small)
qed

lemma blk_inj:
  assumes "ord \<le> 17" "unat s + 2 ^ 17 < 2 ^ 64" "j < blocks_of ord" "j' < blocks_of ord" "blk s ord j = blk s ord j'"
  shows "j = j'"
proof -
  have "j * 2 ^ ord = j' * 2 ^ ord"
    using unat_blk [OF assms(1,3,2)] unat_blk [OF assms(1,4,2)] assms(5) by (metis add_left_cancel)
  then show ?thesis by simp
qed

lemma slab_at_facts:
  assumes "buddy_inv m" "slab_at m s i"
  shows "i + 32 \<le> npages m" "unat s = (base_frame m + i) * 4096" "unat s + 2 ^ 17 < 2 ^ 64"
    "\<And>off. off < 2 ^ 17 \<Longrightarrow> virt_to_page m (s + of_nat off) = Some (i + off div 4096)"
proof -
  obtain ch L where rep: "buddy_rep m {} 0 (npages m) ch L" using assms(1) by (auto simp: buddy_inv_def)
  note r = buddy_repD [OF rep]
  have "ch i = Some 5" using assms(2) live_chunks_iff [OF rep, of i 5] by (auto simp: slab_at_def)
  from chunks_okD(2) [OF r(3) this] show i: "i + 32 \<le> npages m" by simp
  then show s: "unat s = (base_frame m + i) * 4096"
    using unat_page_to_virt [OF r(1), of i] assms(2) by (simp add: slab_at_def)
  have "(base_frame m + i + 32) * 4096 \<le> (base_frame m + npages m) * 4096" using i by simp
  also have "\<dots> < 2 ^ 64" using r(1) base_frame_start [OF r(1)] by (simp add: region_ok_def algebra_simps)
  finally show lt: "unat s + 2 ^ 17 < 2 ^ 64" using s by simp
  fix off :: nat assume off: "off < 2 ^ 17"
  then have "unat (s + of_nat off) = (base_frame m + i + off div 4096) * 4096 + off mod 4096"
    using s lt by (simp add: unat_add_small unat_of_nat_small algebra_simps)
  moreover have "off div 4096 < 32" using off by (simp add: less_mult_imp_div_less)
  ultimately show "virt_to_page m (s + of_nat off) = Some (i + off div 4096)"
    using virt_to_page_frame [OF r(1), of _ "base_frame m + i + off div 4096" "off mod 4096"] i by simp
qed

lemma slab_at_nonnull:
  assumes "buddy_inv m" "slab_at m s i" "0 < base_frame m"
  shows "s \<noteq> NULL"
  using slab_at_facts(2) [OF assms(1,2)] assms(3) by auto

lemma slab_at_unique:
  assumes "buddy_inv m" "slab_at m s i" "slab_at m s i'"
  shows "i = i'"
  using slab_at_facts(2) [OF assms(1,2)] slab_at_facts(2) [OF assms(1,3)] by simp

text \<open>Slabs at different addresses have no page, and so no address, in common.\<close>

lemma live_chunks_disjoint:
  assumes "buddy_inv m" "(i, k) \<in> live_chunks m" "(j, q) \<in> live_chunks m" "i \<noteq> j"
  shows "chunk_pages i k \<inter> chunk_pages j q = {}"
proof -
  obtain ch L where rep: "buddy_rep m {} 0 (npages m) ch L" using assms(1) by (auto simp: buddy_inv_def)
  show ?thesis
    using chunks_ok_disjoint [OF buddy_repD(3) [OF rep]] assms(2-4) live_chunks_iff [OF rep] by blast
qed

lemma slab_ranges:
  assumes "buddy_inv m" "slab_at m s i" "slab_at m s' i'" "s \<noteq> s'"
    "unat a = unat s + x" "x < 2 ^ 17" "unat a = unat s' + y" "y < 2 ^ 17"
  shows False
proof -
  have d: "chunk_pages i 5 \<inter> chunk_pages i' 5 = {}"
    using live_chunks_disjoint [OF assms(1), of i 5 i' 5] assms(2,3,4) unfolding slab_at_def by blast
  have "(base_frame m + i) * 4096 + x = (base_frame m + i') * 4096 + y"
    using slab_at_facts(2) [OF assms(1,2)] slab_at_facts(2) [OF assms(1,3)] assms(5,7) by simp
  then have "i * 4096 + x = i' * 4096 + y" by (simp add: algebra_simps)
  then have "(i * 4096 + x) div 4096 = (i' * 4096 + y) div 4096" by simp
  then have "i + x div 4096 = i' + y div 4096" by simp
  moreover have "x div 4096 < 32" "y div 4096 < 32" using assms(6,8) by (simp_all add: less_mult_imp_div_less)
  ultimately have "i + x div 4096 \<in> chunk_pages i 5 \<inter> chunk_pages i' 5" by (simp add: chunk_pages_def)
  then show False using d by blast
qed

lemma blk_apart:
  assumes "buddy_inv m" "slab_at m s i" "slab_at m s' i'" "s \<noteq> s'"
    "ord \<le> 17" "j < blocks_of ord" "ord' \<le> 17" "j' < blocks_of ord'"
  shows "blk s ord j \<noteq> blk s' ord' j'"
proof
  assume eq: "blk s ord j = blk s' ord' j'"
  show False
    by (rule slab_ranges [OF assms(1-4) unat_blk [OF assms(5,6) slab_at_facts(3) [OF assms(1,2)]]
          block_start [OF assms(5,6)] _ block_start [OF assms(7,8)]])
      (simp only: eq unat_blk [OF assms(7,8) slab_at_facts(3) [OF assms(1,3)]])
qed

lemma blk_page:
  assumes "buddy_inv m" "slab_at m s i" "ord \<le> 17" "j < blocks_of ord"
  obtains p where "virt_to_page m (blk s ord j) = Some p" "p \<in> chunk_pages i 5"
proof -
  note st = block_start [OF assms(3,4)]
  then have "j * 2 ^ ord div 4096 < 32" by (simp add: less_mult_imp_div_less)
  then have "i + j * 2 ^ ord div 4096 \<in> chunk_pages i 5" by (simp add: chunk_pages_def)
  then show ?thesis using that slab_at_facts(4) [OF assms(1,2) st] unfolding blk_def by blast
qed

section \<open>The invariant\<close>

type_synonym slab_ghost = "vaddr_t \<rightharpoonup> nat \<times> nat list"

definition chain_ptr :: "vaddr_t \<Rightarrow> nat \<Rightarrow> nat list \<Rightarrow> vaddr_t" where
  "chain_ptr s ord F = (case F of [] \<Rightarrow> NULL | j # _ \<Rightarrow> blk s ord j)"

fun chain :: "(vaddr_t \<Rightarrow> vaddr_t) \<Rightarrow> vaddr_t \<Rightarrow> nat \<Rightarrow> nat list \<Rightarrow> bool" where
  "chain nb s ord [] = True"
| "chain nb s ord (j # F) = (nb (blk s ord j) = chain_ptr s ord F \<and> chain nb s ord F)"

definition free_set_ok :: "nat \<Rightarrow> nat list \<Rightarrow> bool" where
  "free_set_ok ord F \<longleftrightarrow> 6 \<le> ord \<and> ord \<le> 11 \<and> distinct F \<and> set F \<subseteq> {1..<blocks_of ord}"

definition header_ok :: "kmem \<Rightarrow> vaddr_t \<Rightarrow> nat \<Rightarrow> nat list \<Rightarrow> bool" where
  "header_ok k s ord F \<longleftrightarrow> free_set_ok ord F \<and>
     headers k s = \<lparr>slab_order = int ord, next_free_block = chain_ptr s ord F,
       free_block_count = of_nat (length F), total_block_count = of_nat (blocks_of ord)\<rparr> \<and>
     chain (next_block k) s ord F"

definition partial_family :: "(nat \<Rightarrow> vaddr_t list) \<Rightarrow> (snode \<rightharpoonup> snode list)" where
  "partial_family P l =
     (case l of PartialHead ix \<Rightarrow> if ix < 6 then Some (map SlabNode (P ix)) else None | _ \<Rightarrow> None)"

definition slab_cells :: "snode set" where
  "slab_cells = PartialHead ` {..<6} \<union> range SlabNode"

definition slab_placed :: "mem_region \<Rightarrow> vaddr_t \<Rightarrow> bool" where
  "slab_placed m s \<longleftrightarrow> (\<exists>i. slab_at m s i \<and> (\<forall>j \<in> chunk_pages i 5. page_slab (pages m j) = s))"

definition slab_core :: "kmem \<Rightarrow> slab_ghost \<Rightarrow> (nat \<Rightarrow> vaddr_t list) \<Rightarrow> bool" where
  "slab_core k S P \<longleftrightarrow>
     buddy_inv (region k) \<and> 0 < base_frame (region k) \<and>
     (\<forall>s ord F. S s = Some (ord, F) \<longrightarrow> header_ok k s ord F \<and> slab_placed (region k) s) \<and>
     (\<forall>j < npages (region k). page_slab (pages (region k) j) \<noteq> NULL \<longrightarrow>
        (\<exists>s i. S s \<noteq> None \<and> slab_at (region k) s i \<and> j \<in> chunk_pages i 5)) \<and>
     dom (snodes k) = slab_cells \<and> list_family (dlist (snodes k)) (partial_family P)"

text \<open>One container: its current slab has a free block, its partial list holds exactly the other
  slabs of its order that have one, and none of those is wholly free.\<close>

definition pool_ix :: "vaddr_t \<Rightarrow> slab_ghost \<Rightarrow> vaddr_t list \<Rightarrow> nat \<Rightarrow> bool" where
  "pool_ix cur S Ps ix \<longleftrightarrow>
     (cur \<noteq> NULL \<longrightarrow> (\<exists>F. S cur = Some (ix + 6, F) \<and> F \<noteq> [])) \<and>
     (\<forall>s. s \<in> set Ps \<longleftrightarrow> s \<noteq> cur \<and> (\<exists>F. S s = Some (ix + 6, F) \<and> F \<noteq> [])) \<and>
     (\<forall>s F. s \<in> set Ps \<longrightarrow> S s = Some (ix + 6, F) \<longrightarrow> length F + 1 < blocks_of (ix + 6))"

definition pool_ok :: "kmem \<Rightarrow> slab_ghost \<Rightarrow> (nat \<Rightarrow> vaddr_t list) \<Rightarrow> bool" where
  "pool_ok k S P \<longleftrightarrow> (\<forall>ix < 6. pool_ix (current (slab_pool_g k ix)) S (P ix) ix)"

definition slab_blocks :: "vaddr_t \<Rightarrow> nat \<times> nat list \<Rightarrow> (vaddr_t \<times> nat) set" where
  "slab_blocks s = (\<lambda>(ord, F). (\<lambda>j. (blk s ord j, 2 ^ ord)) ` ({1..<blocks_of ord} - set F))"

definition slab_objects :: "slab_ghost \<Rightarrow> (vaddr_t \<times> nat) set" where
  "slab_objects S = (\<Union>s \<in> dom S. slab_blocks s (the (S s)))"

definition big_objects :: "mem_region \<Rightarrow> (vaddr_t \<times> nat) set" where
  "big_objects m = {(page_to_virt m i, 2 ^ (12 + q)) | i q.
     (i, q) \<in> live_chunks m \<and> page_slab (pages m i) = NULL}"

text \<open>The invariant between calls, with the objects handed out.\<close>

definition kmem_rep :: "kmem \<Rightarrow> (vaddr_t \<times> nat) set \<Rightarrow> bool" where
  "kmem_rep k A \<longleftrightarrow> (\<forall>ix < 6. sc_lock (slab_pool_g k ix) = 0) \<and>
     (\<exists>S P. slab_core k S P \<and> pool_ok k S P \<and> A = slab_objects S \<union> big_objects (region k))"

lemma slab_coreD:
  assumes "slab_core k S P"
  shows "buddy_inv (region k)" "0 < base_frame (region k)"
    "\<And>s ord F. S s = Some (ord, F) \<Longrightarrow> header_ok k s ord F"
    "\<And>s ord F. S s = Some (ord, F) \<Longrightarrow> slab_placed (region k) s"
    "\<And>j. j < npages (region k) \<Longrightarrow> page_slab (pages (region k) j) \<noteq> NULL \<Longrightarrow>
        \<exists>s i. S s \<noteq> None \<and> slab_at (region k) s i \<and> j \<in> chunk_pages i 5"
    "dom (snodes k) = slab_cells" "list_family (dlist (snodes k)) (partial_family P)"
  using assms unfolding slab_core_def by blast+

lemma header_okD:
  assumes "header_ok k s ord F"
  shows "6 \<le> ord" "ord \<le> 11" "ord \<le> 17" "distinct F" "set F \<subseteq> {1..<blocks_of ord}"
    "headers k s = \<lparr>slab_order = int ord, next_free_block = chain_ptr s ord F,
       free_block_count = of_nat (length F), total_block_count = of_nat (blocks_of ord)\<rparr>"
    "chain (next_block k) s ord F"
  using assms by (auto simp: header_ok_def free_set_ok_def)

lemma free_length:
  assumes "free_set_ok ord F"
  shows "length F < blocks_of ord" "length F < 2 ^ 32" "64 \<le> blocks_of ord" "blocks_of ord \<le> 2 ^ 11"
proof -
  have o: "6 \<le> ord" "ord \<le> 11" "distinct F" "set F \<subseteq> {1..<blocks_of ord}"
    using assms by (auto simp: free_set_ok_def)
  have "card (set F) \<le> blocks_of ord - 1" using card_mono [OF _ o(4)] by simp
  then show l: "length F < blocks_of ord"
    using o(3) pow2_pos_nat [of "17 - ord"] distinct_card [of F] by linarith
  have "(2 :: nat) ^ (17 - ord) \<le> 2 ^ 11" "(2 :: nat) ^ 6 \<le> 2 ^ (17 - ord)"
    using o by (intro power_increasing; simp)+
  then show "64 \<le> blocks_of ord" "blocks_of ord \<le> 2 ^ 11" by simp_all
  then show "length F < 2 ^ 32" using l by simp
qed

lemma unat32_of_nat: "n < 2 ^ 32 \<Longrightarrow> unat (of_nat n :: u32) = n"
  by (simp add: unat_of_nat)

lemma placed_at:
  assumes "slab_core k S P" "S s = Some (ord, F)"
  obtains i where "slab_at (region k) s i" "\<forall>j \<in> chunk_pages i 5. page_slab (pages (region k) j) = s"
  using slab_coreD(4) [OF assms] by (auto simp: slab_placed_def)

lemma slab_mapped:
  assumes "slab_core k S P" "S s = Some (ord, F)" "j < blocks_of ord"
  shows "mapped k (blk s ord j) = Inr ()" "blk s ord j \<noteq> NULL"
proof -
  obtain i where i: "slab_at (region k) s i" using placed_at [OF assms(1,2)] .
  note c = slab_coreD [OF assms(1)] and o = header_okD(3) [OF slab_coreD(3) [OF assms(1,2)]]
  show "mapped k (blk s ord j) = Inr ()"
    using blk_page [OF c(1) i o assms(3)] by (metis mapped_def option.distinct(1))
  have "0 < unat s" using slab_at_facts(2) [OF c(1) i] c(2) by simp
  then show "blk s ord j \<noteq> NULL"
    using unat_blk [OF o assms(3) slab_at_facts(3) [OF c(1) i]] by (metis add_gr_0 less_numeral_extra(3) unat_0)
qed

lemma blk_0 [simp]: "blk s ord 0 = s"
  by (simp add: blk_def)

lemma header_mapped:
  assumes "slab_core k S P" "S s = Some (ord, F)"
  shows "mapped k s = Inr ()" "s \<noteq> NULL"
  using slab_mapped [OF assms, of 0] by simp_all

lemma chain_cong:
  "(\<And>j. j \<in> set F \<Longrightarrow> nb' (blk s ord j) = nb (blk s ord j)) \<Longrightarrow> chain nb' s ord F = chain nb s ord F"
  by (induction F) auto

section \<open>Updating one slab\<close>

text \<open>A store into the header of a slab and into the words of its own blocks.\<close>

lemma slab_core_update:
  assumes core: "slab_core k S P" and S: "S s = Some (ord, F)"
    and k': "k' = k\<lparr>headers := (headers k)(s := h'), next_block := nb'\<rparr>"
    and ok: "header_ok k' s ord F'"
    and nb: "\<And>a. nb' a \<noteq> next_block k a \<Longrightarrow> \<exists>j < blocks_of ord. a = blk s ord j"
  shows "slab_core k' (S(s \<mapsto> (ord, F'))) P"
proof -
  note c = slab_coreD [OF core]
  obtain i where i: "slab_at (region k) s i" using placed_at [OF core S] .
  have "header_ok k' t o' G" if t: "S t = Some (o', G)" "t \<noteq> s" for t o' G
  proof -
    obtain i' where i': "slab_at (region k) t i'" using placed_at [OF core t(1)] .
    note h = header_okD [OF c(3) [OF t(1)]]
    have "nb' (blk t o' j) = next_block k (blk t o' j)" if "j \<in> set G" for j
      using nb [of "blk t o' j"] blk_apart [OF c(1) i' i t(2) h(3) _ header_okD(3) [OF c(3) [OF S]]] that h(5)
      by fastforce
    then have "chain nb' t o' G" using chain_cong [of G nb' t o' "next_block k"] h(7) by blast
    then show ?thesis using h t(2) k' by (auto simp: header_ok_def free_set_ok_def)
  qed
  then have "\<forall>t o' G. (S(s \<mapsto> (ord, F'))) t = Some (o', G) \<longrightarrow> header_ok k' t o' G \<and> slab_placed (region k') t"
    using ok c(4) S k' by auto
  moreover have "\<exists>t i. (S(s \<mapsto> (ord, F'))) t \<noteq> None \<and> slab_at (region k) t i \<and> j \<in> chunk_pages i 5"
    if "j < npages (region k)" "page_slab (pages (region k) j) \<noteq> NULL" for j
    using c(5) [OF that] by (metis fun_upd_apply option.distinct(1))
  ultimately show ?thesis using c(1,2,6,7) k' by (simp add: slab_core_def)
qed

lemma slab_get_free_block_correct:
  assumes core: "slab_core k S P" and S: "S s = Some (ord, j # F)"
  obtains hs where "slab_get_free_block s k = Inr (blk s ord j, k\<lparr>headers := hs\<rparr>)"
    and "slab_core (k\<lparr>headers := hs\<rparr>) (S(s \<mapsto> (ord, F))) P"
    and "hs s = \<lparr>slab_order = int ord, next_free_block = chain_ptr s ord F,
       free_block_count = of_nat (length F), total_block_count = of_nat (blocks_of ord)\<rparr>"
proof -
  note ok = slab_coreD(3) [OF core S]
  note h = header_okD [OF ok]
  have fs: "free_set_ok ord (j # F)" using ok by (simp add: header_ok_def)
  define h' where "h' = \<lparr>slab_order = int ord, next_free_block = chain_ptr s ord F,
     free_block_count = of_nat (length F), total_block_count = of_nat (blocks_of ord)\<rparr>"
  define k' where "k' = k\<lparr>headers := (headers k)(s := h')\<rparr>"
  have j: "j < blocks_of ord" using h(5) by auto
  have "unat (of_nat (length (j # F)) :: u32) = length (j # F)"
    by (rule unat32_of_nat [OF free_length(2) [OF fs]])
  then have nz: "(of_nat (Suc (length F)) :: u32) \<noteq> 0" by (metis length_Cons nat.distinct(1) unat_0)
  have map: "mapped (k\<lparr>headers := x\<rparr>) a = mapped k a" for x a by (simp add: mapped_def)
  have run: "slab_get_free_block s k = Inr (blk s ord j, k')"
    using header_mapped [OF core S] slab_mapped [OF core S j] nz h(6,7)
    by (simp add: slab_get_free_block_def get_header_def put_header_def get_next_block_def map chain_ptr_def
        k'_def h'_def)
  have "header_ok k' s ord F"
    using fs h(7) by (auto simp: header_ok_def free_set_ok_def k'_def h'_def)
  then have "slab_core k' (S(s \<mapsto> (ord, F))) P"
    by (intro slab_core_update [OF core S, where nb' = "next_block k" and h' = h']) (simp_all add: k'_def)
  then show ?thesis using that [of "(headers k)(s := h')"] run by (simp add: k'_def h'_def)
qed

lemma slab_put_block_correct:
  assumes core: "slab_core k S P" and S: "S s = Some (ord, F)" and j: "1 \<le> j" "j < blocks_of ord" "j \<notin> set F"
  obtains hs nb where "slab_put_block s (blk s ord j) k = Inr (k\<lparr>headers := hs, next_block := nb\<rparr>)"
    and "slab_core (k\<lparr>headers := hs, next_block := nb\<rparr>) (S(s \<mapsto> (ord, j # F))) P"
proof -
  note ok = slab_coreD(3) [OF core S]
  note h = header_okD [OF ok]
  obtain i where i: "slab_at (region k) s i" using placed_at [OF core S] .
  note lt = slab_at_facts(3) [OF slab_coreD(1) [OF core] i]
  define h' where "h' = \<lparr>slab_order = int ord, next_free_block = blk s ord j,
     free_block_count = of_nat (Suc (length F)), total_block_count = of_nat (blocks_of ord)\<rparr>"
  define k' where "k' = k\<lparr>headers := (headers k)(s := h'), next_block := (next_block k)(blk s ord j := chain_ptr s ord F)\<rparr>"
  have sz: "slab_order_to_size (int ord) = 2 ^ ord" by (simp add: slab_order_to_size_def push_bit_eq_mult)
  have "blk s ord j - s = of_nat (j * 2 ^ ord)" unfolding blk_def by (rule add_diff_cancel_left')
  moreover have "j * 2 ^ ord < 2 ^ 64" by (rule less_trans [OF block_start [OF h(3) j(2)]]) simp
  ultimately have "unat (blk s ord j - s) = j * 2 ^ ord" by (simp only: unat_of_nat_small)
  then have "unat ((blk s ord j - s) div 2 ^ ord) = j"
    using h(3) by (simp add: unat_div_distrib unat_2p)
  then have "(blk s ord j - s) div 2 ^ ord = of_nat j" by (metis of_nat_unat ucast_id)
  then have back_block: "s + (blk s ord j - s) div 2 ^ ord * 2 ^ ord = blk s ord j" by (simp add: blk_def)
  have map: "mapped (k\<lparr>next_block := x\<rparr>) a = mapped k a" for x a by (simp add: mapped_def)
  have run: "slab_put_block s (blk s ord j) k = Inr k'"
    using header_mapped [OF core S] slab_mapped [OF core S j(2)] h(6) back_block
    by (simp add: slab_put_block_def get_header_def put_header_def put_next_block_def map sz Let_def k'_def h'_def
        add.commute)
  have fs: "free_set_ok ord (j # F)" using ok j by (auto simp: header_ok_def free_set_ok_def)
  have "blk s ord x \<noteq> blk s ord j" if "x \<in> set F" for x
    using blk_inj [OF h(3) lt _ j(2), of x] that h(5) j(3) by auto
  then have "chain (next_block k') s ord F"
    using chain_cong [of F "next_block k'" s ord "next_block k"] h(7) by (simp add: k'_def)
  then have "header_ok k' s ord (j # F)" using fs by (simp add: header_ok_def k'_def h'_def chain_ptr_def)
  then have "slab_core k' (S(s \<mapsto> (ord, j # F))) P"
    by (intro slab_core_update [OF core S, where h' = h' and nb' = "(next_block k)(blk s ord j := chain_ptr s ord F)"])
      (use j in \<open>auto simp: k'_def split: if_splits\<close>)
  then show ?thesis using that run by (auto simp: k'_def)
qed

section \<open>The partial lists\<close>

lemma partial_family_at: "ix < 6 \<Longrightarrow> partial_family P (PartialHead ix) = Some (map SlabNode (P ix))"
  by (simp add: partial_family_def)

lemma partial_family_upd:
  "ix < 6 \<Longrightarrow> (partial_family P)(PartialHead ix \<mapsto> map SlabNode xs) = partial_family (P(ix := xs))"
  by (auto simp: partial_family_def fun_eq_iff split: snode.split)

lemma on_partial_list:
  "on_some_list (partial_family P) (SlabNode s) \<Longrightarrow> \<exists>ix < 6. s \<in> set (P ix)"
proof -
  assume "on_some_list (partial_family P) (SlabNode s)"
  then obtain l xs where "partial_family P l = Some xs" "SlabNode s \<in> set (l # xs)"
    by (auto simp: on_some_list_def)
  then show ?thesis by (cases l) (auto simp: partial_family_def split: if_splits)
qed

lemma slab_core_nodes:
  assumes "slab_core k S P" "dom h = slab_cells" "list_family (dlist h) (partial_family P')"
  shows "slab_core (k\<lparr>snodes := h\<rparr>) S P'"
  using assms by (simp add: slab_core_def header_ok_def)

lemma slab_core_pool [simp]: "slab_core (k\<lparr>slab_pool_g := x\<rparr>) S P = slab_core k S P"
  by (simp add: slab_core_def header_ok_def)

lemma partial_dlist:
  "slab_core k S P \<Longrightarrow> ix < 6 \<Longrightarrow> dlist (snodes k) (PartialHead ix) (map SlabNode (P ix))"
  using slab_coreD(7) partial_family_at by (auto simp: list_family_def)

lemma partial_distinct: "slab_core k S P \<Longrightarrow> ix < 6 \<Longrightarrow> distinct (P ix)"
  using dlist_distinct [OF partial_dlist] by (simp add: distinct_map)

lemma partial_append:
  assumes core: "slab_core k S P" and ix: "ix < 6" and s: "\<forall>jx < 6. s \<notin> set (P jx)"
  obtains h where "on_snodes (list_append (SlabNode s) (PartialHead ix)) k = Inr (k\<lparr>snodes := h\<rparr>)"
    and "slab_core (k\<lparr>snodes := h\<rparr>) S (P(ix := P ix @ [s]))"
proof -
  note c = slab_coreD [OF core]
  have "SlabNode s \<in> dom (snodes k)" using c(6) by (simp add: slab_cells_def)
  moreover have "\<not> on_some_list (partial_family P) (SlabNode s)" using on_partial_list s by blast
  ultimately obtain h where "list_append (SlabNode s) (PartialHead ix) (snodes k) = Some h" "dom h = dom (snodes k)"
      "list_family (dlist h) ((partial_family P)(PartialHead ix \<mapsto> map SlabNode (P ix) @ [SlabNode s]))"
    using klist.family_append [OF c(7) partial_family_at [OF ix]] by blast
  then show ?thesis
    using that [of h] slab_core_nodes [OF core] c(6) partial_family_upd [OF ix, of P "P ix @ [s]"]
    by (simp add: on_snodes_def)
qed

lemma partial_del:
  assumes core: "slab_core k S P" and ix: "ix < 6" and P: "P ix = xs @ s # ys"
  obtains h where "on_snodes (list_del (SlabNode s)) k = Inr (k\<lparr>snodes := h\<rparr>)"
    and "slab_core (k\<lparr>snodes := h\<rparr>) S (P(ix := xs @ ys))"
proof -
  note c = slab_coreD [OF core]
  have "partial_family P (PartialHead ix) = Some (map SlabNode xs @ SlabNode s # map SlabNode ys)"
    using partial_family_at [OF ix, of P] P by simp
  then obtain h where "list_del (SlabNode s) (snodes k) = Some h"
      "list_family (dlist h) ((partial_family P)(PartialHead ix \<mapsto> map SlabNode xs @ map SlabNode ys))"
      "dom h = dom (snodes k)"
    by (rule klist.family_del [OF c(7)])
  then show ?thesis
    using that [of h] slab_core_nodes [OF core] c(6) partial_family_upd [OF ix, of P "xs @ ys"]
    by (simp add: on_snodes_def)
qed

lemma get_from_partial_list_correct:
  assumes core: "slab_core k S P" and ix: "ix < 6"
  shows "case P ix of [] \<Rightarrow> get_from_partial_list ix k = Inr (NULL, k)
    | s # ss \<Rightarrow> (\<exists>h. get_from_partial_list ix k = Inr (s, k\<lparr>snodes := h\<rparr>) \<and>
        slab_core (k\<lparr>snodes := h\<rparr>) S (P(ix := ss)))"
proof (cases "P ix")
  case Nil
  then show ?thesis
    using list_empty_correct [OF partial_dlist [OF core ix]] by (simp add: get_from_partial_list_def)
next
  case (Cons s ss)
  note dl = partial_dlist [OF core ix]
  have "P ix = [] @ s # ss" using Cons by simp
  from partial_del [OF core ix this] obtain h where "on_snodes (list_del (SlabNode s)) k = Inr (k\<lparr>snodes := h\<rparr>)"
      "slab_core (k\<lparr>snodes := h\<rparr>) S (P(ix := ss))" by (metis append_Nil)
  then show ?thesis
    using list_empty_correct [OF dl] dlist_first [OF dl] Cons by (auto simp: get_from_partial_list_def)
qed

section \<open>The page array\<close>

definition same_but_slab :: "mem_region \<Rightarrow> (nat \<Rightarrow> page) \<Rightarrow> bool" where
  "same_but_slab m ps \<longleftrightarrow>
     (\<forall>i. page_allocated (ps i) = page_allocated (pages m i) \<and> page_order (ps i) = page_order (pages m i))"

lemma same_but_slab_inv:
  assumes "same_but_slab m ps"
  shows "buddy_inv (m\<lparr>pages := ps\<rparr>) = buddy_inv m" "live_chunks (m\<lparr>pages := ps\<rparr>) = live_chunks m"
    "page_to_virt (m\<lparr>pages := ps\<rparr>) = page_to_virt m" "base_frame (m\<lparr>pages := ps\<rparr>) = base_frame m"
proof -
  show b: "base_frame (m\<lparr>pages := ps\<rparr>) = base_frame m" by (simp add: base_frame_def)
  show "buddy_inv (m\<lparr>pages := ps\<rparr>) = buddy_inv m"
    using assms b by (simp add: buddy_inv_def buddy_rep_def same_but_slab_def region_ok_def pages_agree_def lists_agree_def)
  show "live_chunks (m\<lparr>pages := ps\<rparr>) = live_chunks m"
    using assms by (simp add: live_chunks_def same_but_slab_def)
  show "page_to_virt (m\<lparr>pages := ps\<rparr>) = page_to_virt m" by (simp add: page_to_virt_def fun_eq_iff)
qed

definition mark_slab :: "nat \<Rightarrow> nat \<Rightarrow> vaddr_t \<Rightarrow> (nat \<Rightarrow> page) \<Rightarrow> nat \<Rightarrow> page" where
  "mark_slab n p v ps = (\<lambda>i. if p \<le> i \<and> i < p + n then (ps i)\<lparr>page_slab := v\<rparr> else ps i)"

lemma set_page_slabs_effect:
  "p + n \<le> npages m \<Longrightarrow> set_page_slabs n p v m = Inr (m\<lparr>pages := mark_slab n p v (pages m)\<rparr>)"
proof (induction n arbitrary: p m)
  case 0
  have "mark_slab 0 p v (pages m) = pages m" by (auto simp: mark_slab_def fun_eq_iff)
  then show ?case by simp
next
  case (Suc n)
  let ?m = "m\<lparr>pages := (pages m)(p := (pages m p)\<lparr>page_slab := v\<rparr>)\<rparr>"
  have "set_page_slabs n (p + 1) v ?m = Inr (?m\<lparr>pages := mark_slab n (p + 1) v (pages ?m)\<rparr>)"
    by (rule Suc.IH) (use Suc.prems in simp)
  moreover have "mark_slab n (p + 1) v (pages ?m) = mark_slab (Suc n) p v (pages m)"
    by (auto simp: mark_slab_def fun_eq_iff)
  ultimately show ?case using Suc.prems by (simp add: put_page_def)
qed

lemma mark_slab_same: "same_but_slab m (mark_slab n p v (pages m))"
  by (simp add: same_but_slab_def mark_slab_def)

section \<open>A new slab\<close>

lemma mapped_next_block [simp]: "mapped (k\<lparr>next_block := nb\<rparr>) a = mapped k a"
  by (simp add: mapped_def)

lemma blk_less:
  assumes "ord \<le> 17" "unat s + 2 ^ 17 < 2 ^ 64" "j < blocks_of ord" "j' < blocks_of ord"
  shows "blk s ord j < blk s ord j' \<longleftrightarrow> j < j'"
  using unat_blk [OF assms(1,3,2)] unat_blk [OF assms(1,4,2)] by (simp add: word_less_nat_alt)

lemma blk_Suc: "blk s ord j + 2 ^ ord = blk s ord (Suc j)"
  by (simp add: blk_def algebra_simps)

lemma link_blocks_correct:
  assumes geo: "ord \<le> 17" "unat s + 2 ^ 17 < 2 ^ 64" and T: "Suc t = blocks_of ord"
    and j: "j \<le> t" and map: "\<forall>x \<le> t. mapped k (blk s ord x) = Inr ()"
  shows "\<exists>nb. link_blocks (2 ^ ord) (blk s ord t) (blk s ord j) k = Some (Inr (blk s ord t, k\<lparr>next_block := nb\<rparr>)) \<and>
    (\<forall>x. j \<le> x \<and> x < t \<longrightarrow> nb (blk s ord x) = blk s ord (Suc x)) \<and>
    (\<forall>a. (\<forall>x. j \<le> x \<and> x < t \<longrightarrow> a \<noteq> blk s ord x) \<longrightarrow> nb a = next_block k a)"
  using j map
proof (induction "t - j" arbitrary: j k)
  case 0
  then have "j = t" by simp
  then show ?case by (subst link_blocks.simps) (auto intro: exI [of _ "next_block k"])
next
  case (Suc n)
  then have jt: "j < t" "j < blocks_of ord" "t < blocks_of ord" using T by auto
  let ?k = "k\<lparr>next_block := (next_block k)(blk s ord j := blk s ord (Suc j))\<rparr>"
  have "n = t - Suc j" "Suc j \<le> t" using Suc.hyps(2) by auto
  from Suc.hyps(1) [OF this, of ?k] Suc.prems(2) obtain nb where
    nb: "link_blocks (2 ^ ord) (blk s ord t) (blk s ord (Suc j)) ?k = Some (Inr (blk s ord t, k\<lparr>next_block := nb\<rparr>))"
      "\<forall>x. Suc j \<le> x \<and> x < t \<longrightarrow> nb (blk s ord x) = blk s ord (Suc x)"
      "\<forall>a. (\<forall>x. Suc j \<le> x \<and> x < t \<longrightarrow> a \<noteq> blk s ord x) \<longrightarrow> nb a = next_block ?k a" by auto
  have "mapped k (blk s ord j) = Inr ()" using Suc.prems(2) jt(1) by simp
  then have "link_blocks (2 ^ ord) (blk s ord t) (blk s ord j) k = Some (Inr (blk s ord t, k\<lparr>next_block := nb\<rparr>))"
    using nb(1) blk_less [OF geo jt(2,3)] jt(1)
    by (subst link_blocks.simps) (simp add: put_next_block_def blk_Suc)
  moreover have "nb (blk s ord j) = blk s ord (Suc j)"
  proof -
    have "blk s ord j \<noteq> blk s ord x" if "Suc j \<le> x" "x < t" for x
      using blk_inj [OF geo jt(2), of x] that jt(3) by auto
    then show ?thesis using nb(3) by simp
  qed
  then have "\<forall>x. j \<le> x \<and> x < t \<longrightarrow> nb (blk s ord x) = blk s ord (Suc x)"
    using nb(2) by (metis Suc_leI le_neq_implies_less)
  moreover have "nb a = next_block k a" if "\<forall>x. j \<le> x \<and> x < t \<longrightarrow> a \<noteq> blk s ord x" for a
    using nb(3) that jt(1) by auto
  ultimately show ?case by blast
qed

lemma chain_upt:
  assumes "\<forall>x. 1 \<le> x \<and> x < t \<longrightarrow> nb (blk s ord x) = blk s ord (Suc x)" "nb (blk s ord t) = NULL"
    "1 \<le> j" "j \<le> t"
  shows "chain nb s ord [j..<Suc t] \<and> chain_ptr s ord [j..<Suc t] = blk s ord j"
  using assms(3,4)
proof (induction "t - j" arbitrary: j)
  case 0
  then have "j = t" by simp
  then show ?case using assms(2) by (simp add: chain_ptr_def)
next
  case (Suc n)
  have "n = t - Suc j" "1 \<le> Suc j" "Suc j \<le> t" using Suc.hyps(2) by auto
  then have "chain nb s ord [Suc j..<Suc t] \<and> chain_ptr s ord [Suc j..<Suc t] = blk s ord (Suc j)"
    by (rule Suc.hyps(1))
  moreover have "[j..<Suc t] = j # [Suc j..<Suc t]" using Suc.prems by (simp add: upt_conv_Cons)
  ultimately show ?case using assms(1) Suc by (simp add: chain_ptr_def del: upt_Suc)
qed

text \<open>The header and the chain the loop leaves, whatever memory held before.\<close>

definition fresh_slab :: "kmem \<Rightarrow> vaddr_t \<Rightarrow> nat \<Rightarrow> (vaddr_t \<Rightarrow> vaddr_t) \<Rightarrow> bool" where
  "fresh_slab k s ord nb \<longleftrightarrow> chain nb s ord [1..<blocks_of ord] \<and> chain_ptr s ord [1..<blocks_of ord] = blk s ord 1 \<and>
     (\<forall>a. (\<forall>x < blocks_of ord. a \<noteq> blk s ord x) \<longrightarrow> nb a = next_block k a)"

lemma link_all_blocks:
  assumes geo: "ord \<le> 11" "unat s + 2 ^ 17 < 2 ^ 64" and map: "\<forall>x < blocks_of ord. mapped k (blk s ord x) = Inr ()"
  shows "\<exists>nb. fresh_slab k s ord nb \<and>
    (\<exists>b nb'. link_blocks (2 ^ ord) (s + SLAB_SIZE - 2 ^ ord) (s + 2 ^ ord) k = Some (Inr (b, k\<lparr>next_block := nb'\<rparr>)) \<and>
      put_next_block b NULL (k\<lparr>next_block := nb'\<rparr>) = Inr (k\<lparr>next_block := nb\<rparr>))"
proof -
  define t where "t = blocks_of ord - 1"
  have T: "Suc t = blocks_of ord" by (simp add: t_def)
  have "(2 :: nat) ^ 6 \<le> 2 ^ (17 - ord)" using geo(1) by (intro power_increasing) simp_all
  then have t: "1 \<le> t" by (simp add: t_def)
  have o: "ord \<le> 17" using geo(1) by simp
  have "(of_nat (blocks_of ord * 2 ^ ord) :: u64) = 2 ^ 17" using blocks_of_times [OF o] by (simp only: of_nat_power of_nat_numeral)
  then have "of_nat (Suc t * 2 ^ ord) = SLAB_SIZE"
    by (simp only: T) (simp add: SLAB_SIZE_def SLAB_PAGE_ORDER_def PAGE_SHIFT_def)
  then have lim: "s + SLAB_SIZE - 2 ^ ord = blk s ord t" by (simp add: blk_def algebra_simps)
  have first: "s + 2 ^ ord = blk s ord 1" by (simp add: blk_def)
  have m: "\<forall>x \<le> t. mapped k (blk s ord x) = Inr ()" using map T by simp
  from link_blocks_correct [OF o geo(2) T t m] obtain nb' where
    nb': "link_blocks (2 ^ ord) (blk s ord t) (blk s ord 1) k = Some (Inr (blk s ord t, k\<lparr>next_block := nb'\<rparr>))"
      "\<forall>x. 1 \<le> x \<and> x < t \<longrightarrow> nb' (blk s ord x) = blk s ord (Suc x)"
      "\<forall>a. (\<forall>x. 1 \<le> x \<and> x < t \<longrightarrow> a \<noteq> blk s ord x) \<longrightarrow> nb' a = next_block k a" by blast
  let ?nb = "nb'(blk s ord t := NULL)"
  have "blk s ord x \<noteq> blk s ord t" if "x < t" for x
    using blk_inj [OF o geo(2), of x t] that T by auto
  then have "\<forall>x. 1 \<le> x \<and> x < t \<longrightarrow> ?nb (blk s ord x) = blk s ord (Suc x)" using nb'(2) by simp
  moreover have "?nb a = next_block k a" if "\<forall>x < blocks_of ord. a \<noteq> blk s ord x" for a
    using that nb'(3) T by (metis fun_upd_apply lessI less_SucI)
  ultimately have "fresh_slab k s ord ?nb"
    using chain_upt [of t ?nb s ord 1] t by (simp add: fresh_slab_def flip: T del: upt_Suc)
  moreover have "put_next_block (blk s ord t) NULL (k\<lparr>next_block := nb'\<rparr>) = Inr (k\<lparr>next_block := ?nb\<rparr>)"
    using m by (simp add: put_next_block_def)
  ultimately show ?thesis using nb'(1) unfolding lim first by blast
qed

text \<open>What a successful \<open>buddy_get_pages\<close> gives, with one name.\<close>

definition got_chunk :: "mem_region \<Rightarrow> nat \<Rightarrow> nat \<Rightarrow> mem_region \<Rightarrow> bool" where
  "got_chunk m i q m' \<longleftrightarrow> buddy_inv m' \<and> same_layout m m' \<and> i + 2 ^ q \<le> npages m \<and>
     live_chunks m' = insert (i, q) (live_chunks m) \<and>
     (\<forall>(j, r) \<in> live_chunks m. chunk_pages i q \<inter> chunk_pages j r = {})"

lemma buddy_get_pages_cases:
  assumes "buddy_inv m" "q \<le> 10"
  obtains i m' where "buddy_get_pages (int q) m = Inr (Some i, m')" "got_chunk m i q m'"
  | "buddy_get_pages (int q) m = Inr (None, m)"
  using buddy_get_pages_correct [OF assms] unfolding got_chunk_def by blast

lemma same_layout_addr:
  "same_layout m m' \<Longrightarrow> page_to_virt m' = page_to_virt m" "same_layout m m' \<Longrightarrow> npages m' = npages m"
  "same_layout m m' \<Longrightarrow> virt_to_page m' = virt_to_page m"
  by (simp_all add: same_layout_def page_to_virt_def virt_to_page_def fun_eq_iff)

lemma got_chunk_slab_at: "got_chunk m i q m' \<Longrightarrow> slab_at m s j \<Longrightarrow> slab_at m' s j"
  by (auto simp: got_chunk_def slab_at_def same_layout_addr(1) [of m m'])

lemma got_chunk_outside:
  assumes "got_chunk m i q m'" "slab_at m s j" "p \<in> chunk_pages j 5"
  shows "p \<notin> chunk_pages i q"
  using assms by (auto simp: got_chunk_def slab_at_def)

text \<open>A chunk handed out for another purpose leaves the slabs alone.\<close>

lemma got_chunk_core:
  assumes core: "slab_core k S P" and got: "got_chunk (region k) i q m'"
  shows "slab_core (k\<lparr>region := m'\<rparr>) S P"
    and "\<forall>p \<in> chunk_pages i q. page_slab (pages m' p) = NULL"
proof -
  note c = slab_coreD [OF core]
  have lay: "same_layout (region k) m'" and inv: "buddy_inv m'" using got by (auto simp: got_chunk_def)
  have slab: "page_slab (pages m' p) = page_slab (pages (region k) p)" for p
    using lay by (simp add: same_layout_def)
  have "slab_placed m' s" if "S s = Some (ord, F)" for s ord F
    using c(4) [OF that] got_chunk_slab_at [OF got] slab by (auto simp: slab_placed_def)
  moreover have "\<exists>s i. S s \<noteq> None \<and> slab_at m' s i \<and> j \<in> chunk_pages i 5"
    if "j < npages m'" "page_slab (pages m' j) \<noteq> NULL" for j
    using c(5) [of j] that slab same_layout_addr(2) [OF lay] got_chunk_slab_at [OF got] by metis
  ultimately show "slab_core (k\<lparr>region := m'\<rparr>) S P"
    using c inv same_layout_base [OF lay] by (auto simp: slab_core_def header_ok_def)
  show "\<forall>p \<in> chunk_pages i q. page_slab (pages m' p) = NULL"
  proof (rule ballI, rule ccontr)
    fix p assume p: "p \<in> chunk_pages i q" "page_slab (pages m' p) \<noteq> NULL"
    then have "p < npages (region k)" using got by (simp add: got_chunk_def chunk_pages_def)
    from c(5) [OF this] p(2) slab obtain s j where "slab_at (region k) s j" "p \<in> chunk_pages j 5" by auto
    then show False using got_chunk_outside [OF got] p(1) by blast
  qed
qed

definition fresh_header :: "vaddr_t \<Rightarrow> nat \<Rightarrow> slab_header" where
  "fresh_header s ord = \<lparr>slab_order = int ord, next_free_block = blk s ord 1,
     free_block_count = of_nat (blocks_of ord - 1), total_block_count = of_nat (blocks_of ord)\<rparr>"

lemma new_slab_core:
  assumes core: "slab_core k S P" and got: "got_chunk (region k) i 5 m1" and s: "s = page_to_virt m1 i"
    and ord: "6 \<le> ord" "ord \<le> 11" and nb: "fresh_slab k s ord nb"
    and k': "k' = k\<lparr>region := m1\<lparr>pages := mark_slab 32 i s (pages m1)\<rparr>, headers := (headers k)(s := fresh_header s ord),
      next_block := nb\<rparr>"
  shows "S s = None" and "slab_core k' (S(s \<mapsto> (ord, [1..<blocks_of ord]))) P"
    and "big_objects (region k') = big_objects (region k)"
proof -
  let ?m2 = "m1\<lparr>pages := mark_slab 32 i s (pages m1)\<rparr>"
  note c = slab_coreD [OF core] and g = got_chunk_core [OF core got]
  note c1 = slab_coreD [OF g(1), simplified]
  note same = same_but_slab_inv [OF mark_slab_same [of m1 32 i s]]
  have at1: "slab_at m1 s i" using got s by (simp add: slab_at_def got_chunk_def)
  have at2: "slab_at ?m2 t j = slab_at m1 t j" for t j by (simp add: slab_at_def same)
  have other: "t \<noteq> s" "j \<notin> chunk_pages i 5" if "slab_at (region k) t x" "j \<in> chunk_pages x 5" for t x j
  proof -
    show o: "j \<notin> chunk_pages i 5" by (rule got_chunk_outside [OF got that])
    show "t \<noteq> s"
      using slab_at_unique [OF c1(1) at1] got_chunk_slab_at [OF got that(1)] that(2) o by blast
  qed
  have first: "j \<in> chunk_pages j 5" for j by (simp add: chunk_pages_def)
  show none: "S s = None"
  proof (rule ccontr)
    assume "S s \<noteq> None"
    then obtain o' G where "S s = Some (o', G)" by auto
    then obtain x where "slab_at (region k) s x" using placed_at [OF core] by blast
    then show False using other(1) [OF _ first] by blast
  qed
  have marked: "page_slab (pages ?m2 p) = (if p \<in> chunk_pages i 5 then s else page_slab (pages m1 p))" for p
    by (auto simp: mark_slab_def chunk_pages_def)
  have old: "header_ok k' t o' G \<and> slab_placed ?m2 t" if t: "S t = Some (o', G)" for t o' G
  proof -
    obtain x where x: "slab_at (region k) t x" "\<forall>j \<in> chunk_pages x 5. page_slab (pages (region k) j) = t"
      using placed_at [OF core t] .
    note h = header_okD [OF c(3) [OF t]]
    have ts: "t \<noteq> s" using other(1) [OF x(1) first] .
    have "nb (blk t o' j) = next_block k (blk t o' j)" if "j \<in> set G" for j
    proof -
      have "j < blocks_of o'" "ord \<le> 17" using that h(5) ord(2) by auto
      from blk_apart [OF c1(1) got_chunk_slab_at [OF got x(1)] at1 ts h(3) this]
      show ?thesis using nb unfolding fresh_slab_def by blast
    qed
    then have "chain nb t o' G" using chain_cong [of G nb t o' "next_block k"] h(7) by blast
    then have "header_ok k' t o' G" using h ts k' by (simp add: header_ok_def free_set_ok_def)
    moreover have "slab_placed ?m2 t"
      using got_chunk_slab_at [OF got x(1)] other(2) [OF x(1)] x(2) got at2 marked
      unfolding slab_placed_def got_chunk_def same_layout_def by metis
    ultimately show ?thesis by simp
  qed
  have new: "header_ok k' s ord [1..<blocks_of ord] \<and> slab_placed ?m2 s"
    using nb ord at1 at2 marked k' unfolding slab_placed_def
    by (auto simp: header_ok_def free_set_ok_def fresh_slab_def fresh_header_def)
  have "\<exists>t x. (S(s \<mapsto> (ord, [1..<blocks_of ord]))) t \<noteq> None \<and> slab_at ?m2 t x \<and> j \<in> chunk_pages x 5"
    if jn: "j < npages m1" "page_slab (pages ?m2 j) \<noteq> NULL" for j
  proof (cases "j \<in> chunk_pages i 5")
    case True
    then show ?thesis using at1 at2 by (intro exI [of _ s] exI [of _ i]) simp
  next
    case False
    then obtain t x where "S t \<noteq> None" "slab_at m1 t x" "j \<in> chunk_pages x 5"
      using jn marked [of j] c1(5) [of j] by auto
    then show ?thesis using at2 by (intro exI [of _ t] exI [of _ x]) simp
  qed
  then show "slab_core k' (S(s \<mapsto> (ord, [1..<blocks_of ord]))) P"
    using old new c1(1,2,6,7) same k' by (simp add: slab_core_def)
  have "s \<noteq> NULL" by (rule slab_at_nonnull [OF c1(1) at1 c1(2)])
  moreover have "j \<notin> chunk_pages i 5" if "(j, q) \<in> live_chunks (region k)" for j q
  proof -
    have "chunk_pages i 5 \<inter> chunk_pages j q = {}" using got that unfolding got_chunk_def by blast
    moreover have "j \<in> chunk_pages j q" by (simp add: chunk_pages_def)
    ultimately show ?thesis by blast
  qed
  ultimately have "(j, q) \<in> live_chunks m1 \<and> page_slab (pages ?m2 j) = NULL \<longleftrightarrow>
      (j, q) \<in> live_chunks (region k) \<and> page_slab (pages (region k) j) = NULL" for j q
    using marked first got by (auto simp: got_chunk_def same_layout_def)
  then show "big_objects (region k') = big_objects (region k)"
    using same got k' same_layout_addr(1) [of "region k" m1] by (simp add: big_objects_def got_chunk_def)
qed

lemma slab_total:
  assumes "6 \<le> ord" "ord \<le> 11"
  shows "(ucast (SLAB_SIZE div slab_order_to_size (int ord)) :: u32) = of_nat (blocks_of ord)"
    and "(of_nat (blocks_of ord) :: u32) - 1 = of_nat (blocks_of ord - 1)"
proof -
  have "unat (slab_order_to_size (int ord)) = 2 ^ ord"
    using assms by (simp add: slab_order_to_size_def push_bit_eq_mult unat_2p)
  moreover have "(131072 :: nat) div 2 ^ ord = blocks_of ord"
  proof -
    have "blocks_of ord * 2 ^ ord = (131072 :: nat)" using blocks_of_times [of ord] assms by simp
    from arg_cong [OF this, of "\<lambda>n. n div 2 ^ ord"] show ?thesis by simp
  qed
  ultimately have "unat (SLAB_SIZE div slab_order_to_size (int ord)) = blocks_of ord"
    by (simp add: unat_div_distrib SLAB_SIZE_def SLAB_PAGE_ORDER_def PAGE_SHIFT_def)
  then show "(ucast (SLAB_SIZE div slab_order_to_size (int ord)) :: u32) = of_nat (blocks_of ord)"
    by (metis of_nat_unat)
  show "(of_nat (blocks_of ord) :: u32) - 1 = of_nat (blocks_of ord - 1)" by (simp add: of_nat_diff)
qed

lemma slab_constants [simp]:
  "SLAB_PAGE_ORDER = int 5" "SLAB_PAGES_COUNT = 32" "SLAB_POOL_SIZE = 6"
  "slab_order_to_size (int ord) = 2 ^ ord"
  by (simp_all add: SLAB_PAGE_ORDER_def SLAB_PAGES_COUNT_def SLAB_POOL_SIZE_def MAX_SLAB_BLOCK_ORDER_def
      MIN_SLAB_BLOCK_ORDER_def slab_order_to_size_def push_bit_eq_mult BUDDY_CHUNK_PAGES_COUNT_def)

lemma slab_container_index_int [simp]: "ix < 6 \<Longrightarrow> slab_container_index (int ix + 6) = Inr ix"
  by (simp add: slab_container_index_def MIN_SLAB_BLOCK_ORDER_def Let_def)

lemma alloc_slab_from_buddy_correct:
  assumes core: "slab_core k S P" and ix: "ix < 6" and ord: "ord = ix + 6"
  obtains s k' where "alloc_slab_from_buddy (int ord) k = Inr (0, k')" "S s = None" "s \<noteq> NULL"
      "slab_core k' (S(s \<mapsto> (ord, [1..<blocks_of ord]))) P" "big_objects (region k') = big_objects (region k)"
      "slab_pool_g k' = (slab_pool_g k)(ix := (slab_pool_g k ix)\<lparr>current := s\<rparr>)"
  | "alloc_slab_from_buddy (int ord) k = Inr (- ENOMEM, k)"
proof -
  note c = slab_coreD [OF core]
  have o: "6 \<le> ord" "ord \<le> 11" "slab_container_index (int ord) = Inr ix" using ix ord by simp_all
  have five: "(5 :: nat) \<le> 10" by simp
  show ?thesis
  proof (rule buddy_get_pages_cases [OF c(1) five])
    assume "buddy_get_pages (int 5) (region k) = Inr (None, region k)"
    then have "alloc_slab_from_buddy (int ord) k = Inr (- ENOMEM, k)"
      using o(3) by (simp add: alloc_slab_from_buddy_def)
    then show ?thesis by (rule that(2))
  next
    fix i m1 assume run: "buddy_get_pages (int 5) (region k) = Inr (Some i, m1)" and got: "got_chunk (region k) i 5 m1"
    define s where "s = page_to_virt m1 i"
    note c1 = slab_coreD [OF got_chunk_core(1) [OF core got], simplified]
    have at: "slab_at m1 s i" using got by (simp add: slab_at_def got_chunk_def s_def)
    note f = slab_at_facts [OF c1(1) at]
    define k1 where "k1 = k\<lparr>region := m1, slab_pool_g := (slab_pool_g k)(ix := (slab_pool_g k ix)\<lparr>current := s\<rparr>),
      headers := (headers k)(s := fresh_header s ord)\<rparr>"
    have map: "mapped (k\<lparr>region := m1\<rparr>) (blk s ord x) = Inr ()" if "x < blocks_of ord" for x
      using blk_page [OF c1(1) at, of ord x] that o(2) by (fastforce simp: mapped_def)
    have map1: "mapped k1 a = mapped (k\<lparr>region := m1\<rparr>) a" for a by (simp add: mapped_def k1_def)
    from link_all_blocks [OF o(2) f(3), of k1] map map1 obtain nb b nb' where
      nb: "fresh_slab k1 s ord nb" "link_blocks (2 ^ ord) (s + SLAB_SIZE - 2 ^ ord) (s + 2 ^ ord) k1 =
          Some (Inr (b, k1\<lparr>next_block := nb'\<rparr>))"
        "put_next_block b NULL (k1\<lparr>next_block := nb'\<rparr>) = Inr (k1\<lparr>next_block := nb\<rparr>)" by auto
    let ?m2 = "m1\<lparr>pages := mark_slab 32 i s (pages m1)\<rparr>"
    define k' where "k' = k1\<lparr>next_block := nb, region := ?m2\<rparr>"
    have mk: "set_page_slabs 32 i s m1 = Inr ?m2" by (rule set_page_slabs_effect [OF f(1)])
    have tot: "total_block_count (fresh_header s ord) = ucast (SLAB_SIZE div 2 ^ ord)"
        "free_block_count (fresh_header s ord) = ucast (SLAB_SIZE div 2 ^ ord) - 1"
        "slab_order (fresh_header s ord) = int ord" "next_free_block (fresh_header s ord) = s + 2 ^ ord"
      using slab_total [OF o(1,2)] by (simp_all add: fresh_header_def blk_def)
    have hd: "h\<lparr>slab_order := int ord, total_block_count := ucast (SLAB_SIZE div 2 ^ ord),
        free_block_count := ucast (SLAB_SIZE div 2 ^ ord) - 1, next_free_block := s + 2 ^ ord\<rparr> = fresh_header s ord" for h
      using tot by (cases h; cases "fresh_header s ord") simp
    have ms: "mapped (k\<lparr>region := m1\<rparr>) s = Inr ()" using map [of 0] by simp
    have "alloc_slab_from_buddy (int ord) k = Inr (0, k')"
      using o(3) run ms nb(2,3) mk hd [of "headers k s"]
      by (simp add: alloc_slab_from_buddy_def put_header_def set_current_def mapped_def update_region_def k1_def k'_def
          Let_def s_def [symmetric])
    moreover have "fresh_slab k s ord nb" using nb(1) by (simp add: fresh_slab_def k1_def)
    note n = new_slab_core [OF core got s_def o(1,2) this refl]
    have "k' = k\<lparr>region := ?m2, headers := (headers k)(s := fresh_header s ord), next_block := nb\<rparr>\<lparr>slab_pool_g :=
        (slab_pool_g k)(ix := (slab_pool_g k ix)\<lparr>current := s\<rparr>)\<rparr>"
      unfolding k'_def k1_def by (rule kmem.equality) simp_all
    ultimately show ?thesis
      using that(1) [of k' s] n slab_at_nonnull [OF c1(1) at c1(2)] by simp
  qed
qed

section \<open>Returning a slab\<close>

lemma live_chunks_order: "(i, q) \<in> live_chunks m \<Longrightarrow> (i, r) \<in> live_chunks m \<Longrightarrow> q = r"
  by (auto simp: live_chunks_def)

lemma drop_slab_core:
  assumes core: "slab_core k S P" and S: "S s = Some (ord, F)" and at: "slab_at (region k) s i"
    and lay: "same_layout ((region k)\<lparr>pages := mark_slab 32 i NULL (pages (region k))\<rparr>) m'" and inv: "buddy_inv m'"
    and live: "live_chunks m' = live_chunks (region k) - {(i, 5)}"
  shows "slab_core (k\<lparr>region := m'\<rparr>) (S(s := None)) P" and "big_objects m' = big_objects (region k)"
proof -
  let ?m = "region k"
  note c = slab_coreD [OF core]
  have addr: "page_to_virt m' = page_to_virt ?m" "npages m' = npages ?m" "base_frame m' = base_frame ?m"
    using lay by (simp_all add: same_layout_def page_to_virt_def base_frame_def fun_eq_iff)
  have slab: "page_slab (pages m' p) = (if p \<in> chunk_pages i 5 then NULL else page_slab (pages ?m p))" for p
    using lay by (auto simp: same_layout_def mark_slab_def chunk_pages_def)
  have away: "p \<notin> chunk_pages i 5" if "(j, q) \<in> live_chunks ?m" "j \<noteq> i" "p \<in> chunk_pages j q" for j q p
    using live_chunks_disjoint [OF c(1), of j q i 5] that at by (auto simp: slab_at_def)
  have at': "slab_at m' t x \<longleftrightarrow> slab_at ?m t x \<and> x \<noteq> i" for t x
    using live addr(1) by (auto simp: slab_at_def)
  have ne: "x \<noteq> i" if "slab_at ?m t x" "t \<noteq> s" for t x using that at by (auto simp: slab_at_def)
  have placed: "slab_placed m' t" if t: "S t = Some (o', G)" "t \<noteq> s" for t o' G
  proof -
    obtain x where x: "slab_at ?m t x" "\<forall>j \<in> chunk_pages x 5. page_slab (pages ?m j) = t" using placed_at [OF core t(1)] .
    have "\<forall>j \<in> chunk_pages x 5. page_slab (pages m' j) = t"
      using x slab away [of x 5] ne [OF x(1) t(2)] by (auto simp: slab_at_def)
    then show ?thesis using x(1) at' ne [OF x(1) t(2)] by (auto simp: slab_placed_def)
  qed
  have pages: "\<exists>t x. (S(s := None)) t \<noteq> None \<and> slab_at m' t x \<and> j \<in> chunk_pages x 5"
    if j: "j < npages ?m" "page_slab (pages m' j) \<noteq> NULL" for j
  proof -
    have out: "j \<notin> chunk_pages i 5" "page_slab (pages ?m j) \<noteq> NULL" using j(2) slab [of j] by (auto split: if_splits)
    obtain t x where x: "S t \<noteq> None" "slab_at ?m t x" "j \<in> chunk_pages x 5" using c(5) [OF j(1) out(2)] by blast
    have "x \<noteq> i" using x(3) out(1) by blast
    moreover have "t \<noteq> s" using slab_at_unique [OF c(1) at, of x] x(2) \<open>x \<noteq> i\<close> by blast
    ultimately show ?thesis using x at' by (intro exI [of _ t] exI [of _ x]) simp
  qed
  show "slab_core (k\<lparr>region := m'\<rparr>) (S(s := None)) P"
    using c inv addr placed pages by (auto simp: slab_core_def header_ok_def split: if_splits)
  have s: "page_slab (pages ?m i) = s" "s \<noteq> NULL"
    using placed_at [OF core S] slab_at_unique [OF c(1) at] header_mapped(2) [OF core S]
    by (fastforce simp: chunk_pages_def)+
  have "(j, q) \<in> live_chunks m' \<and> page_slab (pages m' j) = NULL \<longleftrightarrow>
      (j, q) \<in> live_chunks ?m \<and> page_slab (pages ?m j) = NULL" for j q
  proof (cases "j = i")
    case True
    then show ?thesis using s live live_chunks_order [of i q ?m 5] at by (auto simp: slab_at_def)
  next
    case False
    then show ?thesis using live slab [of j] away [of j q j] by (auto simp: chunk_pages_def)
  qed
  then show "big_objects m' = big_objects ?m" by (simp add: big_objects_def addr)
qed

lemma put_slab_to_buddy_correct:
  assumes core: "slab_core k S P" and S: "S s = Some (ord, F)" and full: "length F + 1 = blocks_of ord"
  obtains m' where "put_slab_to_buddy s k = Inr (0, k\<lparr>region := m'\<rparr>)"
    and "slab_core (k\<lparr>region := m'\<rparr>) (S(s := None)) P" and "big_objects m' = big_objects (region k)"
proof -
  let ?m = "region k"
  note c = slab_coreD [OF core]
  obtain i where at: "slab_at ?m s i" using placed_at [OF core S] .
  note f = slab_at_facts [OF c(1) at] and h = header_okD [OF c(3) [OF S]]
  let ?m1 = "?m\<lparr>pages := mark_slab 32 i NULL (pages ?m)\<rparr>"
  note same = same_but_slab_inv [OF mark_slab_same [of ?m 32 i NULL]]
  have "buddy_inv ?m1" "(i, 5) \<in> live_chunks ?m1" using c(1) at same by (simp_all add: slab_at_def)
  from buddy_free_pages_correct [OF this] obtain m' where
    m': "buddy_free_pages (Some i) ?m1 = Inr m'" "buddy_inv m'" "same_layout ?m1 m'" "live_chunks m' = live_chunks ?m1 - {(i, 5)}"
    by blast
  have vp: "virt_to_page ?m s = Some i" using f(4) [of 0] by simp
  have "of_nat (length F) = (of_nat (blocks_of ord) :: u32) - 1"
    using slab_total(2) [OF h(1,2)] full by (metis add_diff_cancel_right')
  then have "put_slab_to_buddy s k = Inr (0, k\<lparr>region := m'\<rparr>)"
    using vp header_mapped(1) [OF core S] h(6) set_page_slabs_effect [OF f(1)] m'(1)
    by (simp add: put_slab_to_buddy_def get_header_def update_region_def)
  then show ?thesis using that drop_slab_core [OF core S at m'(3,2)] m'(4) same(2) by simp
qed

section \<open>The objects\<close>

lemma slab_objects_upd: "slab_objects (S(s \<mapsto> x)) = slab_blocks s x \<union> slab_objects (S(s := None))"
  by (auto simp: slab_objects_def split: if_splits)

lemma slab_objects_split: "S s = Some x \<Longrightarrow> slab_objects S = slab_blocks s x \<union> slab_objects (S(s := None))"
  using slab_objects_upd [of S s x] by (simp add: fun_upd_idem)

lemma slab_objects_iff:
  "(a, n) \<in> slab_objects S \<longleftrightarrow> (\<exists>s ord F j. S s = Some (ord, F) \<and> a = blk s ord j \<and> n = 2 ^ ord \<and>
     1 \<le> j \<and> j < blocks_of ord \<and> j \<notin> set F)"
proof
  assume "(a, n) \<in> slab_objects S"
  then obtain s where s: "s \<in> dom S" "(a, n) \<in> slab_blocks s (the (S s))" by (auto simp: slab_objects_def)
  then obtain ord F where F: "S s = Some (ord, F)" by auto
  with s obtain j where "a = blk s ord j" "n = 2 ^ ord" "1 \<le> j" "j < blocks_of ord" "j \<notin> set F"
    by (auto simp: slab_blocks_def)
  with F show "\<exists>s ord F j. S s = Some (ord, F) \<and> a = blk s ord j \<and> n = 2 ^ ord \<and>
     1 \<le> j \<and> j < blocks_of ord \<and> j \<notin> set F" by blast
next
  assume "\<exists>s ord F j. S s = Some (ord, F) \<and> a = blk s ord j \<and> n = 2 ^ ord \<and>
     1 \<le> j \<and> j < blocks_of ord \<and> j \<notin> set F"
  then obtain s ord F j where "S s = Some (ord, F)" "a = blk s ord j" "n = 2 ^ ord" "j \<in> {1..<blocks_of ord} - set F" by auto
  then show "(a, n) \<in> slab_objects S"
    by (auto simp: slab_objects_def slab_blocks_def intro!: bexI [of _ s] image_eqI [of _ _ j])
qed

lemma slab_objects_take:
  assumes "S s = Some (ord, j # F)" "free_set_ok ord (j # F)"
  shows "slab_objects (S(s \<mapsto> (ord, F))) = insert (blk s ord j, 2 ^ ord) (slab_objects S)"
proof -
  have "{1..<blocks_of ord} - set F = insert j ({1..<blocks_of ord} - set (j # F))"
    using assms(2) by (auto simp: free_set_ok_def)
  then have "slab_blocks s (ord, F) = insert (blk s ord j, 2 ^ ord) (slab_blocks s (ord, j # F))"
    by (simp only: slab_blocks_def prod.case image_insert)
  then show ?thesis using slab_objects_upd [of S s] slab_objects_split [of S s, OF assms(1)] by simp
qed

lemma slab_objects_new:
  assumes "S s = None"
  shows "slab_objects (S(s \<mapsto> (ord, [1..<blocks_of ord]))) = slab_objects S"
proof -
  have "S(s := None) = S" using assms by auto
  then show ?thesis by (simp add: slab_objects_upd slab_blocks_def)
qed

lemma slab_objects_drop:
  assumes "S s = Some (ord, F)" "free_set_ok ord F" "length F + 1 = blocks_of ord"
  shows "slab_objects (S(s := None)) = slab_objects S"
proof -
  have "card (set F) = card {1..<blocks_of ord}"
    using assms by (simp add: free_set_ok_def distinct_card)
  then have "set F = {1..<blocks_of ord}" using assms(2) by (intro card_subset_eq) (auto simp: free_set_ok_def)
  then show ?thesis using slab_objects_split [of S s, OF assms(1)] by (simp add: slab_blocks_def)
qed

lemma blk_unique:
  assumes core: "slab_core k S P" and "S s = Some (ord, F)" "S t = Some (o', G)"
    and "j < blocks_of ord" "j' < blocks_of o'" "blk s ord j = blk t o' j'"
  shows "s = t" "ord = o'" "F = G" "j = j'"
proof -
  note c = slab_coreD [OF core]
  obtain i x where at: "slab_at (region k) s i" "slab_at (region k) t x"
    using placed_at [OF core assms(2)] placed_at [OF core assms(3)] by metis
  note o = header_okD(3) [OF c(3) [OF assms(2)]] header_okD(3) [OF c(3) [OF assms(3)]]
  show "s = t" using blk_apart [OF c(1) at _ o(1) assms(4) o(2) assms(5)] assms(6) by blast
  then show "ord = o'" "F = G" using assms(2,3) by auto
  then show "j = j'" using blk_inj [OF o(1) slab_at_facts(3) [OF c(1) at(1)] assms(4)] assms(5,6) \<open>s = t\<close> by blast
qed

lemma slab_objects_give:
  assumes core: "slab_core k S P" and S: "S s = Some (ord, F)" and j: "1 \<le> j" "j < blocks_of ord"
  shows "slab_objects (S(s \<mapsto> (ord, j # F))) = slab_objects S - {(blk s ord j, 2 ^ ord)}"
proof -
  have "(blk s ord j, 2 ^ ord) \<notin> slab_objects (S(s := None))"
    using blk_unique(1) [OF core _ S _ j(2)] by (fastforce simp: slab_objects_iff split: if_splits)
  moreover have "inj_on (\<lambda>j. (blk s ord j, (2 :: nat) ^ ord)) {1..<blocks_of ord}"
    using blk_unique(4) [OF core S S] by (auto simp: inj_on_def)
  then have "slab_blocks s (ord, j # F) = slab_blocks s (ord, F) - {(blk s ord j, 2 ^ ord)}"
    using j by (auto simp: slab_blocks_def inj_on_def)
  ultimately show ?thesis
    using slab_objects_upd [of S s] slab_objects_split [of S s, OF S] by auto
qed

definition object_foot :: "vaddr_t \<times> nat \<Rightarrow> nat set" where
  "object_foot = (\<lambda>(a, n). {unat a..<unat a + n})"

end
