(* ===== verification/Slab_Ops.thy ===== *)
theory Slab_Ops
  imports Slab_Correct
begin

text \<open>
  The two operations of the slab allocator, \<open>__slab_alloc\<close> and \<open>__slab_free\<close>: each keeps the
  invariant of the pool and adds or takes away exactly one object.
\<close>

section \<open>Containers\<close>

lemma no_slab_at_null: "slab_core k S P \<Longrightarrow> S NULL = None"
  using header_mapped(2) [of k S P NULL] by (cases "S NULL") auto

lemma pool_okI: "(\<And>ix. ix < 6 \<Longrightarrow> pool_ix (current (slab_pool_g k ix)) S (P ix) ix) \<Longrightarrow> pool_ok k S P"
  by (simp add: pool_ok_def)

lemma pool_okD: "pool_ok k S P \<Longrightarrow> ix < 6 \<Longrightarrow> pool_ix (current (slab_pool_g k ix)) S (P ix) ix"
  by (simp add: pool_ok_def)

text \<open>A change to a slab of one order does not touch the containers of the others.\<close>

lemma pool_ix_other:
  assumes "pool_ix cur S Ps ix" "\<And>t F. (t = s \<longrightarrow> S t \<noteq> Some (ix + 6, F) \<and> S' t \<noteq> Some (ix + 6, F))"
    "\<And>t. t \<noteq> s \<Longrightarrow> S' t = S t"
  shows "pool_ix cur S' Ps ix"
proof -
  have eq: "S' t = Some (ix + 6, F) \<longleftrightarrow> S t = Some (ix + 6, F)" for t F using assms(2,3) by (cases "t = s") auto
  show ?thesis using assms(1) unfolding pool_ix_def eq .
qed

text \<open>A slab with a free block becomes the current one of a container that has none.\<close>

lemma pool_ix_new_current:
  assumes "pool_ix NULL S Ps ix" "S s = None" "S NULL = None" "F \<noteq> []"
  shows "pool_ix s (S(s \<mapsto> (ix + 6, F))) Ps ix"
  using assms unfolding pool_ix_def by (auto split: if_splits)

lemma pool_ix_from_partial:
  assumes "pool_ix NULL S (s # ss) ix" "distinct (s # ss)" "S NULL = None"
  shows "pool_ix s S ss ix"
proof -
  have in_list: "t \<in> set (s # ss) \<longleftrightarrow> (\<exists>F. S t = Some (ix + 6, F) \<and> F \<noteq> [])" for t
    using assms(1,3) by (auto simp: pool_ix_def)
  then have "\<exists>F. S s = Some (ix + 6, F) \<and> F \<noteq> []" using in_list [of s] by simp
  moreover have "t \<in> set ss \<longleftrightarrow> t \<noteq> s \<and> (\<exists>F. S t = Some (ix + 6, F) \<and> F \<noteq> [])" for t
    using in_list [of t] assms(2) by auto
  ultimately show ?thesis using assms(1) by (auto simp: pool_ix_def)
qed

text \<open>The current slab gives a block away: it stays current, or it is full and leaves the pool.\<close>

lemma pool_ix_take:
  assumes "pool_ix cur S Ps ix" "S cur = Some (ix + 6, j # F)" "S NULL = None"
  shows "F \<noteq> [] \<Longrightarrow> pool_ix cur (S(cur \<mapsto> (ix + 6, F))) Ps ix"
    and "F = [] \<Longrightarrow> pool_ix NULL (S(cur \<mapsto> (ix + 6, F))) Ps ix"
proof -
  have cur: "cur \<noteq> NULL" "cur \<notin> set Ps" using assms by (auto simp: pool_ix_def)
  show "F \<noteq> [] \<Longrightarrow> pool_ix cur (S(cur \<mapsto> (ix + 6, F))) Ps ix"
    using assms(1) cur by (auto simp: pool_ix_def)
  show "pool_ix NULL (S(cur \<mapsto> (ix + 6, F))) Ps ix" if "F = []"
    using assms(1,3) cur that unfolding pool_ix_def by (auto split: if_splits)
qed

lemma pool_ok_new_current:
  assumes pool: "pool_ok k S P" and ix: "ix < 6" and cur: "current (slab_pool_g k ix) = NULL"
    and s: "S s = None" "S NULL = None"
    and k': "slab_pool_g k' = (slab_pool_g k)(ix := (slab_pool_g k ix)\<lparr>current := s\<rparr>)"
  shows "pool_ok k' (S(s \<mapsto> (ix + 6, [1..<blocks_of (ix + 6)]))) P"
proof (rule pool_okI)
  have ne: "[1..<blocks_of (ix + 6)] \<noteq> []"
    using free_length(3) [of "ix + 6" "[]"] ix by (simp add: free_set_ok_def)
  fix jx :: nat assume jx: "jx < 6"
  show "pool_ix (current (slab_pool_g k' jx)) (S(s \<mapsto> (ix + 6, [1..<blocks_of (ix + 6)]))) (P jx) jx"
  proof (cases "jx = ix")
    case True
    then show ?thesis using k' cur pool_okD [OF pool ix] pool_ix_new_current [OF _ s ne] by simp
  next
    case False
    from pool_ix_other [OF pool_okD [OF pool jx], of s] show ?thesis using s(1) k' False by simp
  qed
qed

lemma current_upd [simp]:
  "current (((slab_pool_g k)(ix := (slab_pool_g k ix)\<lparr>current := s\<rparr>)) jx) =
    (if jx = ix then s else current (slab_pool_g k jx))"
  by simp

lemma set_new_current_slab_correct:
  assumes core: "slab_core k S P" and ix: "ix < 6"
    and here: "pool_ix NULL S (P ix) ix"
    and other: "\<And>jx. jx < 6 \<Longrightarrow> jx \<noteq> ix \<Longrightarrow> pool_ix (current (slab_pool_g k jx)) S (P jx) jx"
  shows "\<exists>k' S' P'. set_new_current_slab ix (int (ix + 6)) k = Inr k' \<and> slab_core k' S' P' \<and> pool_ok k' S' P' \<and>
    slab_objects S' = slab_objects S \<and> big_objects (region k') = big_objects (region k) \<and>
    (\<forall>jx. sc_lock (slab_pool_g k' jx) = sc_lock (slab_pool_g k jx))"
proof (cases "P ix")
  case (Cons s ss)
  note null = no_slab_at_null [OF core]
  obtain h where h: "get_from_partial_list ix k = Inr (s, k\<lparr>snodes := h\<rparr>)"
      "slab_core (k\<lparr>snodes := h\<rparr>) S (P(ix := ss))"
    using get_from_partial_list_correct [OF core ix] Cons by auto
  have "\<exists>F. S s = Some (ix + 6, F)" using here Cons by (auto simp: pool_ix_def)
  then have s: "s \<noteq> NULL" using null by auto
  define k' where "k' = set_current ix s (k\<lparr>snodes := h\<rparr>)"
  have "set_new_current_slab ix (int (ix + 6)) k = Inr k'"
    using h(1) s by (simp add: set_new_current_slab_def k'_def set_current_def)
  moreover have "slab_core k' S (P(ix := ss))" using h(2) by (simp add: k'_def set_current_def)
  moreover have "pool_ok k' S (P(ix := ss))"
    using other pool_ix_from_partial [of S s ss ix] here partial_distinct [OF core ix] Cons null
    by (intro pool_okI) (simp add: k'_def set_current_def)
  moreover have "region k' = region k" "\<forall>jx. sc_lock (slab_pool_g k' jx) = sc_lock (slab_pool_g k jx)"
    by (simp_all add: k'_def set_current_def)
  ultimately show ?thesis by metis
next
  case Nil
  note null = no_slab_at_null [OF core]
  define k1 where "k1 = set_current ix NULL k"
  have core1: "slab_core k1 S P" using core by (simp add: k1_def set_current_def)
  have pool1: "pool_ok k1 S P" using other here by (intro pool_okI) (simp add: k1_def set_current_def)
  have run: "set_new_current_slab ix (int (ix + 6)) k =
      bindR (alloc_slab_from_buddy (int (ix + 6)) k1) (\<lambda>(err, k). Inr (if err \<noteq> 0 then set_current ix NULL k else k))"
    using get_from_partial_list_correct [OF core ix] Nil
    by (simp add: set_new_current_slab_def k1_def set_current_def)
  show ?thesis
  proof (rule alloc_slab_from_buddy_correct [OF core1 ix refl])
    assume "alloc_slab_from_buddy (int (ix + 6)) k1 = Inr (- ENOMEM, k1)"
    then have "set_new_current_slab ix (int (ix + 6)) k = Inr (set_current ix NULL k1)"
      using run by (simp add: ENOMEM_def)
    moreover have "set_current ix NULL k1 = k1" by (simp add: k1_def set_current_def)
    ultimately show ?thesis using core1 pool1
      by (intro exI [of _ k1] exI [of _ S] exI [of _ P]) (simp add: k1_def set_current_def)
  next
    fix s k' assume a: "alloc_slab_from_buddy (int (ix + 6)) k1 = Inr (0, k')" "S s = None" "s \<noteq> NULL"
      "slab_core k' (S(s \<mapsto> (ix + 6, [1..<blocks_of (ix + 6)]))) P" "big_objects (region k') = big_objects (region k1)"
      "slab_pool_g k' = (slab_pool_g k1)(ix := (slab_pool_g k1 ix)\<lparr>current := s\<rparr>)"
    have "pool_ok k' (S(s \<mapsto> (ix + 6, [1..<blocks_of (ix + 6)]))) P"
      by (rule pool_ok_new_current [OF pool1 ix _ a(2) null a(6)]) (simp add: k1_def set_current_def)
    then show ?thesis
      using run a slab_objects_new [of S s "ix + 6", OF a(2)]
      by (intro exI [of _ k'] exI [of _ "S(s \<mapsto> (ix + 6, [1..<blocks_of (ix + 6)]))"] exI [of _ P])
        (simp add: k1_def set_current_def)
  qed
qed

section \<open>Allocation\<close>

lemma kmem_repI:
  "slab_core k S P \<Longrightarrow> pool_ok k S P \<Longrightarrow> \<forall>ix < 6. sc_lock (slab_pool_g k ix) = 0 \<Longrightarrow>
   A = slab_objects S \<union> big_objects (region k) \<Longrightarrow> kmem_rep k A"
  unfolding kmem_rep_def by blast

lemma pool_ok_lock [simp]:
  "pool_ok (k\<lparr>slab_pool_g := (slab_pool_g k)(ix := (slab_pool_g k ix)\<lparr>sc_lock := x\<rparr>)\<rparr>) S P = pool_ok k S P"
  by (auto simp: pool_ok_def)

lemma unlock_core [simp]: "slab_core (unlock_container ix k) S P = slab_core k S P"
  "pool_ok (unlock_container ix k) S P = pool_ok k S P" "region (unlock_container ix k) = region k"
  by (simp_all add: unlock_container_def)

lemma unlocked:
  "\<forall>jx < 6. jx \<noteq> ix \<longrightarrow> sc_lock (slab_pool_g k jx) = 0 \<Longrightarrow> \<forall>jx < 6. sc_lock (slab_pool_g (unlock_container ix k) jx) = 0"
  by (simp add: unlock_container_def)

text \<open>Once the container has a current slab, its first free block is handed out.\<close>

lemma take_from_current:
  assumes core: "slab_core k S P" and pool: "pool_ok k S P" and ix: "ix < 6"
    and cur: "current (slab_pool_g k ix) \<noteq> NULL"
  shows "\<exists>s j F k' S' P'. S s = Some (ix + 6, j # F) \<and>
    bindR (slab_get_free_block (current (slab_pool_g k ix)) k) (\<lambda>(addr, k).
       bindR (get_header k (current (slab_pool_g k ix))) (\<lambda>h.
       bindR (if free_block_count h = 0
              then bindR (BUG_ON (next_free_block h \<noteq> NULL)) (\<lambda>_. set_new_current_slab ix (int (ix + 6)) k)
              else Inr k) (\<lambda>k.
       Inr (addr, unlock_container ix k)))) = Inr (blk s (ix + 6) j, unlock_container ix k') \<and>
    slab_core k' S' P' \<and> pool_ok k' S' P' \<and>
    slab_objects S' = insert (blk s (ix + 6) j, 2 ^ (ix + 6)) (slab_objects S) \<and>
    big_objects (region k') = big_objects (region k) \<and>
    (\<forall>jx. sc_lock (slab_pool_g k' jx) = sc_lock (slab_pool_g k jx))"
proof -
  let ?s = "current (slab_pool_g k ix)"
  note null = no_slab_at_null [OF core] and pix = pool_okD [OF pool ix]
  obtain j F where S: "S ?s = Some (ix + 6, j # F)"
    using pix cur by (auto simp: pool_ix_def neq_Nil_conv)
  have fs: "free_set_ok (ix + 6) (j # F)" using slab_coreD(3) [OF core S] by (simp add: header_ok_def)
  obtain hs where hs: "slab_get_free_block ?s k = Inr (blk ?s (ix + 6) j, k\<lparr>headers := hs\<rparr>)"
      "slab_core (k\<lparr>headers := hs\<rparr>) (S(?s \<mapsto> (ix + 6, F))) P"
      "hs ?s = \<lparr>slab_order = int (ix + 6), next_free_block = chain_ptr ?s (ix + 6) F,
         free_block_count = of_nat (length F), total_block_count = of_nat (blocks_of (ix + 6))\<rparr>"
    using slab_get_free_block_correct [OF core S] by metis
  let ?k = "k\<lparr>headers := hs\<rparr>" and ?S = "S(?s \<mapsto> (ix + 6, F))"
  have hd: "get_header ?k ?s = Inr (hs ?s)"
    using header_mapped(1) [OF hs(2)] by (simp add: get_header_def)
  have cnt: "free_block_count (hs ?s) = 0 \<longleftrightarrow> F = []"
    using unat32_of_nat [of "length F"] free_length(2) [OF fs] hs(3) by (auto simp flip: unat_eq_0)
  note obj = slab_objects_take [of S ?s, OF S fs]
  have others: "pool_ix (current (slab_pool_g ?k jx)) ?S (P jx) jx" if "jx < 6" "jx \<noteq> ix" for jx
    using pool_ix_other [OF pool_okD [OF pool that(1)], of ?s ?S] S that(2) by simp
  show ?thesis
  proof (cases "F = []")
    case False
    have "pool_ok ?k ?S P"
      using others pool_ix_take(1) [OF pix S null False]
      by (intro pool_okI) (case_tac "ixa = ix"; simp)
    then show ?thesis using S hs hd cnt False obj
      by (intro exI [of _ ?s] exI [of _ j] exI [of _ F] exI [of _ ?k] exI [of _ ?S] exI [of _ P]) simp
  next
    case True
    have "pool_ix NULL ?S (P ix) ix" by (rule pool_ix_take(2) [OF pix S null True])
    from set_new_current_slab_correct [OF hs(2) ix this others] obtain k' S' P' where
      n: "set_new_current_slab ix (int (ix + 6)) ?k = Inr k'" "slab_core k' S' P'" "pool_ok k' S' P'"
        "slab_objects S' = slab_objects ?S" "big_objects (region k') = big_objects (region k)"
        "\<forall>jx. sc_lock (slab_pool_g k' jx) = sc_lock (slab_pool_g k jx)" by auto
    then show ?thesis using S hs hd cnt True obj
      by (intro exI [of _ ?s] exI [of _ j] exI [of _ F] exI [of _ k'] exI [of _ S'] exI [of _ P'])
        (simp add: chain_ptr_def)
  qed
qed

lemma big_object_page:
  assumes "buddy_inv m" "(a, n) \<in> big_objects m"
  obtains i q where "a = page_to_virt m i" "n = 2 ^ (12 + q)" "(i, q) \<in> live_chunks m" "page_slab (pages m i) = NULL"
    "virt_to_page m a = Some i" "i < npages m"
proof -
  obtain i q where i: "a = page_to_virt m i" "n = 2 ^ (12 + q)" "(i, q) \<in> live_chunks m" "page_slab (pages m i) = NULL"
    using assms(2) by (auto simp: big_objects_def)
  have "region_ok m" using assms(1) buddy_repD(1) by (auto simp: buddy_inv_def)
  moreover have "i < npages m" using i(3) by (auto simp: live_chunks_def)
  ultimately show ?thesis using that [OF i] virt_to_page_page_to_virt i(1) by simp
qed

lemma free_block_fresh:
  assumes core: "slab_core k S P" and S: "S s = Some (ord, F)" and j: "j \<in> set F"
  shows "(blk s ord j, n) \<notin> slab_objects S \<union> big_objects (region k)"
proof -
  note c = slab_coreD [OF core] and h = header_okD [OF slab_coreD(3) [OF core S]]
  have jT: "j < blocks_of ord" using h(5) j by auto
  have "(blk s ord j, n) \<notin> slab_objects S"
  proof
    assume "(blk s ord j, n) \<in> slab_objects S"
    then obtain t o' G x where t: "S t = Some (o', G)" "blk s ord j = blk t o' x" "x < blocks_of o'" "x \<notin> set G"
      by (auto simp: slab_objects_iff)
    then show False using blk_unique [OF core S t(1) jT t(3,2)] j by simp
  qed
  moreover have "(blk s ord j, n) \<notin> big_objects (region k)"
  proof
    assume "(blk s ord j, n) \<in> big_objects (region k)"
    from big_object_page [OF c(1) this] obtain i where
      i: "page_slab (pages (region k) i) = NULL" "virt_to_page (region k) (blk s ord j) = Some i" by metis
    obtain x where x: "slab_at (region k) s x" "\<forall>p \<in> chunk_pages x 5. page_slab (pages (region k) p) = s"
      using placed_at [OF core S] .
    obtain p where "virt_to_page (region k) (blk s ord j) = Some p" "p \<in> chunk_pages x 5"
      using blk_page [OF c(1) x(1) h(3) jT] .
    then show False using i x(2) header_mapped(2) [OF core S] by auto
  qed
  ultimately show ?thesis by simp
qed

lemma slab_alloc_order_unfold:
  assumes "ix < 6" "sc_lock (slab_pool_g k ix) = 0"
  defines "k0 \<equiv> k\<lparr>slab_pool_g := (slab_pool_g k)(ix := (slab_pool_g k ix)\<lparr>sc_lock := 1\<rparr>)\<rparr>"
  shows "slab_alloc_order (int (ix + 6)) k =
    bindR (if current (slab_pool_g k ix) = NULL then alloc_slab_from_buddy (int (ix + 6)) k0 else Inr (0, k0))
      (\<lambda>(err, k). if err \<noteq> 0 then Inr (NULL, unlock_container ix k)
        else bindR (slab_get_free_block (current (slab_pool_g k ix)) k) (\<lambda>(addr, k).
          bindR (get_header k (current (slab_pool_g k ix))) (\<lambda>h.
          bindR (if free_block_count h = 0
              then bindR (BUG_ON (next_free_block h \<noteq> NULL)) (\<lambda>_. set_new_current_slab ix (int (ix + 6)) k)
              else Inr k) (\<lambda>k.
          Inr (addr, unlock_container ix k)))))"
  using assms(1,2)
  by (simp add: slab_alloc_order_def lock_container_def k0_def MIN_SLAB_BLOCK_ORDER_def MAX_SLAB_BLOCK_ORDER_def
      cong: if_cong)

text \<open>The first step gives the container a current slab, or runs out of memory.\<close>

lemma ensure_current:
  assumes core: "slab_core k S P" and pool: "pool_ok k S P" and ix: "ix < 6" and cur: "current (slab_pool_g k ix) = NULL"
  shows "alloc_slab_from_buddy (int (ix + 6)) k = Inr (- ENOMEM, k) \<or>
    (\<exists>k' S'. alloc_slab_from_buddy (int (ix + 6)) k = Inr (0, k') \<and> slab_core k' S' P \<and> pool_ok k' S' P \<and>
      current (slab_pool_g k' ix) \<noteq> NULL \<and> slab_objects S' = slab_objects S \<and>
      big_objects (region k') = big_objects (region k) \<and>
      (\<forall>jx. sc_lock (slab_pool_g k' jx) = sc_lock (slab_pool_g k jx)))"
proof (rule alloc_slab_from_buddy_correct [OF core ix refl])
  fix s k' assume a: "alloc_slab_from_buddy (int (ix + 6)) k = Inr (0, k')" "S s = None" "s \<noteq> NULL"
    "slab_core k' (S(s \<mapsto> (ix + 6, [1..<blocks_of (ix + 6)]))) P" "big_objects (region k') = big_objects (region k)"
    "slab_pool_g k' = (slab_pool_g k)(ix := (slab_pool_g k ix)\<lparr>current := s\<rparr>)"
  have "pool_ok k' (S(s \<mapsto> (ix + 6, [1..<blocks_of (ix + 6)]))) P"
    by (rule pool_ok_new_current [OF pool ix cur a(2) no_slab_at_null [OF core] a(6)])
  then show ?thesis
    using a slab_objects_new [of S s "ix + 6", OF a(2)]
    by (intro disjI2 exI [of _ k'] exI [of _ "S(s \<mapsto> (ix + 6, [1..<blocks_of (ix + 6)]))"]) simp
qed simp

lemma slab_alloc_order_correct:
  assumes rep: "kmem_rep k A" and ix: "ix < 6"
  shows "(\<exists>k'. slab_alloc_order (int (ix + 6)) k = Inr (NULL, k') \<and> kmem_rep k' A) \<or>
    (\<exists>a k'. slab_alloc_order (int (ix + 6)) k = Inr (a, k') \<and> a \<noteq> NULL \<and> (a, 2 ^ (ix + 6)) \<notin> A \<and>
       kmem_rep k' (insert (a, 2 ^ (ix + 6)) A))"
proof -
  obtain S P where locks: "\<forall>jx < 6. sc_lock (slab_pool_g k jx) = 0" and core0: "slab_core k S P"
      and pool0: "pool_ok k S P" and A: "A = slab_objects S \<union> big_objects (region k)"
    using rep by (auto simp: kmem_rep_def)
  define k0 where "k0 = k\<lparr>slab_pool_g := (slab_pool_g k)(ix := (slab_pool_g k ix)\<lparr>sc_lock := 1\<rparr>)\<rparr>"
  have k0: "slab_core k0 S P" "pool_ok k0 S P" "region k0 = region k" "\<forall>jx < 6. jx \<noteq> ix \<longrightarrow> sc_lock (slab_pool_g k0 jx) = 0"
      "current (slab_pool_g k0 ix) = current (slab_pool_g k ix)"
    using core0 pool0 locks by (simp_all add: k0_def)
  note run = slab_alloc_order_unfold [OF ix, of k, folded k0_def]
  have take: "\<exists>a k'. slab_alloc_order (int (ix + 6)) k = Inr (a, k') \<and> a \<noteq> NULL \<and> (a, 2 ^ (ix + 6)) \<notin> A \<and>
      kmem_rep k' (insert (a, 2 ^ (ix + 6)) A)"
    if got: "(if current (slab_pool_g k ix) = NULL then alloc_slab_from_buddy (int (ix + 6)) k0 else Inr (0, k0)) = Inr (0, k1)"
      and c1: "slab_core k1 S1 P" "pool_ok k1 S1 P" "current (slab_pool_g k1 ix) \<noteq> NULL"
      and o1: "slab_objects S1 = slab_objects S" "big_objects (region k1) = big_objects (region k)"
      and l1: "\<forall>jx. sc_lock (slab_pool_g k1 jx) = sc_lock (slab_pool_g k0 jx)" for k1 S1
  proof -
    from take_from_current [OF c1(1,2) ix c1(3)] obtain s j F k' S' P' where
      t: "S1 s = Some (ix + 6, j # F)" "slab_alloc_order (int (ix + 6)) k = Inr (blk s (ix + 6) j, unlock_container ix k')"
        "slab_core k' S' P'" "pool_ok k' S' P'" "slab_objects S' = insert (blk s (ix + 6) j, 2 ^ (ix + 6)) (slab_objects S1)"
        "big_objects (region k') = big_objects (region k1)" "\<forall>jx. sc_lock (slab_pool_g k' jx) = sc_lock (slab_pool_g k1 jx)"
      using run got locks ix by auto
    have "(blk s (ix + 6) j, 2 ^ (ix + 6)) \<notin> A"
      using free_block_fresh [OF c1(1) t(1), of j "2 ^ (ix + 6)"] A o1 by simp
    moreover have "j < blocks_of (ix + 6)" using header_okD(5) [OF slab_coreD(3) [OF c1(1) t(1)]] by auto
    from slab_mapped(2) [OF c1(1) t(1) this] have "blk s (ix + 6) j \<noteq> NULL" .
    moreover have "kmem_rep (unlock_container ix k') (insert (blk s (ix + 6) j, 2 ^ (ix + 6)) A)"
      by (rule kmem_repI [of _ S' P']) (use t unlocked [of ix k'] k0(4) l1 A o1 in auto)
    ultimately show ?thesis using t(2) by blast
  qed
  show ?thesis
  proof (cases "current (slab_pool_g k ix) = NULL")
    case False
    have "\<exists>a k'. slab_alloc_order (int (ix + 6)) k = Inr (a, k') \<and> a \<noteq> NULL \<and> (a, 2 ^ (ix + 6)) \<notin> A \<and>
      kmem_rep k' (insert (a, 2 ^ (ix + 6)) A)"
      by (rule take [of k0 S]) (use False k0 in auto)
    then show ?thesis by blast
  next
    case True
    from ensure_current [OF k0(1,2) ix] True k0(5) consider
        "alloc_slab_from_buddy (int (ix + 6)) k0 = Inr (- ENOMEM, k0)"
      | k1 S1 where "alloc_slab_from_buddy (int (ix + 6)) k0 = Inr (0, k1)" "slab_core k1 S1 P" "pool_ok k1 S1 P"
          "current (slab_pool_g k1 ix) \<noteq> NULL" "slab_objects S1 = slab_objects S"
          "big_objects (region k1) = big_objects (region k0)"
          "\<forall>jx. sc_lock (slab_pool_g k1 jx) = sc_lock (slab_pool_g k0 jx)" by auto
    then show ?thesis
    proof cases
      case 1
      then have "slab_alloc_order (int (ix + 6)) k = Inr (NULL, unlock_container ix k0)"
        using run True locks ix by (simp add: ENOMEM_def)
      moreover have "kmem_rep (unlock_container ix k0) A"
        by (rule kmem_repI [of _ S P]) (use k0 unlocked [of ix k0] A in auto)
      ultimately show ?thesis by blast
    next
      case 2
      then show ?thesis using take [of k1 S1] True k0(3) by auto
    qed
  qed
qed

section \<open>Release\<close>

text \<open>A block comes back to a full slab, to a slab with free blocks, or makes a slab wholly free.\<close>

lemma pool_ix_refill:
  assumes "pool_ix cur S Ps ix" "S s = Some (ix + 6, [])" "2 < blocks_of (ix + 6)" "S NULL = None"
  shows "pool_ix cur (S(s \<mapsto> (ix + 6, [j]))) (Ps @ [s]) ix" "s \<notin> set Ps" "cur \<noteq> s"
proof -
  show s: "s \<notin> set Ps" using assms(1,2) by (auto simp: pool_ix_def)
  show cur: "cur \<noteq> s" using assms(1,2,4) by (cases "cur = NULL") (auto simp: pool_ix_def)
  then show "pool_ix cur (S(s \<mapsto> (ix + 6, [j]))) (Ps @ [s]) ix"
    using assms unfolding pool_ix_def by (auto split: if_splits)
qed

lemma pool_ix_give:
  assumes "pool_ix cur S Ps ix" "S s = Some (ix + 6, F)" "F \<noteq> []" "length F + 2 < blocks_of (ix + 6)"
  shows "pool_ix cur (S(s \<mapsto> (ix + 6, j # F))) Ps ix"
  using assms unfolding pool_ix_def by (auto split: if_splits)

lemma pool_ix_drop_current:
  assumes "pool_ix s S Ps ix" "S NULL = None"
  shows "pool_ix NULL (S(s := None)) Ps ix"
  using assms unfolding pool_ix_def by (auto split: if_splits)

lemma pool_ix_drop_partial:
  assumes "pool_ix cur S (xs @ s # ys) ix" "distinct (xs @ s # ys)"
  shows "pool_ix cur (S(s := None)) (xs @ ys) ix"
  using assms unfolding pool_ix_def by (auto split: if_splits)

lemma pool_ok_change:
  assumes "pool_ok k S P" "ix < 6" "S s = Some (ix + 6, F)" "\<And>t. t \<noteq> s \<Longrightarrow> S' t = S t"
    "\<And>G o'. S' s = Some (o', G) \<Longrightarrow> o' = ix + 6" "\<And>jx. jx \<noteq> ix \<Longrightarrow> P' jx = P jx"
    "\<And>jx. jx \<noteq> ix \<Longrightarrow> current (slab_pool_g k' jx) = current (slab_pool_g k jx)"
    "pool_ix (current (slab_pool_g k' ix)) S' (P' ix) ix"
  shows "pool_ok k' S' P'"
proof (rule pool_okI)
  fix jx :: nat assume jx: "jx < 6"
  show "pool_ix (current (slab_pool_g k' jx)) S' (P' jx) jx"
  proof (cases "jx = ix")
    case False
    have "pool_ix (current (slab_pool_g k jx)) S' (P jx) jx"
      by (rule pool_ix_other [OF pool_okD [OF assms(1) jx], of s]) (use assms(3-5) False in auto)
    then show ?thesis using assms(6,7) False by simp
  qed (use assms(8) in simp)
qed

lemma slab_free_block_unfold:
  assumes "slab_core k S P" "S s = Some (ix + 6, F)" "ix < 6" "sc_lock (slab_pool_g k ix) = 0"
  defines "k0 \<equiv> k\<lparr>slab_pool_g := (slab_pool_g k)(ix := (slab_pool_g k ix)\<lparr>sc_lock := 1\<rparr>)\<rparr>"
  shows "slab_free_block s block k =
     bindR (slab_put_block s block k0) (\<lambda>k.
     bindR (get_header k s) (\<lambda>h.
     if free_block_count h = 1
     then bindR (on_snodes (list_append (SlabNode s) (PartialHead ix)) k) (\<lambda>k.
          bindR (BUG_ON (current (slab_pool_g k ix) = s)) (\<lambda>_.
          Inr (0, unlock_container ix k)))
     else if free_block_count h = total_block_count h - 1
     then bindR (put_slab_to_buddy s k) (\<lambda>(err, k).
          if err = 0
          then if current (slab_pool_g k ix) = s
               then bindR (get_from_partial_list ix k) (\<lambda>(c, k).
                    Inr (err, unlock_container ix (set_current ix c k)))
               else bindR (on_snodes (list_del (SlabNode s)) k) (\<lambda>k. Inr (err, unlock_container ix k))
          else Inl KERROR)
     else Inr (0, unlock_container ix k)))"
  using header_mapped(1) [OF assms(1,2)] header_okD(6) [OF slab_coreD(3) [OF assms(1,2)]] assms(3,4)
  by (simp add: slab_free_block_def get_header_def lock_container_def k0_def MIN_SLAB_BLOCK_ORDER_def
      MAX_SLAB_BLOCK_ORDER_def Let_def)

text \<open>What the counters say after the block is back: the three cases of the code.\<close>

lemma free_count_cases:
  assumes "free_set_ok ord (j # F)"
  shows "(of_nat (length (j # F)) :: u32) = 1 \<longleftrightarrow> F = []"
    "(of_nat (length (j # F)) :: u32) = of_nat (blocks_of ord) - 1 \<longleftrightarrow> length F + 2 = blocks_of ord"
proof -
  note l = free_length [OF assms]
  note u = unat32_of_nat [OF l(2)]
  have "(of_nat (length (j # F)) :: u32) = 1 \<longleftrightarrow> length (j # F) = 1"
    using u by (metis of_nat_1 unat_1)
  then show "(of_nat (length (j # F)) :: u32) = 1 \<longleftrightarrow> F = []" by simp
  have "blocks_of ord - 1 < 2 ^ 32" using l(4) by simp
  note v = unat32_of_nat [OF this]
  have o: "6 \<le> ord" "ord \<le> 11" using assms by (auto simp: free_set_ok_def)
  have "(of_nat (length (j # F)) :: u32) = of_nat (blocks_of ord - 1) \<longleftrightarrow> length (j # F) = blocks_of ord - 1"
    using u v by metis
  also have "\<dots> \<longleftrightarrow> length F + 2 = blocks_of ord" using l(1,3) by auto
  finally show "(of_nat (length (j # F)) :: u32) = of_nat (blocks_of ord) - 1 \<longleftrightarrow> length F + 2 = blocks_of ord"
    by (simp only: slab_total(2) [OF o])
qed

lemma slab_free_block_correct:
  assumes core0: "slab_core k S P" and pool0: "pool_ok k S P" and locks: "\<forall>jx < 6. sc_lock (slab_pool_g k jx) = 0"
    and S: "S s = Some (ord, F)" and j: "1 \<le> j" "j < blocks_of ord" "j \<notin> set F"
  shows "\<exists>k'. slab_free_block s (blk s ord j) k = Inr (0, k') \<and>
    kmem_rep k' (slab_objects S \<union> big_objects (region k) - {(blk s ord j, 2 ^ ord)})"
proof -
  note null = no_slab_at_null [OF core0] and h = header_okD [OF slab_coreD(3) [OF core0 S]]
  define ix where "ix = ord - 6"
  have ix: "ix < 6" "ord = ix + 6" using h(1,2) by (auto simp: ix_def)
  note S' = S [unfolded ix(2)]
  define k0 where "k0 = k\<lparr>slab_pool_g := (slab_pool_g k)(ix := (slab_pool_g k ix)\<lparr>sc_lock := 1\<rparr>)\<rparr>"
  have k0: "slab_core k0 S P" "\<forall>jx < 6. jx \<noteq> ix \<longrightarrow> sc_lock (slab_pool_g k0 jx) = 0"
      "\<And>jx. current (slab_pool_g k0 jx) = current (slab_pool_g k jx)"
    using core0 locks by (simp_all add: k0_def)
  from slab_put_block_correct [OF k0(1) S j] obtain hs nb where
    put: "slab_put_block s (blk s ord j) k0 = Inr (k0\<lparr>headers := hs, next_block := nb\<rparr>)"
      "slab_core (k0\<lparr>headers := hs, next_block := nb\<rparr>) (S(s \<mapsto> (ord, j # F))) P" by metis
  define k1 where "k1 = k0\<lparr>headers := hs, next_block := nb\<rparr>"
  let ?S1 = "S(s \<mapsto> (ord, j # F))"
  have S1: "?S1 s = Some (ord, j # F)" by simp
  have core1: "slab_core k1 ?S1 P" using put(2) by (simp add: k1_def)
  have k1: "region k1 = region k" "\<And>jx. slab_pool_g k1 jx = slab_pool_g k0 jx" by (simp_all add: k1_def k0_def)
  note h1 = header_okD [OF slab_coreD(3) [OF core1 S1]]
  have fs: "free_set_ok ord (j # F)" using slab_coreD(3) [OF core1 S1] by (simp add: header_ok_def)
  have hd: "get_header k1 s = Inr (headers k1 s)" using header_mapped(1) [OF core1 S1] by (simp add: get_header_def)
  note cnt = free_count_cases [OF fs] and big = free_length(1,3) [OF fs]
  note run = slab_free_block_unfold [OF core0 S' ix(1), of "blk s ord j", folded k0_def]
  have obj: "slab_objects ?S1 = slab_objects S - {(blk s ord j, 2 ^ ord)}"
    by (rule slab_objects_give [OF core0 S j(1,2)])
  have notbig: "(blk s ord j, 2 ^ ord) \<notin> big_objects (region k)"
    using free_block_fresh [OF core1 S1, of j "2 ^ ord"] k1(1) by simp
  have A: "slab_objects S \<union> big_objects (region k) - {(blk s ord j, 2 ^ ord)} = slab_objects ?S1 \<union> big_objects (region k)"
    using obj notbig by auto
  note pix = pool_okD [OF pool0 ix(1)]
  have fin: "kmem_rep (unlock_container ix k2) (slab_objects S \<union> big_objects (region k) - {(blk s ord j, 2 ^ ord)})"
    if "slab_core k2 S2 P2" "pool_ix (current (slab_pool_g k2 ix)) S2 (P2 ix) ix" "slab_objects S2 = slab_objects ?S1"
      "big_objects (region k2) = big_objects (region k)" "\<And>t. t \<noteq> s \<Longrightarrow> S2 t = S t"
      "\<And>G o'. S2 s = Some (o', G) \<Longrightarrow> o' = ix + 6" "\<And>jx. jx \<noteq> ix \<Longrightarrow> P2 jx = P jx"
      "\<And>jx. jx \<noteq> ix \<Longrightarrow> slab_pool_g k2 jx = slab_pool_g k0 jx" for k2 S2 P2
  proof (rule kmem_repI [of _ S2 P2])
    show "pool_ok (unlock_container ix k2) S2 P2"
      using pool_ok_change [OF pool0 ix(1) S', of S2 P2 k2] that k0(3) by simp
  qed (use that unlocked [of ix k2] k0(2) A in auto)
  show ?thesis
  proof (cases "F = []")
    case True
    have "2 < blocks_of ord" using big(2) by simp
    note refill = pool_ix_refill [OF pix, of s, folded ix(2), OF S [unfolded True] this null]
    have out: "\<forall>jx < 6. s \<notin> set (P jx)"
      using pool_okD [OF pool0] S True by (auto simp: pool_ix_def)
    from partial_append [OF core1 ix(1) out] obtain g where
      g: "on_snodes (list_append (SlabNode s) (PartialHead ix)) k1 = Inr (k1\<lparr>snodes := g\<rparr>)"
        "slab_core (k1\<lparr>snodes := g\<rparr>) ?S1 (P(ix := P ix @ [s]))" .
    have "slab_free_block s (blk s ord j) k = Inr (0, unlock_container ix (k1\<lparr>snodes := g\<rparr>))"
      using run put(1) locks ix(1) hd h1(6) cnt(1) True g(1) refill(3) k0(3) k1(2)
      by (simp add: k1_def [symmetric])
    moreover have "kmem_rep (unlock_container ix (k1\<lparr>snodes := g\<rparr>))
        (slab_objects S \<union> big_objects (region k) - {(blk s ord j, 2 ^ ord)})"
      by (rule fin [OF g(2)]) (use refill(1) [of j] True ix k0(3) k1 in \<open>simp_all add: k1(2)\<close>)
    ultimately show ?thesis by blast
  next
    case False
    note ne = this
    show ?thesis
    proof (cases "length F + 2 = blocks_of ord")
      case False
      have "length F + 2 < blocks_of (ix + 6)" using False big(1) ix(2) by simp
      from pool_ix_give [OF pix S' ne this]
      have "kmem_rep (unlock_container ix k1) (slab_objects S \<union> big_objects (region k) - {(blk s ord j, 2 ^ ord)})"
        by (intro fin [OF core1]) (use ix k0(3) k1 in \<open>simp_all add: k1(2)\<close>)
      moreover have "slab_free_block s (blk s ord j) k = Inr (0, unlock_container ix k1)"
        using run put(1) locks ix(1) hd h1(6) cnt ne False by (simp add: k1_def [symmetric])
      ultimately show ?thesis by blast
    next
      case True
      have "length (j # F) + 1 = blocks_of ord" using True by simp
      note full = slab_objects_drop [of ?S1 s, OF S1 fs this]
      from put_slab_to_buddy_correct [OF core1 S1 \<open>length (j # F) + 1 = blocks_of ord\<close>] obtain m' where
        m': "put_slab_to_buddy s k1 = Inr (0, k1\<lparr>region := m'\<rparr>)" "slab_core (k1\<lparr>region := m'\<rparr>) (?S1(s := None)) P"
          "big_objects m' = big_objects (region k1)" .
      let ?k2 = "k1\<lparr>region := m'\<rparr>"
      have core2: "slab_core ?k2 (S(s := None)) P" using m'(2) by simp
      have full2: "slab_objects (S(s := None)) = slab_objects ?S1" using full by simp
      have step: "slab_free_block s (blk s ord j) k =
          (if current (slab_pool_g k ix) = s
           then bindR (get_from_partial_list ix ?k2) (\<lambda>(c, k). Inr (0, unlock_container ix (set_current ix c k)))
           else bindR (on_snodes (list_del (SlabNode s)) ?k2) (\<lambda>k. Inr (0, unlock_container ix k)))"
        using run put(1) locks ix(1) hd h1(6) cnt ne True m'(1) k0(3) k1(2) by (simp add: k1_def [symmetric])
      show ?thesis
      proof (cases "current (slab_pool_g k ix) = s")
        case True
        note drop = pool_ix_drop_current [OF pix [unfolded True] null]
        note null2 = no_slab_at_null [OF core2]
        obtain c g Ps where c: "get_from_partial_list ix ?k2 = Inr (c, ?k2\<lparr>snodes := g\<rparr>)"
            "slab_core (?k2\<lparr>snodes := g\<rparr>) (S(s := None)) (P(ix := Ps))" "pool_ix c (S(s := None)) Ps ix"
        proof (cases "P ix")
          case Nil
          then show ?thesis
            using that [of NULL "snodes ?k2" "[]"] get_from_partial_list_correct [OF core2 ix(1)] core2 drop
            by (simp add: fun_upd_idem)
        next
          case (Cons c ss)
          then show ?thesis
            using that get_from_partial_list_correct [OF core2 ix(1)] partial_distinct [OF core2 ix(1)]
              pool_ix_from_partial [of "S(s := None)" c ss ix] drop null2 by auto
        qed
        have "kmem_rep (unlock_container ix (set_current ix c (?k2\<lparr>snodes := g\<rparr>)))
            (slab_objects S \<union> big_objects (region k) - {(blk s ord j, 2 ^ ord)})"
          by (rule fin [of _ "S(s := None)" "P(ix := Ps)"])
            (use c full2 m'(3) k1 in \<open>simp_all add: set_current_def\<close>)
        then show ?thesis using step True c(1) by auto
      next
        case False
        have "s \<in> set (P ix)" using pix S' ne False by (auto simp: pool_ix_def)
        then obtain xs ys where xs: "P ix = xs @ s # ys" by (meson split_list)
        from partial_del [OF core2 ix(1) xs] obtain g where
          g: "on_snodes (list_del (SlabNode s)) ?k2 = Inr (?k2\<lparr>snodes := g\<rparr>)"
            "slab_core (?k2\<lparr>snodes := g\<rparr>) (S(s := None)) (P(ix := xs @ ys))" .
        have "pool_ix (current (slab_pool_g k ix)) (S(s := None)) (xs @ ys) ix"
          using pool_ix_drop_partial [of _ S xs s ys ix] pix partial_distinct [OF core0 ix(1)] xs by simp
        then have "kmem_rep (unlock_container ix (?k2\<lparr>snodes := g\<rparr>))
            (slab_objects S \<union> big_objects (region k) - {(blk s ord j, 2 ^ ord)})"
          by (intro fin [OF g(2)]) (use full2 m'(3) k0(3) k1 in \<open>simp_all add: k1(2)\<close>)
        then show ?thesis using step False g(1) by auto
      qed
    qed
  qed
qed

end
