(* ===== verification/Kmalloc.thy ===== *)
theory Kmalloc
  imports Slab_Ops
begin

text \<open>
  The kernel heap of src/mm/kmalloc.c on top of the buddy system and the slab allocator, and
  \<open>mm_init\<close> of src/mm/mm.c, which sets both up.
\<close>

section \<open>The code\<close>

definition ZERO_SIZE_PTR :: vaddr_t where "ZERO_SIZE_PTR = - 1"

definition IS_VALID_PTR :: "vaddr_t \<Rightarrow> bool" where
  "IS_VALID_PTR ptr \<longleftrightarrow> ptr \<noteq> NULL \<and> ptr \<noteq> ZERO_SIZE_PTR"

definition get_pages :: "int \<Rightarrow> kmem \<Rightarrow> (vaddr_t \<times> kmem) result" where
  "get_pages ord k =
     bindR (buddy_get_pages ord (region k)) (\<lambda>(page, m).
     Inr (case page of None \<Rightarrow> (NULL, k\<lparr>region := m\<rparr>) | Some i \<Rightarrow> (page_to_virt m i, k\<lparr>region := m\<rparr>)))"

definition free_pages :: "vaddr_t \<Rightarrow> kmem \<Rightarrow> kmem result" where
  "free_pages addr k =
     (case virt_to_page (region k) addr of
        None \<Rightarrow> Inr k
      | Some i \<Rightarrow> update_region (buddy_free_pages (Some i)) k)"

text \<open>\<open>__kmalloc\<close>, with the value stored through \<open>real_size\<close>; a size of 0 shifts by -1, which is
  undefined. Nothing is stored when the size is too large.\<close>

definition kmalloc_real :: "size_t \<Rightarrow> kmem \<Rightarrow> (vaddr_t \<times> size_t option \<times> kmem) result" where
  "kmalloc_real sz k =
     (if sz \<le> slab_order_to_size MAX_SLAB_BLOCK_ORDER
      then if size_to_slab_order sz < 0 then Inl FAULT
           else bindR (slab_alloc sz k) (\<lambda>(addr, k).
                Inr (addr, Some (slab_order_to_size (size_to_slab_order sz)), k))
      else if sz \<le> BUDDY_CHUNK_SIZE (BUDDY_MAX_ORDER - 1)
      then bindR (get_pages (size_to_page_order sz) k) (\<lambda>(addr, k).
           Inr (addr, Some (BUDDY_CHUNK_SIZE (size_to_page_order sz)), k))
      else Inr (NULL, None, k))"

definition kmalloc :: "size_t \<Rightarrow> kmem \<Rightarrow> (vaddr_t \<times> kmem) result" where
  "kmalloc sz k =
     (if sz = 0 then Inr (ZERO_SIZE_PTR, k)
      else bindR (kmalloc_real sz k) (\<lambda>(addr, real_size, k). Inr (addr, k)))"

text \<open>\<open>memset\<close> on the payload bytes.\<close>

fun memset_bytes :: "nat \<Rightarrow> vaddr_t \<Rightarrow> u8 \<Rightarrow> kmem \<Rightarrow> kmem result" where
  "memset_bytes 0 p ch k = Inr k"
| "memset_bytes (Suc n) p ch k =
     bindR (mapped k p) (\<lambda>_. memset_bytes n (p + 1) ch (k\<lparr>bytes := (bytes k)(p := ch)\<rparr>))"

text \<open>The test in \<open>kzalloc\<close> is the one of the code: memory is cleared when the pointer is \<^emph>\<open>not\<close> valid.\<close>

definition kzalloc :: "size_t \<Rightarrow> kmem \<Rightarrow> (vaddr_t \<times> kmem) result" where
  "kzalloc sz k =
     bindR (kmalloc sz k) (\<lambda>(addr, k).
     bindR (if \<not> IS_VALID_PTR addr then memset_bytes (unat sz) addr 0 k else Inr k) (\<lambda>k.
     Inr (addr, k)))"

definition kfree :: "vaddr_t \<Rightarrow> kmem \<Rightarrow> kmem result" where
  "kfree ptr k =
     (if ptr = ZERO_SIZE_PTR then Inr k
      else case virt_to_page (region k) ptr of
             None \<Rightarrow> Inr k
           | Some page \<Rightarrow>
               bindR (get_page (region k) page) (\<lambda>p.
               if page_slab p \<noteq> NULL then bindR (slab_free ptr k) (\<lambda>(err, k). Inr k)
               else free_pages ptr k))"

text \<open>What \<open>mm_init\<close> sets up: the buddy system, then the slab pool, over whatever memory holds. The
  messages and self tests around it are those of the theory \<open>Selftest\<close>.\<close>

definition mm_init :: "paddr_t \<Rightarrow> kmem \<Rightarrow> kmem result" where
  "mm_init img_end k =
     bindR (init_buddy img_end) (\<lambda>m. init_slab (k\<lparr>region := m\<rparr>))"

section \<open>Objects\<close>

lemma chunk_span:
  assumes inv: "buddy_inv m" and c: "(i, q) \<in> live_chunks m"
  shows "unat (page_to_virt m i) = (base_frame m + i) * 4096" "q \<le> 10" "2 ^ q dvd base_frame m + i"
    "i + 2 ^ q \<le> npages m" "virt_to_page m (page_to_virt m i) = Some i" "i < npages m"
proof -
  obtain ch L where rep: "buddy_rep m {} 0 (npages m) ch L" using inv by (auto simp: buddy_inv_def)
  note r = buddy_repD [OF rep]
  have "ch i = Some q" using c live_chunks_iff [OF rep, of i q] by auto
  from chunks_okD [OF r(3) this] show "q \<le> 10" "2 ^ q dvd base_frame m + i" "i + 2 ^ q \<le> npages m" by simp_all
  show i: "i < npages m" using c by (auto simp: live_chunks_def)
  show "unat (page_to_virt m i) = (base_frame m + i) * 4096" "virt_to_page m (page_to_virt m i) = Some i"
    using unat_page_to_virt [OF r(1) i] virt_to_page_page_to_virt [OF r(1) i] by simp_all
qed

text \<open>The memory of an object lies in the pages of one live chunk.\<close>

definition inside_chunk :: "mem_region \<Rightarrow> nat \<Rightarrow> nat \<Rightarrow> vaddr_t \<times> nat \<Rightarrow> bool" where
  "inside_chunk m i q x \<longleftrightarrow> (i, q) \<in> live_chunks m \<and>
     object_foot x \<subseteq> {(base_frame m + i) * 4096..<(base_frame m + i + 2 ^ q) * 4096}"

lemma inside_chunk_disjoint:
  assumes "buddy_inv m" "inside_chunk m i q x" "inside_chunk m j r y" "i \<noteq> j"
  shows "object_foot x \<inter> object_foot y = {}"
proof -
  have "chunk_pages i q \<inter> chunk_pages j r = {}"
    using live_chunks_disjoint assms by (auto simp: inside_chunk_def)
  then have "i + 2 ^ q \<le> j \<or> j + 2 ^ r \<le> i"
    using assms(4) pow2_pos_nat [of q] pow2_pos_nat [of r] unfolding chunk_pages_def
    by (metis Int_iff atLeastLessThan_iff empty_iff le_add1 less_add_same_cancel1 linorder_le_cases not_le)
  then have "(base_frame m + i + 2 ^ q) * 4096 \<le> (base_frame m + j) * 4096 \<or>
      (base_frame m + j + 2 ^ r) * 4096 \<le> (base_frame m + i) * 4096"
    by (auto intro: mult_right_mono)
  then show ?thesis using assms(2,3) unfolding inside_chunk_def by fastforce
qed

lemma big_inside:
  assumes "buddy_inv m" "(i, q) \<in> live_chunks m"
  shows "inside_chunk m i q (page_to_virt m i, 2 ^ (12 + q))"
  using chunk_span(1) [OF assms] assms(2)
  by (auto simp: inside_chunk_def object_foot_def power_add add_mult_distrib)

lemma block_inside:
  assumes core: "slab_core k S P" and S: "S s = Some (ord, F)" and j: "j < blocks_of ord" and at: "slab_at (region k) s i"
  shows "inside_chunk (region k) i 5 (blk s ord j, 2 ^ ord)"
proof -
  note c = slab_coreD [OF core] and h = header_okD [OF slab_coreD(3) [OF core S]]
  note f = slab_at_facts [OF c(1) at]
  have "unat (blk s ord j) + 2 ^ ord \<le> unat s + 2 ^ 17"
    using unat_blk [OF h(3) j f(3)] block_offset [OF h(3) j] by simp
  then show ?thesis
    using f(2) at unat_blk [OF h(3) j f(3)]
    by (auto simp: inside_chunk_def object_foot_def slab_at_def add_mult_distrib)
qed

lemma slab_object_cases:
  assumes core: "slab_core k S P" and x: "x \<in> slab_objects S"
  obtains s ord F j i where "S s = Some (ord, F)" "x = (blk s ord j, 2 ^ ord)" "1 \<le> j" "j < blocks_of ord" "j \<notin> set F"
    "slab_at (region k) s i" "\<forall>p \<in> chunk_pages i 5. page_slab (pages (region k) p) = s" "s \<noteq> NULL"
proof -
  obtain s ord F j where s: "S s = Some (ord, F)" "x = (blk s ord j, 2 ^ ord)" "1 \<le> j" "j < blocks_of ord" "j \<notin> set F"
    using x slab_objects_iff [of "fst x" "snd x" S] unfolding prod.collapse by (metis prod.collapse)
  then show ?thesis using that placed_at [OF core s(1)] header_mapped(2) [OF core s(1)] by metis
qed

lemma same_slab_disjoint:
  assumes core: "slab_core k S P" and S: "S s = Some (ord, F)" and j: "j < blocks_of ord" "j' < blocks_of ord" "j \<noteq> j'"
  shows "object_foot (blk s ord j, 2 ^ ord) \<inter> object_foot (blk s ord j', 2 ^ ord) = {}"
proof -
  obtain i where at: "slab_at (region k) s i" using placed_at [OF core S] .
  note f = slab_at_facts(3) [OF slab_coreD(1) [OF core] at] and o = header_okD(3) [OF slab_coreD(3) [OF core S]]
  have "a * 2 ^ ord + 2 ^ ord \<le> b * (2 :: nat) ^ ord" if "a < b" for a b
    using mult_le_mono1 [of "Suc a" b "2 ^ ord"] that by simp
  then have "j * 2 ^ ord + 2 ^ ord \<le> j' * (2 :: nat) ^ ord \<or> j' * 2 ^ ord + 2 ^ ord \<le> j * (2 :: nat) ^ ord"
    using j(3) by (metis linorder_neqE_nat)
  then show ?thesis using unat_blk [OF o j(1) f] unat_blk [OF o j(2) f] by (auto simp: object_foot_def)
qed

lemma objects_disjoint:
  assumes core: "slab_core k S P"
  shows "disjoint_feet object_foot (slab_objects S \<union> big_objects (region k))"
proof -
  let ?m = "region k"
  have inv: "buddy_inv ?m" using slab_coreD(1) [OF core] .
  have first: "i \<in> chunk_pages i 5" for i by (simp add: chunk_pages_def)
  have ss: "object_foot x \<inter> object_foot y = {}" if x: "x \<in> slab_objects S" and y: "y \<in> slab_objects S" and ne: "x \<noteq> y" for x y
  proof -
    obtain s ord F j i where a: "S s = Some (ord, F)" "x = (blk s ord j, 2 ^ ord)" "j < blocks_of ord" "slab_at ?m s i"
      using slab_object_cases [OF core x] by metis
    obtain t o' G j' i' where b: "S t = Some (o', G)" "y = (blk t o' j', 2 ^ o')" "j' < blocks_of o'" "slab_at ?m t i'"
      using slab_object_cases [OF core y] by metis
    show ?thesis
    proof (cases "s = t")
      case True
      then have "o' = ord" "t = s" using a(1) b(1) by auto
      moreover from this have "j \<noteq> j'" using ne a(2) b(2) by auto
      ultimately show ?thesis using same_slab_disjoint [OF core a(1,3), of j'] a(2) b(2,3) by simp
    next
      case False
      then have "i \<noteq> i'" using a(4) b(4) by (auto simp: slab_at_def)
      then show ?thesis
        using inside_chunk_disjoint [OF inv block_inside [OF core a(1,3,4)] block_inside [OF core b(1,3,4)]] a(2) b(2) by simp
    qed
  qed
  have sb: "object_foot x \<inter> object_foot y = {}" if x: "x \<in> slab_objects S" and y: "y \<in> big_objects ?m" for x y
  proof -
    obtain s ord F j i where a: "S s = Some (ord, F)" "x = (blk s ord j, 2 ^ ord)" "j < blocks_of ord" "slab_at ?m s i"
        "page_slab (pages ?m i) = s" "s \<noteq> NULL"
      using slab_object_cases [OF core x] first by metis
    obtain i' q where b: "y = (page_to_virt ?m i', 2 ^ (12 + q))" "(i', q) \<in> live_chunks ?m" "page_slab (pages ?m i') = NULL"
      using y by (auto simp: big_objects_def)
    have "i \<noteq> i'" using a(5,6) b(3) by auto
    then show ?thesis
      using inside_chunk_disjoint [OF inv block_inside [OF core a(1,3,4)] big_inside [OF inv b(2)]] a(2) b(1) by simp
  qed
  have bb: "object_foot x \<inter> object_foot y = {}" if x: "x \<in> big_objects ?m" and y: "y \<in> big_objects ?m" and ne: "x \<noteq> y" for x y
  proof -
    obtain i q where a: "x = (page_to_virt ?m i, 2 ^ (12 + q))" "(i, q) \<in> live_chunks ?m"
      using x by (auto simp: big_objects_def)
    obtain i' q' where b: "y = (page_to_virt ?m i', 2 ^ (12 + q'))" "(i', q') \<in> live_chunks ?m"
      using y by (auto simp: big_objects_def)
    have "i \<noteq> i'" using a b ne live_chunks_order [of i q ?m q'] by auto
    then show ?thesis
      using inside_chunk_disjoint [OF inv big_inside [OF inv a(2)] big_inside [OF inv b(2)]] a(1) b(1) by simp
  qed
  show ?thesis unfolding disjoint_feet_def using ss sb bb by (metis Int_commute Un_iff)
qed

section \<open>Pages\<close>

lemma get_pages_correct:
  assumes rep: "kmem_rep k A" and q: "q \<le> 10"
  shows "(\<exists>k'. get_pages (int q) k = Inr (NULL, k') \<and> kmem_rep k' A) \<or>
    (\<exists>a k'. get_pages (int q) k = Inr (a, k') \<and> a \<noteq> NULL \<and> (a, 2 ^ (12 + q)) \<notin> A \<and> 2 ^ (12 + q) dvd unat a \<and>
       kmem_rep k' (insert (a, 2 ^ (12 + q)) A))"
proof -
  obtain S P where locks: "\<forall>jx < 6. sc_lock (slab_pool_g k jx) = 0" and core: "slab_core k S P"
      and pool: "pool_ok k S P" and A: "A = slab_objects S \<union> big_objects (region k)"
    using rep by (auto simp: kmem_rep_def)
  note c = slab_coreD [OF core]
  show ?thesis
  proof (rule buddy_get_pages_cases [OF c(1) q])
    assume "buddy_get_pages (int q) (region k) = Inr (None, region k)"
    then show ?thesis using rep by (simp add: get_pages_def)
  next
    fix i m1 assume run: "buddy_get_pages (int q) (region k) = Inr (Some i, m1)" and got: "got_chunk (region k) i q m1"
    let ?a = "page_to_virt m1 i" and ?k = "k\<lparr>region := m1\<rparr>"
    note g = got_chunk_core [OF core got]
    have inv: "buddy_inv m1" and lay: "same_layout (region k) m1" and live: "live_chunks m1 = insert (i, q) (live_chunks (region k))"
      using got by (auto simp: got_chunk_def)
    have i: "(i, q) \<in> live_chunks m1" using live by simp
    have slab: "page_slab (pages m1 p) = page_slab (pages (region k) p)" for p using lay by (simp add: same_layout_def)
    have nul: "page_slab (pages m1 i) = NULL" using g(2) by (simp add: chunk_pages_def)
    have fresh: "(i, r) \<notin> live_chunks (region k)" for r
      using got unfolding got_chunk_def by (force simp: chunk_pages_def)
    have objs: "big_objects m1 = insert (?a, 2 ^ (12 + q)) (big_objects (region k))"
      unfolding big_objects_def same_layout_addr(1) [OF lay] live slab using nul slab by auto
    note sp = chunk_span [OF inv i]
    have "(?a, 2 ^ (12 + q)) \<notin> big_objects (region k)"
    proof
      assume "(?a, 2 ^ (12 + q)) \<in> big_objects (region k)"
      from big_object_page [OF c(1) this] obtain i' r where "(i', r) \<in> live_chunks (region k)" "virt_to_page (region k) ?a = Some i'"
        by metis
      then show False using sp(5) same_layout_addr(3) [OF lay] fresh by simp
    qed
    moreover have "(?a, 2 ^ (12 + q)) \<notin> slab_objects S"
    proof
      assume "(?a, 2 ^ (12 + q)) \<in> slab_objects S"
      from slab_object_cases [OF g(1) this] obtain ord where "(2 :: nat) ^ (12 + q) = 2 ^ ord" "ord \<le> 11"
        using header_okD(2) slab_coreD(3) [OF core] by (metis prod.inject)
      then show False by simp
    qed
    moreover have "?a \<noteq> NULL" using sp(1) slab_coreD(2) [OF g(1)] by (metis add_gr_0 kmem.select_convs(1) kmem.surjective kmem.update_convs(1) mult_is_0 neq0_conv not_less_zero unat_0 zero_neq_numeral)
    moreover have "2 ^ q * 4096 dvd (base_frame m1 + i) * 4096" by (rule mult_dvd_mono [OF sp(3) dvd_refl])
    then have "2 ^ (12 + q) dvd unat ?a" by (simp only: sp(1)) (simp add: power_add mult.commute)
    moreover have "kmem_rep ?k (insert (?a, 2 ^ (12 + q)) A)"
      by (rule kmem_repI [OF g(1)]) (use pool locks objs A in \<open>auto simp: pool_ok_def\<close>)
    ultimately show ?thesis using run A by (intro disjI2 exI [of _ ?a] exI [of _ ?k]) (simp add: get_pages_def)
  qed
qed

lemma gave_chunk_core:
  assumes core: "slab_core k S P" and i: "(i, q) \<in> live_chunks (region k)" "page_slab (pages (region k) i) = NULL"
    and inv: "buddy_inv m'" and lay: "same_layout (region k) m'" and live: "live_chunks m' = live_chunks (region k) - {(i, q)}"
  shows "slab_core (k\<lparr>region := m'\<rparr>) S P"
    and "big_objects m' = big_objects (region k) - {(page_to_virt (region k) i, 2 ^ (12 + q))}"
proof -
  let ?m = "region k"
  note c = slab_coreD [OF core]
  have slab: "page_slab (pages m' p) = page_slab (pages ?m p)" for p using lay by (simp add: same_layout_def)
  have at: "slab_at m' s x" if sx: "S s \<noteq> None" "slab_at ?m s x" for s x
  proof -
    obtain ord F where "S s = Some (ord, F)" using sx(1) by auto
    then obtain y where y: "slab_at ?m s y" "page_slab (pages ?m y) = s" "s \<noteq> NULL"
      using placed_at [OF core] header_mapped(2) [OF core] by (metis atLeastLessThan_iff chunk_pages_def le_add1 less_add_same_cancel1 order_refl pow2_pos_nat)
    have "x = y" by (rule slab_at_unique [OF c(1) sx(2) y(1)])
    then have "x \<noteq> i" using y(2,3) i(2) by auto
    then show ?thesis using sx(2) live same_layout_addr(1) [OF lay] by (simp add: slab_at_def)
  qed
  have "slab_placed m' s" if s: "S s = Some (ord, F)" for s ord F
  proof -
    obtain x where "slab_at ?m s x" "\<forall>j \<in> chunk_pages x 5. page_slab (pages ?m j) = s" using placed_at [OF core s] .
    then show ?thesis using at [of s x] s slab by (auto simp: slab_placed_def)
  qed
  moreover have "\<exists>s x. S s \<noteq> None \<and> slab_at m' s x \<and> j \<in> chunk_pages x 5"
    if j: "j < npages m'" "page_slab (pages m' j) \<noteq> NULL" for j
  proof -
    have "j < npages ?m" "page_slab (pages ?m j) \<noteq> NULL" using j slab same_layout_addr(2) [OF lay] by auto
    from c(5) [OF this] at show ?thesis by blast
  qed
  ultimately show "slab_core (k\<lparr>region := m'\<rparr>) S P"
    using c inv same_layout_base [OF lay] by (auto simp: slab_core_def header_ok_def)
  let ?f = "\<lambda>(j, r). (page_to_virt ?m j, (2 :: nat) ^ (12 + r))" and ?B = "{(j, r). (j, r) \<in> live_chunks ?m \<and> page_slab (pages ?m j) = NULL}"
  have inj: "j = j' \<and> r = r'"
    if "(j, r) \<in> live_chunks ?m" "(j', r') \<in> live_chunks ?m" "page_to_virt ?m j = page_to_virt ?m j'" for j r j' r'
    using chunk_span(5) [OF c(1) that(1)] chunk_span(5) [OF c(1) that(2)] that live_chunks_order [of j r ?m r']
    by (metis option.inject)
  have "inj_on ?f ?B" by (rule inj_onI) (use inj in \<open>clarsimp; metis\<close>)
  moreover have "(i, q) \<in> ?B" using i by simp
  ultimately have "?f ` (?B - {(i, q)}) = ?f ` ?B - {?f (i, q)}" by (subst inj_on_image_set_diff) auto
  moreover have "big_objects ?m = ?f ` ?B" by (auto simp: big_objects_def image_iff)
  moreover have "big_objects m' = ?f ` (?B - {(i, q)})"
    unfolding big_objects_def same_layout_addr(1) [OF lay] live slab by (auto simp: image_iff)
  ultimately show "big_objects m' = big_objects ?m - {(page_to_virt ?m i, 2 ^ (12 + q))}" by simp
qed

lemma is_aligned_iff: "o' < 64 \<Longrightarrow> is_aligned a (int o') \<longleftrightarrow> 2 ^ o' dvd unat a"
proof -
  assume o: "o' < 64"
  have "(and) a (2 ^ o' - 1) = take_bit o' a" by (simp add: take_bit_eq_mask mask_eq_exp_minus_1)
  moreover have "unat (take_bit o' a) = unat a mod 2 ^ o'" by (simp add: unat_take_bit)
  ultimately have "is_aligned a (int o') \<longleftrightarrow> unat a mod 2 ^ o' = 0"
    unfolding is_aligned_def by (metis slab_constants(4) unat_0 unat_eq_0)
  then show ?thesis by (simp add: dvd_eq_mod_eq_0)
qed

lemma block_aligned:
  assumes core: "slab_core k S P" and S: "S s = Some (ord, F)" and j: "j < blocks_of ord"
  shows "2 ^ ord dvd unat (blk s ord j)"
proof -
  obtain i where at: "slab_at (region k) s i" using placed_at [OF core S] .
  note c = slab_coreD [OF core] and h = header_okD [OF slab_coreD(3) [OF core S]]
  note f = slab_at_facts [OF c(1) at]
  have "(2 :: nat) ^ ord dvd 2 ^ 12" using h(2) by (intro le_imp_power_dvd) simp
  then have "2 ^ ord dvd unat s" using f(2) by simp
  then show ?thesis using unat_blk [OF h(3) j f(3)] by simp
qed

lemma aligned_not_special:
  assumes "64 dvd unat a"
  shows "a \<noteq> ZERO_SIZE_PTR"
proof
  assume "a = ZERO_SIZE_PTR"
  moreover have "(- 1 :: u64) = 18446744073709551615" by simp
  ultimately have "unat a = 18446744073709551615" by (simp only: ZERO_SIZE_PTR_def) simp
  then show False using assms by simp
qed

lemma kfree_slab:
  assumes core: "slab_core k S P" and pool: "pool_ok k S P" and locks: "\<forall>jx < 6. sc_lock (slab_pool_g k jx) = 0"
    and x: "x \<in> slab_objects S"
  shows "\<exists>k'. kfree (fst x) k = Inr k' \<and> kmem_rep k' (slab_objects S \<union> big_objects (region k) - {x})"
proof -
  obtain s ord F j i where s: "S s = Some (ord, F)" "x = (blk s ord j, 2 ^ ord)" "1 \<le> j" "j < blocks_of ord" "j \<notin> set F"
      "slab_at (region k) s i" "\<forall>p \<in> chunk_pages i 5. page_slab (pages (region k) p) = s" "s \<noteq> NULL"
    using slab_object_cases [OF core x] .
  note c = slab_coreD [OF core] and h = header_okD [OF slab_coreD(3) [OF core s(1)]]
  obtain p where p: "virt_to_page (region k) (blk s ord j) = Some p" "p \<in> chunk_pages i 5"
    using blk_page [OF c(1) s(6) h(3) s(4)] .
  have pn: "p < npages (region k)" "page_slab (pages (region k) p) = s"
    using p(2) slab_at_facts(1) [OF c(1) s(6)] s(7) by (auto simp: chunk_pages_def)
  have "(2 :: nat) ^ 6 dvd 2 ^ ord" using h(1) by (rule le_imp_power_dvd)
  then have al: "2 ^ 6 dvd unat (blk s ord j)" using block_aligned [OF core s(1,4)] dvd_trans by blast
  then have a6: "is_aligned (blk s ord j) MIN_SLAB_BLOCK_ORDER"
    using is_aligned_iff [of 6 "blk s ord j"] by (simp add: MIN_SLAB_BLOCK_ORDER_def)
  obtain k' where k': "slab_free_block s (blk s ord j) k = Inr (0, k')"
      "kmem_rep k' (slab_objects S \<union> big_objects (region k) - {(blk s ord j, 2 ^ ord)})"
    using slab_free_block_correct [OF core pool locks s(1,3,4,5)] by blast
  have "slab_free (blk s ord j) k = Inr (0, k')"
    using a6 p pn s(8) k'(1) slab_mapped(2) [OF core s(1,4)]
    by (simp add: slab_free_def slab_get_header_def get_page_def)
  then have "kfree (blk s ord j) k = Inr k'"
    using aligned_not_special [of "blk s ord j"] al p(1) pn s(8) by (simp add: kfree_def get_page_def)
  then show ?thesis using k'(2) s(2) by auto
qed

lemma kfree_big:
  assumes core: "slab_core k S P" and pool: "pool_ok k S P" and locks: "\<forall>jx < 6. sc_lock (slab_pool_g k jx) = 0"
    and x: "x \<in> big_objects (region k)"
  shows "\<exists>k'. kfree (fst x) k = Inr k' \<and> kmem_rep k' (slab_objects S \<union> big_objects (region k) - {x})"
proof -
  let ?m = "region k"
  note c = slab_coreD [OF core]
  obtain i q where i: "x = (page_to_virt ?m i, 2 ^ (12 + q))" "(i, q) \<in> live_chunks ?m" "page_slab (pages ?m i) = NULL"
    using x by (auto simp: big_objects_def)
  note sp = chunk_span [OF c(1) i(2)]
  obtain m' where m': "buddy_free_pages (Some i) ?m = Inr m'" "buddy_inv m'" "same_layout ?m m'"
      "live_chunks m' = live_chunks ?m - {(i, q)}"
    using buddy_free_pages_correct [OF c(1) i(2)] by blast
  note g = gave_chunk_core [OF core i(2,3) m'(2-4)]
  have "(64 :: nat) dvd (base_frame ?m + i) * 4096" by (rule dvd_mult) simp
  then have "page_to_virt ?m i \<noteq> ZERO_SIZE_PTR" by (intro aligned_not_special) (simp only: sp(1))
  then have "kfree (page_to_virt ?m i) k = Inr (k\<lparr>region := m'\<rparr>)"
    using sp(5,6) i(3) m'(1) by (simp add: kfree_def get_page_def free_pages_def update_region_def)
  moreover have "x \<notin> slab_objects S"
  proof
    assume "x \<in> slab_objects S"
    then obtain s ord F where "S s = Some (ord, F)" "(2 :: nat) ^ (12 + q) = 2 ^ ord"
      using slab_object_cases [OF core, of x] i(1) by (metis prod.inject)
    then show False using header_okD(2) [OF c(3)] by fastforce
  qed
  then have "kmem_rep (k\<lparr>region := m'\<rparr>) (slab_objects S \<union> big_objects ?m - {x})"
    using g(2) i(1) pool locks by (intro kmem_repI [OF g(1)]) (auto simp: pool_ok_def)
  ultimately show ?thesis using i(1) by auto
qed

lemma kfree_correct:
  assumes "kmem_rep k A" "x \<in> A"
  shows "\<exists>k'. kfree (fst x) k = Inr k' \<and> kmem_rep k' (A - {x})"
  using assms kfree_slab [of k _ _ x] kfree_big [of k _ _ x] unfolding kmem_rep_def by blast

section \<open>Sizes\<close>

lemma size_to_slab_order_loop_spec:
  assumes "6 \<le> ord" "ord \<le> 11" "unat sz \<le> 2 ^ 11" "ord = 6 \<or> 2 ^ (ord - 1) < unat sz"
  shows "\<exists>q. size_to_slab_order_loop sz (int ord) = int q \<and> 6 \<le> q \<and> q \<le> 11 \<and> unat sz \<le> 2 ^ q \<and>
    (q = 6 \<or> 2 ^ (q - 1) < unat sz)"
  using assms
proof (induction "11 - ord" arbitrary: ord)
  case 0
  then have "ord = 11" by simp
  moreover have "\<not> sz > 2 ^ 11" using 0(4) by (simp add: word_less_nat_alt)
  ultimately show ?case using 0 slab_constants(4) [of 11] by (subst size_to_slab_order_loop.simps) auto
next
  case (Suc n)
  have sz: "sz > slab_order_to_size (int ord) \<longleftrightarrow> 2 ^ ord < unat sz"
    using Suc by (simp add: word_less_nat_alt unat_2p)
  show ?case
  proof (cases "2 ^ ord < unat sz")
    case True
    then have "size_to_slab_order_loop sz (int ord) = size_to_slab_order_loop sz (int (Suc ord))"
      using sz Suc by (subst size_to_slab_order_loop.simps) (simp add: add.commute)
    moreover have "n = 11 - Suc ord" "6 \<le> Suc ord" "Suc ord \<le> 11" "2 ^ (Suc ord - 1) < unat sz" using Suc True by auto
    ultimately show ?thesis using Suc.hyps(1) [of "Suc ord"] Suc.prems(3) by simp
  next
    case False
    then have "size_to_slab_order_loop sz (int ord) = int ord"
      using sz by (subst size_to_slab_order_loop.simps) simp
    then show ?thesis using False Suc.prems by auto
  qed
qed

lemma size_to_slab_order_fits:
  assumes "0 < unat sz" "unat sz \<le> 2 ^ 11"
  obtains ix where "size_to_slab_order sz = int (ix + 6)" "ix < 6" "unat sz \<le> 2 ^ (ix + 6)"
    "ix = 0 \<or> 2 ^ (ix + 5) < unat sz"
proof -
  have "\<not> sz \<le> 0" "\<not> sz > slab_order_to_size MAX_SLAB_BLOCK_ORDER"
    using assms slab_constants(4) [of 11] by (auto simp: word_less_nat_alt MAX_SLAB_BLOCK_ORDER_def)
  then have "size_to_slab_order sz = size_to_slab_order_loop sz (int 6)"
    by (simp add: size_to_slab_order_def MIN_SLAB_BLOCK_ORDER_def)
  moreover obtain q where q: "size_to_slab_order_loop sz (int 6) = int q" "6 \<le> q" "q \<le> 11" "unat sz \<le> 2 ^ q"
      "q = 6 \<or> 2 ^ (q - 1) < unat sz"
    using size_to_slab_order_loop_spec [of 6 sz] assms(2) by auto
  moreover have "q - 6 + 5 = q - 1" if "q \<noteq> 6" using that q(2) by simp
  ultimately show ?thesis using that [of "q - 6"] by (cases "q = 6") auto
qed

section \<open>The heap\<close>

text \<open>What a block serves: it is large enough, aligned to its own size, and less than twice as
  large as asked for unless it is the smallest one.\<close>

definition size_serves :: "size_t \<Rightarrow> vaddr_t \<times> nat \<Rightarrow> bool" where
  "size_serves sz = (\<lambda>(a, n). sz \<noteq> 0 \<and> unat sz \<le> n \<and> n dvd unat a \<and> (n = 64 \<or> n < 2 * unat sz))"

lemma kmalloc_small:
  assumes rep: "kmem_rep k A" and sz: "0 < unat sz" "unat sz \<le> 2 ^ 11"
  shows "(\<exists>k'. kmalloc sz k = Inr (NULL, k') \<and> kmem_rep k' A) \<or>
    (\<exists>x k'. kmalloc sz k = Inr (fst x, k') \<and> fst x \<noteq> NULL \<and> size_serves sz x \<and> x \<notin> A \<and> kmem_rep k' (insert x A))"
proof -
  obtain ix where ix: "size_to_slab_order sz = int (ix + 6)" "ix < 6" "unat sz \<le> 2 ^ (ix + 6)"
      "ix = 0 \<or> 2 ^ (ix + 5) < unat sz"
    using size_to_slab_order_fits [OF sz] .
  have "sz \<noteq> 0" "sz \<le> slab_order_to_size MAX_SLAB_BLOCK_ORDER"
    using sz slab_constants(4) [of 11] by (auto simp: word_le_nat_alt MAX_SLAB_BLOCK_ORDER_def)
  then have run: "kmalloc sz k = bindR (slab_alloc_order (int (ix + 6)) k) (\<lambda>(addr, k). Inr (addr, k))"
    using ix(1) by (cases "slab_alloc_order (int (ix + 6)) k") (auto simp: kmalloc_def kmalloc_real_def slab_alloc_def)
  have "(2 :: nat) ^ (ix + 6) = 2 * 2 ^ (ix + 5)" by (simp add: power_add)
  then have tight: "(2 :: nat) ^ (ix + 6) = 64 \<or> 2 ^ (ix + 6) < 2 * unat sz" using ix(4) by auto
  from slab_alloc_order_correct [OF rep ix(2)] show ?thesis
  proof (elim disjE exE conjE)
    fix a k' assume a: "slab_alloc_order (int (ix + 6)) k = Inr (a, k')" "a \<noteq> NULL" "(a, 2 ^ (ix + 6)) \<notin> A"
      "kmem_rep k' (insert (a, 2 ^ (ix + 6)) A)"
    have "2 ^ (ix + 6) dvd unat a"
    proof -
      obtain S P where core: "slab_core k' S P" and "(a, 2 ^ (ix + 6)) \<in> slab_objects S \<union> big_objects (region k')"
        using a(4) unfolding kmem_rep_def by (metis insertI1)
      then consider "(a, 2 ^ (ix + 6)) \<in> slab_objects S" | "(a, (2 :: nat) ^ (ix + 6)) \<in> big_objects (region k')" by blast
      then show ?thesis
      proof cases
        case 1
        then show ?thesis using slab_object_cases [OF core 1] block_aligned [OF core] by (metis prod.inject)
      next
        case 2
        then obtain q where "(2 :: nat) ^ (ix + 6) = 2 ^ (12 + q)" by (auto simp: big_objects_def)
        then show ?thesis using ix(2) by simp
      qed
    qed
    then have "size_serves sz (a, 2 ^ (ix + 6))"
      using ix(3) tight \<open>sz \<noteq> 0\<close> by (simp only: size_serves_def prod.case) simp
    then show ?thesis using run a by (intro disjI2 exI [of _ "(a, 2 ^ (ix + 6))"] exI [of _ k']) simp
  qed (use run in simp)
qed

lemma kmalloc_large:
  assumes rep: "kmem_rep k A" and sz: "2 ^ 11 < unat sz"
  shows "(\<exists>k'. kmalloc sz k = Inr (NULL, k') \<and> kmem_rep k' A) \<or>
    (\<exists>x k'. kmalloc sz k = Inr (fst x, k') \<and> fst x \<noteq> NULL \<and> size_serves sz x \<and> x \<notin> A \<and> kmem_rep k' (insert x A))"
proof -
  have nz: "sz \<noteq> 0" "\<not> sz \<le> slab_order_to_size MAX_SLAB_BLOCK_ORDER"
    using sz slab_constants(4) [of 11] by (auto simp: word_le_nat_alt MAX_SLAB_BLOCK_ORDER_def)
  have mx: "sz \<le> BUDDY_CHUNK_SIZE (BUDDY_MAX_ORDER - 1) \<longleftrightarrow> unat sz \<le> 2 ^ 22"
    using BUDDY_CHUNK_SIZE_eq [of 10] by (simp add: word_le_nat_alt BUDDY_MAX_ORDER_def)
  show ?thesis
  proof (cases "unat sz \<le> 2 ^ 22")
    case False
    then show ?thesis using nz mx rep by (simp add: kmalloc_def kmalloc_real_def)
  next
    case True
    have "0 < unat sz" using sz by simp
    from size_to_page_order_fits [OF this True] obtain q where q: "size_to_page_order sz = int q" "q \<le> 10"
        "unat sz \<le> 2 ^ (12 + q)" "q = 0 \<or> 2 ^ (11 + q) < unat sz" .
    have run: "kmalloc sz k = bindR (get_pages (int q) k) (\<lambda>(addr, k). Inr (addr, k))"
      using nz mx True q(1) by (cases "get_pages (int q) k") (auto simp: kmalloc_def kmalloc_real_def)
    have tight: "2 ^ (12 + q) < 2 * unat sz" using q(4) sz by (auto simp: power_add)
    from get_pages_correct [OF rep q(2)] show ?thesis
    proof (elim disjE exE conjE)
      fix a k' assume a: "get_pages (int q) k = Inr (a, k')" "a \<noteq> NULL" "(a, 2 ^ (12 + q)) \<notin> A"
        "2 ^ (12 + q) dvd unat a" "kmem_rep k' (insert (a, 2 ^ (12 + q)) A)"
      have "size_serves sz (a, 2 ^ (12 + q))"
        using q(3) tight a(4) nz(1) by (simp only: size_serves_def prod.case) simp
      then show ?thesis using run a by (intro disjI2 exI [of _ "(a, 2 ^ (12 + q))"] exI [of _ k']) simp
    qed (use run in simp)
  qed
qed

lemma kmalloc_correct:
  assumes rep: "kmem_rep k A" and sz: "sz \<noteq> 0"
  shows "(\<exists>k'. kmalloc sz k = Inr (NULL, k') \<and> kmem_rep k' A) \<or>
    (\<exists>x k'. kmalloc sz k = Inr (fst x, k') \<and> fst x \<noteq> NULL \<and> size_serves sz x \<and> kmem_rep k' (insert x A) \<and>
      (\<forall>y \<in> A. object_foot x \<inter> object_foot y = {}))"
proof -
  have "0 < unat sz" using sz by (simp add: unat_gt_0)
  then have "(\<exists>k'. kmalloc sz k = Inr (NULL, k') \<and> kmem_rep k' A) \<or>
    (\<exists>x k'. kmalloc sz k = Inr (fst x, k') \<and> fst x \<noteq> NULL \<and> size_serves sz x \<and> x \<notin> A \<and> kmem_rep k' (insert x A))"
    using kmalloc_small [OF rep] kmalloc_large [OF rep] by (metis linorder_not_less)
  moreover have "disjoint_feet object_foot (insert x A)" if "kmem_rep k' (insert x A)" for k' x
    using that objects_disjoint unfolding kmem_rep_def by metis
  then have "\<forall>y \<in> A. object_foot x \<inter> object_foot y = {}" if "kmem_rep k' (insert x A)" "x \<notin> A" for k' x
    using that unfolding disjoint_feet_def by (metis insertCI)
  ultimately show ?thesis by blast
qed

interpretation heap: object_allocator kmem_rep kmalloc kfree NULL fst object_foot "\<lambda>sz. sz \<noteq> 0" size_serves
proof
  fix r r' x y assume "size_serves r x" "size_serves r' y" "fst x = fst y"
  then have "0 < unat r" "unat r \<le> snd x" "0 < unat r'" "unat r' \<le> snd y"
    by (auto simp: size_serves_def unat_gt_0 split: prod.splits)
  then have "unat (fst x) \<in> object_foot x \<inter> object_foot y"
    using \<open>fst x = fst y\<close> by (auto simp: object_foot_def split: prod.splits)
  then show "object_foot x \<inter> object_foot y \<noteq> {}" by blast
qed (use kmalloc_correct kfree_correct in blast)+

section \<open>Initialisation\<close>

lemma init_containers_correct:
  assumes "dom (snodes k) = slab_cells" "n \<le> 6"
  shows "\<exists>h pool. init_containers n k = Inr (k\<lparr>snodes := h, slab_pool_g := pool\<rparr>) \<and> dom h = slab_cells \<and>
    (\<forall>ix < n. dlist h (PartialHead ix) [] \<and> current (pool ix) = NULL \<and> sc_lock (pool ix) = 0)"
  using assms(2)
proof (induction n)
  case 0
  then show ?case using assms(1) by (auto intro!: exI [of _ "snodes k"] exI [of _ "slab_pool_g k"])
next
  case (Suc n)
  then obtain h pool where h: "init_containers n k = Inr (k\<lparr>snodes := h, slab_pool_g := pool\<rparr>)" "dom h = slab_cells"
      "\<forall>ix < n. dlist h (PartialHead ix) [] \<and> current (pool ix) = NULL \<and> sc_lock (pool ix) = 0" by auto
  have "PartialHead n \<in> dom h" using h(2) Suc.prems by (auto simp: slab_cells_def)
  from init_list_head_correct [OF this] obtain h' where h': "init_list_head (PartialHead n) h = Some h'"
      "dlist h' (PartialHead n) []" "dom h' = dom h" "\<And>l. l \<noteq> PartialHead n \<Longrightarrow> h' l = h l" by blast
  let ?pool = "pool(n := (pool n)\<lparr>current := NULL, sc_lock := 0\<rparr>)"
  have "init_containers (Suc n) k = Inr (k\<lparr>snodes := h', slab_pool_g := ?pool\<rparr>)"
    using h(1) h'(1) by (simp add: on_snodes_def set_current_def unlock_container_def)
  moreover have "dlist h' (PartialHead ix) [] \<and> current (?pool ix) = NULL \<and> sc_lock (?pool ix) = 0" if "ix < Suc n" for ix
    using that h(3) h'(2,4) dlist_frame [of h "PartialHead ix" "[]" h'] by (cases "ix = n") auto
  moreover have "dom h' = slab_cells" using h(2) h'(3) by simp
  ultimately show ?case by blast
qed

lemma init_slab_correct:
  assumes "dom (snodes k) = slab_cells" "buddy_inv (region k)" "0 < base_frame (region k)"
    "\<forall>i. page_slab (pages (region k) i) = NULL"
  obtains k' where "init_slab k = Inr k'" "kmem_rep k' (big_objects (region k))" "region k' = region k"
proof -
  obtain h pool where h: "init_slab k = Inr (k\<lparr>snodes := h, slab_pool_g := pool\<rparr>)" "dom h = slab_cells"
      "\<forall>ix < 6. dlist h (PartialHead ix) [] \<and> current (pool ix) = NULL \<and> sc_lock (pool ix) = 0"
    using init_containers_correct [OF assms(1), of 6] by (auto simp: init_slab_def)
  let ?k = "k\<lparr>snodes := h, slab_pool_g := pool\<rparr>"
  have "list_family (dlist h) (partial_family (\<lambda>_. []))"
    using h(3) by (auto simp: list_family_def partial_family_def split: snode.splits if_splits)
  then have "slab_core ?k Map.empty (\<lambda>_. [])" using assms(2-4) h(2) by (simp add: slab_core_def)
  moreover have "pool_ok ?k Map.empty (\<lambda>_. [])" using h(3) by (simp add: pool_ok_def pool_ix_def)
  moreover have "slab_objects Map.empty = {}" by (simp add: slab_objects_def)
  ultimately have "kmem_rep ?k (big_objects (region k))" using h(3) by (intro kmem_repI) auto
  then show ?thesis using that h(1) by simp
qed

lemma mm_init_correct:
  assumes "unat img_end \<le> 0x3E800000" "dom (snodes k) = slab_cells"
  obtains k' where "mm_init img_end k = Inr k'" "kmem_rep k' {}"
proof -
  obtain m where m: "init_buddy img_end = Inr m" "buddy_inv m" "live_chunks m = {}" "\<forall>i. page_slab (pages m i) = NULL"
      "page_arrry m = phys_to_virt (ROUND_UP img_end PAGE_SIZE)"
      "unat (start_addr m) = unat (page_arrry m) + array_pages (avail_pages img_end) * 4096"
      "unat (start_addr m) + npages m * 4096 = unat (phys_to_virt 0x3F000000)"
      "npages m + array_pages (avail_pages img_end) = avail_pages img_end"
    using init_buddy_correct [OF assms(1)] by metis
  have "avail_pages img_end * 4096 \<le> 0x3F000000"
    using avail_start(1) [of img_end] assms(1) by simp
  then have "npages m * 4096 \<le> 0x3F000000" using m(8) by simp
  then have "4096 \<le> unat (start_addr m)" using m(7) by (simp add: phys_to_virt_def KBASE_def)
  then have "0 < base_frame m" by (simp add: base_frame_def div_greater_zero_iff)
  then have "dom (snodes (k\<lparr>region := m\<rparr>)) = slab_cells" "buddy_inv (region (k\<lparr>region := m\<rparr>))"
      "0 < base_frame (region (k\<lparr>region := m\<rparr>))"
      "\<forall>i. page_slab (pages (region (k\<lparr>region := m\<rparr>)) i) = NULL"
    using assms(2) m(2,4) by simp_all
  moreover have "big_objects (region (k\<lparr>region := m\<rparr>)) = {}" using m(3) by (simp add: big_objects_def)
  ultimately obtain k' where "init_slab (k\<lparr>region := m\<rparr>) = Inr k'" "kmem_rep k' {}"
    using init_slab_correct [of "k\<lparr>region := m\<rparr>"] by metis
  then show ?thesis using that m(1) by (simp add: mm_init_def)
qed

end
