(* ===== verification/Kmalloc_Props.thy ===== *)
theory Kmalloc_Props
  imports Kmalloc
begin

text \<open>
  The properties of the kernel heap: kmalloc and kfree as an allocator, what stays allocated when
  everything has been given back, and what \<open>kzalloc\<close> does.
\<close>

section \<open>What the heap keeps\<close>

lemma kmem_object_aligned:
  assumes "kmem_rep k A" "x \<in> A"
  shows "64 dvd unat (fst x)"
proof -
  obtain S P where core: "slab_core k S P" and x: "x \<in> slab_objects S \<union> big_objects (region k)"
    using assms unfolding kmem_rep_def by auto
  from x show ?thesis
  proof
    assume "x \<in> slab_objects S"
    then obtain s ord F j where s: "S s = Some (ord, F)" "x = (blk s ord j, 2 ^ ord)" "j < blocks_of ord"
      using slab_object_cases [OF core] by metis
    have "(2 :: nat) ^ 6 dvd 2 ^ ord" using header_okD(1) [OF slab_coreD(3) [OF core s(1)]] by (rule le_imp_power_dvd)
    from dvd_trans [OF this block_aligned [OF core s(1,3)]] show ?thesis using s(2) by simp
  next
    assume "x \<in> big_objects (region k)"
    then obtain i q where i: "x = (page_to_virt (region k) i, 2 ^ (12 + q))" "(i, q) \<in> live_chunks (region k)"
      by (auto simp: big_objects_def)
    have "(64 :: nat) dvd (base_frame (region k) + i) * 4096" by (rule dvd_mult) simp
    then show ?thesis using chunk_span(1) [OF slab_coreD(1) [OF core] i(2)] i(1) by (simp only: fst_conv)
  qed
qed

lemma kept_slab_current:
  assumes core: "slab_core k S P" and pool: "pool_ok k S P" and none: "slab_objects S = {}" and s: "S s = Some (ord, F)"
  shows "\<exists>ix < 6. s = current (slab_pool_g k ix)"
proof -
  note h = header_okD [OF slab_coreD(3) [OF core s]]
  have fs: "free_set_ok ord F" using slab_coreD(3) [OF core s] by (simp add: header_ok_def)
  define ix where "ix = ord - 6"
  have ix: "ix < 6" "ord = ix + 6" using h(1,2) by (auto simp: ix_def)
  have "{1..<blocks_of ord} \<subseteq> set F"
  proof
    fix j assume "j \<in> {1..<blocks_of ord}"
    then show "j \<in> set F" using none s slab_objects_iff [of "blk s ord j" "2 ^ ord" S] by auto
  qed
  then have "set F = {1..<blocks_of ord}" using h(5) by auto
  then have "length F = blocks_of ord - 1" using distinct_card [OF h(4)] by simp
  then have "F \<noteq> []" "length F + 1 = blocks_of (ix + 6)" using free_length(3) [OF fs] ix(2) by auto
  then have "s \<notin> set (P ix)" "s \<in> set (P ix) \<longleftrightarrow> s \<noteq> current (slab_pool_g k ix)"
    using pool_okD [OF pool ix(1)] s [unfolded ix(2)] unfolding pool_ix_def by (metis less_irrefl)+
  then show ?thesis using ix(1) by blast
qed

lemma quiescent_memory:
  assumes "kmem_rep k {}"
  shows "live_pages (region k) \<le> 6 * 32"
proof -
  obtain S P where core: "slab_core k S P" and pool: "pool_ok k S P" and none: "slab_objects S = {}"
      "big_objects (region k) = {}"
    using assms unfolding kmem_rep_def by auto
  let ?m = "region k" and ?cur = "(\<lambda>ix. current (slab_pool_g k ix)) ` {..<6}"
  note c = slab_coreD [OF core]
  have slab: "q = 5 \<and> page_to_virt ?m i \<in> ?cur" if iq: "(i, q) \<in> live_chunks ?m" for i q
  proof -
    have "page_slab (pages ?m i) \<noteq> NULL" using none(2) iq by (auto simp: big_objects_def)
    then obtain s x where x: "S s \<noteq> None" "slab_at ?m s x" "i \<in> chunk_pages x 5"
      using c(5) [OF chunk_span(6) [OF c(1) iq]] by blast
    have "i \<in> chunk_pages i q" by (simp add: chunk_pages_def)
    then have "i = x" using live_chunks_disjoint [OF c(1) iq, of x 5] x(2,3) by (auto simp: slab_at_def)
    moreover obtain ord F where "S s = Some (ord, F)" using x(1) by auto
    ultimately show ?thesis
      using x(2) kept_slab_current [OF core pool none(1), of s] live_chunks_order [OF iq, of 5] by (auto simp: slab_at_def)
  qed
  have inj: "inj_on (\<lambda>(i, q). page_to_virt ?m i) (live_chunks ?m)"
  proof (rule inj_onI, clarify)
    fix i q j r assume a: "(i, q) \<in> live_chunks ?m" "(j, r) \<in> live_chunks ?m" "page_to_virt ?m i = page_to_virt ?m j"
    then have "i = j" using chunk_span(5) [OF c(1) a(1)] chunk_span(5) [OF c(1) a(2)] by (metis option.inject)
    then show "i = j \<and> q = r" using live_chunks_order a by blast
  qed
  have sub: "(\<lambda>(i, q). page_to_virt ?m i) ` live_chunks ?m \<subseteq> ?cur" using slab by auto
  have fin: "finite (live_chunks ?m)" using finite_imageD [OF finite_subset [OF sub] inj] by simp
  have "card (live_chunks ?m) \<le> card ?cur" using card_mono [OF _ sub] card_image [OF inj] by simp
  also have "\<dots> \<le> 6" using card_image_le [of "{..<6 :: nat}"] by simp
  finally have n: "card (live_chunks ?m) \<le> 6" .
  have "live_pages ?m = (\<Sum>(i, q) \<in> live_chunks ?m. 32)"
    unfolding live_pages_def by (rule sum.cong [OF refl]) (use slab in fastforce)
  then show ?thesis using n by (simp add: case_prod_unfold)
qed

section \<open>The payload\<close>

lemma link_blocks_run:
  "link_blocks sz lim b k = Some r \<Longrightarrow> r = Inr (b', k') \<Longrightarrow> bytes k' = bytes k"
proof (induction sz lim b k r rule: link_blocks.raw_induct [rotated, consumes 1])
  case (1 f sz lim b k r)
  show ?case
  proof (cases "b < lim")
    case True
    show ?thesis
    proof (cases "put_next_block b (b + sz) k")
      case (Inl e)
      then have "r = Inl e" using 1(2) True by (simp add: Let_def)
      then show ?thesis using 1(3) by simp
    next
      case (Inr k1)
      then have "f sz lim (b + sz) k1 = Some r" using 1(2) True by (simp add: Let_def)
      from 1(1) [OF this 1(3)] show ?thesis
        using Inr by (auto simp: put_next_block_def mapped_def split: if_splits)
    qed
  qed (use 1(2,3) in auto)
qed

lemma link_blocks_bytes: "link_blocks sz lim b k = Some (Inr (b', k')) \<Longrightarrow> bytes k' = bytes k"
  by (rule link_blocks_run) simp_all

text \<open>A predicate that composes through \<^const>\<open>bindR\<close>: the run leaves the payload alone.\<close>

definition payload_kept :: "kmem \<Rightarrow> ('a \<Rightarrow> kmem) \<Rightarrow> 'a result \<Rightarrow> bool" where
  "payload_kept k f r \<longleftrightarrow> (\<forall>x. r = Inr x \<longrightarrow> bytes (f x) = bytes k)"

lemma payload_kept_Inr [simp]: "payload_kept k f (Inr x) \<longleftrightarrow> bytes (f x) = bytes k"
  and payload_kept_Inl [simp]: "payload_kept k f (Inl e)"
  by (simp_all add: payload_kept_def)

lemma payload_kept_bind:
  assumes "payload_kept k g r" "\<And>x. r = Inr x \<Longrightarrow> bytes (g x) = bytes k \<Longrightarrow> payload_kept k f (c x)"
  shows "payload_kept k f (bindR r c)"
  using assms by (cases r) (auto simp: payload_kept_def)

lemma payload_kept_pure:
  "(\<And>x. r = Inr x \<Longrightarrow> payload_kept k f (c x)) \<Longrightarrow> payload_kept k f (bindR r c)"
  by (cases r) auto

lemma payload_steps:
  "bytes k = bytes k0 \<Longrightarrow> payload_kept k0 (\<lambda>k. k) (put_header s g k)"
  "bytes k = bytes k0 \<Longrightarrow> payload_kept k0 (\<lambda>k. k) (put_next_block b v k)"
  "bytes k = bytes k0 \<Longrightarrow> payload_kept k0 (\<lambda>k. k) (update_region u k)"
  "bytes k = bytes k0 \<Longrightarrow> payload_kept k0 (\<lambda>k. k) (on_snodes w k)"
  "bytes k = bytes k0 \<Longrightarrow> payload_kept k0 (\<lambda>k. k) (lock_container ix k)"
  by (auto simp: payload_kept_def put_header_def put_next_block_def update_region_def on_snodes_def lock_container_def
      bindR_Inr split: if_split_asm)

lemma step_bytes:
  "put_header s g k = Inr k' \<Longrightarrow> bytes k' = bytes k" "on_snodes w k = Inr k' \<Longrightarrow> bytes k' = bytes k"
  using payload_steps(1) [OF refl, of k s g] payload_steps(4) [OF refl, of k w] by simp_all

lemma set_current_bytes [simp]: "bytes (set_current ix s k) = bytes k" "bytes (unlock_container ix k) = bytes k"
  by (simp_all add: set_current_def unlock_container_def)

lemma alloc_slab_bytes:
  assumes "bytes k = bytes k0"
  shows "payload_kept k0 snd (alloc_slab_from_buddy ord k)"
  unfolding alloc_slab_from_buddy_def Let_def
  apply (rule payload_kept_pure)+
  apply (clarsimp split: option.split)
  using assms
  apply (intro conjI allI impI; simp)
  apply (rule payload_kept_bind [OF payload_steps(1)], simp)
  apply (rule payload_kept_bind [OF payload_steps(1)], simp)
  apply (clarsimp split: option.split)
  subgoal for _ _ _ _ _ r
    by (cases r)
      (auto dest!: link_blocks_bytes intro!: payload_kept_bind [OF payload_steps(2)] payload_kept_bind [OF payload_steps(3)])
  done

lemma get_pages_bytes: "payload_kept k snd (get_pages ord k)"
  unfolding get_pages_def by (rule payload_kept_pure) (auto split: option.split)

lemma partial_bytes:
  assumes "bytes k = bytes k0"
  shows "payload_kept k0 snd (get_from_partial_list ix k)"
  unfolding get_from_partial_list_def
  by (auto intro!: payload_kept_pure simp: assms split: snode.split dest!: step_bytes)

lemma set_new_current_bytes:
  assumes "bytes k = bytes k0"
  shows "payload_kept k0 (\<lambda>k. k) (set_new_current_slab ix ord k)"
  unfolding set_new_current_slab_def Let_def
  by (rule payload_kept_bind [OF partial_bytes [OF assms]])
    (auto intro!: payload_kept_bind [OF alloc_slab_bytes])

lemma get_free_block_bytes:
  assumes "bytes k = bytes k0"
  shows "payload_kept k0 snd (slab_get_free_block s k)"
  unfolding slab_get_free_block_def Let_def
  by (auto intro!: payload_kept_pure simp: assms dest!: step_bytes)

lemma slab_alloc_order_bytes: "payload_kept k snd (slab_alloc_order ord k)"
  unfolding slab_alloc_order_def
  apply (rule payload_kept_pure, rule payload_kept_pure)
  apply (rule payload_kept_bind [OF payload_steps(5) [OF refl]])
  apply (rule payload_kept_bind [where g = snd])
   apply (simp add: alloc_slab_bytes)
  apply clarsimp
  apply (rule payload_kept_bind [OF get_free_block_bytes], simp)
  apply clarsimp
  apply (rule payload_kept_pure)
  apply (rule payload_kept_bind [where g = "\<lambda>k. k"])
  by (auto intro!: payload_kept_pure set_new_current_bytes)

lemma kmalloc_bytes:
  assumes "kmalloc sz k = Inr (a, k')"
  shows "bytes k' = bytes k"
proof -
  have "payload_kept k snd (slab_alloc sz k)"
    using slab_alloc_order_bytes by (simp add: slab_alloc_def Let_def)
  then have "payload_kept k (snd \<circ> snd) (kmalloc_real sz k)"
    using get_pages_bytes unfolding kmalloc_real_def by (auto intro!: payload_kept_bind [where g = snd])
  then have "payload_kept k snd (kmalloc sz k)"
    unfolding kmalloc_def by (auto intro!: payload_kept_bind [where g = "snd \<circ> snd"])
  then show ?thesis using assms by simp
qed

section \<open>Properties\<close>

text \<open>Memory before boot: any contents, with the list nodes where the code keeps them.\<close>

definition raw_memory :: kmem where
  "raw_memory = \<lparr>region = undefined, slab_pool_g = (\<lambda>_. \<lparr>current = 0, sc_lock = 0\<rparr>), headers = (\<lambda>_. undefined),
     next_block = (\<lambda>_. 0), snodes = (\<lambda>n. if n \<in> slab_cells then Some \<lparr>lh_prev = SLNull, lh_next = SLNull\<rparr> else None),
     bytes = (\<lambda>_. 0)\<rparr>"

lemma raw_memory_nodes: "dom (snodes raw_memory) = slab_cells"
  by (auto simp: raw_memory_def split: if_splits)

lemma heap_example: "\<exists>k. mm_init 0x100000 raw_memory = Inr k \<and> kmem_rep k {}"
proof -
  have "unat (0x100000 :: u64) \<le> 0x3E800000" by simp
  from mm_init_correct [OF this raw_memory_nodes] show ?thesis by blast
qed

text \<open>A heap over a region of one page that is handed out.\<close>

lemma full_heap: "\<exists>k. init_slab (raw_memory\<lparr>region := full_region\<rparr>) = Inr k \<and> kmem_rep k {(0x3FF000, 4096)}"
proof -
  let ?k = "raw_memory\<lparr>region := full_region\<rparr>"
  have "big_objects full_region = {(0x3FF000, 4096)}"
    using full_region_inv(2) by (auto simp: big_objects_def page_to_virt_def full_region_def)
  moreover have "dom (snodes ?k) = slab_cells" "buddy_inv (region ?k)" "0 < base_frame (region ?k)"
      "\<forall>i. page_slab (pages (region ?k) i) = NULL"
    using raw_memory_nodes full_region_inv by (simp_all add: full_region_def)
  ultimately show ?thesis using init_slab_correct [of ?k] by (metis kmem.select_convs(1) kmem.surjective kmem.update_convs(1))
qed

text \<open>C3: \<open>kmalloc\<close> of any non-zero size, in every state that satisfies the invariant of the heap,
  returns without faulting or hanging. It hands out memory that is large enough, aligned to its own
  size, less than twice as large as asked for (or the smallest block), and disjoint from all memory
  handed out before, or it returns NULL and what is handed out does not change.\<close>

theorem kmalloc_spec:
  assumes "kmem_rep k A" "sz \<noteq> 0"
  shows "(\<exists>k'. kmalloc sz k = Inr (NULL, k') \<and> kmem_rep k' A) \<or>
    (\<exists>a n k'. kmalloc sz k = Inr (a, k') \<and> IS_VALID_PTR a \<and> unat sz \<le> n \<and> n dvd unat a \<and>
       (n = 64 \<or> n < 2 * unat sz) \<and> kmem_rep k' (insert (a, n) A) \<and>
       (\<forall>(b, l) \<in> A. {unat a..<unat a + n} \<inter> {unat b..<unat b + l} = {}))"
proof -
  from kmalloc_correct [OF assms] show ?thesis
  proof (elim disjE exE conjE)
    fix x k' assume x: "kmalloc sz k = Inr (fst x, k')" "fst x \<noteq> NULL" "size_serves sz x" "kmem_rep k' (insert x A)"
      "\<forall>y \<in> A. object_foot x \<inter> object_foot y = {}"
    obtain a n where an: "x = (a, n)" by (cases x)
    have "IS_VALID_PTR a"
      using x(2) aligned_not_special [OF kmem_object_aligned [OF x(4) insertI1]] an by (simp add: IS_VALID_PTR_def)
    moreover have "\<forall>(b, l) \<in> A. {unat a..<unat a + n} \<inter> {unat b..<unat b + l} = {}"
      using x(5) an unfolding object_foot_def by auto
    moreover have "kmalloc sz k = Inr (a, k')" "unat sz \<le> n" "n dvd unat a" "n = 64 \<or> n < 2 * unat sz" "kmem_rep k' (insert (a, n) A)"
      using x(1,3,4) an by (auto simp: size_serves_def)
    ultimately show ?thesis by blast
  qed blast
qed

theorem kmalloc_spec_witness:
  "\<exists>k. mm_init 0x100000 raw_memory = Inr k \<and>
    ((\<exists>k'. kmalloc 100 k = Inr (NULL, k')) \<or> (\<exists>a n k'. kmalloc 100 k = Inr (a, k') \<and> 100 \<le> n \<and> kmem_rep k' {(a, n)}))"
proof -
  obtain k where k: "mm_init 0x100000 raw_memory = Inr k" "kmem_rep k {}" using heap_example by blast
  have "(100 :: u64) \<noteq> 0" "unat (100 :: u64) = 100" by simp_all
  with kmalloc_spec [OF k(2), of 100] k(1) show ?thesis by auto
qed

text \<open>C4: \<open>kfree\<close> of memory that is handed out returns and takes exactly that memory out of what is
  handed out, whether it came from a slab or from the buddy system.\<close>

theorem kfree_spec:
  assumes "kmem_rep k A" "(a, n) \<in> A"
  shows "\<exists>k'. kfree a k = Inr k' \<and> kmem_rep k' (A - {(a, n)})"
  using kfree_correct [OF assms] by simp

theorem kfree_spec_witness:
  "\<exists>k k'. init_slab (raw_memory\<lparr>region := full_region\<rparr>) = Inr k \<and> kfree 0x3FF000 k = Inr k' \<and> kmem_rep k' {}"
proof -
  obtain k where k: "init_slab (raw_memory\<lparr>region := full_region\<rparr>) = Inr k" "kmem_rep k {(0x3FF000, 4096)}"
    using full_heap by blast
  from kfree_spec [OF k(2), of "0x3FF000" 4096] k(1) show ?thesis by auto
qed

text \<open>C1: from boot on, whatever sequence of allocations of non-zero sizes and releases of held memory
  a client performs, every call returns, and the memory it holds is disjoint and exactly what the heap
  counts as handed out.\<close>

theorem heap_client_safe:
  assumes "unat img_end \<le> 0x3E800000" "dom (snodes k) = slab_cells" "\<forall>sz. Get sz \<in> set rs \<longrightarrow> sz \<noteq> 0"
  shows "\<exists>k0 xs k'. mm_init img_end k = Inr k0 \<and> run_client kmalloc kfree NULL rs [] k0 = Inr (map fst xs, k') \<and>
    kmem_rep k' (set xs) \<and> distinct (map fst xs) \<and> disjoint_feet object_foot (set xs)"
proof -
  obtain k0 where k0: "mm_init img_end k = Inr k0" "kmem_rep k0 {}" using mm_init_correct [OF assms(1,2)] .
  then show ?thesis
    using heap.run_client_safe [OF heap.held_ok_nil [OF k0(2)] assms(3)] heap.held_ok_handles
    unfolding heap.held_ok_def by (metis list.simps(8))
qed

theorem heap_client_safe_witness:
  "\<exists>k0 xs k'. mm_init 0x100000 raw_memory = Inr k0 \<and>
    run_client kmalloc kfree NULL [Get 100, Get 5000, Put 1, Get 64] [] k0 = Inr (map fst xs, k') \<and>
    disjoint_feet object_foot (set xs)"
proof -
  have "\<forall>sz. Get sz \<in> set [Get 100, Get 5000, Put 1, Get 64] \<longrightarrow> sz \<noteq> (0 :: u64)" by auto
  from heap_client_safe [OF _ raw_memory_nodes this, of "0x100000"] show ?thesis by auto
qed

text \<open>C15: the heap does not hoard. When the client then gives back everything it holds, all memory is
  free again except for at most one wholly free slab of 32 pages per block size.\<close>

theorem heap_no_hoard:
  assumes "unat img_end \<le> 0x3E800000" "dom (snodes k) = slab_cells" "\<forall>sz. Get sz \<in> set rs \<longrightarrow> sz \<noteq> 0"
  shows "\<exists>k0 n k'. mm_init img_end k = Inr k0 \<and>
    run_client kmalloc kfree NULL (rs @ replicate n (Put 0)) [] k0 = Inr ([], k') \<and> kmem_rep k' {} \<and>
    unat (get_total_mem_size_from_buddy (region k')) \<le> unat (get_free_mem_size_from_buddy (region k')) + 6 * unat SLAB_SIZE"
proof -
  obtain k0 where k0: "mm_init img_end k = Inr k0" "kmem_rep k0 {}" using mm_init_correct [OF assms(1,2)] .
  obtain xs k1 where 1: "run_client kmalloc kfree NULL rs [] k0 = Inr (map fst xs, k1)" "heap.held_ok xs k1"
    using heap.run_client_safe [OF heap.held_ok_nil [OF k0(2)] assms(3)] by auto
  obtain k2 where 2: "run_client kmalloc kfree NULL (replicate (length xs) (Put 0)) (map fst xs) k1 = Inr ([], k2)"
      "kmem_rep k2 {}"
    using heap.run_client_return_all [OF 1(2)] by blast
  have "buddy_inv (region k2)" using 2(2) slab_coreD(1) unfolding kmem_rep_def by blast
  then have "unat (get_total_mem_size_from_buddy (region k2)) \<le> unat (get_free_mem_size_from_buddy (region k2)) + 6 * unat SLAB_SIZE"
    using free_mem_size quiescent_memory [OF 2(2)] by (simp add: SLAB_SIZE_def PAGE_SHIFT_def flip: free_mem_size)
  moreover have "run_client kmalloc kfree NULL (rs @ replicate (length xs) (Put 0)) [] k0 = Inr ([], k2)"
    using 1(1) 2(1) by (simp add: run_client_append)
  ultimately show ?thesis using k0(1) 2(2) by blast
qed

theorem heap_no_hoard_witness:
  "\<exists>k0 n k'. mm_init 0x100000 raw_memory = Inr k0 \<and>
    run_client kmalloc kfree NULL ([Get 100, Get 300000] @ replicate n (Put 0)) [] k0 = Inr ([], k') \<and> kmem_rep k' {}"
proof -
  have "\<forall>sz. Get sz \<in> set [Get 100, Get 300000] \<longrightarrow> sz \<noteq> (0 :: u64)" by auto
  from heap_no_hoard [OF _ raw_memory_nodes this, of "0x100000"] show ?thesis by auto
qed

text \<open>C35: \<open>kzalloc\<close> never clears the memory it returns: its test is inverted. For a non-zero size it
  either returns what \<open>kmalloc\<close> returned with the payload of all memory unchanged, or, when
  \<open>kmalloc\<close> fails, writes through the NULL pointer.\<close>

theorem kzalloc_never_clears:
  assumes "kmem_rep k A" "sz \<noteq> 0"
  shows "(\<exists>a k'. kzalloc sz k = Inr (a, k') \<and> kmalloc sz k = Inr (a, k') \<and> IS_VALID_PTR a \<and> bytes k' = bytes k) \<or>
    (kzalloc sz k = Inl FAULT \<and> (\<exists>k'. kmalloc sz k = Inr (NULL, k')))"
proof -
  from kmalloc_correct [OF assms] show ?thesis
  proof (elim disjE exE conjE)
    fix k' assume k': "kmalloc sz k = Inr (NULL, k')" "kmem_rep k' A"
    obtain n where n: "unat sz = Suc n" using assms(2) by (metis not0_implies_Suc unat_eq_0)
    have inv: "buddy_inv (region k')" "0 < base_frame (region k')"
      using k'(2) slab_coreD(1,2) unfolding kmem_rep_def by blast+
    then have ok: "region_ok (region k')" using buddy_repD(1) by (auto simp: buddy_inv_def)
    have "virt_to_page (region k') NULL = None"
      using virt_to_page_frame [OF ok, of NULL 0 0] inv(2) by simp
    then show ?thesis using k'(1) n by (simp add: kzalloc_def IS_VALID_PTR_def mapped_def)
  next
    fix x k' assume x: "kmalloc sz k = Inr (fst x, k')" "fst x \<noteq> NULL" "kmem_rep k' (insert x A)"
    have "IS_VALID_PTR (fst x)"
      using x(2) aligned_not_special [OF kmem_object_aligned [OF x(3) insertI1]] by (simp add: IS_VALID_PTR_def)
    then show ?thesis using x(1) kmalloc_bytes [OF x(1)] by (simp add: kzalloc_def)
  qed
qed

theorem kzalloc_never_clears_witness:
  "\<exists>k. mm_init 0x100000 raw_memory = Inr k \<and>
    ((\<exists>a k'. kzalloc 100 k = Inr (a, k') \<and> bytes k' = bytes k) \<or> kzalloc 100 k = Inl FAULT)"
proof -
  obtain k where k: "mm_init 0x100000 raw_memory = Inr k" "kmem_rep k {}" using heap_example by blast
  with kzalloc_never_clears [OF k(2), of 100] show ?thesis by auto
qed

text \<open>\<open>size_to_slab_order\<close> gives the smallest block order, from 64 to 2048 bytes, that holds the
  size, and -1 for 0 and for larger sizes.\<close>

lemma size_to_slab_order_spec:
  "if sz = 0 \<or> unat sz > 2048 then size_to_slab_order sz = -1
   else \<exists>ord. size_to_slab_order sz = int ord \<and> 6 \<le> ord \<and> ord \<le> 11 \<and> unat sz \<le> 2 ^ ord \<and>
     (ord = 6 \<or> 2 ^ (ord - 1) < unat sz)"
proof (cases "sz = 0 \<or> unat sz > 2048")
  case True
  then show ?thesis using slab_constants(4) [of 11]
    by (auto simp: size_to_slab_order_def MAX_SLAB_BLOCK_ORDER_def word_less_nat_alt)
next
  case False
  then have "0 < unat sz" "unat sz \<le> 2 ^ 11" by (auto simp: unat_gt_0)
  from size_to_slab_order_fits [OF this] obtain ix where ix: "size_to_slab_order sz = int (ix + 6)" "ix < 6"
    "unat sz \<le> 2 ^ (ix + 6)" "ix = 0 \<or> 2 ^ (ix + 5) < unat sz" .
  have "(\<exists>ord. size_to_slab_order sz = int ord \<and> 6 \<le> ord \<and> ord \<le> 11 \<and> unat sz \<le> 2 ^ ord \<and>
     (ord = 6 \<or> 2 ^ (ord - 1) < unat sz))"
    by (rule exI [of _ "ix + 6"]) (use ix in \<open>auto simp: add.commute\<close>)
  then show ?thesis using False by simp
qed

end
