(* ===== verification/PageTable.thy ===== *)
theory PageTable
  imports Kmalloc
begin

text \<open>
  The page tables of src/arch/aarch64/mm/page_table.c: four levels of 512 64-bit entries. The
  bit-field unions of src/include/arch/aarch64/arch/mm/page_table.h are words with field
  accessors; a \<open>pte_t *\<close> is a table page with an index. Table pages come from \<open>get_pages\<close>.
\<close>

section \<open>Entries\<close>

type_synonym vmr_prop_t = u64
type_synonym pte_ptr = "vaddr_t \<times> nat"

definition VMR_READ :: u64 where "VMR_READ = 1"
definition VMR_WRITE :: u64 where "VMR_WRITE = 2"
definition VMR_EXEC :: u64 where "VMR_EXEC = 4"
definition VMR_DEVICE :: u64 where "VMR_DEVICE = 8"
definition VMR_NOCACHE :: u64 where "VMR_NOCACHE = 16"

definition flag_set :: "u64 \<Rightarrow> u64 \<Rightarrow> bool" where
  "flag_set flags f \<longleftrightarrow> (and) flags f \<noteq> 0"

text \<open>A bit-field of a given width at a given offset.\<close>

definition get_field :: "nat \<Rightarrow> nat \<Rightarrow> u64 \<Rightarrow> u64" where
  "get_field off w e = take_bit w (drop_bit off e)"

definition set_field :: "nat \<Rightarrow> nat \<Rightarrow> u64 \<Rightarrow> u64 \<Rightarrow> u64" where
  "set_field off w v e = (or) ((and) e (not (push_bit off (mask w)))) (push_bit off (take_bit w v))"

text \<open>The fields of \<open>l3_page\<close> and \<open>table\<close> the code writes.\<close>

definition set_is_valid :: "u64 \<Rightarrow> u64 \<Rightarrow> u64" where "set_is_valid = set_field 0 1"
definition set_is_table :: "u64 \<Rightarrow> u64 \<Rightarrow> u64" where "set_is_table = set_field 1 1"
definition set_attr_index :: "u64 \<Rightarrow> u64 \<Rightarrow> u64" where "set_attr_index = set_field 2 3"
definition set_AP :: "u64 \<Rightarrow> u64 \<Rightarrow> u64" where "set_AP = set_field 6 2"
definition set_SH :: "u64 \<Rightarrow> u64 \<Rightarrow> u64" where "set_SH = set_field 8 2"
definition set_AF :: "u64 \<Rightarrow> u64 \<Rightarrow> u64" where "set_AF = set_field 10 1"
definition set_nG :: "u64 \<Rightarrow> u64 \<Rightarrow> u64" where "set_nG = set_field 11 1"
definition set_pfn :: "u64 \<Rightarrow> u64 \<Rightarrow> u64" where "set_pfn = set_field 12 36"
definition set_PXN :: "u64 \<Rightarrow> u64 \<Rightarrow> u64" where "set_PXN = set_field 53 1"
definition set_UXN :: "u64 \<Rightarrow> u64 \<Rightarrow> u64" where "set_UXN = set_field 54 1"

definition IS_PTE_INVALID :: "u64 \<Rightarrow> bool" where "IS_PTE_INVALID e \<longleftrightarrow> \<not> flag_set e 1"
definition IS_PTE_TABLE :: "u64 \<Rightarrow> bool" where "IS_PTE_TABLE e \<longleftrightarrow> flag_set e 2"

definition vmr_prot_to_ap :: "vmr_prop_t \<Rightarrow> u64" where
  "vmr_prot_to_ap prot =
     (if flag_set prot VMR_READ \<and> \<not> flag_set prot VMR_WRITE then 3
      else if flag_set prot VMR_WRITE then 1 else 0)"

definition ap_to_vmr_prot :: "u64 \<Rightarrow> vmr_prop_t" where
  "ap_to_vmr_prot ap = (if ap = 3 then VMR_READ else if ap = 1 then (or) VMR_READ VMR_WRITE else 0)"

definition USER_PTE :: int where "USER_PTE = 0"
definition KERNEL_PTE :: int where "KERNEL_PTE = 1"
definition INNER_SHAREABLE :: u64 where "INNER_SHAREABLE = 3"
definition NORMAL_MEMORY :: u64 where "NORMAL_MEMORY = 4"
definition NORMAL_MEMORY_NOCACHE :: u64 where "NORMAL_MEMORY_NOCACHE = 3"
definition DEVICE_MEMORY :: u64 where "DEVICE_MEMORY = 0"

definition set_pte_flags :: "u64 \<Rightarrow> vmr_prop_t \<Rightarrow> int \<Rightarrow> u64 result" where
  "set_pte_flags entry flags kind =
     bindR (BUG_ON (kind \<noteq> USER_PTE \<and> kind \<noteq> KERNEL_PTE)) (\<lambda>_.
     let e = set_AP (vmr_prot_to_ap flags) entry;
         e = (if kind = KERNEL_PTE
              then set_UXN 1 (if \<not> flag_set flags VMR_EXEC then set_PXN 1 e else e)
              else set_PXN 1 (if \<not> flag_set flags VMR_EXEC then set_UXN 1 e else e));
         e = set_SH INNER_SHAREABLE (set_nG 1 (set_AF 1 e))
     in Inr (if flag_set flags VMR_DEVICE then set_SH 0 (set_attr_index DEVICE_MEMORY e)
             else if flag_set flags VMR_NOCACHE then set_attr_index NORMAL_MEMORY_NOCACHE e
             else set_attr_index NORMAL_MEMORY e))"

section \<open>Tables\<close>

text \<open>The memory of page tables: pages of the heap, and the tables the kernel image carries
  (\<open>boot_ttbr0_l0\<close> and the like), which lie outside the memory the heap manages.\<close>

record vmem =
  heap :: kmem
  static_ptp :: "vaddr_t \<Rightarrow> bool"
  ptps :: "vaddr_t \<Rightarrow> nat \<Rightarrow> u64"
  ttbr0_el1 :: paddr_t

definition set_page_table :: "paddr_t \<Rightarrow> vmem \<Rightarrow> vmem" where
  "set_page_table pgtbl st = st\<lparr>ttbr0_el1 := pgtbl\<rparr>"

definition PTP_ENTRIES :: nat where "PTP_ENTRIES = 512"

text \<open>\<open>GET_Lx_INDEX\<close>: the shift of level x is \<open>(3 - x) * PAGE_ORDER + PAGE_SHIFT\<close>.\<close>

definition level_index :: "nat \<Rightarrow> vaddr_t \<Rightarrow> nat" where
  "level_index level va = unat ((and) (drop_bit ((3 - level) * 9 + 12) va) (mask 9))"

definition GET_PADDR_IN_PTE :: "u64 \<Rightarrow> paddr_t" where
  "GET_PADDR_IN_PTE e = push_bit 12 (get_field 12 36 e)"

definition GET_VA_OFFSET :: "nat \<Rightarrow> vaddr_t \<Rightarrow> u64" where
  "GET_VA_OFFSET level va = (and) va (mask ((3 - level) * 9 + 12))"

definition ptp_mapped :: "vmem \<Rightarrow> vaddr_t \<Rightarrow> unit result" where
  "ptp_mapped st t = (if static_ptp st t then Inr () else mapped (heap st) t)"

definition read_pte :: "vmem \<Rightarrow> pte_ptr \<Rightarrow> u64 result" where
  "read_pte st = (\<lambda>(t, i). bindR (ptp_mapped st t) (\<lambda>_. if i < PTP_ENTRIES then Inr (ptps st t i) else Inl FAULT))"

definition write_pte :: "pte_ptr \<Rightarrow> u64 \<Rightarrow> vmem \<Rightarrow> vmem result" where
  "write_pte = (\<lambda>(t, i) e st. bindR (ptp_mapped st t) (\<lambda>_.
     if i < PTP_ENTRIES then Inr (st\<lparr>ptps := (ptps st)(t := (ptps st t)(i := e))\<rparr>) else Inl FAULT))"

definition NORMAL_PTP :: int where "NORMAL_PTP = 0"
definition BLOCK_PTP :: int where "BLOCK_PTP = 1"

definition table_entry :: "paddr_t \<Rightarrow> u64" where
  "table_entry pa = set_pfn (drop_bit 12 pa) (set_is_table 1 (set_is_valid 1 0))"

text \<open>\<open>rss\<close> is the counter behind the pointer, or \<^term>\<open>None\<close> for NULL.\<close>

definition add_rss :: "u64 option \<Rightarrow> u64 option" where
  "add_rss rss = map_option (\<lambda>n. n + PAGE_SIZE) rss"

text \<open>The branch of \<open>get_next_ptp\<close> that allocates a table.\<close>

definition alloc_ptp :: "pte_ptr \<Rightarrow> u64 option \<Rightarrow> vmem \<Rightarrow> (int \<times> u64 option \<times> vmem) result" where
  "alloc_ptp pte rss st =
     bindR (get_pages 0 (heap st)) (\<lambda>(new_ptp, k).
     let st = st\<lparr>heap := k\<rparr> in
     if new_ptp = NULL then Inr (- ENOMEM, rss, st)
     else
       let st = st\<lparr>ptps := (ptps st)(new_ptp := (\<lambda>_. 0))\<rparr> in
       bindR (write_pte pte (table_entry (virt_to_phys new_ptp)) st) (\<lambda>st.
       Inr (0, add_rss rss, st)))"

text \<open>\<open>get_next_ptp\<close>: the return value with, when it is not negative, the next table and the entry;
  then the counter and the state.\<close>

definition get_next_ptp ::
  "vaddr_t \<Rightarrow> nat \<Rightarrow> vaddr_t \<Rightarrow> bool \<Rightarrow> u64 option \<Rightarrow> vmem \<Rightarrow>
   (int \<times> (vaddr_t \<times> pte_ptr) option \<times> u64 option \<times> vmem) result" where
  "get_next_ptp cur_ptp level va alloc rss st =
     (if cur_ptp = NULL then Inr (- ENOMEM, None, rss, st)
      else if level > 3 then Inl BUG
      else
        let pte = (cur_ptp, level_index level va) in
        bindR (read_pte st pte) (\<lambda>e.
        bindR (if IS_PTE_INVALID e
               then if \<not> alloc then Inr (- ENOMEM, rss, st) else alloc_ptp pte rss st
               else Inr (0, rss, st)) (\<lambda>(err, rss, st).
        if err < 0 then Inr (err, None, rss, st)
        else
          bindR (read_pte st pte) (\<lambda>e.
          Inr (if IS_PTE_TABLE e then NORMAL_PTP else BLOCK_PTP,
               Some (phys_to_virt (GET_PADDR_IN_PTE e), pte), rss, st)))))"

text \<open>\<open>query_in_pgtbl\<close>: the return value and, on success, the physical address and the entry.\<close>

definition query_in_pgtbl :: "vaddr_t \<Rightarrow> vaddr_t \<Rightarrow> vmem \<Rightarrow> (int \<times> (paddr_t \<times> pte_ptr) option) result" where
  "query_in_pgtbl pgtbl va st =
     bindR (get_next_ptp pgtbl 0 va False None st) (\<lambda>(ret, out, _).
     case out of None \<Rightarrow> Inr (ret, None) | Some (l1_ptp, _) \<Rightarrow>
     bindR (get_next_ptp l1_ptp 1 va False None st) (\<lambda>(ret, out, _).
     case out of None \<Rightarrow> Inr (ret, None) | Some (l2_ptp, pte) \<Rightarrow>
     if ret = BLOCK_PTP then Inr (0, Some (virt_to_phys l2_ptp + GET_VA_OFFSET 1 va, pte)) else
     bindR (get_next_ptp l2_ptp 2 va False None st) (\<lambda>(ret, out, _).
     case out of None \<Rightarrow> Inr (ret, None) | Some (l3_ptp, pte) \<Rightarrow>
     if ret = BLOCK_PTP then Inr (0, Some (virt_to_phys l3_ptp + GET_VA_OFFSET 2 va, pte)) else
     bindR (get_next_ptp l3_ptp 3 va False None st) (\<lambda>(ret, out, _).
     case out of None \<Rightarrow> Inr (ret, None) | Some (phys_page, pte) \<Rightarrow>
     Inr (0, Some (virt_to_phys phys_page + GET_VA_OFFSET 3 va, pte))))))"

section \<open>Mapping a range\<close>

text \<open>The three calls of \<open>get_next_ptp\<close> at the head of the loop, each followed by \<open>BUG_ON(ret != 0)\<close>.\<close>

definition next_ptp_or_bug :: "vaddr_t \<Rightarrow> nat \<Rightarrow> vaddr_t \<Rightarrow> u64 option \<Rightarrow> vmem \<Rightarrow> (vaddr_t \<times> u64 option \<times> vmem) result" where
  "next_ptp_or_bug cur level va rss st =
     bindR (get_next_ptp cur level va True rss st) (\<lambda>(ret, out, rss, st).
     bindR (BUG_ON (ret \<noteq> 0)) (\<lambda>_.
     case out of None \<Rightarrow> Inl FAULT | Some (next, _) \<Rightarrow> Inr (next, rss, st)))"

definition walk_l3 :: "vaddr_t \<Rightarrow> vaddr_t \<Rightarrow> u64 option \<Rightarrow> vmem \<Rightarrow> (vaddr_t \<times> u64 option \<times> vmem) result" where
  "walk_l3 l0_ptp va rss st =
     bindR (next_ptp_or_bug l0_ptp 0 va rss st) (\<lambda>(l1_ptp, rss, st).
     bindR (next_ptp_or_bug l1_ptp 1 va rss st) (\<lambda>(l2_ptp, rss, st).
     next_ptp_or_bug l2_ptp 2 va rss st))"

definition page_entry :: "paddr_t \<Rightarrow> vmr_prop_t \<Rightarrow> int \<Rightarrow> u64 result" where
  "page_entry pa flags kind = set_pte_flags (set_pfn (drop_bit 12 pa) (set_is_table 1 (set_is_valid 1 0))) flags kind"

text \<open>The \<open>for\<close> loop over the entries of one level 3 table; \<open>n\<close> is \<open>PTP_ENTRIES - i\<close>.\<close>

fun fill_l3 ::
  "nat \<Rightarrow> vaddr_t \<Rightarrow> vmr_prop_t \<Rightarrow> int \<Rightarrow> vaddr_t \<Rightarrow> paddr_t \<Rightarrow> int \<Rightarrow> u64 option \<Rightarrow> vmem \<Rightarrow>
   (vaddr_t \<times> paddr_t \<times> int \<times> u64 option \<times> vmem) result" where
  "fill_l3 0 l3 flags kind va pa cnt rss st = Inr (va, pa, cnt, rss, st)"
| "fill_l3 (Suc n) l3 flags kind va pa cnt rss st =
     bindR (page_entry pa flags kind) (\<lambda>e.
     bindR (write_pte (l3, PTP_ENTRIES - Suc n) e st) (\<lambda>st.
     let va = va + PAGE_SIZE; pa = pa + PAGE_SIZE; rss = add_rss rss; cnt = cnt - 1 in
     if cnt = 0 then Inr (va, pa, cnt, rss, st)
     else fill_l3 n l3 flags kind va pa cnt rss st))"

definition map_step ::
  "vaddr_t \<Rightarrow> vmr_prop_t \<Rightarrow> int \<Rightarrow> vaddr_t \<Rightarrow> paddr_t \<Rightarrow> int \<Rightarrow> u64 option \<Rightarrow> vmem \<Rightarrow>
   (vaddr_t \<times> paddr_t \<times> int \<times> u64 option \<times> vmem) result" where
  "map_step l0_ptp flags kind va pa cnt rss st =
     bindR (walk_l3 l0_ptp va rss st) (\<lambda>(l3_ptp, rss, st).
     fill_l3 (PTP_ENTRIES - level_index 3 va) l3_ptp flags kind va pa cnt rss st)"

partial_function (option) map_loop ::
  "vaddr_t \<Rightarrow> vmr_prop_t \<Rightarrow> int \<Rightarrow> vaddr_t \<Rightarrow> paddr_t \<Rightarrow> int \<Rightarrow> u64 option \<Rightarrow> vmem \<Rightarrow>
   (u64 option \<times> vmem) result option" where
  "map_loop l0_ptp flags kind va pa cnt rss st =
     (if cnt > 0
      then case map_step l0_ptp flags kind va pa cnt rss st of
             Inl e \<Rightarrow> Some (Inl e)
           | Inr (va, pa, cnt, rss, st) \<Rightarrow> map_loop l0_ptp flags kind va pa cnt rss st
      else Some (Inr (rss, st)))"

declare map_loop.simps [code]

definition map_range_in_pgtbl_common ::
  "vaddr_t \<Rightarrow> vaddr_t \<Rightarrow> paddr_t \<Rightarrow> size_t \<Rightarrow> vmr_prop_t \<Rightarrow> int \<Rightarrow> u64 option \<Rightarrow> vmem \<Rightarrow>
   (int \<times> u64 option \<times> vmem) result" where
  "map_range_in_pgtbl_common pgtbl va pa len flags kind rss st =
     bindR (BUG_ON (pgtbl = NULL)) (\<lambda>_.
     bindR (BUG_ON (va mod PAGE_SIZE \<noteq> 0)) (\<lambda>_.
     let total_page_cnt = uint (len div PAGE_SIZE + (if len mod PAGE_SIZE > 0 then 1 else 0)) in
     case map_loop pgtbl flags kind va pa total_page_cnt rss st of
       None \<Rightarrow> Inl DIVERGE
     | Some r \<Rightarrow> bindR r (\<lambda>(rss, st). Inr (0, rss, st))))"

definition map_range_in_pgtbl_kernel ::
  "vaddr_t \<Rightarrow> vaddr_t \<Rightarrow> paddr_t \<Rightarrow> size_t \<Rightarrow> vmr_prop_t \<Rightarrow> vmem \<Rightarrow> (int \<times> vmem) result" where
  "map_range_in_pgtbl_kernel pgtbl va pa len flags st =
     bindR (map_range_in_pgtbl_common pgtbl va pa len flags KERNEL_PTE None st) (\<lambda>(ret, rss, st). Inr (ret, st))"

definition map_range_in_pgtbl_user ::
  "vaddr_t \<Rightarrow> vaddr_t \<Rightarrow> paddr_t \<Rightarrow> size_t \<Rightarrow> vmr_prop_t \<Rightarrow> u64 option \<Rightarrow> vmem \<Rightarrow> (int \<times> u64 option \<times> vmem) result" where
  "map_range_in_pgtbl_user pgtbl va pa len flags rss st =
     map_range_in_pgtbl_common pgtbl va pa len flags USER_PTE rss st"

end
