(* ===== verification/PageTable_Correct.thy ===== *)
theory PageTable_Correct
  imports PageTable
begin

text \<open>
  The invariant of a page table and the correctness of walking and growing it. The ghost map
  \<open>tab\<close> gives the table page at every path of indices from the root; it is a tree of pages that
  \<open>get_pages\<close> handed out. \<open>pte_at\<close> is what a table means: the entry of every virtual page.
\<close>

section \<open>Bit-fields\<close>

lemma get_set_field [simp]: "off + w \<le> 64 \<Longrightarrow> get_field off w (set_field off w v e) = take_bit w v"
  by (rule bit_word_eqI) (auto simp: get_field_def set_field_def bit_simps)

lemma bit_u64_less: "bit (e :: u64) n \<Longrightarrow> n < 64"
  using bit_imp_le_length [of e n] by simp

lemma get_set_field_other:
  "off + w \<le> off' \<or> off' + w' \<le> off \<Longrightarrow> get_field off w (set_field off' w' v e) = get_field off w e"
  by (rule bit_word_eqI) (auto simp: get_field_def set_field_def bit_simps dest: bit_u64_less)

lemma get_field_zero [simp]: "get_field off w 0 = 0"
  by (simp add: get_field_def)

lemma flag_set_bit: "n < 64 \<Longrightarrow> flag_set e (2 ^ n) \<longleftrightarrow> bit e n"
proof -
  assume "n < 64"
  then have "bit ((and) e (2 ^ n)) n = bit e n" by (simp add: bit_simps)
  moreover have "(and) e (2 ^ n) = 0" if "\<not> bit e n"
    by (rule bit_word_eqI) (use that in \<open>auto simp: bit_simps\<close>)
  ultimately show ?thesis unfolding flag_set_def by (metis bit_0_eq bot_apply bot_bool_def)
qed

lemma get_field_bit: "get_field n (Suc 0) e = (if bit e n then 1 else 0)"
  by (rule bit_word_eqI) (auto simp: get_field_def bit_simps bit_iff_odd_drop_bit [symmetric])

lemma pte_kind:
  "IS_PTE_INVALID e \<longleftrightarrow> get_field 0 1 e = 0" "IS_PTE_TABLE e \<longleftrightarrow> get_field 1 1 e \<noteq> 0"
  using flag_set_bit [of 0 e] flag_set_bit [of 1 e]
  by (simp_all add: IS_PTE_INVALID_def IS_PTE_TABLE_def get_field_bit del: bit_0)

lemmas field_defs = set_is_valid_def set_is_table_def set_attr_index_def set_AP_def set_SH_def set_AF_def
  set_nG_def set_pfn_def set_PXN_def set_UXN_def

lemma table_entry_fields:
  "\<not> IS_PTE_INVALID (table_entry pa)" "IS_PTE_TABLE (table_entry pa)"
  "GET_PADDR_IN_PTE (table_entry pa) = push_bit 12 (take_bit 36 (drop_bit 12 pa))"
  by (simp_all add: pte_kind GET_PADDR_IN_PTE_def table_entry_def field_defs get_set_field_other)

lemma unat_drop_bit: "unat (drop_bit k (x :: u64)) = unat x div 2 ^ k"
proof -
  have "unat x < 2 ^ 64" using unsigned_less [of x, where ?'a = nat] by simp
  then show ?thesis by (simp only: unsigned_drop_bit_eq) (simp add: drop_bit_eq_div take_bit_nat_eq_self)
qed

lemma unat_paddr_of_entry:
  assumes "unat pa < 2 ^ 48"
  shows "unat (push_bit 12 (take_bit 36 (drop_bit 12 (pa :: u64)))) = unat pa div 4096 * 4096"
proof -
  have "unat (push_bit 12 (take_bit 36 (drop_bit 12 pa))) = unat (take_bit 36 (drop_bit 12 pa)) * 4096 mod 2 ^ 64"
    by (simp add: push_bit_eq_mult unat_word_ariths)
  also have "unat (take_bit 36 (drop_bit 12 pa)) = unat pa div 4096"
    using assms by (simp only: unat_take_bit unat_drop_bit) simp
  finally show ?thesis using div_times_less_eq_dividend [of "unat pa" 4096] assms by simp
qed

lemma paddr_of_entry:
  "4096 dvd unat pa \<Longrightarrow> unat pa < 2 ^ 48 \<Longrightarrow> push_bit 12 (take_bit 36 (drop_bit 12 pa)) = (pa :: u64)"
  by (simp only: word_unat_eq_iff unat_paddr_of_entry) simp

text \<open>What \<open>set_pte_flags\<close> leaves alone and what it sets.\<close>

lemma page_entry_run:
  assumes "kind = USER_PTE \<or> kind = KERNEL_PTE"
  shows "\<exists>e. page_entry pa flags kind = Inr e \<and> \<not> IS_PTE_INVALID e \<and> IS_PTE_TABLE e \<and>
    GET_PADDR_IN_PTE e = push_bit 12 (take_bit 36 (drop_bit 12 pa))"
  using assms
  by (auto simp: page_entry_def set_pte_flags_def Let_def pte_kind GET_PADDR_IN_PTE_def field_defs get_set_field_other)

section \<open>Pages of the heap\<close>

abbreviation free_pages_of :: "kmem \<Rightarrow> nat" where
  "free_pages_of k \<equiv> unat (get_free_pages_nums_from_buddy (region k))"

lemma sum_orders_zero: "(\<And>k. k < n \<Longrightarrow> f k = 0) \<Longrightarrow> sum_orders n f = 0"
  by (induction n) simp_all

lemma live_pages_insert:
  assumes inv: "buddy_inv m" and m': "live_chunks m' = insert (i, q) (live_chunks m)"
    and d: "\<forall>(j, r) \<in> live_chunks m. chunk_pages i q \<inter> chunk_pages j r = {}"
  shows "live_pages m' = live_pages m + 2 ^ q"
proof -
  have "finite (live_chunks m)"
    by (rule finite_subset [of _ "(\<lambda>i. (i, nat (page_order (pages m i)))) ` {..<npages m}"]) (auto simp: live_chunks_def)
  moreover have "(i, q) \<notin> live_chunks m" using d by (force simp: chunk_pages_def)
  ultimately show ?thesis by (simp add: live_pages_def m')
qed

lemma get_pages_zero:
  assumes rep: "kmem_rep k A" and free: "1 \<le> free_pages_of k"
  obtains a k' where "get_pages 0 k = Inr (a, k')" "a \<noteq> NULL" "(a, 4096) \<notin> A" "4096 dvd unat a"
    "kmem_rep k' (insert (a, 4096) A)" "start_addr (region k') = start_addr (region k)"
    "free_pages_of k' + 1 = free_pages_of k" "start_addr (region k) \<le> a"
    "virt_to_page (region k') = virt_to_page (region k)"
proof -
  have inv: "buddy_inv (region k)" using rep slab_coreD(1) unfolding kmem_rep_def by blast
  have ok: "region_ok (region k)" using inv buddy_repD(1) by (auto simp: buddy_inv_def)
  have zero: "free_pages_of k = 0" if "\<forall>q. 0 \<le> q \<and> q \<le> 10 \<longrightarrow> nr_free (region k) q = 0"
    using that sum_orders_zero [of 11] by (simp add: get_free_pages_nums_from_buddy_def BUDDY_MAX_ORDER_def)
  have "\<not> (\<forall>q. 0 \<le> q \<and> q \<le> 10 \<longrightarrow> nr_free (region k) q = 0)" using zero free by (metis not_one_le_zero)
  with buddy_get_pages_correct [OF inv, of 0] obtain i m' where
    b: "buddy_get_pages 0 (region k) = Inr (Some i, m')" "buddy_inv m'" "same_layout (region k) m'"
      "i + 2 ^ 0 \<le> npages (region k)" "live_chunks m' = insert (i, 0) (live_chunks (region k))"
      "\<forall>(j, q) \<in> live_chunks (region k). chunk_pages i 0 \<inter> chunk_pages j q = {}" by auto
  let ?a = "page_to_virt m' i" and ?k = "k\<lparr>region := m'\<rparr>"
  have run: "get_pages 0 k = Inr (?a, ?k)" using b(1) by (simp add: get_pages_def)
  have lay: "start_addr m' = start_addr (region k)" "npages m' = npages (region k)"
    using b(3) by (simp_all add: same_layout_def)
  have "live_pages m' = live_pages (region k) + 1" using live_pages_insert [OF inv b(5,6)] by simp
  then have cnt: "free_pages_of ?k + 1 = free_pages_of k"
    using free_pages_count [OF inv] free_pages_count [OF b(2)] lay(2) free by simp
  have "unat ?a = (base_frame (region k) + i) * 4096"
    using unat_page_to_virt [OF ok, of i] b(4) same_layout_addr(1) [OF b(3)] by simp
  then have ge: "start_addr (region k) \<le> ?a" using base_frame_start [OF ok] by (simp add: word_le_nat_alt)
  then have "?a \<noteq> NULL"
  proof -
    have "0 < unat (start_addr (region k))"
      using rep slab_coreD(2) base_frame_start [OF ok] unfolding kmem_rep_def by fastforce
    then show ?thesis using ge by (auto simp: word_le_nat_alt)
  qed
  moreover have "(?a, 4096) \<notin> A \<and> 4096 dvd unat ?a \<and> kmem_rep ?k (insert (?a, 4096) A)"
    using get_pages_correct [OF rep, of 0] run \<open>?a \<noteq> NULL\<close> by auto
  ultimately show ?thesis using that run lay(1) cnt ge same_layout_addr(3) [OF b(3)] by simp
qed

lemma page_object_mapped:
  assumes "kmem_rep k A" "(t, 4096) \<in> A"
  shows "mapped k t = Inr ()" "t \<noteq> NULL"
proof -
  obtain S P where core: "slab_core k S P" and "(t, 4096) \<in> slab_objects S \<union> big_objects (region k)"
    using assms unfolding kmem_rep_def by blast
  moreover have "(t, 4096) \<notin> slab_objects S"
  proof
    assume "(t, 4096) \<in> slab_objects S"
    from slab_object_cases [OF core this] obtain ord where "(4096 :: nat) = 2 ^ ord" "ord \<le> 11"
      using header_okD(2) slab_coreD(3) [OF core] by (metis prod.inject)
    moreover then have "(2 :: nat) ^ ord \<le> 2 ^ 11" by (intro power_increasing) simp_all
    ultimately show False by simp
  qed
  ultimately have big: "(t, 4096) \<in> big_objects (region k)" by blast
  from big_object_page [OF slab_coreD(1) [OF core] this] show "mapped k t = Inr ()" by (metis mapped_def option.distinct(1))
  show "t \<noteq> NULL"
  proof
    assume "t = NULL"
    moreover obtain i q where "(i, q) \<in> live_chunks (region k)" "t = page_to_virt (region k) i"
      using big by (auto simp: big_objects_def)
    ultimately show False using chunk_span(1) [OF slab_coreD(1) [OF core]] slab_coreD(2) [OF core] by fastforce
  qed
qed

section \<open>Page numbers and paths\<close>

definition vpn :: "vaddr_t \<Rightarrow> nat" where
  "vpn va = unat va div 4096 mod 2 ^ 36"

definition ix :: "nat \<Rightarrow> nat \<Rightarrow> nat" where
  "ix l n = n div 2 ^ ((3 - l) * 9) mod 512"

definition path :: "nat \<Rightarrow> nat \<Rightarrow> nat list" where
  "path l n = map (\<lambda>j. ix j n) [0..<l]"

lemma ix_less [simp]: "ix l n < 512"
  by (simp add: ix_def)

lemma path_simps [simp]: "path 0 n = []" "path (Suc l) n = path l n @ [ix l n]" "length (path l n) = l"
  by (simp_all add: path_def)

lemma level_index_vpn:
  assumes "l \<le> 3"
  shows "level_index l va = ix l (vpn va)"
proof -
  define s where "s = (3 - l) * 9"
  have s: "s + 9 \<le> 36" using assms by (auto simp: s_def)
  have "take_bit 9 (drop_bit (s + 12) (unat va)) = take_bit 9 (drop_bit s (take_bit 36 (drop_bit 12 (unat va))))"
    by (rule bit_eqI) (use s in \<open>auto simp: bit_simps add_ac\<close>)
  then have "unat va div 2 ^ (s + 12) mod 512 = (unat va div 4096 mod 2 ^ 36) div 2 ^ s mod 512"
    by (simp add: take_bit_eq_mod drop_bit_eq_div)
  moreover have "level_index l va = unat va div 2 ^ (s + 12) mod 512"
    unfolding level_index_def s_def by (simp only: take_bit_eq_mask [symmetric] unat_take_bit unat_drop_bit) simp
  ultimately show ?thesis by (simp add: ix_def vpn_def s_def)
qed

lemma path_eq_iff:
  assumes "n < 2 ^ 36" "n' < 2 ^ 36"
  shows "path 3 n = path 3 n' \<longleftrightarrow> n div 512 = n' div 512"
proof -
  have p: "path 3 m = [m div 512 div 512 div 512 mod 512, m div 512 div 512 mod 512, m div 512 mod 512]" for m
    by (simp add: path_def ix_def upt_rec div_mult2_eq [symmetric])
  have "m = (m div 512 div 512 mod 512 * 512 + m div 512 mod 512) * 512 + m mod 512" if "m < 2 ^ 27" for m :: nat
  proof -
    have "m div 512 div 512 < 512" using that by (intro less_mult_imp_div_less) simp
    then show ?thesis by simp
  qed
  moreover have "n div 512 < 2 ^ 27" "n' div 512 < 2 ^ 27" using assms by auto
  ultimately show ?thesis unfolding p by (metis list.inject)
qed

section \<open>The tree of tables\<close>

text \<open>The ghost map gives the table page at every path of indices from the root. Where it gives no
  table, the entry is invalid or, below the root, maps a block.\<close>

type_synonym tree = "nat list \<rightharpoonup> vaddr_t"

definition points_to :: "nat \<Rightarrow> u64 \<Rightarrow> vaddr_t option \<Rightarrow> bool" where
  "points_to l e next = (case next of
     None \<Rightarrow> IS_PTE_INVALID e \<or> (0 < l \<and> \<not> IS_PTE_TABLE e)
   | Some t \<Rightarrow> \<not> IS_PTE_INVALID e \<and> IS_PTE_TABLE e \<and> phys_to_virt (GET_PADDR_IN_PTE e) = t)"

definition pt_ok :: "vmem \<Rightarrow> vaddr_t \<Rightarrow> tree \<Rightarrow> (vaddr_t \<times> nat) set \<Rightarrow> bool" where
  "pt_ok st root tab A \<longleftrightarrow>
     kmem_rep (heap st) A \<and> KBASE \<le> start_addr (region (heap st)) \<and> tab [] = Some root \<and>
     (\<forall>t. static_ptp st t \<longrightarrow> virt_to_page (region (heap st)) t = None) \<and>
     (\<forall>p t. tab p = Some t \<longrightarrow> length p \<le> 3 \<and> t \<noteq> NULL \<and> ((t, 4096) \<in> A \<or> static_ptp st t)) \<and>
     (\<forall>p q t. tab p = Some t \<longrightarrow> tab q = Some t \<longrightarrow> p = q) \<and>
     (\<forall>p i. tab p = None \<longrightarrow> tab (p @ [i]) = None) \<and>
     (\<forall>p t i. tab p = Some t \<longrightarrow> length p < 3 \<longrightarrow> i < 512 \<longrightarrow> points_to (length p) (ptps st t i) (tab (p @ [i])))"

lemma pt_okD:
  assumes "pt_ok st root tab A"
  shows "kmem_rep (heap st) A" "KBASE \<le> start_addr (region (heap st))" "tab [] = Some root"
    "\<And>t. static_ptp st t \<Longrightarrow> virt_to_page (region (heap st)) t = None"
    "\<And>p t. tab p = Some t \<Longrightarrow> length p \<le> 3" "\<And>p t. tab p = Some t \<Longrightarrow> t \<noteq> NULL"
    "\<And>p t. tab p = Some t \<Longrightarrow> (t, 4096) \<in> A \<or> static_ptp st t"
    "\<And>p q t. tab p = Some t \<Longrightarrow> tab q = Some t \<Longrightarrow> p = q"
    "\<And>p i. tab p = None \<Longrightarrow> tab (p @ [i]) = None"
    "\<And>p t i. tab p = Some t \<Longrightarrow> length p < 3 \<Longrightarrow> i < 512 \<Longrightarrow> points_to (length p) (ptps st t i) (tab (p @ [i]))"
  using assms unfolding pt_ok_def by blast+

lemma pt_ok_mapped:
  assumes "pt_ok st root tab A" "tab p = Some t"
  shows "ptp_mapped st t = Inr ()"
  using page_object_mapped [OF pt_okD(1) [OF assms(1)], of t] pt_okD(7) [OF assms] by (auto simp: ptp_mapped_def)

lemma pte_access:
  assumes "pt_ok st root tab A" "tab p = Some t" "i < 512"
  shows "read_pte st (t, i) = Inr (ptps st t i)"
    "write_pte (t, i) e st = Inr (st\<lparr>ptps := (ptps st)(t := (ptps st t)(i := e))\<rparr>)"
  using pt_ok_mapped [OF assms(1,2)] assms(3) by (simp_all add: read_pte_def write_pte_def PTP_ENTRIES_def)

text \<open>What a page table means: for every page number the entry that maps it, its level and its
  place, or nothing.\<close>

type_synonym leaf = "u64 \<times> nat \<times> pte_ptr"

definition leaf_of :: "u64 \<Rightarrow> nat \<Rightarrow> pte_ptr \<Rightarrow> leaf option" where
  "leaf_of e l pte = (if IS_PTE_INVALID e then None else Some (e, l, pte))"

definition lookup :: "vmem \<Rightarrow> tree \<Rightarrow> nat \<Rightarrow> leaf option" where
  "lookup st tab n = (case tab (path 1 n) of None \<Rightarrow> None | Some t1 \<Rightarrow>
     case tab (path 2 n) of None \<Rightarrow> leaf_of (ptps st t1 (ix 1 n)) 1 (t1, ix 1 n) | Some t2 \<Rightarrow>
     case tab (path 3 n) of None \<Rightarrow> leaf_of (ptps st t2 (ix 2 n)) 2 (t2, ix 2 n) | Some t3 \<Rightarrow>
     leaf_of (ptps st t3 (ix 3 n)) 3 (t3, ix 3 n))"

lemma invalid_zero [simp]: "IS_PTE_INVALID 0" "leaf_of 0 l pte = None"
  by (simp_all add: pte_kind leaf_of_def)

lemma lookup_cong:
  assumes "\<And>l. l \<in> {1, 2, 3} \<Longrightarrow> tab' (path l n) = tab (path l n)"
    "\<And>l t. l \<in> {1, 2, 3} \<Longrightarrow> tab (path l n) = Some t \<Longrightarrow> ptps st' t (ix l n) = ptps st t (ix l n)"
  shows "lookup st' tab' n = lookup st tab n"
  using assms [of 1] assms [of 2] assms [of 3] by (simp add: lookup_def split: option.split)

section \<open>Walking\<close>

lemma get_next_ptp_read:
  assumes ok: "pt_ok st root tab A" and t: "tab p = Some t" and l: "length p = l" "l < 3" and i: "level_index l va = i" "i < 512"
  shows "get_next_ptp t l va False rss st = Inr (case tab (p @ [i]) of
      None \<Rightarrow> if IS_PTE_INVALID (ptps st t i) then (- ENOMEM, None, rss, st)
              else (BLOCK_PTP, Some (phys_to_virt (GET_PADDR_IN_PTE (ptps st t i)), (t, i)), rss, st)
    | Some u \<Rightarrow> (0, Some (u, (t, i)), rss, st))"
  using pte_access(1) [OF ok t i(2)] pt_okD(6) [OF ok t] pt_okD(10) [OF ok t _ i(2)] l i(1)
  by (cases "tab (p @ [i])") (auto simp: get_next_ptp_def points_to_def Let_def ENOMEM_def NORMAL_PTP_def)

lemma get_next_ptp_leaf:
  assumes ok: "pt_ok st root tab A" and t: "tab p = Some t" and i: "level_index 3 va = i" "i < 512"
  shows "\<exists>ret. get_next_ptp t 3 va False rss st = Inr (if IS_PTE_INVALID (ptps st t i) then (- ENOMEM, None, rss, st)
      else (ret, Some (phys_to_virt (GET_PADDR_IN_PTE (ptps st t i)), (t, i)), rss, st))"
  using pte_access(1) [OF ok t i(2)] pt_okD(6) [OF ok t] i(1) by (auto simp: get_next_ptp_def Let_def ENOMEM_def)

lemma path_3: "path 3 n = path 2 n @ [ix 2 n]" "path 2 n = path 1 n @ [ix 1 n]" "path 1 n = [] @ [ix 0 n]"
  by (simp_all add: numeral_2_eq_2 numeral_3_eq_3)

text \<open>The result of a query, read off the meaning of the table.\<close>

definition query_result :: "vaddr_t \<Rightarrow> leaf option \<Rightarrow> int \<times> (paddr_t \<times> pte_ptr) option" where
  "query_result va lf = (case lf of None \<Rightarrow> (- ENOMEM, None)
     | Some (e, l, pte) \<Rightarrow> (0, Some (GET_PADDR_IN_PTE e + GET_VA_OFFSET l va, pte)))"

lemma query_lookup:
  fixes va :: vaddr_t
  assumes ok: "pt_ok st root tab A"
  shows "query_in_pgtbl root va st = Inr (query_result va (lookup st tab (vpn va)))"
proof -
  let ?n = "vpn va"
  note rd = get_next_ptp_read [OF ok _ _ _ _ ix_less]
  have lv: "level_index l va = ix l ?n" if "l \<le> 3" for l by (rule level_index_vpn [OF that])
  have 0: "tab [] = Some root" using pt_okD(3) [OF ok] .
  note r0 = rd [OF 0, of 0 va 0 ?n None] and r1 = rd [of "path 1 ?n" _ 1 va 1 ?n None]
    and r2 = rd [of "path 2 ?n" _ 2 va 2 ?n None]
  note defs = query_in_pgtbl_def lookup_def query_result_def leaf_of_def BLOCK_PTP_def
  show ?thesis
  proof (cases "tab (path 1 ?n)")
    case None
    then have "IS_PTE_INVALID (ptps st root (ix 0 ?n))"
      using pt_okD(10) [OF ok 0, of "ix 0 ?n"] unfolding path_3(3) by (simp add: points_to_def)
    then show ?thesis using None r0 lv [of 0] unfolding path_3(3) by (simp add: defs)
  next
    case l1: (Some l1)
    have q0: "get_next_ptp root 0 va False None st = Inr (0, Some (l1, (root, ix 0 ?n)), None, st)"
      using l1 r0 lv [of 0] unfolding path_3(3) by simp
    have q1: "get_next_ptp l1 1 va False None st = Inr (case tab (path 2 ?n) of
        None \<Rightarrow> if IS_PTE_INVALID (ptps st l1 (ix 1 ?n)) then (- ENOMEM, None, None, st)
          else (BLOCK_PTP, Some (phys_to_virt (GET_PADDR_IN_PTE (ptps st l1 (ix 1 ?n))), (l1, ix 1 ?n)), None, st)
      | Some u \<Rightarrow> (0, Some (u, (l1, ix 1 ?n)), None, st))"
      using r1 [OF l1] lv [of 1] unfolding path_3(2) by simp
    show ?thesis
    proof (cases "tab (path 2 ?n)")
      case None
      then show ?thesis using q0 q1 l1 by (simp add: defs)
    next
      case l2: (Some l2)
      have q2: "get_next_ptp l2 2 va False None st = Inr (case tab (path 3 ?n) of
          None \<Rightarrow> if IS_PTE_INVALID (ptps st l2 (ix 2 ?n)) then (- ENOMEM, None, None, st)
            else (BLOCK_PTP, Some (phys_to_virt (GET_PADDR_IN_PTE (ptps st l2 (ix 2 ?n))), (l2, ix 2 ?n)), None, st)
        | Some u \<Rightarrow> (0, Some (u, (l2, ix 2 ?n)), None, st))"
        using r2 [OF l2] lv [of 2] unfolding path_3(1) by simp
      show ?thesis
      proof (cases "tab (path 3 ?n)")
        case None
        then show ?thesis using q0 q1 q2 l1 l2 by (simp add: defs)
      next
        case l3: (Some l3)
        from get_next_ptp_leaf [OF ok l3, of va "ix 3 ?n" None] lv [of 3] show ?thesis
          using q0 q1 q2 l1 l2 l3 by (auto simp: defs)
      qed
    qed
  qed
qed

section \<open>Growing the tree\<close>

text \<open>New tables hold no mappings and old mappings stay; \<open>d\<close> counts the pages taken for tables.\<close>

definition grown :: "vmem \<Rightarrow> tree \<Rightarrow> (vaddr_t \<times> nat) set \<Rightarrow> nat \<Rightarrow> vmem \<Rightarrow> tree \<Rightarrow> (vaddr_t \<times> nat) set \<Rightarrow> bool" where
  "grown st tab A d st' tab' A' \<longleftrightarrow> A \<subseteq> A' \<and>
     free_pages_of (heap st') + d = free_pages_of (heap st) \<and> (\<forall>n. lookup st' tab' n = lookup st tab n)"

lemma grown_refl: "grown st tab A 0 st tab A"
  by (simp add: grown_def)

lemma grown_trans: "grown st tab A d st1 tab1 A1 \<Longrightarrow> grown st1 tab1 A1 d' st2 tab2 A2 \<Longrightarrow> grown st tab A (d + d') st2 tab2 A2"
  by (auto simp: grown_def)

lemma KBASE_paddr:
  assumes "KBASE \<le> t" "4096 dvd unat t"
  shows "phys_to_virt (GET_PADDR_IN_PTE (table_entry (virt_to_phys t))) = t"
proof -
  have "unat (t - KBASE) = unat t - unat KBASE" using assms(1) by (rule unat_sub)
  moreover have "unat t < 2 ^ 64" using unsigned_less [of t, where ?'a = nat] by simp
  ultimately have "unat (t - KBASE) < 2 ^ 48" "4096 dvd unat (t - KBASE)"
    using assms(2) by (simp_all add: KBASE_def dvd_diff_nat)
  then show ?thesis using paddr_of_entry by (simp add: table_entry_fields virt_to_phys_def phys_to_virt_def)
qed

text \<open>A new empty table at an invalid entry changes the meaning of no address.\<close>

lemma path_inj: "path l n = path m n' \<Longrightarrow> l = m"
  by (metis path_simps(3))

lemma lookup_new_table:
  assumes ok: "pt_ok st root tab A" and t: "tab p = Some t" "length p < 3" and i: "i < 512" and none: "tab (p @ [i]) = None"
    and inv: "IS_PTE_INVALID (ptps st t i)" and new: "\<And>q. tab q \<noteq> Some t'" and zero: "\<And>j. ptps st' t' j = 0"
    and cell: "\<And>u j. u \<noteq> t' \<Longrightarrow> \<not> (u = t \<and> j = i) \<Longrightarrow> ptps st' u j = ptps st u j"
  shows "lookup st' (tab(p @ [i] \<mapsto> t')) n = lookup st tab n"
proof (cases "\<exists>l \<in> {1, 2, 3}. path l n = p @ [i]")
  case True
  note pf = pt_okD(9) [OF ok none]
  from True have l: "path 1 n = p @ [i] \<or> path 2 n = p @ [i] \<or> path 3 n = p @ [i]" by simp
  have ne: "path 1 n \<noteq> path 2 n" "path 2 n \<noteq> path 3 n" "path 1 n \<noteq> path 3 n"
    using path_inj [of 1 n 2 n] path_inj [of 2 n 3 n] path_inj [of 1 n 3 n] by linarith+
  show ?thesis using l
  proof (elim disjE)
    assume 1: "path 1 n = p @ [i]"
    then have "tab (path 2 n) = None" using pf by (simp only: path_3(2))
    then show ?thesis using 1 none ne zero by (simp add: lookup_def del: path_simps)
  next
    assume 2: "path 2 n = p @ [i]"
    then have "p = path 1 n" "i = ix 1 n" unfolding path_3(2) by simp_all
    moreover have "tab (path 3 n) = None" unfolding path_3(1) 2 by (rule pf)
    ultimately show ?thesis using 2 none ne zero t(1) inv by (simp add: lookup_def leaf_of_def del: path_simps)
  next
    assume 3: "path 3 n = p @ [i]"
    then have "p = path 2 n" "i = ix 2 n" by (simp_all add: path_3(1))
    moreover have "tab (path 1 n) \<noteq> None"
      using pt_okD(9) [OF ok, of "path 1 n" "ix 1 n"] t(1) \<open>p = path 2 n\<close> path_3(2) [of n] by auto
    ultimately show ?thesis using 3 none ne zero t(1) inv by (auto simp: lookup_def leaf_of_def simp del: path_simps)
  qed
next
  case False
  show ?thesis
  proof (rule lookup_cong)
    fix l t1 assume l: "l \<in> {1, 2, 3}" "tab (path l n) = Some t1"
    have "\<not> (t1 = t \<and> ix l n = i)"
    proof
      assume a: "t1 = t \<and> ix l n = i"
      then have p: "p = path l n" using pt_okD(8) [OF ok t(1)] l(2) by blast
      then have "path (Suc l) n = p @ [i]" "l \<in> {1, 2}" using a t(2) l(1) by auto
      then show False using False by (auto simp: numeral_2_eq_2 numeral_3_eq_3)
    qed
    then show "ptps st' t1 (ix l n) = ptps st t1 (ix l n)" using cell new l(2) by metis
  qed (use False in auto)
qed

lemma alloc_ptp_correct:
  assumes ok: "pt_ok st root tab A" and t: "tab p = Some t" and l: "length p < 3" and i: "i < 512"
    and none: "tab (p @ [i]) = None" "IS_PTE_INVALID (ptps st t i)" and free: "1 \<le> free_pages_of (heap st)"
  obtains t' st' A' where "alloc_ptp (t, i) rss st = Inr (0, add_rss rss, st')"
    "pt_ok st' root (tab(p @ [i] \<mapsto> t')) A'" "grown st tab A 1 st' (tab(p @ [i] \<mapsto> t')) A'"
proof -
  note o = pt_okD [OF ok]
  from get_pages_zero [OF o(1) free] obtain t' k' where g: "get_pages 0 (heap st) = Inr (t', k')" "t' \<noteq> NULL"
      "(t', 4096) \<notin> A" "4096 dvd unat t'" "kmem_rep k' (insert (t', 4096) A)"
      "start_addr (region k') = start_addr (region (heap st))" "free_pages_of k' + 1 = free_pages_of (heap st)"
      "start_addr (region (heap st)) \<le> t'" "virt_to_page (region k') = virt_to_page (region (heap st))" .
  let ?tab = "tab(p @ [i] \<mapsto> t')" and ?A = "insert (t', 4096) A"
  let ?p0 = "(ptps st)(t' := (\<lambda>_. 0))"
  define s1 where "s1 = st\<lparr>heap := k', ptps := ?p0(t := (?p0 t)(i := table_entry (virt_to_phys t')))\<rparr>"
  have hp: "heap s1 = k'" "static_ptp s1 = static_ptp st" by (simp_all add: s1_def)
  have "\<not> static_ptp st t'"
    using page_object_mapped(1) [OF g(5), of t'] o(4) [of t'] g(9) by (auto simp: mapped_def split: if_splits)
  then have new: "tab q \<noteq> Some t'" for q using o(7) [of q t'] g(3) by blast
  have tt: "t \<noteq> t'" using new t by blast
  have "ptp_mapped (st\<lparr>heap := k', ptps := ?p0\<rparr>) t = Inr ()"
    using page_object_mapped(1) [OF g(5), of t] o(7) [OF t] by (auto simp: ptp_mapped_def)
  then have run: "alloc_ptp (t, i) rss st = Inr (0, add_rss rss, s1)"
    using g(1,2) i by (simp add: alloc_ptp_def write_pte_def Let_def PTP_ENTRIES_def s1_def)
  have cell: "ptps s1 u j = (if u = t' then 0 else if u = t \<and> j = i then table_entry (virt_to_phys t') else ptps st u j)" for u j
    using tt by (simp add: s1_def)
  have "points_to (length q) (ptps s1 u j) (?tab (q @ [j]))" if u: "?tab q = Some u" "length q < 3" "j < 512" for q u j
  proof (cases "q = p @ [i]")
    case True
    then show ?thesis using u cell [of t'] o(9) [OF none(1), of j] by (simp add: points_to_def)
  next
    case False
    then have q: "tab q = Some u" "u \<noteq> t'" using u(1) new by auto
    have KB: "KBASE \<le> t'" using o(2) g(8) by simp
    show ?thesis
    proof (cases "q = p \<and> j = i")
      case True
      then show ?thesis using cell q t KBASE_paddr [OF KB g(4)] table_entry_fields(1,2) by (auto simp: points_to_def)
    next
      case False
      then have "\<not> (u = t \<and> j = i)" and same: "?tab (q @ [j]) = tab (q @ [j])" using o(8) [OF t, of q] q(1) by auto
      then have "ptps s1 u j = ptps st u j" using cell [of u j] q(2) by metis
      then show ?thesis using same o(10) [OF q(1) u(2,3)] by metis
    qed
  qed
  moreover have "length q \<le> 3 \<and> u \<noteq> NULL \<and> ((u, 4096) \<in> ?A \<or> static_ptp st u)" if "?tab q = Some u" for q u
    using that o(5-7) l g(2) by (auto split: if_splits)
  moreover have "q = r" if "?tab q = Some u" "?tab r = Some u" for q r u
    using that o(8) new by (auto split: if_splits)
  moreover have "?tab (q @ [j]) = None" if "?tab q = None" for q j
    using that o(9) t by (auto split: if_splits)
  moreover have "KBASE \<le> start_addr (region k')" "?tab [] = Some root" "\<forall>t. static_ptp st t \<longrightarrow> virt_to_page (region k') t = None"
    using o(2-4) g(6,9) by simp_all
  ultimately have "pt_ok s1 root ?tab ?A" using g(5) unfolding pt_ok_def hp by blast
  moreover have "lookup s1 ?tab n = lookup st tab n" for n
    by (rule lookup_new_table [OF ok t l i none new]) (auto simp: cell)
  then have "grown st tab A 1 s1 ?tab ?A" using g(7) hp by (auto simp: grown_def)
  ultimately show ?thesis using that run by blast
qed

lemma next_ptp_correct:
  assumes ok: "pt_ok st root tab A" and t: "tab p = Some t" and l: "length p = l" "l < 3" and i: "level_index l va = i" "i < 512"
    and no_block: "tab (p @ [i]) = None \<Longrightarrow> IS_PTE_INVALID (ptps st t i)" and free: "1 \<le> free_pages_of (heap st)"
  shows "\<exists>u d st' tab' A'. next_ptp_or_bug t l va rss st = Inr (u, (add_rss ^^ d) rss, st') \<and> d \<le> 1 \<and>
    pt_ok st' root tab' A' \<and> grown st tab A d st' tab' A' \<and> tab' (p @ [i]) = Some u"
proof (cases "tab (p @ [i])")
  case None
  from alloc_ptp_correct [OF ok t _ i(2) None no_block [OF None] free] l obtain u st' A' where
    a: "alloc_ptp (t, i) rss st = Inr (0, add_rss rss, st')"
    "pt_ok st' root (tab(p @ [i] \<mapsto> u)) A'" "grown st tab A 1 st' (tab(p @ [i] \<mapsto> u)) A'" by blast
  have t': "(tab(p @ [i] \<mapsto> u)) p = Some t" using t by simp
  have "points_to l (ptps st' t i) (Some u)" using pt_okD(10) [OF a(2) t', of i] l i(2) by simp
  then have "next_ptp_or_bug t l va rss st = Inr (u, (add_rss ^^ 1) rss, st')"
    using pte_access(1) [OF ok t i(2)] pt_okD(6) [OF ok t] pte_access(1) [OF a(2) t' i(2)] a(1) l i(1) no_block [OF None]
    by (simp add: next_ptp_or_bug_def get_next_ptp_def points_to_def Let_def NORMAL_PTP_def)
  then show ?thesis using a(2,3) by (metis fun_upd_same order_refl)
next
  case (Some u)
  then have "next_ptp_or_bug t l va rss st = Inr (u, (add_rss ^^ 0) rss, st)"
    using pte_access(1) [OF ok t i(2)] pt_okD(6) [OF ok t] pt_okD(10) [OF ok t _ i(2)] l i(1)
    by (auto simp: next_ptp_or_bug_def get_next_ptp_def points_to_def Let_def NORMAL_PTP_def)
  then show ?thesis using ok grown_refl Some by blast
qed

text \<open>No block maps the page.\<close>

definition no_block :: "vmem \<Rightarrow> tree \<Rightarrow> nat \<Rightarrow> bool" where
  "no_block st tab n = (case lookup st tab n of None \<Rightarrow> True | Some (e, l, pte) \<Rightarrow> l = 3)"

lemma no_block_invalid:
  assumes "no_block st tab n"
  shows "tab (path 1 n) = Some t \<Longrightarrow> tab (path 2 n) = None \<Longrightarrow> IS_PTE_INVALID (ptps st t (ix 1 n))"
    "tab (path 1 n) = Some t' \<Longrightarrow> tab (path 2 n) = Some t \<Longrightarrow> tab (path 3 n) = None \<Longrightarrow> IS_PTE_INVALID (ptps st t (ix 2 n))"
  using assms by (simp_all add: no_block_def lookup_def leaf_of_def split: if_splits)

lemma walk_l3_correct:
  assumes ok: "pt_ok st root tab A" and free: "3 \<le> free_pages_of (heap st)" and nb: "no_block st tab (vpn va)"
  obtains u d st' tab' A' where "walk_l3 root va rss st = Inr (u, (add_rss ^^ d) rss, st')" "d \<le> 3"
    "pt_ok st' root tab' A'" "grown st tab A d st' tab' A'" "tab' (path 3 (vpn va)) = Some u"
proof -
  let ?n = "vpn va"
  note nx = next_ptp_correct [OF _ _ _ _ _ ix_less]
  have lv: "level_index 0 va = ix 0 ?n" "level_index 1 va = ix 1 ?n" "level_index 2 va = ix 2 ?n"
    using level_index_vpn [of _ va] by simp_all
  have b0: "tab ([] @ [ix 0 ?n]) = None \<Longrightarrow> IS_PTE_INVALID (ptps st root (ix 0 ?n))"
    using pt_okD(10) [OF ok pt_okD(3) [OF ok] _ ix_less, of 0 ?n] by (simp add: points_to_def)
  have "1 \<le> free_pages_of (heap st)" using free by simp
  from nx [OF ok pt_okD(3) [OF ok] _ _ lv(1) b0 this, of rss] obtain u1 d1 st1 tab1 A1 where
    1: "next_ptp_or_bug root 0 va rss st = Inr (u1, (add_rss ^^ d1) rss, st1)" "d1 \<le> 1" "pt_ok st1 root tab1 A1"
      "grown st tab A d1 st1 tab1 A1" "tab1 (path 1 ?n) = Some u1" unfolding path_3(3) by auto
  have nb1: "no_block st1 tab1 ?n" using nb 1(4) by (simp add: no_block_def grown_def)
  have "1 \<le> free_pages_of (heap st1)" using free 1(2,4) by (simp add: grown_def)
  from nx [OF 1(3,5) _ _ lv(2) no_block_invalid(1) [OF nb1 1(5), unfolded path_3(2)] this, of "(add_rss ^^ d1) rss"]
  obtain u2 d2 st2 tab2 A2 where
    2: "next_ptp_or_bug u1 1 va ((add_rss ^^ d1) rss) st1 = Inr (u2, (add_rss ^^ d2) ((add_rss ^^ d1) rss), st2)" "d2 \<le> 1"
      "pt_ok st2 root tab2 A2" "grown st1 tab1 A1 d2 st2 tab2 A2" "tab2 (path 2 ?n) = Some u2"
    unfolding path_3(2) by auto
  have nb2: "no_block st2 tab2 ?n" using nb1 2(4) by (simp add: no_block_def grown_def)
  obtain u1' where u1': "tab2 (path 1 ?n) = Some u1'"
    using pt_okD(9) [OF 2(3), of "path 1 ?n" "ix 1 ?n"] 2(5) path_3(2) [of ?n] by (metis option.exhaust option.distinct(1))
  have "1 \<le> free_pages_of (heap st2)" using free 1(2,4) 2(2,4) by (simp add: grown_def)
  from nx [OF 2(3,5) _ _ lv(3) no_block_invalid(2) [OF nb2 u1' 2(5), unfolded path_3(1)] this, of "(add_rss ^^ d2) ((add_rss ^^ d1) rss)"]
  obtain u3 d3 st3 tab3 A3 where
    3: "next_ptp_or_bug u2 2 va ((add_rss ^^ d2) ((add_rss ^^ d1) rss)) st2 =
          Inr (u3, (add_rss ^^ d3) ((add_rss ^^ d2) ((add_rss ^^ d1) rss)), st3)" "d3 \<le> 1"
      "pt_ok st3 root tab3 A3" "grown st2 tab2 A2 d3 st3 tab3 A3" "tab3 (path 3 ?n) = Some u3"
    unfolding path_3(1) by auto
  have "walk_l3 root va rss st = Inr (u3, (add_rss ^^ (d3 + (d2 + d1))) rss, st3)"
    using 1(1) 2(1) 3(1) by (simp add: walk_l3_def funpow_add)
  moreover have "grown st tab A (d3 + (d2 + d1)) st3 tab3 A3"
    using grown_trans [OF grown_trans [OF 1(4) 2(4)] 3(4)] by (simp add: add_ac)
  ultimately show ?thesis using that 1(2) 2(2) 3(2,3,5) by fastforce
qed

end
