(* ===== verification/PageTable_Map.thy ===== *)
theory PageTable_Map
  imports PageTable_Correct
begin

text \<open>
  The correctness of \<open>map_range_in_pgtbl_common\<close>: it ends, needs at most three new tables for every
  level 3 table the range meets, and changes the entries of exactly the pages of the range.
\<close>

section \<open>Mapping a range\<close>

definition entry_for :: "vmr_prop_t \<Rightarrow> int \<Rightarrow> paddr_t \<Rightarrow> u64" where
  "entry_for flags kind pa = projr (page_entry pa flags kind)"

lemma entry_for:
  assumes "kind = USER_PTE \<or> kind = KERNEL_PTE"
  shows "page_entry pa flags kind = Inr (entry_for flags kind pa)" "\<not> IS_PTE_INVALID (entry_for flags kind pa)"
    "GET_PADDR_IN_PTE (entry_for flags kind pa) = push_bit 12 (take_bit 36 (drop_bit 12 pa))"
  using page_entry_run [OF assms, of pa flags] by (auto simp: entry_for_def)

text \<open>A row of entries for consecutive pages.\<close>

definition row :: "(paddr_t \<Rightarrow> u64) \<Rightarrow> nat \<Rightarrow> nat \<Rightarrow> paddr_t \<Rightarrow> (nat \<Rightarrow> u64) \<Rightarrow> nat \<Rightarrow> u64" where
  "row e i k pa f = (\<lambda>j. if i \<le> j \<and> j < i + k then e (pa + of_nat ((j - i) * 4096)) else f j)"

lemma row_Suc: "row e i (Suc k) pa f = row e (Suc i) k (pa + 4096) (f(i := e pa))"
proof
  fix j
  show "row e i (Suc k) pa f j = row e (Suc i) k (pa + 4096) (f(i := e pa)) j"
  proof (cases "Suc i \<le> j")
    case True
    then have "j - i = Suc (j - Suc i)" by simp
    then have "pa + of_nat ((j - i) * 4096) = pa + 4096 + of_nat ((j - Suc i) * 4096)" by (simp add: algebra_simps)
    then show ?thesis using True by (simp only: row_def) simp
  qed (auto simp: row_def)
qed

lemma row_0 [simp]: "row e i 0 pa f = f"
  by (auto simp: row_def fun_eq_iff)

definition set_row :: "vaddr_t \<Rightarrow> (nat \<Rightarrow> u64) \<Rightarrow> vmem \<Rightarrow> vmem" where
  "set_row t r st = st\<lparr>ptps := (ptps st)(t := r)\<rparr>"

lemma set_row_simps [simp]: "heap (set_row t r st) = heap st" "static_ptp (set_row t r st) = static_ptp st"
    "ptp_mapped (set_row t r st) = ptp_mapped st" "ptps (set_row t r st) = (ptps st)(t := r)"
    "set_row t r (set_row t r' st) = set_row t r st"
  by (auto simp: set_row_def ptp_mapped_def)

lemma fill_l3_run:
  assumes kind: "kind = USER_PTE \<or> kind = KERNEL_PTE"
    and "ptp_mapped st t = Inr ()" "i + Suc m = 512" "1 \<le> c"
  shows "fill_l3 (Suc m) t flags kind va pa (int c) rss st = (let k = min (Suc m) c in
     Inr (va + of_nat (k * 4096), pa + of_nat (k * 4096), int (c - k), (add_rss ^^ k) rss,
       set_row t (row (entry_for flags kind) i k pa (ptps st t)) st))"
  using assms(2-)
proof (induction m arbitrary: i va pa c rss st)
  case 0
  let ?e = "entry_for flags kind"
  have "write_pte (t, 511) (?e pa) st = Inr (set_row t ((ptps st t)(i := ?e pa)) st)"
    using 0 by (simp add: write_pte_def PTP_ENTRIES_def set_row_def)
  moreover have "min (Suc 0) c = 1" using 0 by simp
  ultimately show ?case using entry_for(1) [OF kind, of pa] row_Suc [of ?e i 0] 0
    by (auto simp: PAGE_SIZE_eq PTP_ENTRIES_def Let_def of_nat_diff)
next
  case (Suc m)
  let ?e = "entry_for flags kind"
  let ?st = "set_row t ((ptps st t)(i := ?e pa)) st"
  have i: "PTP_ENTRIES - Suc (Suc m) = i" using Suc.prems by (simp add: PTP_ENTRIES_def)
  have w: "write_pte (t, i) (?e pa) st = Inr ?st" using Suc.prems by (simp add: write_pte_def PTP_ENTRIES_def set_row_def)
  have one: "fill_l3 (Suc (Suc m)) t flags kind va pa (int c) rss st =
     (if c = 1 then Inr (va + 4096, pa + 4096, 0, add_rss rss, ?st)
      else fill_l3 (Suc m) t flags kind (va + 4096) (pa + 4096) (int (c - 1)) (add_rss rss) ?st)"
    using w entry_for(1) [OF kind] Suc.prems(3)
    by (simp only: fill_l3.simps(2) [of "Suc m"] i) (auto simp: PAGE_SIZE_eq Let_def of_nat_diff)
  show ?case
  proof (cases "c = 1")
    case True
    then show ?thesis using one row_Suc [of ?e i 0] by simp
  next
    case False
    let ?k = "min (Suc m) (c - 1)"
    have k: "min (Suc (Suc m)) c = Suc ?k" using Suc.prems by (auto simp: min_def)
    have "fill_l3 (Suc m) t flags kind (va + 4096) (pa + 4096) (int (c - 1)) (add_rss rss) ?st =
      Inr (va + 4096 + of_nat (?k * 4096), pa + 4096 + of_nat (?k * 4096), int (c - 1 - ?k), (add_rss ^^ ?k) (add_rss rss),
       set_row t (row ?e (Suc i) ?k (pa + 4096) ((ptps st t)(i := ?e pa))) st)"
      using Suc.IH [of ?st "Suc i" "c - 1"] Suc.prems False by (simp only: Let_def) simp
    moreover have "(add_rss ^^ ?k) (add_rss rss) = (add_rss ^^ Suc ?k) rss" by (simp add: funpow_swap1)
    moreover have "of_nat (Suc ?k * 4096) = (4096 :: u64) + of_nat (?k * 4096)" "c - 1 - ?k = c - Suc ?k" by simp_all
    ultimately show ?thesis using False one unfolding k Let_def row_Suc by (simp only: if_False add.assoc)
  qed
qed

text \<open>The effect of mapping \<open>c\<close> pages from page number \<open>n\<close>.\<close>

definition mapped_range ::
  "vmr_prop_t \<Rightarrow> int \<Rightarrow> nat \<Rightarrow> paddr_t \<Rightarrow> nat \<Rightarrow> vmem \<Rightarrow> tree \<Rightarrow> (vaddr_t \<times> nat) set \<Rightarrow> nat \<Rightarrow>
   vmem \<Rightarrow> tree \<Rightarrow> (vaddr_t \<times> nat) set \<Rightarrow> bool" where
  "mapped_range flags kind n pa c st tab A d st' tab' A' \<longleftrightarrow> A \<subseteq> A' \<and>
     free_pages_of (heap st') + d = free_pages_of (heap st) \<and>
     (\<forall>n' < 2 ^ 36. if n \<le> n' \<and> n' < n + c
        then \<exists>pte. lookup st' tab' n' = Some (entry_for flags kind (pa + of_nat ((n' - n) * 4096)), 3, pte)
        else lookup st' tab' n' = lookup st tab n')"

lemma pt_ok_set_row:
  assumes ok: "pt_ok st root tab A" and t: "tab p = Some t" "length p = 3"
  shows "pt_ok (set_row t r st) root tab A"
proof -
  note o = pt_okD [OF ok]
  have "points_to (length q) (ptps (set_row t r st) u i) (tab (q @ [i]))" if "tab q = Some u" "length q < 3" "i < 512" for q u i
  proof -
    have "u \<noteq> t" using o(8) [OF t(1), of q] that t(2) by auto
    then show ?thesis using o(10) [OF that] by simp
  qed
  then show ?thesis using o(1-9) unfolding pt_ok_def set_row_simps by blast
qed

lemma path_prefix:
  assumes ok: "pt_ok st root tab A" and t: "tab (path 3 n) = Some t"
  obtains t1 t2 where "tab (path 1 n) = Some t1" "tab (path 2 n) = Some t2"
proof -
  have 2: "tab (path 2 n) \<noteq> None" using pt_okD(9) [OF ok, of "path 2 n" "ix 2 n"] t path_3(1) [of n] by (metis option.distinct(1))
  then have 1: "tab (path 1 n) \<noteq> None" using pt_okD(9) [OF ok, of "path 1 n" "ix 1 n"] path_3(2) [of n] by metis
  from that [OF option.collapse [OF 1, symmetric] option.collapse [OF 2, symmetric]] show ?thesis .
qed

lemma lookup_set_row:
  assumes ok: "pt_ok st root tab A" and t: "tab (path 3 n) = Some t" and n: "n < 2 ^ 36" "n' < 2 ^ 36"
  shows "lookup (set_row t r st) tab n' = (if n' div 512 = n div 512 then leaf_of (r (n' mod 512)) 3 (t, n' mod 512) else lookup st tab n')"
proof (cases "n' div 512 = n div 512")
  case True
  then have p: "path 3 n' = path 3 n" using path_eq_iff [OF n(2,1)] by simp
  have t': "tab (path 3 n') = Some t" using t p by simp
  obtain t1 t2 where "tab (path 1 n') = Some t1" "tab (path 2 n') = Some t2" by (rule path_prefix [OF ok t'])
  then show ?thesis using t p True by (simp add: lookup_def ix_def)
next
  case False
  then have "path 3 n' \<noteq> path 3 n" using path_eq_iff [OF n(2,1)] by simp
  then have "lookup (set_row t r st) tab n' = lookup st tab n'"
  proof (intro lookup_cong)
    fix l u assume l: "l \<in> {1, 2, 3}" "tab (path l n') = Some u"
    have "u \<noteq> t"
    proof
      assume "u = t"
      then have "path l n' = path 3 n" using pt_okD(8) [OF ok t] l(2) by metis
      then show False using path_inj [of l n' 3 n] \<open>path 3 n' \<noteq> path 3 n\<close> by simp
    qed
    then show "ptps (set_row t r st) u (ix l n') = ptps st u (ix l n')" by simp
  qed simp
  then show ?thesis using False by simp
qed

lemma same_block: "(n :: nat) - n mod 512 \<le> m \<Longrightarrow> m < n - n mod 512 + 512 \<Longrightarrow> m div 512 = n div 512"
  using minus_mod_eq_div_mult [of n 512] by (intro div_nat_eqI) simp_all

lemma same_table:
  fixes n n' k :: nat
  assumes "n mod 512 + k \<le> 512"
  shows "(n' div 512 = n div 512 \<and> n mod 512 \<le> n' mod 512 \<and> n' mod 512 < n mod 512 + k) \<longleftrightarrow> n \<le> n' \<and> n' < n + k"
proof -
  have d: "n' = n' div 512 * 512 + n' mod 512" "n = n div 512 * 512 + n mod 512" by simp_all
  have "n' div 512 = n div 512" if "n \<le> n'" "n' < n + k"
    using that assms by (intro same_block) linarith+
  then show ?thesis using d by (cases "n' div 512 = n div 512") linarith+
qed

lemma map_step_correct:
  fixes va :: vaddr_t
  assumes ok: "pt_ok st root tab A" and kind: "kind = USER_PTE \<or> kind = KERNEL_PTE"
    and free: "3 \<le> free_pages_of (heap st)" and c: "1 \<le> c" and nb: "no_block st tab (vpn va)"
  defines "n \<equiv> vpn va"
  defines "k \<equiv> min (512 - n mod 512) c"
  obtains d st' tab' A' where
    "map_step root flags kind va pa (int c) rss st =
       Inr (va + of_nat (k * 4096), pa + of_nat (k * 4096), int (c - k), (add_rss ^^ (k + d)) rss, st')" "d \<le> 3"
    "pt_ok st' root tab' A'" "mapped_range flags kind n pa k st tab A d st' tab' A'"
proof -
  from walk_l3_correct [OF ok free nb, of rss] obtain t d st1 tab' A' where w:
    "walk_l3 root va rss st = Inr (t, (add_rss ^^ d) rss, st1)" "d \<le> 3" "pt_ok st1 root tab' A'"
    "grown st tab A d st1 tab' A'" "tab' (path 3 n) = Some t" unfolding n_def by blast
  let ?i = "n mod 512" and ?r = "row (entry_for flags kind) (n mod 512) k pa (ptps st1 t)"
  have map: "ptp_mapped st1 t = Inr ()" by (rule pt_ok_mapped [OF w(3,5)])
  have m: "?i + Suc (511 - ?i) = 512" "Suc (511 - ?i) = 512 - ?i" by simp_all
  have "fill_l3 (Suc (511 - ?i)) t flags kind va pa (int c) ((add_rss ^^ d) rss) st1 =
      Inr (va + of_nat (k * 4096), pa + of_nat (k * 4096), int (c - k), (add_rss ^^ k) ((add_rss ^^ d) rss), set_row t ?r st1)"
    using fill_l3_run [OF kind map m(1) c] by (simp only: m(2) Let_def k_def)
  moreover have "PTP_ENTRIES - level_index 3 va = Suc (511 - ?i)"
    using level_index_vpn [of 3 va] by (simp add: PTP_ENTRIES_def ix_def n_def)
  ultimately have run: "map_step root flags kind va pa (int c) rss st =
      Inr (va + of_nat (k * 4096), pa + of_nat (k * 4096), int (c - k), (add_rss ^^ (k + d)) rss, set_row t ?r st1)"
    using w(1) by (simp only: map_step_def bindR_simps prod.case funpow_add comp_apply)
  have n: "n < 2 ^ 36" by (simp add: n_def vpn_def)
  have k: "?i + k \<le> 512" by (simp add: k_def)
  have "if n \<le> n' \<and> n' < n + k
      then \<exists>pte. lookup (set_row t ?r st1) tab' n' = Some (entry_for flags kind (pa + of_nat ((n' - n) * 4096)), 3, pte)
      else lookup (set_row t ?r st1) tab' n' = lookup st tab n'" if n': "n' < 2 ^ 36" for n'
  proof (cases "n \<le> n' \<and> n' < n + k")
    case True
    then have s: "n' div 512 = n div 512" "?i \<le> n' mod 512" "n' mod 512 < ?i + k" using same_table [OF k, of n'] by blast+
    then have "n' mod 512 - ?i = n' - n" by (metis add_diff_cancel_left div_mult_mod_eq)
    then show ?thesis using lookup_set_row [OF w(3,5) n n'] s True entry_for(2) [OF kind] by (simp add: row_def leaf_of_def)
  next
    case False
    then have "\<not> (n' div 512 = n div 512 \<and> ?i \<le> n' mod 512 \<and> n' mod 512 < ?i + k)" using same_table [OF k, of n'] by blast
    moreover have "lookup st1 tab' n' = leaf_of (ptps st1 t (n' mod 512)) 3 (t, n' mod 512)" if "n' div 512 = n div 512"
      using that lookup_set_row [OF w(3,5) n n', of "ptps st1 t"] by (simp add: set_row_def)
    ultimately show ?thesis using lookup_set_row [OF w(3,5) n n', of ?r] False w(4) by (auto simp: row_def grown_def)
  qed
  then have "mapped_range flags kind n pa k st tab A d (set_row t ?r st1) tab' A'"
    using w(4) unfolding mapped_range_def grown_def set_row_simps by blast
  then show ?thesis using that [OF run w(2) pt_ok_set_row [OF w(3,5)]] by simp
qed

text \<open>The number of level 3 tables a range meets.\<close>

definition l3_tables :: "nat \<Rightarrow> nat \<Rightarrow> nat" where
  "l3_tables n c = (if c = 0 then 0 else (n + c - 1) div 512 - n div 512 + 1)"

lemma l3_tables_step:
  assumes "1 \<le> c" "k = min (512 - n mod 512) c"
  shows "l3_tables n c = 1 + l3_tables (n + k) (c - k)"
proof (cases "c \<le> 512 - n mod 512")
  case True
  have "n mod 512 < 512" by simp
  then have "(n + c - 1) div 512 = n div 512" using True assms(1) by (intro same_block) linarith+
  then show ?thesis using True assms by (simp add: l3_tables_def)
next
  case False
  have "n mod 512 < 512" by simp
  have k: "k < c" "n + k = n div 512 * 512 + 512"
    using False assms(2) div_mult_mod_eq [of n 512] \<open>n mod 512 < 512\<close> by linarith+
  then have nt: "(n + k) div 512 = n div 512 + 1" by simp
  moreover have "n + k + (c - k) - 1 = n + c - 1" using k(1) by simp
  moreover have "n div 512 + 1 \<le> (n + c - 1) div 512" using nt div_le_mono [of "n + k" "n + c - 1" 512] k(1) by simp
  ultimately show ?thesis using k(1) assms(1) by (simp add: l3_tables_def Suc_diff_Suc)
qed

lemma mapped_range_trans:
  assumes 1: "mapped_range flags kind n pa k st tab A d st1 tab1 A1"
    and 2: "mapped_range flags kind (n + k) (pa + of_nat (k * 4096)) c st1 tab1 A1 d' st2 tab2 A2"
  shows "mapped_range flags kind n pa (k + c) st tab A (d + d') st2 tab2 A2"
proof -
  have "if n \<le> n' \<and> n' < n + (k + c)
      then \<exists>pte. lookup st2 tab2 n' = Some (entry_for flags kind (pa + of_nat ((n' - n) * 4096)), 3, pte)
      else lookup st2 tab2 n' = lookup st tab n'" if n': "n' < 2 ^ 36" for n'
  proof (cases "n + k \<le> n'")
    case True
    then have "(n' - n) * 4096 = k * 4096 + (n' - (n + k)) * 4096" by (simp flip: distrib_right)
    then have e: "pa + of_nat ((n' - n) * 4096) = pa + of_nat (k * 4096) + of_nat ((n' - (n + k)) * 4096)"
      by (simp only: of_nat_add add.assoc)
    show ?thesis using True 1 2 n' unfolding mapped_range_def e by (cases "n' < n + (k + c)") auto
  next
    case False
    then show ?thesis using 1 2 n' unfolding mapped_range_def by auto
  qed
  then show ?thesis using 1 2 unfolding mapped_range_def by fastforce
qed

lemma vpn_add: "k < 2 ^ 52 \<Longrightarrow> vpn (va + of_nat (k * 4096)) = (vpn va + k) mod 2 ^ 36"
proof -
  assume "k < 2 ^ 52"
  then have "unat (of_nat (k * 4096) :: u64) = k * 4096" by (intro unat_of_nat_small) simp
  then have "unat (va + of_nat (k * 4096)) = take_bit 64 (unat va + k * 4096)"
    by (simp only: unat_word_ariths take_bit_eq_mod) simp
  moreover have "take_bit 36 (drop_bit 12 (take_bit 64 x)) = take_bit 36 (drop_bit 12 x)" for x :: nat
    by (rule bit_eqI) (auto simp: bit_simps)
  ultimately have "vpn (va + of_nat (k * 4096)) = take_bit 36 (drop_bit 12 (unat va + k * 4096))"
    by (simp add: vpn_def take_bit_eq_mod drop_bit_eq_div)
  then show ?thesis by (simp add: vpn_def take_bit_eq_mod drop_bit_eq_div mod_simps add.commute)
qed

lemma map_loop_correct:
  assumes "pt_ok st root tab A" "kind = USER_PTE \<or> kind = KERNEL_PTE" "vpn va + c \<le> 2 ^ 36"
    "3 * l3_tables (vpn va) c \<le> free_pages_of (heap st)" "\<forall>n \<in> {vpn va..<vpn va + c}. no_block st tab n"
  shows "\<exists>d st' tab' A'. map_loop root flags kind va pa (int c) rss st = Some (Inr ((add_rss ^^ (c + d)) rss, st')) \<and>
    d \<le> 3 * l3_tables (vpn va) c \<and> pt_ok st' root tab' A' \<and> mapped_range flags kind (vpn va) pa c st tab A d st' tab' A'"
  using assms
proof (induction c arbitrary: va pa rss st tab A rule: less_induct)
  case (less c)
  note ok = less.prems(1) and kind = less.prems(2)
  show ?case
  proof (cases "c = 0")
    case True
    then have "map_loop root flags kind va pa (int c) rss st = Some (Inr ((add_rss ^^ (c + 0)) rss, st))"
      by (subst map_loop.simps) simp
    moreover have "mapped_range flags kind (vpn va) pa c st tab A 0 st tab A" using True by (auto simp: mapped_range_def)
    ultimately show ?thesis using ok by (metis le0)
  next
    case False
    define k where "k = min (512 - vpn va mod 512) c"
    have c: "1 \<le> c" using False by simp
    have t: "l3_tables (vpn va) c = 1 + l3_tables (vpn va + k) (c - k)" by (rule l3_tables_step [OF c k_def])
    have free: "3 \<le> free_pages_of (heap st)" using t less.prems(4) by simp
    have nb: "no_block st tab (vpn va)" using less.prems(5) c by simp
    obtain d st1 tab1 A1 where s:
      "map_step root flags kind va pa (int c) rss st =
         Inr (va + of_nat (k * 4096), pa + of_nat (k * 4096), int (c - k), (add_rss ^^ (k + d)) rss, st1)" "d \<le> 3"
      "pt_ok st1 root tab1 A1" "mapped_range flags kind (vpn va) pa k st tab A d st1 tab1 A1"
      by (rule map_step_correct [OF ok kind free c nb, of flags pa rss, folded k_def])
    have k: "1 \<le> k" "k \<le> c" "k \<le> 512" using c by (simp_all add: k_def Suc_le_eq)
    have v: "vpn (va + of_nat (k * 4096)) + (c - k) \<le> 2 ^ 36 \<and>
        l3_tables (vpn (va + of_nat (k * 4096))) (c - k) = l3_tables (vpn va + k) (c - k) \<and>
        (c - k \<noteq> 0 \<longrightarrow> vpn (va + of_nat (k * 4096)) = vpn va + k)"
      using vpn_add [of k va] k less.prems(3) by (cases "c = k") (auto simp: l3_tables_def vpn_def)
    moreover have "3 * l3_tables (vpn (va + of_nat (k * 4096))) (c - k) \<le> free_pages_of (heap st1)"
      using v t less.prems(4) s(2,4) by (simp add: mapped_range_def)
    moreover have "\<forall>n \<in> {vpn (va + of_nat (k * 4096))..<vpn (va + of_nat (k * 4096)) + (c - k)}. no_block st1 tab1 n"
    proof
      fix n assume n: "n \<in> {vpn (va + of_nat (k * 4096))..<vpn (va + of_nat (k * 4096)) + (c - k)}"
      then have "vpn va + k \<le> n" "n < vpn va + c" "n < 2 ^ 36" using v k less.prems(3) by auto
      then show "no_block st1 tab1 n" using less.prems(5) s(4) by (simp add: no_block_def mapped_range_def)
    qed
    ultimately obtain d' st2 tab2 A2 where r:
      "map_loop root flags kind (va + of_nat (k * 4096)) (pa + of_nat (k * 4096)) (int (c - k)) ((add_rss ^^ (k + d)) rss) st1 =
         Some (Inr ((add_rss ^^ (c - k + d')) ((add_rss ^^ (k + d)) rss), st2))"
      "d' \<le> 3 * l3_tables (vpn (va + of_nat (k * 4096))) (c - k)" "pt_ok st2 root tab2 A2"
      "mapped_range flags kind (vpn (va + of_nat (k * 4096))) (pa + of_nat (k * 4096)) (c - k) st1 tab1 A1 d' st2 tab2 A2"
      using less.IH [OF _ s(3) kind, of "c - k" "va + of_nat (k * 4096)" "pa + of_nat (k * 4096)" "(add_rss ^^ (k + d)) rss"] k c
      by auto
    have "c - k + d' + (k + d) = c + (d + d')" using k by simp
    then have "map_loop root flags kind va pa (int c) rss st = Some (Inr ((add_rss ^^ (c + (d + d'))) rss, st2))"
      using s(1) r(1) c by (subst map_loop.simps) (simp only: funpow_add [THEN fun_cong, symmetric, unfolded comp_apply], simp)
    moreover have "mapped_range flags kind (vpn va + k) (pa + of_nat (k * 4096)) (c - k) st1 tab1 A1 d' st2 tab2 A2"
      using r(4) v by (cases "c - k = 0") (auto simp: mapped_range_def)
    from mapped_range_trans [OF s(4) this] have "mapped_range flags kind (vpn va) pa c st tab A (d + d') st2 tab2 A2" using k by simp
    moreover have "d + d' \<le> 3 * l3_tables (vpn va) c" using r(2) s(2) t v by simp
    ultimately show ?thesis using r(3) by blast
  qed
qed

text \<open>The number of pages \<open>map_range_in_pgtbl_common\<close> maps.\<close>

definition page_cnt :: "size_t \<Rightarrow> nat" where
  "page_cnt len = (unat len + 4095) div 4096"

lemma ceil_4096: "((x :: nat) + 4095) div 4096 = x div 4096 + (if x mod 4096 > 0 then 1 else 0)"
proof -
  have "(r + 4095) div 4096 = (if r > 0 then 1 else 0)" if "r < 4096" for r :: nat
    using that by (auto intro!: div_nat_eqI)
  then show ?thesis using div_add1_eq [of x 4095 4096] by simp
qed

lemma page_cnt_eq: "uint (len div PAGE_SIZE + (if len mod PAGE_SIZE > 0 then 1 else 0)) = int (page_cnt len)"
proof -
  have b: "unat len < 2 ^ 64" using unsigned_less [of len, where ?'a = nat] by simp
  have d: "unat (len div PAGE_SIZE) = unat len div 4096" "unat (len mod PAGE_SIZE) = unat len mod 4096"
    by (simp_all add: unat_div unat_mod unat_PAGE_SIZE)
  then have "len mod PAGE_SIZE > 0 \<longleftrightarrow> unat len mod 4096 > 0" by (simp add: word_less_nat_alt)
  moreover have "unat (len div PAGE_SIZE + 1) = unat len div 4096 + 1"
    using unat_add_small [of "len div PAGE_SIZE" 1] d b by simp
  moreover have "page_cnt len = unat len div 4096 + (if unat len mod 4096 > 0 then 1 else 0)"
    unfolding page_cnt_def by (rule ceil_4096)
  ultimately have "unat (len div PAGE_SIZE + (if len mod PAGE_SIZE > 0 then 1 else 0)) = page_cnt len"
    using d(1) by (cases "len mod PAGE_SIZE > 0") simp_all
  then show ?thesis by (simp only: uint_nat)
qed

lemma add_rss_pow: "(add_rss ^^ n) rss = map_option (\<lambda>r. r + of_nat n * PAGE_SIZE) rss"
  by (induction n) (auto simp: add_rss_def option.map_comp comp_def algebra_simps option.map_id0 [unfolded id_def])

lemma map_range_correct:
  assumes ok: "pt_ok st root tab A" and kind: "kind = USER_PTE \<or> kind = KERNEL_PTE" and va: "4096 dvd unat va"
    and fits: "vpn va + page_cnt len \<le> 2 ^ 36" and free: "3 * l3_tables (vpn va) (page_cnt len) \<le> free_pages_of (heap st)"
    and nb: "\<forall>n \<in> {vpn va..<vpn va + page_cnt len}. no_block st tab n"
  obtains d st' tab' A' where
    "map_range_in_pgtbl_common root va pa len flags kind rss st =
       Inr (0, map_option (\<lambda>r. r + of_nat (page_cnt len + d) * PAGE_SIZE) rss, st')"
    "d \<le> 3 * l3_tables (vpn va) (page_cnt len)"
    "pt_ok st' root tab' A'" "mapped_range flags kind (vpn va) pa (page_cnt len) st tab A d st' tab' A'"
proof -
  have "root \<noteq> NULL" using pt_okD(6) [OF ok pt_okD(3) [OF ok]] .
  moreover have "va mod PAGE_SIZE = 0" using va by (simp add: word_unat_eq_iff unat_mod unat_PAGE_SIZE mod_eq_0_iff_dvd)
  moreover obtain d st' tab' A' where m: "map_loop root flags kind va pa (int (page_cnt len)) rss st =
       Some (Inr ((add_rss ^^ (page_cnt len + d)) rss, st'))" "d \<le> 3 * l3_tables (vpn va) (page_cnt len)"
    "pt_ok st' root tab' A'" "mapped_range flags kind (vpn va) pa (page_cnt len) st tab A d st' tab' A'"
    using map_loop_correct [OF ok kind fits free nb] by blast
  ultimately have "map_range_in_pgtbl_common root va pa len flags kind rss st = Inr (0, (add_rss ^^ (page_cnt len + d)) rss, st')"
    unfolding map_range_in_pgtbl_common_def Let_def page_cnt_eq by simp
  then show ?thesis using that m(2-4) unfolding add_rss_pow by blast
qed

end
