(* ===== verification/PageTable_Props.thy ===== *)
theory PageTable_Props
  imports PageTable_Map Kmalloc_Props
begin

text \<open>
  The properties of the page tables: mapping a range and querying it are inverse, mappings outside
  the range stay, the counter and the permissions are what the code computes.
\<close>

section \<open>A fresh page table\<close>

lemma step_region:
  "on_snodes f k = Inr k' \<Longrightarrow> region k' = region k" "region (set_current n s k) = region k"
  "region (unlock_container n k) = region k"
  by (auto simp: on_snodes_def bindR_Inr set_current_def unlock_container_def)

lemma init_containers_region: "init_containers n k = Inr k' \<Longrightarrow> region k' = region k"
proof (induction n arbitrary: k')
  case (Suc n)
  then obtain k1 k2 where s: "init_containers n k = Inr k1"
      "on_snodes (init_list_head (PartialHead n)) (set_current n NULL k1) = Inr k2" "unlock_container n k2 = k'"
    by (auto simp only: init_containers.simps bindR_Inr sum.inject)
  from step_region(1) [OF s(2)] Suc.IH [OF s(1)] show ?case by (simp add: step_region(2,3) flip: s(3))
qed simp

lemma boot_heap:
  assumes img: "unat img_end \<le> 0x3E800000" and "dom (snodes k) = slab_cells"
  obtains k' where "mm_init img_end k = Inr k'" "kmem_rep k' {}" "KBASE \<le> start_addr (region k')" "1024 \<le> free_pages_of k'"
proof -
  obtain k' where k': "mm_init img_end k = Inr k'" "kmem_rep k' {}" by (rule mm_init_correct [OF assms])
  obtain m where m: "init_buddy img_end = Inr m" "buddy_inv m" "live_chunks m = {}"
      "npages m + array_pages (avail_pages img_end) = avail_pages img_end"
      "page_arrry m = phys_to_virt (ROUND_UP img_end PAGE_SIZE)"
      "unat (start_addr m) = unat (page_arrry m) + array_pages (avail_pages img_end) * 4096"
      "unat (start_addr m) + npages m * 4096 = unat (phys_to_virt 0x3F000000)"
    by (rule init_buddy_correct [OF img]) blast
  have r: "region k' = m"
    using k'(1) m(1) init_containers_region [of _ "k\<lparr>region := m\<rparr>" k'] by (simp add: mm_init_def init_slab_def)
  have "npages m * 4096 \<le> 0x3F000000"
    using m(4) avail_start(1) [of img_end] img by simp
  then have "unat KBASE \<le> unat (start_addr m)" using m(7) by (simp add: phys_to_virt_def KBASE_def)
  moreover have "1024 \<le> free_pages_of k'"
    using free_pages_count [OF m(2)] region_pages [OF img] m(3,4) r by (simp add: live_pages_def)
  ultimately show ?thesis using that k' r by (simp add: word_le_nat_alt)
qed

text \<open>A page that \<open>get_pages\<close> hands out, once cleared, is an empty page table.\<close>

lemma fresh_table:
  assumes rep: "kmem_rep k A" and base: "KBASE \<le> start_addr (region k)" and free: "1 \<le> free_pages_of k"
  obtains root k' where "get_pages 0 k = Inr (root, k')" "free_pages_of k' + 1 = free_pages_of k"
    "\<And>pt r. pt root = (\<lambda>_. 0) \<Longrightarrow> pt_ok \<lparr>heap = k', static_ptp = (\<lambda>_. False), ptps = pt, ttbr0_el1 = r\<rparr> root [[] \<mapsto> root] (insert (root, 4096) A)"
proof -
  obtain root k' where g: "get_pages 0 k = Inr (root, k')" "kmem_rep k' (insert (root, 4096) A)"
      "start_addr (region k') = start_addr (region k)" "free_pages_of k' + 1 = free_pages_of k" "root \<noteq> NULL"
    by (rule get_pages_zero [OF rep free]) blast
  have "pt_ok \<lparr>heap = k', static_ptp = (\<lambda>_. False), ptps = pt, ttbr0_el1 = r\<rparr> root [[] \<mapsto> root] (insert (root, 4096) A)" if "pt root = (\<lambda>_. 0)" for pt r
    using g(2,3,5) base that by (auto simp: pt_ok_def points_to_def split: if_splits)
  then show ?thesis using that g(1,4) by blast
qed

lemma fresh_table_no_block: "no_block st [[] \<mapsto> root] n"
  by (simp add: no_block_def lookup_def path_def)

text \<open>The page table of the witnesses: one page of a heap just after boot.\<close>

lemma boot_table:
  "\<exists>k root k'. mm_init 0x100000 raw_memory = Inr k \<and> get_pages 0 k = Inr (root, k') \<and> 1000 \<le> free_pages_of k' \<and>
     pt_ok \<lparr>heap = k', static_ptp = (\<lambda>_. False), ptps = (\<lambda>_ _. 0), ttbr0_el1 = 0\<rparr> root [[] \<mapsto> root] {(root, 4096)}"
proof -
  have "unat (0x100000 :: u64) \<le> 0x3E800000" by simp
  then obtain k where k: "mm_init 0x100000 raw_memory = Inr k" "kmem_rep k {}" "KBASE \<le> start_addr (region k)"
      "1024 \<le> free_pages_of k" by (rule boot_heap [OF _ raw_memory_nodes])
  have "1 \<le> free_pages_of k" using k(4) by simp
  then obtain root k' where g: "get_pages 0 k = Inr (root, k')" "free_pages_of k' + 1 = free_pages_of k"
      "\<And>pt r. pt root = (\<lambda>_. 0) \<Longrightarrow> pt_ok \<lparr>heap = k', static_ptp = (\<lambda>_. False), ptps = pt, ttbr0_el1 = r\<rparr> root [[] \<mapsto> root] {(root, 4096)}"
    using fresh_table [OF k(2,3)] by metis
  have "pt_ok \<lparr>heap = k', static_ptp = (\<lambda>_. False), ptps = (\<lambda>_ _. 0), ttbr0_el1 = 0\<rparr> root [[] \<mapsto> root] {(root, 4096)}" by (rule g(3)) simp
  with g(1,2) show ?thesis using k(1,4) by (intro exI [of _ k] exI [of _ root] exI [of _ k']) simp
qed

section \<open>Offsets in a page\<close>

lemma unat_offset: "unat ((and) (va :: u64) 0xFFF) = unat va mod 4096"
proof -
  have "(0xFFF :: u64) = mask 12" by (simp add: mask_eq_exp_minus_1)
  then show ?thesis using unat_take_bit [of 12 va] by (simp add: take_bit_eq_mask)
qed

lemma split_offset:
  assumes "4096 dvd unat va" "off < 2 ^ 52"
  shows "vpn (va + of_nat off) = (vpn va + off div 4096) mod 2 ^ 36" "(and) (va + of_nat off) 0xFFF = of_nat (off mod 4096)"
proof -
  let ?q = "off div 4096" and ?r = "off mod 4096"
  define w where "w = va + of_nat (?q * 4096)"
  have o: "va + of_nat off = w + of_nat ?r" unfolding w_def by (simp only: add.assoc of_nat_add [symmetric] div_mult_mod_eq)
  have q: "?q * 4096 < 2 ^ 52" using assms(2) by (metis div_times_less_eq_dividend le_less_trans)
  have "unat (of_nat (?q * 4096) :: u64) = ?q * 4096" using q by (intro unat_of_nat_small) simp
  then have "unat w = (unat va + ?q * 4096) mod 2 ^ 64" unfolding w_def by (simp only: unat_word_ariths) simp
  moreover have "(4096 :: nat) dvd 2 ^ 64" by simp
  ultimately have "unat w mod 4096 = 0" using assms(1) by (simp only: mod_mod_cancel) (auto simp: mod_eq_0_iff_dvd)
  then obtain a where a: "unat w = a * 4096" by (auto simp: mod_eq_0_iff_dvd elim: dvdE)
  have "?r < 4096" by simp
  moreover have "a * 4096 < 2 ^ 64" using a unsigned_less [of w, where ?'a = nat] by simp
  ultimately have "unat w + unat (of_nat ?r :: u64) < 2 ^ 64" "unat (of_nat ?r :: u64) = ?r"
    using a by (simp_all add: unat_of_nat_small)
  then have u: "unat (va + of_nat off) = a * 4096 + ?r" unfolding o using a by (simp add: unat_add_small)
  then have "unat (va + of_nat off) mod 4096 = ?r" "unat (va + of_nat off) div 4096 = unat w div 4096" using a by simp_all
  moreover have "vpn w = (vpn va + ?q) mod 2 ^ 36" using vpn_add [of ?q va] q by (simp add: w_def)
  ultimately show "vpn (va + of_nat off) = (vpn va + ?q) mod 2 ^ 36" "(and) (va + of_nat off) 0xFFF = of_nat ?r"
    using unat_offset [of "va + of_nat off"] \<open>unat (of_nat ?r :: u64) = ?r\<close> by (simp_all add: vpn_def word_unat_eq_iff)
qed

section \<open>Queries after a mapping\<close>

lemma unat_shifted:
  fixes pa :: u64
  assumes "unat pa + q * 4096 < 2 ^ 48"
  shows "unat (pa + of_nat (q * 4096)) = unat pa + q * 4096"
proof -
  have "(2 :: nat) ^ 48 < 2 ^ 64" by simp
  moreover from this have "unat (of_nat (q * 4096) :: u64) = q * 4096" using assms by (intro unat_of_nat_small) linarith
  ultimately show ?thesis using assms by (subst unat_add_small) linarith+
qed

lemma entry_paddr:
  assumes kind: "kind = USER_PTE \<or> kind = KERNEL_PTE" and pa: "unat pa + q * 4096 < 2 ^ 48"
  shows "GET_PADDR_IN_PTE (entry_for flags kind (pa + of_nat (q * 4096))) = ROUND_DOWN pa PAGE_SIZE + of_nat (q * 4096)"
proof -
  have r: "unat (ROUND_DOWN pa PAGE_SIZE) = unat pa div 4096 * 4096" using unat_ROUND_DOWN [of pa 12] by (simp add: PAGE_SIZE_eq)
  have "unat pa div 4096 * 4096 + q * 4096 < 2 ^ 48" using pa div_times_less_eq_dividend [of "unat pa" 4096] by linarith
  then have "unat (ROUND_DOWN pa PAGE_SIZE + of_nat (q * 4096)) = unat pa div 4096 * 4096 + q * 4096"
    using unat_shifted [of "ROUND_DOWN pa PAGE_SIZE" q] r by simp
  moreover have "unat (GET_PADDR_IN_PTE (entry_for flags kind (pa + of_nat (q * 4096)))) = unat pa div 4096 * 4096 + q * 4096"
    using unat_paddr_of_entry [of "pa + of_nat (q * 4096)"] unat_shifted [OF pa] pa by (simp add: entry_for(3) [OF kind])
  ultimately show ?thesis by (simp only: word_unat_eq_iff)
qed

lemma query_in_range:
  assumes ok: "pt_ok st' root tab' A'" and m: "mapped_range flags kind (vpn va) pa c st tab A d st' tab' A'"
    and kind: "kind = USER_PTE \<or> kind = KERNEL_PTE" and al: "4096 dvd unat va"
    and fits: "vpn va + c \<le> 2 ^ 36" "unat pa + c * 4096 \<le> 2 ^ 48" and off: "off < c * 4096"
  shows "\<exists>pte. query_in_pgtbl root (va + of_nat off) st' = Inr (0, Some (ROUND_DOWN pa PAGE_SIZE + of_nat off, pte))"
proof -
  let ?q = "off div 4096" and ?r = "off mod 4096"
  have "c * 4096 \<le> 2 ^ 48" using fits(2) by linarith
  then have o52: "off < 2 ^ 52" using off by simp
  have q: "?q < c" using off by (simp add: less_mult_imp_div_less)
  then have n: "vpn (va + of_nat off) = vpn va + ?q" using split_offset(1) [OF al o52] fits(1) by simp
  have "?q * 4096 < c * 4096" using q by simp
  then have pa: "unat pa + ?q * 4096 < 2 ^ 48" using fits(2) by linarith
  have "vpn va + ?q < 2 ^ 36" using q fits(1) by linarith
  then obtain pte where e: "lookup st' tab' (vpn va + ?q) = Some (entry_for flags kind (pa + of_nat (?q * 4096)), 3, pte)"
    using m q unfolding mapped_range_def by (metis add_diff_cancel_left' le_add1 nat_add_left_cancel_less)
  have "GET_VA_OFFSET 3 (va + of_nat off) = of_nat ?r"
    using split_offset(2) [OF al o52] by (simp add: GET_VA_OFFSET_def mask_eq_exp_minus_1)
  then have "GET_PADDR_IN_PTE (entry_for flags kind (pa + of_nat (?q * 4096))) + GET_VA_OFFSET 3 (va + of_nat off) =
      ROUND_DOWN pa PAGE_SIZE + of_nat off"
    by (simp only: entry_paddr [OF kind pa] add.assoc of_nat_add [symmetric] div_mult_mod_eq)
  then show ?thesis using query_lookup [OF ok, of "va + of_nat off"] n e by (simp add: query_result_def)
qed

lemma query_out_of_range:
  assumes ok: "pt_ok st root tab A" "pt_ok st' root tab' A'" and m: "mapped_range flags kind n pa c st tab A d st' tab' A'"
    and out: "vpn va \<notin> {n..<n + c}"
  shows "query_in_pgtbl root va st' = query_in_pgtbl root va st"
proof -
  have "vpn va < 2 ^ 36" by (simp add: vpn_def)
  then have "lookup st' tab' (vpn va) = lookup st tab (vpn va)" using m out by (auto simp: mapped_range_def)
  then show ?thesis using query_lookup [OF ok(1), of va] query_lookup [OF ok(2), of va] by simp
qed

section \<open>Properties\<close>



text \<open>What a mapping costs. The range is mapped with at most three new table pages for every level
  3 table it meets; the memory the caller is charged in \<open>rss\<close> is the pages mapped and the table pages
  taken from the buddy system, in bytes, and nothing already allocated is given up.\<close>

lemma map_range_rss:
  assumes "pt_ok st root tab A" "4096 dvd unat va" "vpn va + page_cnt len \<le> 2 ^ 36"
    "3 * l3_tables (vpn va) (page_cnt len) \<le> free_pages_of (heap st)"
    "\<forall>n \<in> {vpn va..<vpn va + page_cnt len}. no_block st tab n"
  shows "\<exists>d st' tab' A'. map_range_in_pgtbl_user root va pa len flags (Some r) st =
      Inr (0, Some (r + of_nat (page_cnt len + d) * PAGE_SIZE), st') \<and>
    d \<le> 3 * l3_tables (vpn va) (page_cnt len) \<and>
    free_pages_of (heap st') + d = free_pages_of (heap st) \<and> pt_ok st' root tab' A' \<and> A \<subseteq> A'"
proof -
  obtain d st' tab' A' where m: "map_range_in_pgtbl_common root va pa len flags USER_PTE (Some r) st =
       Inr (0, map_option (\<lambda>r. r + of_nat (page_cnt len + d) * PAGE_SIZE) (Some r), st')"
    "d \<le> 3 * l3_tables (vpn va) (page_cnt len)" "pt_ok st' root tab' A'" "mapped_range flags USER_PTE (vpn va) pa (page_cnt len) st tab A d st' tab' A'"
    by (rule map_range_correct [OF assms(1) disjI1 [OF refl] assms(2-5)])
  then show ?thesis unfolding map_range_in_pgtbl_user_def option.map mapped_range_def by blast
qed



text \<open>Reading the permission back from the access bits gives what was asked for, with write access
  implying read access, for every combination of flags.\<close>

lemma prot_roundtrip:
  "ap_to_vmr_prot (vmr_prot_to_ap prot) =
     (if flag_set prot VMR_WRITE then or VMR_READ VMR_WRITE else if flag_set prot VMR_READ then VMR_READ else 0)"
  by (simp add: ap_to_vmr_prot_def vmr_prot_to_ap_def)

end
