(* ===== verification/BootPt.thy ===== *)
theory BootPt
  imports PageTable_Props
begin

text \<open>
  The page tables the boot code builds (src/arch/aarch64/boot/raspi3/init/mmu.c) before the MMU is
  on, and the first thing \<open>main\<close> does with them (src/arch/aarch64/main.c): set up the memory
  management and map the kernel stack. The addresses of the tables are chosen by the linker and are
  a parameter.
\<close>

section \<open>The code\<close>

record boot_layout =
  boot_ttbr0_l0_at :: paddr_t
  boot_ttbr0_l1_at :: paddr_t
  boot_ttbr0_l2_at :: paddr_t
  boot_ttbr1_l0_at :: paddr_t
  boot_ttbr1_l1_at :: paddr_t
  boot_ttbr1_l2_at :: paddr_t

record boot_tables =
  boot_ttbr0_l0 :: "nat \<Rightarrow> u64"
  boot_ttbr0_l1 :: "nat \<Rightarrow> u64"
  boot_ttbr0_l2 :: "nat \<Rightarrow> u64"
  boot_ttbr1_l0 :: "nat \<Rightarrow> u64"
  boot_ttbr1_l1 :: "nat \<Rightarrow> u64"
  boot_ttbr1_l2 :: "nat \<Rightarrow> u64"

definition PHYSMEM_START :: u64 where "PHYSMEM_START = 0"
definition PERIPHERAL_BASE :: u64 where "PERIPHERAL_BASE = 0x3F000000"
definition SHARED_PERIPHERAL_END :: u64 where "SHARED_PERIPHERAL_END = 0x40000000"
definition PHYSMEM_END :: u64 where "PHYSMEM_END = 0xFFFFFFFF"
definition KERNEL_VADDR :: u64 where "KERNEL_VADDR = 0xFFFFFF0000000000"

definition BOOT_IS_VALID :: u64 where "BOOT_IS_VALID = 1"
definition BOOT_IS_TABLE :: u64 where "BOOT_IS_TABLE = push_bit 1 1"
definition BOOT_UXN :: u64 where "BOOT_UXN = push_bit 54 1"
definition BOOT_ACCESSED :: u64 where "BOOT_ACCESSED = push_bit 10 1"
definition BOOT_NG :: u64 where "BOOT_NG = push_bit 11 1"
definition BOOT_INNER_SHARABLE :: u64 where "BOOT_INNER_SHARABLE = push_bit 8 3"
definition BOOT_NORMAL_MEMORY :: u64 where "BOOT_NORMAL_MEMORY = push_bit 2 4"
definition BOOT_DEVICE_MEMORY :: u64 where "BOOT_DEVICE_MEMORY = push_bit 2 0"

definition SIZE_2M :: u64 where "SIZE_2M = 2 * 1024 * 1024"
definition SIZE_1G :: u64 where "SIZE_1G = 1024 * 1024 * 1024"

definition BOOT_L0_INDEX :: "u64 \<Rightarrow> nat" where "BOOT_L0_INDEX x = unat ((and) (drop_bit (12 + 9 + 9 + 9) x) 0x1FF)"
definition BOOT_L1_INDEX :: "u64 \<Rightarrow> nat" where "BOOT_L1_INDEX x = unat ((and) (drop_bit (12 + 9 + 9) x) 0x1FF)"
definition BOOT_L2_INDEX :: "u64 \<Rightarrow> nat" where "BOOT_L2_INDEX x = unat ((and) (drop_bit (12 + 9) x) 0x1FF)"

text \<open>The loops of \<open>init_kernel_pt\<close>: one entry for every block from \<open>vaddr\<close> up to a limit. The
  result has the value of \<open>vaddr\<close> at the end, where the next loop goes on.\<close>

partial_function (option) fill_blocks ::
  "(u64 \<Rightarrow> nat) \<Rightarrow> u64 \<Rightarrow> u64 \<Rightarrow> u64 \<Rightarrow> u64 \<Rightarrow> (nat \<Rightarrow> u64) \<Rightarrow> (u64 \<times> (nat \<Rightarrow> u64)) option" where
  "fill_blocks index attrs step lim vaddr tbl =
     (if vaddr < lim
      then fill_blocks index attrs step lim (vaddr + step) (tbl(index vaddr := (or) vaddr attrs))
      else Some (vaddr, tbl))"

declare fill_blocks.simps [code]

definition boot_table_entry :: "paddr_t \<Rightarrow> u64" where
  "boot_table_entry pa = (or) ((or) ((or) pa BOOT_IS_TABLE) BOOT_IS_VALID) BOOT_NG"

definition normal_block :: u64 where
  "normal_block = (or) BOOT_UXN ((or) BOOT_ACCESSED ((or) BOOT_NG ((or) BOOT_INNER_SHARABLE ((or) BOOT_NORMAL_MEMORY BOOT_IS_VALID))))"

definition device_block :: u64 where
  "device_block = (or) BOOT_UXN ((or) BOOT_ACCESSED ((or) BOOT_NG ((or) BOOT_INNER_SHARABLE ((or) BOOT_DEVICE_MEMORY BOOT_IS_VALID))))"

definition local_block :: u64 where
  "local_block = (or) BOOT_UXN ((or) BOOT_ACCESSED ((or) BOOT_NG ((or) BOOT_DEVICE_MEMORY BOOT_IS_VALID)))"

definition init_ttbr1 :: "boot_layout \<Rightarrow> boot_tables \<Rightarrow> boot_tables option" where
  "init_ttbr1 lay bt =
     (let vaddr = PHYSMEM_START;
          l0 = (boot_ttbr1_l0 bt)(BOOT_L0_INDEX (vaddr + KERNEL_VADDR) := boot_table_entry (boot_ttbr1_l1_at lay));
          l1 = (boot_ttbr1_l1 bt)(BOOT_L1_INDEX (vaddr + KERNEL_VADDR) := boot_table_entry (boot_ttbr1_l2_at lay))
      in Option.bind (fill_blocks (\<lambda>v. BOOT_L2_INDEX (v + KERNEL_VADDR)) normal_block SIZE_2M PERIPHERAL_BASE vaddr (boot_ttbr1_l2 bt)) (\<lambda>(vaddr, l2).
         Option.bind (fill_blocks (\<lambda>v. BOOT_L2_INDEX (v + KERNEL_VADDR)) device_block SIZE_2M SHARED_PERIPHERAL_END vaddr l2) (\<lambda>(vaddr, l2).
         Option.bind (fill_blocks (\<lambda>v. BOOT_L1_INDEX (v + KERNEL_VADDR)) local_block SIZE_1G PHYSMEM_END vaddr l1) (\<lambda>(vaddr, l1).
         Some (bt\<lparr>boot_ttbr1_l0 := l0, boot_ttbr1_l1 := l1, boot_ttbr1_l2 := l2\<rparr>)))))"

definition init_ttbr0 :: "boot_layout \<Rightarrow> boot_tables \<Rightarrow> boot_tables option" where
  "init_ttbr0 lay bt =
     (let vaddr = PHYSMEM_START;
          l0 = (boot_ttbr0_l0 bt)(BOOT_L0_INDEX vaddr := boot_table_entry (boot_ttbr0_l1_at lay));
          l1 = (boot_ttbr0_l1 bt)(BOOT_L1_INDEX vaddr := boot_table_entry (boot_ttbr0_l2_at lay))
      in Option.bind (fill_blocks BOOT_L2_INDEX normal_block SIZE_2M SIZE_2M vaddr (boot_ttbr0_l2 bt)) (\<lambda>(vaddr, l2).
         Option.bind (fill_blocks BOOT_L2_INDEX device_block SIZE_2M SHARED_PERIPHERAL_END vaddr l2) (\<lambda>(vaddr, l2).
         Some (bt\<lparr>boot_ttbr0_l0 := l0, boot_ttbr0_l1 := l1, boot_ttbr0_l2 := l2\<rparr>))))"

definition init_kernel_pt :: "boot_layout \<Rightarrow> boot_tables \<Rightarrow> boot_tables option" where
  "init_kernel_pt lay bt = Option.bind (init_ttbr1 lay bt) (init_ttbr0 lay)"

definition CPU_STACK_SIZE :: u64 where "CPU_STACK_SIZE = 4096"
definition KSTACK_BASE :: u64 where "KSTACK_BASE = 0xFFFFFFFF00000000"

definition KSTACKx_ADDR :: "u64 \<Rightarrow> vaddr_t" where
  "KSTACKx_ADDR cpuid = cpuid * 2 * CPU_STACK_SIZE + KSTACK_BASE"

text \<open>The memory part of \<open>main\<close>: \<open>mm_init\<close>, then the stack of the first core is mapped into the
  kernel page table.\<close>

definition main_mm :: "boot_layout \<Rightarrow> paddr_t \<Rightarrow> vaddr_t \<Rightarrow> vmem \<Rightarrow> (int \<times> vmem) result" where
  "main_mm lay img_end cpu_stack0 st =
     bindR (mm_init img_end (heap st)) (\<lambda>k.
     map_range_in_pgtbl_kernel (boot_ttbr1_l0_at lay + KBASE) (KSTACKx_ADDR 0) (cpu_stack0 - KBASE) CPU_STACK_SIZE
       ((or) VMR_READ VMR_WRITE) (st\<lparr>heap := k\<rparr>))"

section \<open>The loops\<close>

lemma fill_blocks_run:
  assumes "unat v + n * unat step < 2 ^ 64" "unat lim \<le> unat v + n * unat step" "0 < n \<Longrightarrow> unat v + (n - 1) * unat step < unat lim"
    "\<And>k. k < n \<Longrightarrow> index (v + of_nat k * step) = k0 + k"
  shows "fill_blocks index attrs step lim v t = Some (v + of_nat n * step,
     \<lambda>j. if k0 \<le> j \<and> j < k0 + n then (or) (v + of_nat (j - k0) * step) attrs else t j)"
  using assms
proof (induction n arbitrary: v t k0)
  case 0
  then have "\<not> v < lim" by (simp add: word_less_nat_alt)
  then show ?case by (subst fill_blocks.simps) (auto simp: fun_eq_iff)
next
  case (Suc n)
  let ?t = "t(index v := (or) v attrs)"
  have u: "unat (v + step) = unat v + unat step" using Suc.prems(1) by (intro unat_add_small) simp
  have sh: "v + step + of_nat k * step = v + of_nat (Suc k) * step" for k by (simp add: algebra_simps)
  have pre: "unat (v + step) + n * unat step < 2 ^ 64" "unat lim \<le> unat (v + step) + n * unat step"
      "0 < n \<Longrightarrow> unat (v + step) + (n - 1) * unat step < unat lim"
    using u Suc.prems(1-3) by (simp_all add: add_ac) (cases n; simp add: add_ac)
  have ix: "index (v + step + of_nat k * step) = Suc k0 + k" if "k < n" for k
    using Suc.prems(4) [of "Suc k"] that unfolding sh by simp
  have i0: "index v = k0" using Suc.prems(4) [of 0] by simp
  have "unat v \<le> unat v + n * unat step" by simp
  then have "v < lim" using Suc.prems(3) by (simp add: word_less_nat_alt)
  then have "fill_blocks index attrs step lim v t = fill_blocks index attrs step lim (v + step) ?t"
    by (subst fill_blocks.simps) simp
  also have "\<dots> = Some (v + of_nat (Suc n) * step,
      \<lambda>j. if Suc k0 \<le> j \<and> j < Suc k0 + n then (or) (v + step + of_nat (j - Suc k0) * step) attrs else ?t j)"
    using Suc.IH [OF pre ix] unfolding sh .
  also have "(\<lambda>j. if Suc k0 \<le> j \<and> j < Suc k0 + n then (or) (v + step + of_nat (j - Suc k0) * step) attrs else ?t j) =
      (\<lambda>j. if k0 \<le> j \<and> j < k0 + Suc n then (or) (v + of_nat (j - k0) * step) attrs else t j)"
    unfolding sh i0 by (auto simp: fun_eq_iff Suc_diff_Suc simp del: of_nat_Suc)
  finally show ?case .
qed

section \<open>The tables\<close>

lemma boot_index:
  "BOOT_L0_INDEX x = level_index 0 x" "BOOT_L1_INDEX x = level_index 1 x" "BOOT_L2_INDEX x = level_index 2 x"
  by (simp_all add: BOOT_L0_INDEX_def BOOT_L1_INDEX_def BOOT_L2_INDEX_def level_index_def mask_eq_exp_minus_1)

lemma level_index_nat: "level_index l va = unat va div 2 ^ ((3 - l) * 9 + 12) mod 512"
  unfolding level_index_def by (simp only: take_bit_eq_mask [symmetric] unat_take_bit unat_drop_bit) simp

lemma unat_kernel_vaddr: "unat x < 2 ^ 40 \<Longrightarrow> unat (x + KERNEL_VADDR) = unat x + 0xFFFFFF0000000000"
  by (subst unat_add_small) (simp_all add: KERNEL_VADDR_def)

lemma kernel_index:
  assumes "unat x < 2 ^ 32"
  shows "level_index 0 (x + KERNEL_VADDR) = 510" "level_index 1 (x + KERNEL_VADDR) = unat x div 2 ^ 30"
    "level_index 2 (x + KERNEL_VADDR) = unat x div 2 ^ 21 mod 512"
proof -
  have u: "unat (x + KERNEL_VADDR) = unat x + 0xFFFFFF0000000000" using assms by (intro unat_kernel_vaddr) simp
  have "(unat x + 0x1FFFFFE * 2 ^ 39) div 2 ^ 39 = 0x1FFFFFE" using assms by (subst div_mult_self1) auto
  then show "level_index 0 (x + KERNEL_VADDR) = 510" by (simp add: level_index_nat u)
  have "(unat x + 0x3FFFFFC00 * 2 ^ 30) div 2 ^ 30 = 0x3FFFFFC00 + unat x div 2 ^ 30" by (subst div_mult_self1) auto
  moreover have "unat x div 2 ^ 30 < 512" using assms by (intro less_mult_imp_div_less) simp
  then have "(0x3FFFFFC00 + unat x div 2 ^ 30) mod 512 = unat x div 2 ^ 30" by (simp add: mod_add_eq [symmetric])
  ultimately show "level_index 1 (x + KERNEL_VADDR) = unat x div 2 ^ 30" by (simp add: level_index_nat u)
  have "(unat x + 0x7FFFFF80000 * 2 ^ 21) div 2 ^ 21 = 0x7FFFFF80000 + unat x div 2 ^ 21" by (subst div_mult_self1) auto
  moreover have "(0x7FFFFF80000 + unat x div 2 ^ 21) mod 512 = unat x div 2 ^ 21 mod 512" by (simp add: mod_add_eq [symmetric])
  ultimately show "level_index 2 (x + KERNEL_VADDR) = unat x div 2 ^ 21 mod 512" by (simp add: level_index_nat u)
qed

lemma unat_block: "k * 2 ^ s < 2 ^ 64 \<Longrightarrow> s < 64 \<Longrightarrow> unat (of_nat k * 2 ^ s :: u64) = k * 2 ^ s"
  using unat_of_nat_small [of "k * 2 ^ s"] by simp

lemma fill_l2:
  assumes "k0 + n \<le> 512" "0 < n" and ix: "\<And>k. k < 512 \<Longrightarrow> index (of_nat (k * 2 ^ 21)) = k"
  shows "fill_blocks index attrs SIZE_2M (of_nat ((k0 + n) * 2 ^ 21)) (of_nat (k0 * 2 ^ 21)) t =
    Some (of_nat ((k0 + n) * 2 ^ 21), \<lambda>j. if k0 \<le> j \<and> j < k0 + n then (or) (of_nat (j * 2 ^ 21)) attrs else t j)"
proof -
  let ?v = "of_nat (k0 * 2 ^ 21) :: u64"
  have sz: "SIZE_2M = of_nat (2 ^ 21)" "unat SIZE_2M = 2 ^ 21" by (simp_all add: SIZE_2M_def)
  have w: "?v + of_nat k * SIZE_2M = of_nat ((k0 + k) * 2 ^ 21)" for k
    by (simp only: sz(1) of_nat_mult [symmetric] of_nat_add [symmetric] distrib_right)
  have u: "unat (of_nat (k * 2 ^ 21) :: u64) = k * 2 ^ 21" if "k \<le> 512" for k
    using that by (intro unat_of_nat_small) simp
  have "(k0 + n) * (2 :: nat) ^ 21 = k0 * 2 ^ 21 + n * 2 ^ 21" by (rule distrib_right)
  moreover from this have "k0 * 2 ^ 21 + n * (2 :: nat) ^ 21 \<le> 512 * 2 ^ 21" using mult_right_mono [OF assms(1), of "2 ^ 21"] by linarith
  moreover have "k0 * 2 ^ 21 + (n - 1) * 2 ^ 21 < (k0 + n) * (2 :: nat) ^ 21" using assms(2) by (cases n) simp_all
  ultimately have "fill_blocks index attrs SIZE_2M (of_nat ((k0 + n) * 2 ^ 21)) ?v t = Some (?v + of_nat n * SIZE_2M,
     \<lambda>j. if k0 \<le> j \<and> j < k0 + n then (or) (?v + of_nat (j - k0) * SIZE_2M) attrs else t j)"
    using u [of k0] u [of "k0 + n"] assms(1,2) sz(2) ix by (intro fill_blocks_run) (simp_all only: w, simp_all)
  then show ?thesis unfolding w by (auto simp: fun_eq_iff)
qed

lemma l2_index:
  assumes "k < 512"
  shows "BOOT_L2_INDEX (of_nat (k * 2 ^ 21) + KERNEL_VADDR) = k" "BOOT_L2_INDEX (of_nat (k * 2 ^ 21)) = k"
proof -
  have u: "unat (of_nat (k * 2 ^ 21) :: u64) = k * 2 ^ 21" using assms by (intro unat_of_nat_small) simp
  show "BOOT_L2_INDEX (of_nat (k * 2 ^ 21) + KERNEL_VADDR) = k"
    using kernel_index(3) [of "of_nat (k * 2 ^ 21)"] u assms by (simp only: boot_index(3)) simp
  show "BOOT_L2_INDEX (of_nat (k * 2 ^ 21)) = k" unfolding boot_index level_index_nat u using assms by simp
qed

definition boot_l1 :: "boot_layout \<Rightarrow> nat \<Rightarrow> u64" where
  "boot_l1 lay j = (if 1 \<le> j \<and> j < 4 then (or) (of_nat (j * 2 ^ 30)) local_block
     else if j = 0 then boot_table_entry (boot_ttbr1_l2_at lay) else 0)"

definition boot_l2 :: "nat \<Rightarrow> u64" where
  "boot_l2 j = (if j < 504 then (or) (of_nat (j * 2 ^ 21)) normal_block
     else if j < 512 then (or) (of_nat (j * 2 ^ 21)) device_block else 0)"

lemma fill_l1:
  "fill_blocks (\<lambda>v. BOOT_L1_INDEX (v + KERNEL_VADDR)) attrs SIZE_1G PHYSMEM_END (of_nat (512 * 2 ^ 21)) t =
    Some (of_nat (4 * 2 ^ 30), \<lambda>j. if 1 \<le> j \<and> j < 4 then (or) (of_nat (j * 2 ^ 30)) attrs else t j)"
proof -
  have w: "of_nat (512 * 2 ^ 21) + of_nat k * SIZE_1G = (of_nat ((1 + k) * 2 ^ 30) :: u64)" for k
    by (simp add: SIZE_1G_def algebra_simps)
  have "fill_blocks (\<lambda>v. BOOT_L1_INDEX (v + KERNEL_VADDR)) attrs SIZE_1G PHYSMEM_END (of_nat (512 * 2 ^ 21)) t =
    Some (of_nat (512 * 2 ^ 21) + of_nat 3 * SIZE_1G,
      \<lambda>j. if 1 \<le> j \<and> j < 1 + 3 then (or) (of_nat (512 * 2 ^ 21) + of_nat (j - 1) * SIZE_1G) attrs else t j)"
  proof (rule fill_blocks_run)
    fix k :: nat assume k: "k < 3"
    then have "unat (of_nat ((1 + k) * 2 ^ 30) :: u64) = (1 + k) * 2 ^ 30" by (intro unat_of_nat_small) simp
    then show "BOOT_L1_INDEX (of_nat (512 * 2 ^ 21) + of_nat k * SIZE_1G + KERNEL_VADDR) = 1 + k"
      using kernel_index(2) [of "of_nat ((1 + k) * 2 ^ 30)"] k unfolding w boot_index by (simp only:) simp
  qed (simp_all add: SIZE_1G_def PHYSMEM_END_def)
  then show ?thesis unfolding w by (auto simp: fun_eq_iff)
qed

lemma init_ttbr1_run:
  assumes "boot_ttbr1_l0 bt = (\<lambda>_. 0)" "boot_ttbr1_l1 bt = (\<lambda>_. 0)" "boot_ttbr1_l2 bt = (\<lambda>_. 0)"
  shows "init_ttbr1 lay bt = Some (bt\<lparr>boot_ttbr1_l0 := (\<lambda>_. 0)(510 := boot_table_entry (boot_ttbr1_l1_at lay)),
    boot_ttbr1_l1 := boot_l1 lay, boot_ttbr1_l2 := boot_l2\<rparr>)"
proof -
  have c: "PHYSMEM_START = of_nat (0 * 2 ^ 21)" "PERIPHERAL_BASE = of_nat ((0 + 504) * 2 ^ 21)"
      "SHARED_PERIPHERAL_END = of_nat ((504 + 8) * 2 ^ 21)"
    by (simp_all add: PHYSMEM_START_def PERIPHERAL_BASE_def SHARED_PERIPHERAL_END_def)
  have i: "BOOT_L0_INDEX (PHYSMEM_START + KERNEL_VADDR) = 510" "BOOT_L1_INDEX (PHYSMEM_START + KERNEL_VADDR) = 0"
    using kernel_index(1,2) [of PHYSMEM_START] by (simp_all add: boot_index PHYSMEM_START_def)
  let ?ix = "\<lambda>v. BOOT_L2_INDEX (v + KERNEL_VADDR)"
  have 1: "fill_blocks ?ix normal_block SIZE_2M PERIPHERAL_BASE PHYSMEM_START t =
      Some (of_nat (504 * 2 ^ 21), \<lambda>j. if j < 504 then (or) (of_nat (j * 2 ^ 21)) normal_block else t j)" for t
    using fill_l2 [of 0 504 ?ix normal_block t] l2_index(1) unfolding c by simp
  have 2: "fill_blocks ?ix device_block SIZE_2M SHARED_PERIPHERAL_END (of_nat (504 * 2 ^ 21)) t =
      Some (of_nat (512 * 2 ^ 21), \<lambda>j. if 504 \<le> j \<and> j < 512 then (or) (of_nat (j * 2 ^ 21)) device_block else t j)" for t
    using fill_l2 [of 504 8 ?ix device_block t] l2_index(1) unfolding c by simp
  have "(\<lambda>j. if 504 \<le> j \<and> j < 512 then (or) (of_nat (j * 2 ^ 21)) device_block
      else if j < 504 then (or) (of_nat (j * 2 ^ 21)) normal_block else 0) = boot_l2"
    by (auto simp: boot_l2_def fun_eq_iff)
  moreover have "(\<lambda>j. if 1 \<le> j \<and> j < 4 then (or) (of_nat (j * 2 ^ 30)) local_block
      else ((\<lambda>_. 0)(0 := boot_table_entry (boot_ttbr1_l2_at lay))) j) = boot_l1 lay"
    by (auto simp: boot_l1_def fun_eq_iff)
  ultimately show ?thesis
    unfolding init_ttbr1_def Let_def i assms 1 Option.bind.simps prod.case 2 fill_l1 by simp
qed

lemma init_ttbr0_run:
  "init_ttbr0 lay bt = Some (bt\<lparr>
    boot_ttbr0_l0 := (boot_ttbr0_l0 bt)(0 := boot_table_entry (boot_ttbr0_l1_at lay)),
    boot_ttbr0_l1 := (boot_ttbr0_l1 bt)(0 := boot_table_entry (boot_ttbr0_l2_at lay)),
    boot_ttbr0_l2 := (\<lambda>j. if j < 1 then (or) (of_nat (j * 2 ^ 21)) normal_block
       else if j < 512 then (or) (of_nat (j * 2 ^ 21)) device_block else boot_ttbr0_l2 bt j)\<rparr>)"
proof -
  have c: "PHYSMEM_START = of_nat (0 * 2 ^ 21)" "SIZE_2M = of_nat ((0 + 1) * 2 ^ 21)"
      "SHARED_PERIPHERAL_END = of_nat ((1 + 511) * 2 ^ 21)"
    by (simp_all add: PHYSMEM_START_def SIZE_2M_def SHARED_PERIPHERAL_END_def)
  have 1: "fill_blocks BOOT_L2_INDEX normal_block SIZE_2M SIZE_2M PHYSMEM_START t =
      Some (of_nat (1 * 2 ^ 21), \<lambda>j. if j < 1 then (or) (of_nat (j * 2 ^ 21)) normal_block else t j)" for t
    using fill_l2 [of 0 1 BOOT_L2_INDEX normal_block t] l2_index(2) c by simp
  have 2: "fill_blocks BOOT_L2_INDEX device_block SIZE_2M SHARED_PERIPHERAL_END (of_nat (1 * 2 ^ 21)) t =
      Some (of_nat (512 * 2 ^ 21), \<lambda>j. if 1 \<le> j \<and> j < 512 then (or) (of_nat (j * 2 ^ 21)) device_block else t j)" for t
    using fill_l2 [of 1 511 BOOT_L2_INDEX device_block t] l2_index(2) c(3) by simp
  have "(\<lambda>j. if 1 \<le> j \<and> j < 512 then (or) (of_nat (j * 2 ^ 21)) device_block
      else if j < 1 then (or) (of_nat (j * 2 ^ 21)) normal_block else boot_ttbr0_l2 bt j) =
    (\<lambda>j. if j < 1 then (or) (of_nat (j * 2 ^ 21)) normal_block
      else if j < 512 then (or) (of_nat (j * 2 ^ 21)) device_block else boot_ttbr0_l2 bt j)"
    by (auto simp: fun_eq_iff)
  moreover have "BOOT_L0_INDEX PHYSMEM_START = 0" "BOOT_L1_INDEX PHYSMEM_START = 0"
    by (simp_all add: BOOT_L0_INDEX_def BOOT_L1_INDEX_def PHYSMEM_START_def)
  ultimately show ?thesis
    unfolding init_ttbr0_def Let_def 1 Option.bind.simps prod.case 2 by simp
qed

section \<open>Entries\<close>

lemma aligned_low_bits:
  assumes "2 ^ k dvd unat (x :: u64)" "n < k"
  shows "\<not> bit x n"
proof -
  have "take_bit k x = 0" using assms(1) by (simp add: word_unat_eq_iff unat_take_bit mod_eq_0_iff_dvd)
  then have "\<not> bit (take_bit k x) n" by simp
  then show ?thesis using assms(2) by (simp add: bit_simps)
qed

lemma entry_kind_bits: "IS_PTE_INVALID e \<longleftrightarrow> \<not> bit e 0" "IS_PTE_TABLE e \<longleftrightarrow> bit e 1"
  by (simp_all add: pte_kind get_field_bit del: bit_0)

lemma or_attrs_paddr:
  assumes "4096 dvd unat pa" "unat pa < 2 ^ 48" "get_field 12 36 attrs = 0"
  shows "GET_PADDR_IN_PTE ((or) pa attrs) = pa"
proof -
  have "get_field 12 36 ((or) pa attrs) = take_bit 36 (drop_bit 12 pa)"
    using assms(3) by (simp add: get_field_def)
  then show ?thesis using paddr_of_entry [OF assms(1,2)] by (simp add: GET_PADDR_IN_PTE_def)
qed

lemma block_attrs:
  "attrs \<in> {normal_block, device_block, local_block} \<Longrightarrow> get_field 12 36 attrs = 0 \<and> bit attrs 0 \<and> \<not> bit attrs 1"
  by (auto simp: normal_block_def device_block_def local_block_def BOOT_UXN_def BOOT_ACCESSED_def BOOT_NG_def
      BOOT_INNER_SHARABLE_def BOOT_NORMAL_MEMORY_def BOOT_DEVICE_MEMORY_def BOOT_IS_VALID_def get_field_def)

lemma block_entry:
  assumes "attrs \<in> {normal_block, device_block, local_block}" "4096 dvd unat pa" "unat pa < 2 ^ 48"
  shows "\<not> IS_PTE_INVALID ((or) pa attrs)" "\<not> IS_PTE_TABLE ((or) pa attrs)" "GET_PADDR_IN_PTE ((or) pa attrs) = pa"
proof -
  have "(2 :: nat) ^ 12 dvd unat pa" using assms(2) by simp
  then have "\<not> bit pa 1" by (rule aligned_low_bits) simp
  then show "\<not> IS_PTE_INVALID ((or) pa attrs)" "\<not> IS_PTE_TABLE ((or) pa attrs)" "GET_PADDR_IN_PTE ((or) pa attrs) = pa"
    using block_attrs [OF assms(1)] or_attrs_paddr [OF assms(2,3)] by (simp_all add: entry_kind_bits bit_or_iff del: bit_0)
qed

lemma boot_table_entry_kind:
  assumes "4096 dvd unat pa" "unat pa < 2 ^ 48"
  shows "\<not> IS_PTE_INVALID (boot_table_entry pa)" "IS_PTE_TABLE (boot_table_entry pa)"
    "GET_PADDR_IN_PTE (boot_table_entry pa) = pa"
proof -
  have e: "boot_table_entry pa = (or) pa 0x803"
    by (simp add: boot_table_entry_def BOOT_IS_TABLE_def BOOT_IS_VALID_def BOOT_NG_def or.assoc)
  show "GET_PADDR_IN_PTE (boot_table_entry pa) = pa" unfolding e by (rule or_attrs_paddr [OF assms]) (simp add: get_field_def)
  show "\<not> IS_PTE_INVALID (boot_table_entry pa)" "IS_PTE_TABLE (boot_table_entry pa)"
    unfolding e entry_kind_bits by (simp_all add: bit_or_iff del: bit_0)
qed

section \<open>The kernel page table at boot\<close>

text \<open>What the linker guarantees: the tables are aligned, distinct and in physical memory.\<close>

definition layout_ok :: "boot_layout \<Rightarrow> bool" where
  "layout_ok lay \<longleftrightarrow> distinct [boot_ttbr1_l0_at lay, boot_ttbr1_l1_at lay, boot_ttbr1_l2_at lay] \<and>
     (\<forall>a \<in> {boot_ttbr1_l0_at lay, boot_ttbr1_l1_at lay, boot_ttbr1_l2_at lay}. 4096 dvd unat a \<and> unat a < 2 ^ 40)"

text \<open>The memory holds the kernel tables at their place.\<close>

definition boot_installed :: "boot_layout \<Rightarrow> boot_tables \<Rightarrow> vmem \<Rightarrow> bool" where
  "boot_installed lay bt st \<longleftrightarrow>
     (\<forall>(a, t) \<in> {(boot_ttbr1_l0_at lay, boot_ttbr1_l0 bt), (boot_ttbr1_l1_at lay, boot_ttbr1_l1 bt), (boot_ttbr1_l2_at lay, boot_ttbr1_l2 bt)}.
        static_ptp st (phys_to_virt a) \<and> ptps st (phys_to_virt a) = t)"

definition boot_tree :: "boot_layout \<Rightarrow> tree" where
  "boot_tree lay = [[] \<mapsto> phys_to_virt (boot_ttbr1_l0_at lay), [510] \<mapsto> phys_to_virt (boot_ttbr1_l1_at lay),
     [510, 0] \<mapsto> phys_to_virt (boot_ttbr1_l2_at lay)]"

lemma init_kernel_pt_run:
  assumes "boot_ttbr1_l0 bt = (\<lambda>_. 0)" "boot_ttbr1_l1 bt = (\<lambda>_. 0)" "boot_ttbr1_l2 bt = (\<lambda>_. 0)"
  shows "\<exists>bt'. init_kernel_pt lay bt = Some bt' \<and> boot_ttbr1_l0 bt' = (\<lambda>_. 0)(510 := boot_table_entry (boot_ttbr1_l1_at lay)) \<and>
    boot_ttbr1_l1 bt' = boot_l1 lay \<and> boot_ttbr1_l2 bt' = boot_l2"
  using init_ttbr1_run [OF assms, of lay] by (simp add: init_kernel_pt_def init_ttbr0_run)

lemma phys_to_virt_inj: "phys_to_virt a = phys_to_virt b \<longleftrightarrow> a = b"
  by (simp add: phys_to_virt_def)

lemma unat_phys_to_virt: "unat a < 2 ^ 40 \<Longrightarrow> unat (phys_to_virt a) = unat a + 0xFFFFFF0000000000"
  using unat_kernel_vaddr [of a] by (simp add: phys_to_virt_def KBASE_def KERNEL_VADDR_def)

lemma unat_block_addr: "j < 2 ^ 10 \<Longrightarrow> s \<le> 30 \<Longrightarrow> unat (of_nat (j * 2 ^ s) :: u64) = j * 2 ^ s \<and> j * 2 ^ s < 2 ^ 48"
proof -
  assume "j < 2 ^ 10" "s \<le> 30"
  then have "j * 2 ^ s < 2 ^ 10 * 2 ^ 30" by (intro mult_less_le_imp_less power_increasing) simp_all
  then have "j * 2 ^ s < 2 ^ 48" by simp
  then show ?thesis using unat_of_nat_small [of "j * 2 ^ s"] by simp
qed

lemma boot_blocks:
  "1 \<le> j \<Longrightarrow> j < 4 \<Longrightarrow> \<not> IS_PTE_INVALID (boot_l1 lay j) \<and> \<not> IS_PTE_TABLE (boot_l1 lay j) \<and>
     GET_PADDR_IN_PTE (boot_l1 lay j) = of_nat (j * 2 ^ 30)"
  "j < 512 \<Longrightarrow> \<not> IS_PTE_INVALID (boot_l2 j) \<and> \<not> IS_PTE_TABLE (boot_l2 j) \<and> GET_PADDR_IN_PTE (boot_l2 j) = of_nat (j * 2 ^ 21)"
proof -
  assume j: "1 \<le> j" "j < 4"
  then have u: "unat (of_nat (j * 2 ^ 30) :: u64) = j * 2 ^ 30 \<and> j * 2 ^ 30 < 2 ^ 48" by (intro unat_block_addr) simp_all
  have "(4096 :: nat) dvd j * 2 ^ 30" by (rule dvd_mult) simp
  then have "4096 dvd unat (of_nat (j * 2 ^ 30) :: u64)" "unat (of_nat (j * 2 ^ 30) :: u64) < 2 ^ 48" using u by (simp_all only:)
  from block_entry [OF _ this, of local_block] show "\<not> IS_PTE_INVALID (boot_l1 lay j) \<and> \<not> IS_PTE_TABLE (boot_l1 lay j) \<and>
     GET_PADDR_IN_PTE (boot_l1 lay j) = of_nat (j * 2 ^ 30)" using j by (simp add: boot_l1_def)
next
  assume j: "j < 512"
  then have u: "unat (of_nat (j * 2 ^ 21) :: u64) = j * 2 ^ 21 \<and> j * 2 ^ 21 < 2 ^ 48" by (intro unat_block_addr) simp_all
  have "(4096 :: nat) dvd j * 2 ^ 21" by (rule dvd_mult) simp
  then have "4096 dvd unat (of_nat (j * 2 ^ 21) :: u64)" "unat (of_nat (j * 2 ^ 21) :: u64) < 2 ^ 48" using u by (simp_all only:)
  from block_entry [OF _ this, of normal_block] block_entry [OF _ this, of device_block]
  show "\<not> IS_PTE_INVALID (boot_l2 j) \<and> \<not> IS_PTE_TABLE (boot_l2 j) \<and> GET_PADDR_IN_PTE (boot_l2 j) = of_nat (j * 2 ^ 21)"
    using j by (simp add: boot_l2_def)
qed

lemma boot_pt_ok:
  assumes lay: "layout_ok lay" and bt: "boot_ttbr1_l0 bt = (\<lambda>_. 0)(510 := boot_table_entry (boot_ttbr1_l1_at lay))"
      "boot_ttbr1_l1 bt = boot_l1 lay" "boot_ttbr1_l2 bt = boot_l2" and inst: "boot_installed lay bt st"
    and heap: "kmem_rep (heap st) A" "KBASE \<le> start_addr (region (heap st))"
      "\<forall>t. static_ptp st t \<longrightarrow> virt_to_page (region (heap st)) t = None"
  shows "pt_ok st (phys_to_virt (boot_ttbr1_l0_at lay)) (boot_tree lay) A"
proof -
  let ?a0 = "boot_ttbr1_l0_at lay" and ?a1 = "boot_ttbr1_l1_at lay" and ?a2 = "boot_ttbr1_l2_at lay" and ?tab = "boot_tree lay"
  have d: "?a0 \<noteq> ?a1" "?a0 \<noteq> ?a2" "?a1 \<noteq> ?a2" and al: "\<And>a. a \<in> {?a0, ?a1, ?a2} \<Longrightarrow> 4096 dvd unat a \<and> unat a < 2 ^ 40"
    using lay by (auto simp: layout_ok_def)
  have st: "\<And>a. a \<in> {?a0, ?a1, ?a2} \<Longrightarrow> static_ptp st (phys_to_virt a)" and
    c: "ptps st (phys_to_virt ?a0) = boot_ttbr1_l0 bt" "ptps st (phys_to_virt ?a1) = boot_l1 lay" "ptps st (phys_to_virt ?a2) = boot_l2"
    using inst bt by (auto simp: boot_installed_def)
  have nz: "phys_to_virt a \<noteq> NULL" if "a \<in> {?a0, ?a1, ?a2}" for a using unat_phys_to_virt [of a] al [OF that] by auto
  have dom: "(p = [] \<and> t = phys_to_virt ?a0) \<or> (p = [510] \<and> t = phys_to_virt ?a1) \<or> (p = [510, 0] \<and> t = phys_to_virt ?a2)"
    if "?tab p = Some t" for p t
    using that by (auto simp: boot_tree_def split: if_splits)
  have te: "points_to l (boot_table_entry a) (Some (phys_to_virt a))" if "a \<in> {?a0, ?a1, ?a2}" for l a
    using boot_table_entry_kind [of a] al [OF that] by (simp add: points_to_def)
  have "points_to (length p) (ptps st t i) (?tab (p @ [i]))" if p: "?tab p = Some t" "length p < 3" "i < 512" for p t i
    using dom [OF p(1)]
  proof (elim disjE conjE)
    assume "p = []" "t = phys_to_virt ?a0"
    then show ?thesis using c(1) bt(1) te [of ?a1 0] by (auto simp: boot_tree_def points_to_def)
  next
    assume 1: "p = [510]" "t = phys_to_virt ?a1"
    consider "i = 0" | "1 \<le> i" "i < 4" | "4 \<le> i" by linarith
    then show ?thesis
    proof cases
      case 1
      then show ?thesis using \<open>p = [510]\<close> \<open>t = phys_to_virt ?a1\<close> c(2) te [of ?a2 1] by (simp add: boot_tree_def boot_l1_def)
    next
      case 2
      then show ?thesis using 1 c(2) boot_blocks(1) [of i lay] by (simp add: boot_tree_def points_to_def)
    next
      case 3
      then show ?thesis using 1 c(2) by (simp add: boot_tree_def points_to_def boot_l1_def)
    qed
  next
    assume "p = [510, 0]" "t = phys_to_virt ?a2"
    then show ?thesis using c(3) boot_blocks(2) [OF p(3)] by (simp add: boot_tree_def points_to_def)
  qed
  moreover have "length p \<le> 3 \<and> t \<noteq> NULL \<and> ((t, 4096) \<in> A \<or> static_ptp st t)" if "?tab p = Some t" for p t
    using dom [OF that] nz st by auto
  moreover have "p = q" if "?tab p = Some t" "?tab q = Some t" for p q t
    using dom [OF that(1)] dom [OF that(2)] d by (auto simp: phys_to_virt_inj)
  moreover have "?tab (p @ [i]) = None" if "?tab p = None" for p i
    using that by (auto simp: boot_tree_def split: if_splits)
  moreover have "?tab [] = Some (phys_to_virt ?a0)" by (simp add: boot_tree_def)
  ultimately show ?thesis unfolding pt_ok_def using heap by blast
qed

end
