(* ===== verification/BootPt_Props.thy ===== *)
theory BootPt_Props
  imports BootPt
begin

text \<open>
  The kernel's view of memory after boot: the direct map that \<open>phys_to_virt\<close> and \<open>virt_to_phys\<close>
  rely on is what the page table says, and mapping the kernel stack keeps it.
\<close>

section \<open>The direct map\<close>

lemma unat_VA_OFFSET: "unat (GET_VA_OFFSET l va) = unat va mod 2 ^ ((3 - l) * 9 + 12)"
  unfolding GET_VA_OFFSET_def by (simp only: take_bit_eq_mask [symmetric] unat_take_bit)

lemma direct_offset:
  assumes "unat pa < 2 ^ 32"
  shows "unat (GET_VA_OFFSET 1 (phys_to_virt pa)) = unat pa mod 2 ^ 30" "unat (GET_VA_OFFSET 2 (phys_to_virt pa)) = unat pa mod 2 ^ 21"
proof -
  have u: "unat (phys_to_virt pa) = unat pa + 0xFFFFFF0000000000" using assms by (intro unat_phys_to_virt) simp
  have "(unat pa + 0x3FFFFFC00 * 2 ^ 30) mod 2 ^ 30 = unat pa mod 2 ^ 30" "(unat pa + 0x7FFFFF80000 * 2 ^ 21) mod 2 ^ 21 = unat pa mod 2 ^ 21"
    by (simp_all only: mod_mult_self1)
  then show "unat (GET_VA_OFFSET 1 (phys_to_virt pa)) = unat pa mod 2 ^ 30" "unat (GET_VA_OFFSET 2 (phys_to_virt pa)) = unat pa mod 2 ^ 21"
    by (simp_all add: unat_VA_OFFSET u)
qed

lemma block_plus_offset:
  assumes "unat pa < 2 ^ 32" "s \<le> 30" "unat off = unat pa mod 2 ^ s"
  shows "of_nat (unat pa div 2 ^ s * 2 ^ s) + off = (pa :: u64)"
proof -
  have le: "unat pa div 2 ^ s * 2 ^ s \<le> unat pa" by (rule div_times_less_eq_dividend)
  define x where "x = (of_nat (unat pa div 2 ^ s * 2 ^ s) :: u64)"
  have "unat x = unat pa div 2 ^ s * 2 ^ s"
    unfolding x_def using assms(1) by (intro unat_of_nat_small le_less_trans [OF le]) simp
  then have s: "unat x + unat off = unat pa" using assms(3) div_mult_mod_eq [of "unat pa" "2 ^ s"] by linarith
  then have "unat (x + off) = unat pa" using assms(1) by (subst unat_add_small) simp_all
  then show ?thesis unfolding x_def by (simp only: word_unat_eq_iff)
qed

lemma direct_paths:
  assumes "unat pa < 2 ^ 32"
  defines "n \<equiv> vpn (phys_to_virt pa)"
  shows "path 1 n = [510]" "path 2 n = [510, unat pa div 2 ^ 30]" "path 3 n = [510, unat pa div 2 ^ 30, unat pa div 2 ^ 21 mod 512]"
    "ix 1 n = unat pa div 2 ^ 30" "ix 2 n = unat pa div 2 ^ 21 mod 512"
proof -
  have "phys_to_virt pa = pa + KERNEL_VADDR" by (simp add: phys_to_virt_def KBASE_def KERNEL_VADDR_def)
  moreover have "ix l n = level_index l (phys_to_virt pa)" if "l \<le> 3" for l unfolding n_def by (rule level_index_vpn [OF that, symmetric])
  ultimately have i: "ix 0 n = 510" "ix 1 n = unat pa div 2 ^ 30" "ix 2 n = unat pa div 2 ^ 21 mod 512"
    using kernel_index [OF assms(1)] by simp_all
  then show "path 1 n = [510]" "path 2 n = [510, unat pa div 2 ^ 30]" "path 3 n = [510, unat pa div 2 ^ 30, unat pa div 2 ^ 21 mod 512]"
    "ix 1 n = unat pa div 2 ^ 30" "ix 2 n = unat pa div 2 ^ 21 mod 512"
    unfolding path_3 by simp_all
qed

lemma boot_query:
  assumes ok: "pt_ok st (phys_to_virt (boot_ttbr1_l0_at lay)) (boot_tree lay) A" and inst: "boot_installed lay bt st"
    and bt: "boot_ttbr1_l1 bt = boot_l1 lay" "boot_ttbr1_l2 bt = boot_l2" and pa: "unat pa < 2 ^ 32"
  shows "\<exists>pte. query_in_pgtbl (phys_to_virt (boot_ttbr1_l0_at lay)) (phys_to_virt pa) st = Inr (0, Some (pa, pte))"
proof -
  let ?n = "vpn (phys_to_virt pa)" and ?t1 = "phys_to_virt (boot_ttbr1_l1_at lay)" and ?t2 = "phys_to_virt (boot_ttbr1_l2_at lay)"
  note p = direct_paths [OF pa]
  have c: "ptps st ?t1 = boot_l1 lay" "ptps st ?t2 = boot_l2" using inst bt by (auto simp: boot_installed_def)
  show ?thesis
  proof (cases "unat pa < 2 ^ 30")
    case True
    let ?j = "unat pa div 2 ^ 21"
    have j: "?j < 512" using True by (intro less_mult_imp_div_less) simp
    have "lookup st (boot_tree lay) ?n = leaf_of (boot_l2 ?j) 2 (?t2, ?j)"
      using True j c(2) p unfolding lookup_def by (simp add: boot_tree_def)
    moreover have "GET_PADDR_IN_PTE (boot_l2 ?j) + GET_VA_OFFSET 2 (phys_to_virt pa) = pa"
      using boot_blocks(2) [OF j] block_plus_offset [OF pa _ direct_offset(2) [OF pa]] by simp
    ultimately show ?thesis using query_lookup [OF ok, of "phys_to_virt pa"] boot_blocks(2) [OF j] by (simp add: query_result_def leaf_of_def)
  next
    case False
    let ?j = "unat pa div 2 ^ 30"
    have j: "1 \<le> ?j" "?j < 4" using False pa div_le_mono [of "2 ^ 30" "unat pa" "2 ^ 30"] by (auto intro: less_mult_imp_div_less)
    have "lookup st (boot_tree lay) ?n = leaf_of (boot_l1 lay ?j) 1 (?t1, ?j)"
      using j c(1) p unfolding lookup_def by (simp add: boot_tree_def)
    moreover have "GET_PADDR_IN_PTE (boot_l1 lay ?j) + GET_VA_OFFSET 1 (phys_to_virt pa) = pa"
      using boot_blocks(1) [OF j, of lay] block_plus_offset [OF pa _ direct_offset(1) [OF pa]] by simp
    ultimately show ?thesis using query_lookup [OF ok, of "phys_to_virt pa"] boot_blocks(1) [OF j, of lay] by (simp add: query_result_def leaf_of_def)
  qed
qed

section \<open>Kernel memory\<close>

lemma static_outside:
  assumes "\<forall>t. static_ptp st t \<longrightarrow> unat t < unat (start_addr m)"
  shows "\<forall>t. static_ptp st t \<longrightarrow> virt_to_page m t = None"
  using assms by (auto simp: virt_to_page_def word_less_nat_alt)

lemma boot_heap_start:
  assumes img: "unat img_end \<le> 0x3E800000" and nodes: "dom (snodes k) = slab_cells"
  obtains k' where "mm_init img_end k = Inr k'" "kmem_rep k' {}" "KBASE \<le> start_addr (region k')" "1024 \<le> free_pages_of k'"
    "unat img_end + unat KBASE \<le> unat (start_addr (region k'))"
proof -
  obtain k' where k': "mm_init img_end k = Inr k'" "kmem_rep k' {}" "KBASE \<le> start_addr (region k')" "1024 \<le> free_pages_of k'"
    by (rule boot_heap [OF assms])
  obtain m where m: "init_buddy img_end = Inr m" "page_arrry m = phys_to_virt (ROUND_UP img_end PAGE_SIZE)"
      "unat (start_addr m) = unat (page_arrry m) + array_pages (avail_pages img_end) * 4096"
    by (rule init_buddy_correct [OF img]) blast
  have r: "region k' = m"
    using k'(1) m(1) init_containers_region [of _ "k\<lparr>region := m\<rparr>" k'] by (simp add: mm_init_def init_slab_def)
  have ru: "unat (ROUND_UP img_end PAGE_SIZE) = (unat img_end + 4095) div 4096 * 4096"
    using unat_ROUND_UP [of 12 img_end] img by (simp add: PAGE_SIZE_eq)
  have "unat img_end \<le> (unat img_end + 4095) div 4096 * 4096" using div_mult_mod_eq [of "unat img_end + 4095" 4096] mod_less_divisor [of 4096 "unat img_end + 4095"] by linarith
  moreover have "unat (ROUND_UP img_end PAGE_SIZE) < 2 ^ 40" using ru img div_times_less_eq_dividend [of "unat img_end + 4095" 4096] by simp
  then have "unat (page_arrry m) = unat (ROUND_UP img_end PAGE_SIZE) + unat KBASE"
    using m(2) unat_phys_to_virt by (simp add: KBASE_def)
  ultimately have "unat img_end + unat KBASE \<le> unat (start_addr m)" using m(3) ru by linarith
  then show ?thesis using that k' r by simp
qed

text \<open>The stack page lies under an entry of the root that the boot code leaves invalid.\<close>

lemma stack_page: "vpn (KSTACKx_ADDR 0) = 0xFFFF00000" "4096 dvd unat (KSTACKx_ADDR 0)" "page_cnt CPU_STACK_SIZE = 1" "l3_tables 0xFFFF00000 1 = 1"
  by (simp_all add: KSTACKx_ADDR_def KSTACK_BASE_def CPU_STACK_SIZE_def vpn_def page_cnt_def l3_tables_def)

lemma stack_no_block: "no_block st (boot_tree lay) 0xFFFF00000"
proof -
  have "path 1 0xFFFF00000 = [511]" by (simp add: path_def ix_def)
  then show ?thesis by (simp add: no_block_def lookup_def boot_tree_def del: path_simps)
qed

lemma direct_not_stack: "unat pa < 2 ^ 32 \<Longrightarrow> vpn (phys_to_virt pa) \<noteq> 0xFFFF00000"
  using direct_paths(1) [of pa] by (auto simp: path_def ix_def)

section \<open>Properties\<close>


text \<open>The memory image of the witnesses: the kernel tables in the first pages, nothing else.\<close>

definition example_layout :: boot_layout where
  "example_layout = \<lparr>boot_ttbr0_l0_at = 0x80000, boot_ttbr0_l1_at = 0x81000, boot_ttbr0_l2_at = 0x82000,
     boot_ttbr1_l0_at = 0x83000, boot_ttbr1_l1_at = 0x84000, boot_ttbr1_l2_at = 0x85000\<rparr>"

definition cleared_tables :: boot_tables where
  "cleared_tables = \<lparr>boot_ttbr0_l0 = (\<lambda>_. 0), boot_ttbr0_l1 = (\<lambda>_. 0), boot_ttbr0_l2 = (\<lambda>_. 0),
     boot_ttbr1_l0 = (\<lambda>_. 0), boot_ttbr1_l1 = (\<lambda>_. 0), boot_ttbr1_l2 = (\<lambda>_. 0)\<rparr>"

definition example_vmem :: "boot_tables \<Rightarrow> vmem" where
  "example_vmem bt = \<lparr>heap = raw_memory,
     static_ptp = (\<lambda>t. t \<in> {phys_to_virt 0x83000, phys_to_virt 0x84000, phys_to_virt 0x85000}),
     ptps = (\<lambda>_. boot_ttbr1_l0 bt)(phys_to_virt 0x84000 := boot_ttbr1_l1 bt, phys_to_virt 0x85000 := boot_ttbr1_l2 bt),
     ttbr0_el1 = 0\<rparr>"

lemma example_layout_ok: "layout_ok example_layout"
  by (simp add: layout_ok_def example_layout_def)

lemma example_installed: "boot_installed example_layout bt (example_vmem bt\<lparr>heap := k\<rparr>)"
  by (simp add: boot_installed_def example_layout_def example_vmem_def phys_to_virt_def KBASE_def)

lemma example_static:
  "static_ptp (example_vmem bt\<lparr>heap := k\<rparr>) t \<Longrightarrow> unat t < 0x100000 + unat KBASE"
  by (auto simp: example_vmem_def phys_to_virt_def KBASE_def)


lemma main_mm_correct:
  assumes "layout_ok lay" "unat img_end \<le> 0x3E800000" "dom (snodes (heap st)) = slab_cells"
    "boot_ttbr1_l0 bt = (\<lambda>_. 0)" "boot_ttbr1_l1 bt = (\<lambda>_. 0)" "boot_ttbr1_l2 bt = (\<lambda>_. 0)"
    "init_kernel_pt lay bt = Some bt'" "boot_installed lay bt' st"
    "\<forall>t. static_ptp st t \<longrightarrow> unat t < unat img_end + unat KBASE" "unat (cpu_stack0 - KBASE) + 4096 \<le> 2 ^ 48"
  shows "\<exists>st'. main_mm lay img_end cpu_stack0 st = Inr (0, st') \<and>
    (\<forall>off < 4096. \<exists>pte. query_in_pgtbl (phys_to_virt (boot_ttbr1_l0_at lay)) (KSTACKx_ADDR 0 + of_nat off) st' =
       Inr (0, Some (ROUND_DOWN (cpu_stack0 - KBASE) PAGE_SIZE + of_nat off, pte))) \<and>
    (\<forall>pa. unat pa < 2 ^ 32 \<longrightarrow> (\<exists>pte. query_in_pgtbl (phys_to_virt (boot_ttbr1_l0_at lay)) (phys_to_virt pa) st' = Inr (0, Some (pa, pte))))"
proof -
  let ?root = "phys_to_virt (boot_ttbr1_l0_at lay)" and ?n = "vpn (KSTACKx_ADDR 0)" and ?pa = "cpu_stack0 - KBASE"
  obtain k where k: "mm_init img_end (heap st) = Inr k" "kmem_rep k {}" "KBASE \<le> start_addr (region k)" "1024 \<le> free_pages_of k"
    "unat img_end + unat KBASE \<le> unat (start_addr (region k))" by (rule boot_heap_start [OF assms(2,3)])
  define s where "s = st\<lparr>heap := k\<rparr>"
  have s: "heap s = k" "static_ptp s = static_ptp st" and inst: "boot_installed lay bt' s"
    using assms(8) by (simp_all add: s_def boot_installed_def)
  have "\<forall>t. static_ptp s t \<longrightarrow> unat t < unat (start_addr (region k))" using assms(9) k(5) s(2) less_le_trans by metis
  then have out: "\<forall>t. static_ptp s t \<longrightarrow> virt_to_page (region (heap s)) t = None" unfolding s(1) by (rule static_outside)
  have b: "boot_ttbr1_l0 bt' = (\<lambda>_. 0)(510 := boot_table_entry (boot_ttbr1_l1_at lay))" "boot_ttbr1_l1 bt' = boot_l1 lay" "boot_ttbr1_l2 bt' = boot_l2"
    using init_kernel_pt_run [OF assms(4-6), of lay] assms(7) by auto
  have ok: "pt_ok s ?root (boot_tree lay) {}" using boot_pt_ok [OF assms(1) b inst] k(2,3) out s(1) by simp
  have fits: "?n + page_cnt CPU_STACK_SIZE \<le> 2 ^ 36" "unat ?pa + page_cnt CPU_STACK_SIZE * 4096 \<le> 2 ^ 48"
    and free: "3 * l3_tables ?n (page_cnt CPU_STACK_SIZE) \<le> free_pages_of (heap s)"
    using stack_page assms(10) k(4) s(1) by auto
  have "{?n..<?n + page_cnt CPU_STACK_SIZE} = {0xFFFF00000}" using stack_page(1,3) by auto
  then have nb: "\<forall>n \<in> {?n..<?n + page_cnt CPU_STACK_SIZE}. no_block s (boot_tree lay) n" using stack_no_block by simp
  have kind: "KERNEL_PTE = USER_PTE \<or> KERNEL_PTE = KERNEL_PTE" by simp
  obtain d st' tab' A' where m: "map_range_in_pgtbl_common ?root (KSTACKx_ADDR 0) ?pa CPU_STACK_SIZE ((or) VMR_READ VMR_WRITE) KERNEL_PTE None s =
       Inr (0, map_option (\<lambda>r. r + of_nat (page_cnt CPU_STACK_SIZE + d) * PAGE_SIZE) None, st')"
    "d \<le> 3 * l3_tables ?n (page_cnt CPU_STACK_SIZE)" "pt_ok st' ?root tab' A'"
    "mapped_range ((or) VMR_READ VMR_WRITE) KERNEL_PTE ?n ?pa (page_cnt CPU_STACK_SIZE) s (boot_tree lay) {} d st' tab' A'"
    by (rule map_range_correct [OF ok kind stack_page(2) fits(1) free nb])
  have "main_mm lay img_end cpu_stack0 st = Inr (0, st')"
    using k(1) m(1) by (simp add: main_mm_def map_range_in_pgtbl_kernel_def s_def phys_to_virt_def)
  moreover have "\<exists>pte. query_in_pgtbl ?root (KSTACKx_ADDR 0 + of_nat off) st' = Inr (0, Some (ROUND_DOWN ?pa PAGE_SIZE + of_nat off, pte))"
    if "off < 4096" for off
    using query_in_range [OF m(3,4) kind stack_page(2) fits] that stack_page(3) by simp
  moreover have "\<exists>pte. query_in_pgtbl ?root (phys_to_virt pa) st' = Inr (0, Some (pa, pte))" if pa: "unat pa < 2 ^ 32" for pa
    using query_out_of_range [OF ok m(3,4), of "phys_to_virt pa"] direct_not_stack [OF pa] stack_page(1,3)
      boot_query [OF ok inst b(2,3) pa] by auto
  ultimately show ?thesis by blast
qed



end
