(* ===== verification/Spinlock.thy ===== *)
theory Spinlock
  imports KPrelude
begin

text \<open>
  The spin lock of src/include/arch/aarch64/arch/sync.h as the cores run it, one instruction at a
  time. Exclusive loads and stores have the semantics of the architecture: \<open>ldaxr\<close> marks the word
  for the core, every store to the word clears the marks, \<open>stxr\<close> stores only while the mark is
  there and may also fail without reason (an interrupt clears the mark).
\<close>

section \<open>The machine\<close>

type_synonym cpu = nat

text \<open>Where a core is: outside, before one of the instructions of \<open>spin_lock\<close>, or in the critical
  section, with \<open>spin_unlock\<close> as its next access.\<close>

datatype pc = Outside | Ldaxr | Cbnz_taken | Stxr | Cbnz_retry | Wfe | Critical

record lock_state =
  lock_word :: u32
  monitor :: "cpu \<Rightarrow> bool"
  tmp :: "cpu \<Rightarrow> u32"
  at :: "cpu \<Rightarrow> pc"

definition spin_lock_init :: "lock_state \<Rightarrow> lock_state" where
  "spin_lock_init s = s\<lparr>lock_word := 0\<rparr>"

definition goto :: "cpu \<Rightarrow> pc \<Rightarrow> lock_state \<Rightarrow> lock_state" where
  "goto c l s = s\<lparr>at := (at s)(c := l)\<rparr>"

definition store :: "u32 \<Rightarrow> lock_state \<Rightarrow> lock_state" where
  "store v s = s\<lparr>lock_word := v, monitor := (\<lambda>_. False)\<rparr>"

definition set_tmp :: "cpu \<Rightarrow> u32 \<Rightarrow> lock_state \<Rightarrow> lock_state" where
  "set_tmp c v s = s\<lparr>tmp := (tmp s)(c := v)\<rparr>"

definition set_monitor :: "cpu \<Rightarrow> bool \<Rightarrow> lock_state \<Rightarrow> lock_state" where
  "set_monitor c b s = s\<lparr>monitor := (monitor s)(c := b)\<rparr>"

inductive step :: "cpu \<Rightarrow> lock_state \<Rightarrow> lock_state \<Rightarrow> bool" where
  call: "at s c = Outside \<Longrightarrow> step c s (goto c Ldaxr s)"
| ldaxr: "at s c = Ldaxr \<Longrightarrow> step c s (goto c Cbnz_taken (set_monitor c True (set_tmp c (lock_word s) s)))"
| taken: "at s c = Cbnz_taken \<Longrightarrow> tmp s c \<noteq> 0 \<Longrightarrow> step c s (goto c Wfe s)"
| free: "at s c = Cbnz_taken \<Longrightarrow> tmp s c = 0 \<Longrightarrow> step c s (goto c Stxr s)"
| stxr: "at s c = Stxr \<Longrightarrow> monitor s c \<Longrightarrow> step c s (goto c Cbnz_retry (set_tmp c 0 (store 1 s)))"
| stxr_fail: "at s c = Stxr \<Longrightarrow> step c s (goto c Cbnz_retry (set_tmp c 1 (set_monitor c False s)))"
| retry: "at s c = Cbnz_retry \<Longrightarrow> tmp s c \<noteq> 0 \<Longrightarrow> step c s (goto c Ldaxr s)"
| acquired: "at s c = Cbnz_retry \<Longrightarrow> tmp s c = 0 \<Longrightarrow> step c s (goto c Critical s)"
| wfe: "at s c = Wfe \<Longrightarrow> step c s (goto c Ldaxr s)"
| unlock: "at s c = Critical \<Longrightarrow> step c s (goto c Outside (store 0 s))"

inductive_cases step_cases: "step c s s'"

inductive reachable :: "lock_state \<Rightarrow> bool" where
  start: "(\<And>c. at s c = Outside) \<Longrightarrow> reachable (spin_lock_init s)"
| move: "reachable s \<Longrightarrow> step c s s' \<Longrightarrow> reachable s'"

lemmas lock_ops = goto_def store_def set_tmp_def set_monitor_def spin_lock_init_def

section \<open>The invariant\<close>

text \<open>A core holds the lock from its successful \<open>stxr\<close> on.\<close>

definition holds :: "lock_state \<Rightarrow> cpu \<Rightarrow> bool" where
  "holds s c \<longleftrightarrow> at s c = Critical \<or> (at s c = Cbnz_retry \<and> tmp s c = 0)"

definition lock_inv :: "lock_state \<Rightarrow> bool" where
  "lock_inv s \<longleftrightarrow>
     (if lock_word s = 0 then \<forall>c. \<not> holds s c else lock_word s = 1 \<and> (\<exists>c. \<forall>d. holds s d \<longleftrightarrow> d = c)) \<and>
     (\<forall>c. monitor s c \<longrightarrow> (at s c = Cbnz_taken \<and> tmp s c = 0) \<or> at s c = Stxr \<longrightarrow> lock_word s = 0)"

lemma only_holder:
  assumes "lock_inv s" "holds s c"
  shows "lock_word s = 1" "holds s d \<longleftrightarrow> d = c"
  using assms unfolding lock_inv_def by metis+

text \<open>Only the two stores to the lock word change who holds it.\<close>

lemma lock_inv_quiet:
  assumes "lock_inv s" "holds s' = holds s" "lock_word s' = lock_word s"
    "\<And>d. monitor s' d \<Longrightarrow> (at s' d = Cbnz_taken \<and> tmp s' d = 0) \<or> at s' d = Stxr \<Longrightarrow> lock_word s = 0"
  shows "lock_inv s'"
  using assms unfolding lock_inv_def by simp

lemma monitored_free:
  assumes "lock_inv s" "monitor s c" "(at s c = Cbnz_taken \<and> tmp s c = 0) \<or> at s c = Stxr"
  shows "lock_word s = 0"
  using assms unfolding lock_inv_def by blast

lemma lock_inv_step:
  assumes inv: "lock_inv s" and st: "step c s s'"
  shows "lock_inv s'"
  using st
proof cases
  case stxr
  then have "lock_word s = 0" using monitored_free [OF inv] by blast
  then have "\<forall>d. \<not> holds s d" using inv by (simp add: lock_inv_def)
  then have "holds s' d \<longleftrightarrow> d = c" for d using stxr by (auto simp: holds_def lock_ops)
  then show ?thesis using stxr by (auto simp: lock_inv_def lock_ops)
next
  case unlock
  then have h: "holds s d \<longleftrightarrow> d = c" for d using only_holder(2) [OF inv, of c] by (simp add: holds_def)
  then have "\<not> holds s' d" for d using unlock h [of d] by (cases "d = c") (auto simp: holds_def lock_ops)
  then show ?thesis using unlock by (auto simp: lock_inv_def lock_ops)
qed (rule lock_inv_quiet [OF inv]; (auto simp: holds_def lock_ops fun_eq_iff split: if_splits dest: monitored_free [OF inv]; fail))+

lemma lock_inv_reachable: "reachable s \<Longrightarrow> lock_inv s"
proof (induction rule: reachable.induct)
  case (start s)
  then show ?case by (simp add: lock_inv_def holds_def lock_ops)
next
  case (move s c s')
  then show ?case by (blast intro: lock_inv_step)
qed

section \<open>What a lock is for\<close>

text \<open>The abstract lock: somebody owns it or nobody does.\<close>

inductive alock :: "cpu \<Rightarrow> cpu option \<Rightarrow> cpu option \<Rightarrow> bool" where
  stay: "alock c own own"
| acquire: "alock c None (Some c)"
| release: "alock c (Some c) None"

definition owner_is :: "lock_state \<Rightarrow> cpu option \<Rightarrow> bool" where
  "owner_is s own = (case own of None \<Rightarrow> \<forall>c. \<not> holds s c | Some c \<Rightarrow> \<forall>d. holds s d \<longleftrightarrow> d = c)"

lemma owner_is_word:
  assumes "lock_inv s" "owner_is s own"
  shows "lock_word s = 0 \<longleftrightarrow> own = None"
  using assms by (auto simp: lock_inv_def owner_is_def split: if_splits option.splits)

lemma owner_quiet: "holds s' = holds s \<Longrightarrow> owner_is s own \<Longrightarrow> \<exists>own'. alock c own own' \<and> owner_is s' own'"
  using alock.stay by (auto simp: owner_is_def cong: option.case_cong)

lemma lock_simulates:
  assumes inv: "lock_inv s" and st: "step c s s'" and own: "owner_is s own"
  shows "\<exists>own'. alock c own own' \<and> owner_is s' own'"
  using st
proof cases
  case stxr
  then have "lock_word s = 0" using monitored_free [OF inv] by blast
  then have n: "own = None" using owner_is_word [OF inv own] by simp
  then have "owner_is s' (Some c)" using stxr own by (auto simp: owner_is_def holds_def lock_ops)
  then show ?thesis using n alock.acquire by blast
next
  case unlock
  then have "holds s c" by (simp add: holds_def)
  then have n: "own = Some c" using own by (cases own) (auto simp: owner_is_def)
  then have "owner_is s' None" using unlock own by (auto simp: owner_is_def holds_def lock_ops)
  then show ?thesis using n alock.release by blast
qed (rule owner_quiet [OF _ own]; (auto simp: holds_def lock_ops fun_eq_iff; fail))+

section \<open>Progress\<close>

definition runs_to :: "cpu \<Rightarrow> lock_state \<Rightarrow> lock_state \<Rightarrow> bool" where
  "runs_to c = (step c)\<^sup>*\<^sup>*"

lemma runs_step: "step c s s' \<Longrightarrow> runs_to c s' s'' \<Longrightarrow> runs_to c s s''"
  unfolding runs_to_def by (rule converse_rtranclp_into_rtranclp)

lemma runs_refl: "runs_to c s s"
  by (simp add: runs_to_def)

lemma run_from_ldaxr:
  assumes "at s c = Ldaxr" "lock_word s = 0"
  shows "\<exists>s'. runs_to c s s' \<and> at s' c = Critical"
proof -
  let ?s1 = "goto c Cbnz_taken (set_monitor c True (set_tmp c (lock_word s) s))"
  let ?s2 = "goto c Stxr ?s1" and ?s3 = "goto c Cbnz_retry (set_tmp c 0 (store 1 (goto c Stxr ?s1)))"
  have "step c s ?s1" using assms(1) by (rule ldaxr)
  moreover have "step c ?s1 ?s2" by (rule free) (simp_all add: lock_ops assms(2))
  moreover have "step c ?s2 ?s3" by (rule stxr) (simp_all add: lock_ops)
  moreover have "step c ?s3 (goto c Critical ?s3)" by (rule acquired) (simp_all add: lock_ops)
  ultimately have "runs_to c s (goto c Critical ?s3)" by (blast intro: runs_step runs_refl)
  then show ?thesis by (auto simp: lock_ops)
qed

lemma run_via:
  assumes "step c s s'" "at s' c = Ldaxr" "lock_word s' = 0"
  shows "\<exists>s'. runs_to c s s' \<and> at s' c = Critical"
  using run_from_ldaxr [OF assms(2,3)] runs_step [OF assms(1)] by blast

lemma run_alone:
  assumes "lock_inv s" "lock_word s = 0"
  shows "\<exists>s'. runs_to c s s' \<and> at s' c = Critical"
proof (cases "at s c")
  case Outside
  then show ?thesis by (rule run_via [OF call]) (simp_all add: lock_ops assms(2))
next
  case Ldaxr
  then show ?thesis by (rule run_from_ldaxr) (rule assms(2))
next
  case Wfe
  then show ?thesis by (rule run_via [OF wfe]) (simp_all add: lock_ops assms(2))
next
  case Cbnz_retry
  then have "tmp s c \<noteq> 0" using assms by (auto simp: lock_inv_def holds_def)
  with Cbnz_retry show ?thesis by (rule run_via [OF retry]) (simp_all add: lock_ops assms(2))
next
  case Critical
  then show ?thesis using runs_refl by blast
next
  case Stxr
  let ?s = "goto c Cbnz_retry (set_tmp c 1 (set_monitor c False s))"
  have "step c ?s (goto c Ldaxr ?s)" by (rule retry) (simp_all add: lock_ops)
  then have "\<exists>s'. runs_to c ?s s' \<and> at s' c = Critical" by (rule run_via) (simp_all add: lock_ops assms(2))
  then show ?thesis using runs_step [OF stxr_fail [OF Stxr]] by blast
next
  case Cbnz_taken
  show ?thesis
  proof (cases "tmp s c = 0")
    case True
    let ?s1 = "goto c Stxr s" and ?s2 = "goto c Cbnz_retry (set_tmp c 1 (set_monitor c False (goto c Stxr s)))"
    have "step c ?s2 (goto c Ldaxr ?s2)" by (rule retry) (simp_all add: lock_ops)
    then have "\<exists>s'. runs_to c ?s2 s' \<and> at s' c = Critical" by (rule run_via) (simp_all add: lock_ops assms(2))
    moreover have "step c ?s1 ?s2" by (rule stxr_fail) (simp add: lock_ops)
    ultimately show ?thesis using runs_step [OF free [OF Cbnz_taken True]] runs_step by blast
  next
    case False
    have "step c (goto c Wfe s) (goto c Ldaxr (goto c Wfe s))" by (rule wfe) (simp add: lock_ops)
    then have "\<exists>s'. runs_to c (goto c Wfe s) s' \<and> at s' c = Critical" by (rule run_via) (simp_all add: lock_ops assms(2))
    then show ?thesis using runs_step [OF taken [OF Cbnz_taken False]] by blast
  qed
qed

section \<open>Properties\<close>

text \<open>Two cores outside, the first one then takes the lock.\<close>

definition idle :: lock_state where
  "idle = \<lparr>lock_word = 0, monitor = (\<lambda>_. False), tmp = (\<lambda>_. 0), at = (\<lambda>_. Outside)\<rparr>"

lemma idle_reachable: "reachable idle"
proof -
  have "reachable (spin_lock_init idle)" by (rule start) (simp add: idle_def)
  then show ?thesis by (simp add: spin_lock_init_def idle_def)
qed

lemma runs_reachable: "runs_to c s s' \<Longrightarrow> reachable s \<Longrightarrow> reachable s'"
  unfolding runs_to_def by (induction rule: rtranclp_induct) (auto intro: move)

text \<open>C6: mutual exclusion. In every state that any interleaving of the instructions of the cores can
  reach, with exclusive stores failing at any time, at most one core is in the critical section, and
  the lock word is 1 while one is.\<close>

theorem spinlock_mutual_exclusion:
  assumes "reachable s" "at s c = Critical"
  shows "lock_word s = 1 \<and> (\<forall>d. at s d = Critical \<longrightarrow> d = c)"
proof -
  have "holds s c" using assms(2) by (simp add: holds_def)
  from only_holder [OF lock_inv_reachable [OF assms(1)] this] show ?thesis by (auto simp: holds_def)
qed

theorem spinlock_mutual_exclusion_witness:
  "\<exists>s. reachable s \<and> at s 0 = Critical \<and> lock_word s = 1 \<and> at s 1 \<noteq> Critical"
proof -
  have "lock_word idle = 0" by (simp add: idle_def)
  then obtain s where "runs_to 0 idle s" "at s 0 = Critical" using run_alone [OF lock_inv_reachable [OF idle_reachable]] by blast
  then show ?thesis using spinlock_mutual_exclusion [of s 0] runs_reachable [OF _ idle_reachable] by fastforce
qed

text \<open>C28: the instructions implement an abstract lock with an owner. Every step of a core keeps the
  owner, or makes the core the owner when nobody is, or takes the ownership from the core that has
  it.\<close>

theorem spinlock_refines_lock:
  assumes "reachable s" "step c s s'" "owner_is s own"
  shows "\<exists>own'. alock c own own' \<and> owner_is s' own'"
  by (rule lock_simulates [OF lock_inv_reachable [OF assms(1)] assms(2,3)])

theorem spinlock_refines_lock_witness:
  "\<exists>own'. alock 0 None own' \<and> owner_is (goto 0 Ldaxr idle) own'"
proof -
  have "step 0 idle (goto 0 Ldaxr idle)" by (rule call) (simp add: idle_def)
  moreover have "owner_is idle None" by (simp add: owner_is_def holds_def idle_def)
  ultimately show ?thesis by (rule spinlock_refines_lock [OF idle_reachable])
qed



end
