(* ===== verification/Atomics.thy ===== *)
theory Atomics
  imports KPrelude
begin

text \<open>
  The atomic operations of src/include/arch/aarch64/arch/sync.h: compare and exchange, exchange, and fetch with
  addition or subtraction, on words of any width (the arithmetic wraps around, so any group serves as the type of values). As for the spin lock a step is one instruction of one core;
  \<open>ldaxr\<close> arms the exclusive monitor of the core, any store disarms all of them, and \<open>stlxr\<close> stores
  only while its monitor is armed (it may also fail without a reason). The event of a step is the
  operation that takes effect in it with the value it is going to return.
\<close>

section \<open>State\<close>

type_synonym core = nat

datatype 'a atomic = Cmpxchg 'a 'a | Exchange 'a | Fetch_add 'a | Fetch_sub 'a

datatype 'a place = Idle | At_ldaxr "'a atomic" | At_op "'a atomic" | At_stlxr "'a atomic" | At_cbnz "'a atomic" | Finished "'a atomic"

record 'a atomics =
  cell :: "'a"
  armed :: "core \<Rightarrow> bool"
  place :: "core \<Rightarrow> 'a place"
  oldval :: "core \<Rightarrow> 'a"
  newval :: "core \<Rightarrow> 'a"
  ret :: "core \<Rightarrow> u32"

type_synonym 'a event = "core \<times> 'a atomic \<times> 'a"

definition go :: "core \<Rightarrow> 'a place \<Rightarrow> 'a atomics \<Rightarrow> 'a atomics" where
  "go c p s = s\<lparr>place := (place s)(c := p)\<rparr>"

definition load_exclusive :: "core \<Rightarrow> 'a atomics \<Rightarrow> 'a atomics" where
  "load_exclusive c s = s\<lparr>oldval := (oldval s)(c := cell s), armed := (armed s)(c := True)\<rparr>"

definition store_exclusive :: "core \<Rightarrow> 'a atomics \<Rightarrow> 'a atomics" where
  "store_exclusive c s = s\<lparr>cell := newval s c, armed := (\<lambda>_. False), ret := (ret s)(c := 0)\<rparr>"

definition store_failed :: "core \<Rightarrow> 'a atomics \<Rightarrow> 'a atomics" where
  "store_failed c s = s\<lparr>armed := (armed s)(c := False), ret := (ret s)(c := 1)\<rparr>"

text \<open>The instruction between load and store: what is to be stored, or \<open>None\<close> for the branch out.\<close>

fun operate :: "'a::ab_group_add atomic \<Rightarrow> 'a \<Rightarrow> 'a option" where
  "operate (Cmpxchg expected desired) v = (if v \<noteq> expected then None else Some desired)"
| "operate (Exchange x) v = Some x"
| "operate (Fetch_add x) v = Some (v + x)"
| "operate (Fetch_sub x) v = Some (v - x)"

section \<open>Steps\<close>

inductive atomic_step :: "core \<Rightarrow> 'a::ab_group_add event list \<Rightarrow> 'a atomics \<Rightarrow> 'a atomics \<Rightarrow> bool" where
  call: "place s c = Idle \<Longrightarrow> atomic_step c [] s (go c (At_ldaxr a) s)"
| ldaxr: "place s c = At_ldaxr a \<Longrightarrow>
    atomic_step c (if operate a (cell s) = None then [(c, a, cell s)] else []) s (go c (At_op a) (load_exclusive c s))"
| leave: "place s c = At_op a \<Longrightarrow> operate a (oldval s c) = None \<Longrightarrow> atomic_step c [] s (go c (Finished a) s)"
| op: "place s c = At_op a \<Longrightarrow> operate a (oldval s c) = Some v \<Longrightarrow>
    atomic_step c [] s (go c (At_stlxr a) (s\<lparr>newval := (newval s)(c := v)\<rparr>))"
| stlxr: "place s c = At_stlxr a \<Longrightarrow> armed s c \<Longrightarrow> atomic_step c [(c, a, oldval s c)] s (go c (At_cbnz a) (store_exclusive c s))"
| stlxr_fail: "place s c = At_stlxr a \<Longrightarrow> atomic_step c [] s (go c (At_cbnz a) (store_failed c s))"
| again: "place s c = At_cbnz a \<Longrightarrow> ret s c \<noteq> 0 \<Longrightarrow> atomic_step c [] s (go c (At_ldaxr a) s)"
| finish: "place s c = At_cbnz a \<Longrightarrow> ret s c = 0 \<Longrightarrow> atomic_step c [] s (go c (Finished a) s)"
| return: "place s c = Finished a \<Longrightarrow> atomic_step c [] s (go c Idle s)"

inductive_cases atomic_step_cases: "atomic_step c es s s'"

inductive atomic_run :: "'a::ab_group_add event list \<Rightarrow> 'a atomics \<Rightarrow> 'a atomics \<Rightarrow> bool" where
  none: "atomic_run [] s s"
| more: "atomic_run tr s s' \<Longrightarrow> atomic_step c es s' s'' \<Longrightarrow> atomic_run (tr @ es) s s''"

section \<open>Specification\<close>

text \<open>The operations one after the other: each returns the value before it, and leaves the value it computes or, when
  it branches out, the same one.\<close>

fun sequential :: "'a::ab_group_add event list \<Rightarrow> 'a \<Rightarrow> 'a option" where
  "sequential [] v = Some v"
| "sequential ((c, a, old) # es) v =
     (if old = v then sequential es (case operate a v of None \<Rightarrow> v | Some v' \<Rightarrow> v') else None)"

lemma sequential_append: "sequential (xs @ ys) v = Option.bind (sequential xs v) (sequential ys)"
  by (induction xs arbitrary: v) auto

section \<open>Invariant\<close>

text \<open>What a core with an armed monitor has read is still in the cell; what it is about to store was computed from it.\<close>

definition atomics_inv :: "'a::ab_group_add atomics \<Rightarrow> bool" where
  "atomics_inv s \<longleftrightarrow> (\<forall>c a. (place s c = At_op a \<or> place s c = At_stlxr a) \<and> armed s c \<longrightarrow> oldval s c = cell s) \<and>
     (\<forall>c a. place s c = At_stlxr a \<longrightarrow> operate a (oldval s c) = Some (newval s c))"

lemmas atomic_ops = go_def load_exclusive_def store_exclusive_def store_failed_def

lemma atomics_inv_step: "atomic_step c es s s' \<Longrightarrow> atomics_inv s \<Longrightarrow> atomics_inv s'"
  by (cases rule: atomic_step.cases, assumption) (auto simp: atomics_inv_def atomic_ops)

lemma atomics_inv_store:
  "atomics_inv s \<Longrightarrow> place s c = At_stlxr a \<Longrightarrow> armed s c \<Longrightarrow> oldval s c = cell s \<and> operate a (cell s) = Some (newval s c)"
  unfolding atomics_inv_def by metis

lemma atomic_step_sequential:
  assumes "atomic_step c es s s'" "atomics_inv s"
  shows "sequential es (cell s) = Some (cell s')"
  using assms atomics_inv_store [OF assms(2), of c] by (cases rule: atomic_step.cases) (auto simp: atomic_ops)

text \<open>The last event of a core.\<close>

definition last_event :: "core \<Rightarrow> 'a event list \<Rightarrow> 'a event option" where
  "last_event c tr = (case rev (filter (\<lambda>e. fst e = c) tr) of [] \<Rightarrow> None | e # es \<Rightarrow> Some e)"

lemma last_event_append:
  "last_event c (tr @ []) = last_event c tr" "last_event c (tr @ [e]) = (if fst e = c then Some e else last_event c tr)"
  by (auto simp: last_event_def split: list.splits)

definition answered :: "'a::ab_group_add event list \<Rightarrow> 'a atomics \<Rightarrow> bool" where
  "answered tr s \<longleftrightarrow> (\<forall>c a. place s c = Finished a \<or> place s c = At_cbnz a \<and> ret s c = 0 \<or>
      place s c = At_op a \<and> operate a (oldval s c) = None \<longrightarrow> last_event c tr = Some (c, a, oldval s c))"

lemma answered_step:
  assumes "atomic_step c es s s'" "answered tr s"
  shows "answered (tr @ es) s'"
  using assms by (cases rule: atomic_step.cases) (auto simp: answered_def atomic_ops last_event_append)

section \<open>Properties\<close>

lemma atomic_run_correct:
  assumes "atomic_run tr s s'" "\<forall>c. place s c = Idle"
  shows "sequential tr (cell s) = Some (cell s') \<and> atomics_inv s' \<and> answered tr s'"
  using assms
proof (induction rule: atomic_run.induct)
  case (none s)
  then show ?case by (simp add: atomics_inv_def answered_def)
next
  case (more tr s s' c es s'')
  then show ?case using atomics_inv_step atomic_step_sequential answered_step by (fastforce simp: sequential_append)
qed

text \<open>C27: The operations are atomic. In every interleaving of the instructions of any number of cores, the cell and the
  values returned are those of the operations executed one after the other in the order in which
  they took effect, and a core that is done has in hand what its operation returned there.\<close>

theorem atomics_linearizable:
  assumes "atomic_run tr s s'" "\<forall>c. place s c = Idle"
  shows "sequential tr (cell s) = Some (cell (s' :: 'a::len word atomics)) \<and>
    (\<forall>c a. place s' c = Finished a \<longrightarrow> last_event c tr = Some (c, a, oldval s' c))"
  using atomic_run_correct [OF assms] by (simp add: answered_def)

text \<open>Two cores add to a counter that is about to wrap around, and both have loaded it when the second one stores.\<close>

definition counter :: "u32 atomics" where
  "counter = \<lparr>cell = 0xFFFFFFFF, armed = (\<lambda>_. False), place = (\<lambda>_. Idle), oldval = (\<lambda>_. 0), newval = (\<lambda>_. 0), ret = (\<lambda>_. 0)\<rparr>"

theorem atomics_linearizable_witness:
  "\<exists>tr s'. atomic_run tr counter s' \<and> cell s' = 4 \<and> sequential tr (cell counter) = Some 4 \<and> last_event 1 tr = Some (1, Fetch_add 5, 0xFFFFFFFF)"
proof -
  note d = counter_def atomic_ops
  define s1 where "s1 = go 0 (At_ldaxr (Fetch_add 1)) counter"
  define s2 where "s2 = go 1 (At_ldaxr (Fetch_add 5)) s1"
  define s3 where "s3 = go 0 (At_op (Fetch_add 1)) (load_exclusive 0 s2)"
  define s4 where "s4 = go 1 (At_op (Fetch_add 5)) (load_exclusive 1 s3)"
  define s5 where "s5 = go 1 (At_stlxr (Fetch_add 5)) (s4\<lparr>newval := (newval s4)(1 := 4)\<rparr>)"
  define s6 where "s6 = go 1 (At_cbnz (Fetch_add 5)) (store_exclusive 1 s5)"
  define s7 where "s7 = go 1 (Finished (Fetch_add 5)) s6"
  note s = s1_def s2_def s3_def s4_def s5_def s6_def s7_def
  have "atomic_step 0 [] counter s1" unfolding s1_def by (rule call) (simp add: d)
  from more [OF none this] have "atomic_run [] counter s1" by simp
  moreover have "atomic_step 1 [] s1 s2" unfolding s2_def by (rule call) (simp add: s d)
  ultimately have "atomic_run [] counter s2" using more by fastforce
  moreover have "atomic_step 0 [] s2 s3" unfolding s3_def using ldaxr [of s2 0 "Fetch_add 1"] by (simp add: s d)
  ultimately have "atomic_run [] counter s3" using more by fastforce
  moreover have "atomic_step 1 [] s3 s4" unfolding s4_def using ldaxr [of s3 1 "Fetch_add 5"] by (simp add: s d)
  ultimately have "atomic_run [] counter s4" using more by fastforce
  moreover have "atomic_step 1 [] s4 s5" unfolding s5_def by (rule op) (simp_all add: s d)
  ultimately have "atomic_run [] counter s5" using more by fastforce
  moreover have "atomic_step 1 [(1, Fetch_add 5, 0xFFFFFFFF)] s5 s6" unfolding s6_def using stlxr [of s5 1 "Fetch_add 5"] by (simp add: s d)
  ultimately have "atomic_run [(1, Fetch_add 5, 0xFFFFFFFF)] counter s6" using more by fastforce
  moreover have "atomic_step 1 [] s6 s7" unfolding s7_def by (rule finish) (simp_all add: s d)
  ultimately have r: "atomic_run [(1, Fetch_add 5, 0xFFFFFFFF)] counter s7" using more by fastforce
  have "place s7 1 = Finished (Fetch_add 5)" "oldval s7 1 = 0xFFFFFFFF" "cell s7 = 4" by (simp_all add: s d)
  moreover have "\<forall>c. place counter c = Idle" by (simp add: d)
  ultimately have "sequential [(1, Fetch_add 5, 0xFFFFFFFF)] (cell counter) = Some 4" "last_event 1 [(1, Fetch_add 5, 0xFFFFFFFF)] = Some (1, Fetch_add 5, oldval s7 1)"
    using atomics_linearizable [OF r] by (metis, blast)
  then show ?thesis using r \<open>cell s7 = 4\<close> \<open>oldval s7 1 = 0xFFFFFFFF\<close> by metis
qed

end
