(* ===== verification/Device.thy ===== *)
theory Device
  imports KPrelude
begin

text \<open>
  Memory-mapped registers (\<open>get32\<close> and \<open>put32\<close> of the platform code). The hardware is a parameter:
  it says what the n-th read of the run returns at an address. The writes are recorded in order.
\<close>

type_synonym hardware = "u64 \<Rightarrow> nat \<Rightarrow> u32"

record io =
  reads :: nat
  writes :: "(u64 \<times> u32) list"

definition get32 :: "hardware \<Rightarrow> u64 \<Rightarrow> io \<Rightarrow> u32 \<times> io" where
  "get32 hw a d = (hw a (reads d), d\<lparr>reads := reads d + 1\<rparr>)"

definition put32 :: "u64 \<Rightarrow> u32 \<Rightarrow> io \<Rightarrow> io" where
  "put32 a v d = d\<lparr>writes := writes d @ [(a, v)]\<rparr>"

text \<open>\<open>while (get32(a) & m) ;\<close>\<close>

partial_function (option) wait_while :: "hardware \<Rightarrow> u64 \<Rightarrow> u32 \<Rightarrow> io \<Rightarrow> io option" where
  "wait_while hw a m d =
     (let (v, d) = get32 hw a d
      in if (and) v m \<noteq> 0 then wait_while hw a m d else Some d)"

declare wait_while.simps [code]

lemma put32_simps [simp]: "writes (put32 a v d) = writes d @ [(a, v)]" "reads (put32 a v d) = reads d"
  by (simp_all add: put32_def)

text \<open>The wait ends exactly when the bits are clear at some later read, and then at the first one.\<close>

lemma wait_while_ready:
  assumes "(and) (hw a (reads d + n)) m = 0" "\<forall>k < n. (and) (hw a (reads d + k)) m \<noteq> 0"
  shows "wait_while hw a m d = Some (d\<lparr>reads := reads d + n + 1\<rparr>)"
  using assms
proof (induction n arbitrary: d)
  case 0
  then show ?case by (subst wait_while.simps) (simp add: get32_def)
next
  case (Suc n)
  have "(and) (hw a (reads d)) m \<noteq> 0" using Suc.prems(2) by fastforce
  then have "wait_while hw a m d = wait_while hw a m (d\<lparr>reads := reads d + 1\<rparr>)"
    by (subst wait_while.simps) (simp add: get32_def)
  also have "\<dots> = Some (d\<lparr>reads := reads d + Suc n + 1\<rparr>)"
  proof -
    have "(and) (hw a (Suc (reads d + k))) m \<noteq> 0" if "k < n" for k using Suc.prems(2) [rule_format, of "Suc k"] that by simp
    then show ?thesis using Suc.IH [of "d\<lparr>reads := reads d + 1\<rparr>"] Suc.prems(1) by simp
  qed
  finally show ?case .
qed

lemma wait_while_result:
  "wait_while hw a m d = Some d' \<Longrightarrow> \<exists>n. (and) (hw a (reads d + n)) m = 0 \<and> d' = d\<lparr>reads := reads d + n + 1\<rparr>"
proof (induction hw a m d d' rule: wait_while.raw_induct [rotated, consumes 1])
  case (1 f hw a m d d')
  show ?case
  proof (cases "(and) (hw a (reads d)) m = 0")
    case True
    then show ?thesis using 1(2) by (auto simp: get32_def intro: exI [of _ 0])
  next
    case False
    then have "f hw a m (d\<lparr>reads := reads d + 1\<rparr>) = Some d'" using 1(2) by (simp add: get32_def)
    from 1(1) [OF this] show ?thesis by (auto intro: exI [of _ "Suc _"])
  qed
qed

lemma wait_while_iff:
  "wait_while hw a m d \<noteq> None \<longleftrightarrow> (\<exists>n. (and) (hw a (reads d + n)) m = 0)"
proof
  assume "\<exists>n. (and) (hw a (reads d + n)) m = 0"
  then have "(and) (hw a (reads d + (LEAST n. (and) (hw a (reads d + n)) m = 0))) m = 0" by (rule LeastI_ex)
  then show "wait_while hw a m d \<noteq> None" using wait_while_ready not_less_Least by blast
qed (use wait_while_result in blast)

lemma wait_while_writes: "wait_while hw a m d = Some d' \<Longrightarrow> writes d' = writes d"
  using wait_while_result by fastforce

section \<open>Serial lines\<close>

text \<open>The contract of a serial line. Hardware that is \<open>live\<close> lets every character through; the line then writes it to
  its data register and writes nothing else. A loop over the line sends its characters in order.\<close>

locale serial_line =
  fixes send :: "hardware \<Rightarrow> u8 \<Rightarrow> io \<Rightarrow> io result" and data_reg :: u64 and live :: "hardware \<Rightarrow> bool"
  assumes send_writes: "live hw \<Longrightarrow> \<exists>n. send hw c d = Inr (put32 data_reg (ucast c) (d\<lparr>reads := n\<rparr>))"
begin

lemma sends_in_order:
  assumes "live hw" "\<And>d. go [] d = Inr d" "\<And>c cs d. go (c # cs) d = bindR (send hw (f c) d) (go cs)"
  shows "\<exists>d'. go cs d = Inr d' \<and> writes d' = writes d @ map (\<lambda>c. (data_reg, ucast (f c))) cs"
proof (induction cs arbitrary: d)
  case (Cons c cs)
  obtain n where n: "send hw (f c) d = Inr (put32 data_reg (ucast (f c)) (d\<lparr>reads := n\<rparr>))"
    using send_writes [OF assms(1)] by blast
  from Cons.IH [of "put32 data_reg (ucast (f c)) (d\<lparr>reads := n\<rparr>)"] n show ?case by (auto simp: assms(3))
qed (simp add: assms(2))

end

end
