(* ===== verification/Uart.thy ===== *)
theory Uart
  imports Device
begin

text \<open>
  The serial port (PL011) of src/arch/aarch64/plat/raspi3/uart/uart.c with its receive buffer, the
  enabling of its interrupt included (src/arch/aarch64/plat/raspi3/irq/irq.c). A \<open>char\<close> is an
  unsigned byte on this platform.
\<close>

section \<open>Registers\<close>

definition PHYSADDR_OFFSET :: u64 where "PHYSADDR_OFFSET = KBASE + 0x3F000000"
definition GPFSEL1 :: u64 where "GPFSEL1 = PHYSADDR_OFFSET + 0x00200004"
definition GPPUD :: u64 where "GPPUD = PHYSADDR_OFFSET + 0x00200094"
definition GPPUDCLK0 :: u64 where "GPPUDCLK0 = PHYSADDR_OFFSET + 0x00200098"
definition RASPI3_PL011_BASE :: u64 where "RASPI3_PL011_BASE = PHYSADDR_OFFSET + 0x201000"
definition RASPI3_PL011_DR :: u64 where "RASPI3_PL011_DR = RASPI3_PL011_BASE + 0x00"
definition RASPI3_PL011_FR :: u64 where "RASPI3_PL011_FR = RASPI3_PL011_BASE + 0x18"
definition RASPI3_PL011_IBRD :: u64 where "RASPI3_PL011_IBRD = RASPI3_PL011_BASE + 0x24"
definition RASPI3_PL011_FBRD :: u64 where "RASPI3_PL011_FBRD = RASPI3_PL011_BASE + 0x28"
definition RASPI3_PL011_LCRH :: u64 where "RASPI3_PL011_LCRH = RASPI3_PL011_BASE + 0x2C"
definition RASPI3_PL011_CR :: u64 where "RASPI3_PL011_CR = RASPI3_PL011_BASE + 0x30"
definition RASPI3_PL011_IFLS :: u64 where "RASPI3_PL011_IFLS = RASPI3_PL011_BASE + 0x34"
definition RASPI3_PL011_IMSC :: u64 where "RASPI3_PL011_IMSC = RASPI3_PL011_BASE + 0x38"
definition RASPI3_PL011_ICR :: u64 where "RASPI3_PL011_ICR = RASPI3_PL011_BASE + 0x44"

definition BCM2835_BASE_INTC :: u64 where "BCM2835_BASE_INTC = PHYSADDR_OFFSET + 0xB200"
definition BCM2835_IRQ_ENABLE1 :: u64 where "BCM2835_IRQ_ENABLE1 = BCM2835_BASE_INTC + 0x10"
definition BCM2835_IRQ_ENABLE2 :: u64 where "BCM2835_IRQ_ENABLE2 = BCM2835_BASE_INTC + 0x14"
definition BCM2835_IRQ_DISABLE1 :: u64 where "BCM2835_IRQ_DISABLE1 = BCM2835_BASE_INTC + 0x1C"
definition BCM2835_IRQ_DISABLE2 :: u64 where "BCM2835_IRQ_DISABLE2 = BCM2835_BASE_INTC + 0x20"

section \<open>Sending and receiving\<close>

definition uart_send :: "hardware \<Rightarrow> u8 \<Rightarrow> io \<Rightarrow> io result" where
  "uart_send hw c d =
     (case wait_while hw RASPI3_PL011_FR (push_bit 5 1) d of
        None \<Rightarrow> Inl DIVERGE
      | Some d \<Rightarrow> Inr (put32 RASPI3_PL011_DR (ucast c) d))"

definition uart_recv :: "hardware \<Rightarrow> io \<Rightarrow> (u8 \<times> io) result" where
  "uart_recv hw d =
     (case wait_while hw RASPI3_PL011_FR (push_bit 4 1) d of
        None \<Rightarrow> Inl DIVERGE
      | Some d \<Rightarrow> let (v, d) = get32 hw RASPI3_PL011_DR d in Inr (ucast ((and) v 0xFF), d))"

fun uart_send_all :: "hardware \<Rightarrow> u8 list \<Rightarrow> io \<Rightarrow> io result" where
  "uart_send_all hw [] d = Inr d"
| "uart_send_all hw (c # cs) d = bindR (uart_send hw c d) (uart_send_all hw cs)"

section \<open>The receive buffer\<close>

definition UART_BUF_LEN :: int where "UART_BUF_LEN = 16"
definition NB_UART_NRET :: u8 where "NB_UART_NRET = - 1"

record uart_buffer =
  buffer :: "u8 list"
  read_pos :: int
  put_pos :: int

record uart =
  pl011_buffer :: uart_buffer
  dev :: io

text \<open>\<open>pos += 1; if (pos == UART_BUF_LEN) pos = 0;\<close>\<close>

definition advance :: "int \<Rightarrow> int" where
  "advance pos = (if pos + 1 = UART_BUF_LEN then 0 else pos + 1)"

definition slot_ok :: "int \<Rightarrow> bool" where
  "slot_ok pos \<longleftrightarrow> 0 \<le> pos \<and> pos < UART_BUF_LEN"

text \<open>The part of \<open>uart_irq_handler\<close> that stores the input.\<close>

definition put_input :: "u8 \<Rightarrow> uart_buffer \<Rightarrow> uart_buffer result" where
  "put_input c b =
     (if \<not> slot_ok (put_pos b) then Inl FAULT
      else let b = b\<lparr>buffer := (buffer b)[nat (put_pos b) := c], put_pos := advance (put_pos b)\<rparr>
           in Inr (if read_pos b = put_pos b then b\<lparr>read_pos := advance (read_pos b)\<rparr> else b))"

definition uart_irq_handler :: "hardware \<Rightarrow> uart \<Rightarrow> uart result" where
  "uart_irq_handler hw u =
     (let (v, d) = get32 hw RASPI3_PL011_DR (dev u); input = ucast ((and) v 0xFF) in
      bindR (uart_send hw input d) (\<lambda>d.
      bindR (put_input input (pl011_buffer u)) (\<lambda>b.
      Inr (u\<lparr>dev := d, pl011_buffer := b\<rparr>))))"

definition nb_uart_recv :: "uart_buffer \<Rightarrow> (u8 \<times> uart_buffer) result" where
  "nb_uart_recv b =
     (if read_pos b = put_pos b then Inr (NB_UART_NRET, b)
      else if \<not> slot_ok (read_pos b) then Inl FAULT
      else Inr (buffer b ! nat (read_pos b), b\<lparr>read_pos := advance (read_pos b)\<rparr>))"

section \<open>Setting up\<close>

text \<open>A shift by a negative number is undefined.\<close>

definition plat_enable_irqno :: "int \<Rightarrow> io \<Rightarrow> io result" where
  "plat_enable_irqno irq d =
     (if irq < 32 then if irq < 0 then Inl FAULT else Inr (put32 BCM2835_IRQ_ENABLE1 (push_bit (nat irq) 1) d)
      else if irq < 64 then Inr (put32 BCM2835_IRQ_ENABLE2 (push_bit (nat (irq - 32)) 1) d)
      else Inr d)"

definition plat_disable_irqno :: "int \<Rightarrow> io \<Rightarrow> io result" where
  "plat_disable_irqno irq d =
     (if irq < 32 then if irq < 0 then Inl FAULT else Inr (put32 BCM2835_IRQ_DISABLE1 (push_bit (nat irq) 1) d)
      else if irq < 64 then Inr (put32 BCM2835_IRQ_DISABLE2 (push_bit (nat (irq - 32)) 1) d)
      else Inr d)"

definition enable_uart_irq :: "int \<Rightarrow> uart \<Rightarrow> uart result" where
  "enable_uart_irq irq_num u =
     (let d = put32 RASPI3_PL011_ICR 0x7FF (dev u);
          d = put32 RASPI3_PL011_IMSC (push_bit 4 1) d;
          d = put32 RASPI3_PL011_IFLS 0 d;
          b = (pl011_buffer u)\<lparr>read_pos := 0, put_pos := 0\<rparr>
      in bindR (plat_enable_irqno irq_num d) (\<lambda>d. Inr (u\<lparr>dev := d, pl011_buffer := b\<rparr>)))"

text \<open>\<open>uart_init\<close>; \<open>delay\<close> only spends time.\<close>

definition uart_init :: "hardware \<Rightarrow> io \<Rightarrow> io result" where
  "uart_init hw d =
     (let (ra, d) = get32 hw GPFSEL1 d;
          ra = (and) ra (not (push_bit 12 7)); ra = (or) ra (push_bit 12 4);
          ra = (and) ra (not (push_bit 15 7)); ra = (or) ra (push_bit 15 4);
          d = put32 GPFSEL1 ra d;
          d = put32 GPPUD 0 d;
          d = put32 GPPUDCLK0 ((or) (push_bit 14 1) (push_bit 15 1)) d;
          d = put32 GPPUDCLK0 0 d;
          d = put32 RASPI3_PL011_CR 0 d;
          d = put32 RASPI3_PL011_IBRD 26 d;
          d = put32 RASPI3_PL011_FBRD 3 d;
          d = put32 RASPI3_PL011_LCRH ((or) (push_bit 4 0) (push_bit 5 3)) d;
          d = put32 RASPI3_PL011_IMSC 0 d;
          d = put32 RASPI3_PL011_CR ((or) 1 ((or) (push_bit 8 1) (push_bit 9 1))) d
      in uart_send_all hw [12, 27, 0x5B, 0x32, 0x4A] d)"

end
