(* ===== verification/Printk.thy ===== *)
theory Printk
  imports Uart
begin

text \<open>
  Formatted output: src/lib/printk.c. A C string is the list of its characters before the
  terminating NUL, so a position in a string is a suffix of the list and the empty list is the
  position of the NUL. The variadic arguments are a list of typed values, and \<open>va_arg\<close> of another
  type or past the last argument is undefined. The union \<open>u\<close> keeps its eight bytes between
  conversions. \<open>pc\<close> is counted without bound. Output buffers do not overlap the strings printed.
\<close>

section \<open>Characters out\<close>

text \<open>Where \<open>out\<close> points: nowhere (the serial port), or into a buffer at a position.\<close>

datatype sink = Serial io | Buffer "char list" nat

definition simple_outputchar :: "hardware \<Rightarrow> char \<Rightarrow> sink \<Rightarrow> sink result" where
  "simple_outputchar hw c out =
     (case out of
        Buffer buf n \<Rightarrow> if n < length buf then Inr (Buffer (buf[n := c]) (n + 1)) else Inl FAULT
      | Serial d \<Rightarrow> bindR (uart_send hw (of_char c) d) (\<lambda>d. Inr (Serial d)))"

definition PAD_ZERO :: int where "PAD_ZERO = 1"
definition PAD_RIGHT :: int where "PAD_RIGHT = 2"
definition PRINT_BUF_LEN :: nat where "PRINT_BUF_LEN = 64"

text \<open>\<open>for (; *string; ++string) { simple_outputchar(out, *string); ++pc; }\<close>\<close>

fun output_string :: "hardware \<Rightarrow> string \<Rightarrow> int \<Rightarrow> sink \<Rightarrow> (int \<times> sink) result" where
  "output_string hw [] pc out = Inr (pc, out)"
| "output_string hw (c # cs) pc out = bindR (simple_outputchar hw c out) (output_string hw cs (pc + 1))"

text \<open>\<open>for (; width > 0; --width) { simple_outputchar(out, padchar); ++pc; }\<close>\<close>

function output_pad :: "hardware \<Rightarrow> char \<Rightarrow> int \<Rightarrow> int \<Rightarrow> sink \<Rightarrow> (int \<times> int \<times> sink) result" where
  "output_pad hw padchar width pc out =
     (if width > 0
      then bindR (simple_outputchar hw padchar out) (output_pad hw padchar (width - 1) (pc + 1))
      else Inr (width, pc, out))"
  by pat_completeness auto
termination by (relation "measure (\<lambda>(_, _, w, _, _). nat w)") auto

declare output_pad.simps [simp del]

definition prints :: "hardware \<Rightarrow> string \<Rightarrow> int \<Rightarrow> int \<Rightarrow> sink \<Rightarrow> (int \<times> sink) result" where
  "prints hw s width flags out =
     (let padchar = if width > 0 \<and> (and) flags PAD_ZERO \<noteq> 0 then CHR ''0'' else CHR '' '';
          len = int (length s);
          width = if width > 0 then if len \<ge> width then 0 else width - len else width
      in bindR (if (and) flags PAD_RIGHT = 0 then output_pad hw padchar width 0 out else Inr (width, 0, out)) (\<lambda>(width, pc, out).
         bindR (output_string hw s pc out) (\<lambda>(pc, out).
         bindR (output_pad hw padchar width pc out) (\<lambda>(_, pc, out). Inr (pc, out)))))"

section \<open>Numbers\<close>

text \<open>\<open>*--s = c\<close> in \<open>print_buf\<close>: \<open>n\<close> bytes lie before \<open>s\<close>, which points to the text \<open>s\<close>.\<close>

definition push_char :: "char \<Rightarrow> nat \<times> string \<Rightarrow> (nat \<times> string) result" where
  "push_char c b = (case b of (n, s) \<Rightarrow> if n = 0 then Inl FAULT else Inr (n - 1, c # s))"

definition digit_char :: "int \<Rightarrow> int \<Rightarrow> char" where
  "digit_char t letbase = char_of ((if t \<ge> 10 then t + (letbase - 48 - 10) else t) + 48)"

text \<open>The loop \<open>while (u)\<close>: every round takes a byte of the buffer.\<close>

function output_digits :: "u64 \<Rightarrow> int \<Rightarrow> int \<Rightarrow> nat \<times> string \<Rightarrow> (nat \<times> string) result" where
  "output_digits u base letbase b =
     (if u = 0 then Inr b
      else if base = 0 then Inl FAULT
      else bindR (push_char (digit_char (sint (ucast (u mod of_int base) :: u32)) letbase) b)
             (output_digits (u div of_int base) base letbase))"
  by pat_completeness auto
termination
  by (relation "measure (\<lambda>(_, _, _, b). fst b)") (auto simp: push_char_def split: prod.splits if_splits)

declare output_digits.simps [simp del]

text \<open>\<open>-i\<close> is undefined for the smallest \<open>long\<close>.\<close>

definition simple_outputi :: "hardware \<Rightarrow> u64 \<Rightarrow> int \<Rightarrow> bool \<Rightarrow> int \<Rightarrow> int \<Rightarrow> int \<Rightarrow> sink \<Rightarrow> (int \<times> sink) result" where
  "simple_outputi hw i base sign width flags letbase out =
     (if i = 0 then prints hw ''0'' width flags out
      else let neg = sign \<and> base = 10 \<and> sint i < 0 in
        if neg \<and> sint i = - (2 ^ 63) then Inl FAULT
        else bindR (output_digits (if neg then - i else i) base letbase (PRINT_BUF_LEN - 1, [])) (\<lambda>b.
          if neg
          then if width \<noteq> 0 \<and> (and) flags PAD_ZERO \<noteq> 0
               then bindR (simple_outputchar hw (CHR ''-'') out) (\<lambda>out.
                    bindR (prints hw (snd b) (width - 1) flags out) (\<lambda>(pc, out). Inr (pc + 1, out)))
               else bindR (push_char (CHR ''-'') b) (\<lambda>b. prints hw (snd b) width flags out)
          else prints hw (snd b) width flags out))"

section \<open>Arguments and the union\<close>

text \<open>Arguments after the default promotions: an \<open>int\<close> or \<open>unsigned\<close>, a \<open>long\<close> or an address, a
  pointer with the string it points to.\<close>

datatype va = Va_int u32 | Va_long u64 | Va_str u64 string

record printer =
  out :: sink
  ap :: "va list"
  union :: u64
  pc :: int

definition va_int :: "printer \<Rightarrow> (u32 \<times> printer) result" where
  "va_int p = (case ap p of Va_int x # xs \<Rightarrow> Inr (x, p\<lparr>ap := xs\<rparr>) | _ \<Rightarrow> Inl FAULT)"

definition va_long :: "printer \<Rightarrow> (u64 \<times> printer) result" where
  "va_long p = (case ap p of Va_long x # xs \<Rightarrow> Inr (x, p\<lparr>ap := xs\<rparr>) | _ \<Rightarrow> Inl FAULT)"

definition va_str :: "printer \<Rightarrow> (u64 \<times> string \<times> printer) result" where
  "va_str p = (case ap p of Va_str a s # xs \<Rightarrow> Inr (a, s, p\<lparr>ap := xs\<rparr>) | _ \<Rightarrow> Inl FAULT)"

text \<open>Storing a member of \<open>n\<close> bits.\<close>

definition set_union :: "nat \<Rightarrow> u64 \<Rightarrow> printer \<Rightarrow> printer" where
  "set_union n v p = p\<lparr>union := (or) ((and) (union p) (not (mask n))) (take_bit n v)\<rparr>"

definition add_pc :: "(sink \<Rightarrow> (int \<times> sink) result) \<Rightarrow> printer \<Rightarrow> printer result" where
  "add_pc f p = bindR (f (out p)) (\<lambda>(n, out). Inr (p\<lparr>out := out, pc := pc p + n\<rparr>))"

text \<open>A conversion of an integer argument: fetch it, store it in the union, print the value passed.\<close>

definition conv_i :: "hardware \<Rightarrow> int \<Rightarrow> bool \<Rightarrow> int \<Rightarrow> int \<Rightarrow> int \<Rightarrow> printer \<Rightarrow> printer result" where
  "conv_i hw base sign width flags letbase p =
     bindR (va_int p) (\<lambda>(x, p).
     add_pc (simple_outputi hw (if sign then scast x else ucast x) base sign width flags letbase) (set_union 32 (ucast x) p))"

definition conv_l :: "hardware \<Rightarrow> int \<Rightarrow> bool \<Rightarrow> int \<Rightarrow> int \<Rightarrow> int \<Rightarrow> printer \<Rightarrow> printer result" where
  "conv_l hw base sign width flags letbase p =
     bindR (va_long p) (\<lambda>(x, p).
     add_pc (simple_outputi hw x base sign width flags letbase) (set_union 64 x p))"

text \<open>The short conversions: the signed ones pass the member stored, the unsigned ones \<open>u.lli\<close>.\<close>

definition conv_hd :: "hardware \<Rightarrow> int \<Rightarrow> int \<Rightarrow> printer \<Rightarrow> printer result" where
  "conv_hd hw width flags p =
     bindR (va_int p) (\<lambda>(x, p).
     add_pc (simple_outputi hw (scast (ucast x :: 16 word)) 10 True width flags 97) (set_union 16 (ucast x) p))"

definition conv_hhd :: "hardware \<Rightarrow> int \<Rightarrow> int \<Rightarrow> printer \<Rightarrow> printer result" where
  "conv_hhd hw width flags p =
     bindR (va_int p) (\<lambda>(x, p).
     add_pc (simple_outputi hw (scast (ucast x :: u8)) 10 True width flags 97) (set_union 8 (ucast x) p))"

definition conv_hu :: "hardware \<Rightarrow> nat \<Rightarrow> int \<Rightarrow> int \<Rightarrow> int \<Rightarrow> int \<Rightarrow> printer \<Rightarrow> printer result" where
  "conv_hu hw bits base width flags letbase p =
     bindR (va_int p) (\<lambda>(x, p). let p = set_union bits (ucast x) p in
     add_pc (simple_outputi hw (union p) base False width flags letbase) p)"

definition conv_c :: "hardware \<Rightarrow> int \<Rightarrow> int \<Rightarrow> printer \<Rightarrow> printer result" where
  "conv_c hw width flags p =
     bindR (va_int p) (\<lambda>(x, p).
     let c = (ucast x :: u8) in
     add_pc (prints hw (if c = 0 then [] else [char_of (unat c)]) width flags) (set_union 8 (ucast x) p))"

definition conv_s :: "hardware \<Rightarrow> int \<Rightarrow> int \<Rightarrow> printer \<Rightarrow> printer result" where
  "conv_s hw width flags p =
     bindR (va_str p) (\<lambda>(a, s, p).
     add_pc (prints hw (if a \<noteq> NULL then s else ''(null)'') width flags) (set_union 64 a p))"

section \<open>The format\<close>

text \<open>\<open>*format\<close>\<close>

definition cur :: "string \<Rightarrow> char" where
  "cur fmt = (case fmt of [] \<Rightarrow> CHR 0x00 | c # _ \<Rightarrow> c)"

text \<open>The switches over the conversion letter, with the position of the last character looked at.\<close>

definition convert_ll :: "hardware \<Rightarrow> int \<Rightarrow> int \<Rightarrow> string \<Rightarrow> printer \<Rightarrow> (string \<times> printer) result" where
  "convert_ll hw width flags fmt p =
     bindR
      (if cur fmt = CHR ''d'' then conv_l hw 10 True width flags 97 p
       else if cur fmt = CHR ''u'' then conv_l hw 10 False width flags 97 p
       else if cur fmt = CHR ''x'' then conv_l hw 16 False width flags 97 p
       else if cur fmt = CHR ''X'' then conv_l hw 16 False width flags 65 p
       else Inr p) (\<lambda>p. Inr (fmt, p))"

definition convert_l :: "hardware \<Rightarrow> int \<Rightarrow> int \<Rightarrow> string \<Rightarrow> printer \<Rightarrow> (string \<times> printer) result" where
  "convert_l hw width flags fmt p =
     (if cur fmt = CHR ''l'' then convert_ll hw width flags (tl fmt) p
      else bindR
       (if cur fmt = CHR ''d'' then conv_l hw 10 True width flags 97 p
        else if cur fmt = CHR ''u'' then conv_l hw 10 False width flags 97 p
        else if cur fmt = CHR ''x'' then conv_l hw 16 False width flags 97 p
        else if cur fmt = CHR ''X'' then conv_l hw 16 False width flags 65 p
        else Inr p) (\<lambda>p. Inr (fmt, p)))"

definition convert_hh :: "hardware \<Rightarrow> int \<Rightarrow> int \<Rightarrow> string \<Rightarrow> printer \<Rightarrow> (string \<times> printer) result" where
  "convert_hh hw width flags fmt p =
     bindR
      (if cur fmt = CHR ''d'' then conv_hhd hw width flags p
       else if cur fmt = CHR ''u'' then conv_hu hw 8 10 width flags 97 p
       else if cur fmt = CHR ''x'' then conv_hu hw 8 16 width flags 97 p
       else if cur fmt = CHR ''X'' then conv_hu hw 8 16 width flags 65 p
       else Inr p) (\<lambda>p. Inr (fmt, p))"

definition convert_h :: "hardware \<Rightarrow> int \<Rightarrow> int \<Rightarrow> string \<Rightarrow> printer \<Rightarrow> (string \<times> printer) result" where
  "convert_h hw width flags fmt p =
     (if cur fmt = CHR ''h'' then convert_hh hw width flags (tl fmt) p
      else bindR
       (if cur fmt = CHR ''d'' then conv_hd hw width flags p
        else if cur fmt = CHR ''u'' then conv_hu hw 16 10 width flags 97 p
        else if cur fmt = CHR ''x'' then conv_hu hw 16 16 width flags 97 p
        else if cur fmt = CHR ''X'' then conv_hu hw 16 16 width flags 65 p
        else Inr p) (\<lambda>p. Inr (fmt, p)))"

definition convert :: "hardware \<Rightarrow> int \<Rightarrow> int \<Rightarrow> string \<Rightarrow> printer \<Rightarrow> (string \<times> printer) result" where
  "convert hw width flags fmt p =
     (if cur fmt = CHR ''l'' then convert_l hw width flags (tl fmt) p
      else if cur fmt = CHR ''h'' then convert_h hw width flags (tl fmt) p
      else bindR
       (if cur fmt = CHR ''d'' then conv_i hw 10 True width flags 97 p
        else if cur fmt = CHR ''b'' then conv_i hw 2 True width flags 97 p
        else if cur fmt = CHR ''u'' then conv_i hw 10 False width flags 97 p
        else if cur fmt = CHR ''p'' then conv_l hw 16 False width flags 97 p
        else if cur fmt = CHR ''x'' then conv_i hw 16 False width flags 97 p
        else if cur fmt = CHR ''X'' then conv_i hw 16 False width flags 65 p
        else if cur fmt = CHR ''c'' then conv_c hw width flags p
        else if cur fmt = CHR ''s'' then conv_s hw width flags p
        else Inr p) (\<lambda>p. Inr (fmt, p)))"

text \<open>Flags and width. \<open>width\<close> is an \<open>int\<close>, whose overflow is undefined.\<close>

fun pad_zeros :: "string \<Rightarrow> int \<Rightarrow> string \<times> int" where
  "pad_zeros (c # fmt) flags = (if c = CHR ''0'' then pad_zeros fmt ((or) flags PAD_ZERO) else (c # fmt, flags))"
| "pad_zeros [] flags = ([], flags)"

definition parse_flags :: "string \<Rightarrow> string \<times> int" where
  "parse_flags fmt = (if cur fmt = CHR ''-'' then pad_zeros (tl fmt) PAD_RIGHT else pad_zeros fmt 0)"

fun parse_digits :: "string \<Rightarrow> int \<Rightarrow> (string \<times> int) result" where
  "parse_digits (c # fmt) width =
     (if 48 \<le> (of_char c :: int) \<and> (of_char c :: int) \<le> 57
      then let width = width * 10 + (of_char c - 48) in
           if width \<ge> 2 ^ 31 then Inl FAULT else parse_digits fmt width
      else Inr (c # fmt, width))"
| "parse_digits [] width = Inr ([], width)"

definition parse_width :: "string \<Rightarrow> printer \<Rightarrow> (string \<times> int \<times> printer) result" where
  "parse_width fmt p =
     (if cur fmt = CHR ''*'' then bindR (va_int p) (\<lambda>(x, p). Inr (tl fmt, sint x, p))
      else bindR (parse_digits fmt 0) (\<lambda>(fmt, width). Inr (fmt, width, p)))"

text \<open>The label \<open>out\<close>: the character, a newline with a carriage return before it.\<close>

definition output_plain :: "hardware \<Rightarrow> char \<Rightarrow> printer \<Rightarrow> printer result" where
  "output_plain hw c p =
     bindR (if c = CHR 0x0A then simple_outputchar hw (CHR 0x0D) (out p) else Inr (out p)) (\<lambda>d.
     bindR (simple_outputchar hw c d) (\<lambda>d. Inr (p\<lparr>out := d, pc := pc p + 1\<rparr>)))"

text \<open>One conversion after its \<open>%\<close>, up to the \<open>++format\<close> of the loop; at the NUL that step leaves the string.\<close>

definition directive :: "hardware \<Rightarrow> string \<Rightarrow> printer \<Rightarrow> (string \<times> printer) result" where
  "directive hw fmt p =
     (let (fmt, flags) = parse_flags fmt in
      bindR (parse_width fmt p) (\<lambda>(fmt, width, p).
      bindR (convert hw width flags fmt p) (\<lambda>(fmt, p).
      case fmt of [] \<Rightarrow> Inl FAULT | _ # fmt \<Rightarrow> Inr (fmt, p))))"

lemma pad_zeros_length: "length (fst (pad_zeros fmt flags)) \<le> length fmt"
  by (induction fmt flags rule: pad_zeros.induct) auto

lemma parse_digits_length: "parse_digits fmt w = Inr (fmt', w') \<Longrightarrow> length fmt' \<le> length fmt"
  by (induction fmt w rule: parse_digits.induct) (auto simp: Let_def split: if_splits)

lemma parse_flags_length: "parse_flags fmt = (fmt', flags) \<Longrightarrow> length fmt' \<le> length fmt"
  using pad_zeros_length [of "tl fmt" PAD_RIGHT] pad_zeros_length [of fmt 0]
  by (auto simp: parse_flags_def split: if_splits)

lemma parse_width_length: "parse_width fmt p = Inr (fmt', w, p') \<Longrightarrow> length fmt' \<le> length fmt"
  by (auto simp: parse_width_def kerr_simps parse_digits_length split: if_splits)

lemmas convert_defs = convert_def convert_l_def convert_ll_def convert_h_def convert_hh_def

lemma convert_length: "convert hw w flags fmt p = Inr (fmt', p') \<Longrightarrow> length fmt' \<le> length fmt"
  by (auto simp: convert_defs bindR_Inr split: if_splits)

lemma directive_length:
  assumes "directive hw fmt p = Inr (fmt', p')"
  shows "length fmt' < length fmt"
proof -
  obtain f1 flags f2 w p2 f3 p3 where
    steps: "parse_flags fmt = (f1, flags)" "parse_width f1 p = Inr (f2, w, p2)" "convert hw w flags f2 p2 = Inr (f3, p3)"
    and tail: "(case f3 of [] \<Rightarrow> Inl FAULT | _ # f \<Rightarrow> Inr (f, p3)) = Inr (fmt', p')"
    using assms by (auto simp: directive_def bindR_Inr split: prod.splits)
  have "f3 \<noteq> []" "fmt' = tl f3" using tail by (auto split: list.splits)
  then have "length fmt' < length f3" by simp
  then show ?thesis
    using parse_flags_length [OF steps(1)] parse_width_length [OF steps(2)] convert_length [OF steps(3)] by simp
qed

function vsprintf_loop :: "hardware \<Rightarrow> string \<Rightarrow> printer \<Rightarrow> printer result" where
  "vsprintf_loop hw [] p = Inr p"
| "vsprintf_loop hw (c # fmt) p =
     (if c = CHR ''%''
      then if fmt = [] then Inr p
           else if cur fmt = CHR ''%'' then bindR (output_plain hw (cur fmt) p) (vsprintf_loop hw (tl fmt))
           else bindR (directive hw fmt p) (\<lambda>(fmt, p). vsprintf_loop hw fmt p)
      else bindR (output_plain hw c p) (vsprintf_loop hw fmt))"
  by pat_completeness auto
termination
  by (relation "measure (\<lambda>(_, fmt, _). length fmt)") (auto dest!: directive_length)

text \<open>\<open>if (out) **out = '\0';\<close> and the number of characters.\<close>

definition simple_vsprintf :: "hardware \<Rightarrow> string \<Rightarrow> printer \<Rightarrow> (int \<times> sink) result" where
  "simple_vsprintf hw fmt p =
     bindR (vsprintf_loop hw fmt (p\<lparr>pc := 0\<rparr>)) (\<lambda>p.
     case out p of
       Buffer buf n \<Rightarrow> if n < length buf then Inr (pc p, Buffer (buf[n := CHR 0x00]) n) else Inl FAULT
     | Serial d \<Rightarrow> Inr (pc p, out p))"

text \<open>The union is not initialised: its first contents are a parameter.\<close>

definition printk :: "hardware \<Rightarrow> u64 \<Rightarrow> string \<Rightarrow> va list \<Rightarrow> io \<Rightarrow> io result" where
  "printk hw u0 fmt args d =
     bindR (simple_vsprintf hw fmt \<lparr>out = Serial d, ap = args, union = u0, pc = 0\<rparr>)
       (\<lambda>(_, out). case out of Serial d \<Rightarrow> Inr d | Buffer _ _ \<Rightarrow> Inl FAULT)"

end
