(* ===== verification/Ring_Queue.thy ===== *)
theory Ring_Queue
  imports KPrelude
begin

text \<open>
  The contract of a bounded queue that drops its oldest element when it is full, the interface the
  receive buffer of the serial port offers: what is put in comes out in order, a read of the empty
  queue answers a value of its own, and nothing is lost while the reader keeps up.
\<close>

section \<open>Events and their specification\<close>

datatype 'a qevent = Put 'a | Get

fun queue_run :: "('a \<Rightarrow> 'q \<Rightarrow> 'q result) \<Rightarrow> ('q \<Rightarrow> ('a \<times> 'q) result) \<Rightarrow> 'a qevent list \<Rightarrow> 'q \<Rightarrow> ('a list \<times> 'q) result" where
  "queue_run put get [] q = Inr ([], q)"
| "queue_run put get (Put x # es) q = bindR (put x q) (queue_run put get es)"
| "queue_run put get (Get # es) q =
     bindR (get q) (\<lambda>(y, q). bindR (queue_run put get es q) (\<lambda>(ys, q). Inr (y # ys, q)))"

definition keep_last :: "nat \<Rightarrow> 'a list \<Rightarrow> 'a list" where
  "keep_last n xs = drop (length xs - n) xs"

fun spec_run :: "nat \<Rightarrow> 'a qevent list \<Rightarrow> 'a list \<Rightarrow> 'a option list \<times> 'a list" where
  "spec_run cap [] xs = ([], xs)"
| "spec_run cap (Put x # es) xs = spec_run cap es (keep_last cap (xs @ [x]))"
| "spec_run cap (Get # es) [] = (let (ys, zs) = spec_run cap es [] in (None # ys, zs))"
| "spec_run cap (Get # es) (x # xs) = (let (ys, zs) = spec_run cap es xs in (Some x # ys, zs))"

text \<open>The elements put in, the elements delivered, and that the reader keeps up.\<close>

fun inputs :: "'a qevent list \<Rightarrow> 'a list" where
  "inputs [] = []"
| "inputs (Put x # es) = x # inputs es"
| "inputs (Get # es) = inputs es"

fun delivered :: "'a option list \<Rightarrow> 'a list" where
  "delivered [] = []"
| "delivered (None # ys) = delivered ys"
| "delivered (Some y # ys) = y # delivered ys"

fun keeps_up :: "nat \<Rightarrow> nat \<Rightarrow> 'a qevent list \<Rightarrow> bool" where
  "keeps_up cap n [] = True"
| "keeps_up cap n (Put x # es) = (n < cap \<and> keeps_up cap (n + 1) es)"
| "keeps_up cap n (Get # es) = keeps_up cap (n - 1) es"

lemma keep_last_fits [simp]: "length xs \<le> n \<Longrightarrow> keep_last n xs = xs"
  by (simp add: keep_last_def)

lemma length_keep_last [simp]: "length (keep_last n xs) = min n (length xs)"
  by (simp add: keep_last_def)

lemma spec_run_fifo:
  "keeps_up cap (length xs) es \<Longrightarrow> delivered (fst (spec_run cap es xs)) @ snd (spec_run cap es xs) = xs @ inputs es"
  by (induction cap es xs rule: spec_run.induct) (auto simp: split_beta)

lemma spec_run_bound: "length xs \<le> cap \<Longrightarrow> length (snd (spec_run cap es xs)) \<le> cap"
  by (induction cap es xs rule: spec_run.induct) (auto simp: split_beta)

section \<open>The contract\<close>

locale drop_oldest_queue =
  fixes contents :: "'q \<Rightarrow> 'a list"
    and invar :: "'q \<Rightarrow> bool"
    and put :: "'a \<Rightarrow> 'q \<Rightarrow> 'q result"
    and get :: "'q \<Rightarrow> ('a \<times> 'q) result"
    and nret :: 'a
    and cap :: nat
  assumes put_spec: "invar q \<Longrightarrow> \<exists>q'. put x q = Inr q' \<and> invar q' \<and> contents q' = keep_last cap (contents q @ [x])"
    and get_empty: "invar q \<Longrightarrow> contents q = [] \<Longrightarrow> get q = Inr (nret, q)"
    and get_next: "invar q \<Longrightarrow> contents q = x # xs \<Longrightarrow> \<exists>q'. get q = Inr (x, q') \<and> invar q' \<and> contents q' = xs"
begin

lemma run_refines:
  assumes "invar q"
  shows "\<exists>q'. queue_run put get es q = Inr (map (case_option nret (\<lambda>x. x)) (fst (spec_run cap es (contents q))), q') \<and>
    invar q' \<and> contents q' = snd (spec_run cap es (contents q))"
  using assms
proof (induction es arbitrary: q)
  case (Cons e es)
  show ?case
  proof (cases e)
    case (Put x)
    then show ?thesis using put_spec [OF Cons.prems, of x] Cons.IH by fastforce
  next
    case Get
    show ?thesis
    proof (cases "contents q")
      case Nil
      then show ?thesis using Get get_empty [OF Cons.prems] Cons.IH [OF Cons.prems] by (auto simp: split_beta)
    next
      case (Cons y ys)
      obtain q1 where "get q = Inr (y, q1)" "invar q1" "contents q1 = ys" using get_next [OF \<open>invar q\<close> Cons] by blast
      then show ?thesis using Get Cons Cons.IH [of q1] by (auto simp: split_beta)
    qed
  qed
qed simp

end

end
