(* ===== verification/Uart_Props.thy ===== *)
theory Uart_Props
  imports Uart Ring_Queue
begin

text \<open>
  Correctness of the serial port driver: the receive buffer implements the bounded queue of
  Ring_Queue with room for 15 characters, the interrupt handler echoes and stores what arrives, and
  sending waits for the transmit FIFO.
\<close>

section \<open>The receive buffer as a list\<close>

definition window :: "'a list \<Rightarrow> int \<Rightarrow> nat \<Rightarrow> 'a list" where
  "window buf r f = map (\<lambda>i. buf ! nat ((r + int i) mod UART_BUF_LEN)) [0..<f]"

definition filled :: "uart_buffer \<Rightarrow> nat" where
  "filled b = nat ((put_pos b - read_pos b) mod UART_BUF_LEN)"

definition contents :: "uart_buffer \<Rightarrow> u8 list" where
  "contents b = window (buffer b) (read_pos b) (filled b)"

definition ring_ok :: "uart_buffer \<Rightarrow> bool" where
  "ring_ok b \<longleftrightarrow> length (buffer b) = nat UART_BUF_LEN \<and> slot_ok (read_pos b) \<and> slot_ok (put_pos b)"

lemma advance_mod: "slot_ok p \<Longrightarrow> advance p = (p + 1) mod UART_BUF_LEN"
  by (auto simp: advance_def slot_ok_def UART_BUF_LEN_def)

lemma slot_ok_advance: "slot_ok p \<Longrightarrow> slot_ok (advance p)"
  by (auto simp: advance_def slot_ok_def UART_BUF_LEN_def)

lemma length_window [simp]: "length (window buf r f) = f"
  by (simp add: window_def)

lemma window_mod: "window buf (r mod UART_BUF_LEN) f = window buf r f"
  by (simp add: window_def mod_add_left_eq)

lemma window_snoc: "window buf r (Suc f) = window buf r f @ [buf ! nat ((r + int f) mod UART_BUF_LEN)]"
  by (simp add: window_def)

lemma window_Cons: "window buf r (Suc f) = buf ! nat (r mod UART_BUF_LEN) # window buf (r + 1) f"
proof -
  have "[0..<Suc f] = 0 # map Suc [0..<f]" by (simp add: upt_conv_Cons map_Suc_upt del: upt_Suc)
  then show ?thesis by (simp add: window_def ac_simps del: upt_Suc)
qed

lemma window_update:
  assumes "f < nat UART_BUF_LEN"
  shows "window (buf[nat ((r + int f) mod UART_BUF_LEN) := c]) r f = window buf r f"
proof -
  have "nat ((r + int f) mod UART_BUF_LEN) \<noteq> nat ((r + int i) mod UART_BUF_LEN)" if "i < f" for i
  proof
    assume "nat ((r + int f) mod UART_BUF_LEN) = nat ((r + int i) mod UART_BUF_LEN)"
    then have "(r + int f) mod UART_BUF_LEN = (r + int i) mod UART_BUF_LEN" by (simp add: UART_BUF_LEN_def)
    then have "UART_BUF_LEN dvd int f - int i" by (simp add: mod_eq_dvd_iff)
    then show False using zdvd_not_zless [of "int f - int i" UART_BUF_LEN] that assms by (simp add: UART_BUF_LEN_def)
  qed
  then show ?thesis by (simp add: window_def)
qed

lemma filled_bound: "filled b < nat UART_BUF_LEN"
  by (simp add: filled_def UART_BUF_LEN_def nat_less_iff)

lemma put_pos_filled: "ring_ok b \<Longrightarrow> put_pos b = (read_pos b + int (filled b)) mod UART_BUF_LEN"
  by (simp add: ring_ok_def filled_def slot_ok_def UART_BUF_LEN_def mod_add_right_eq)

text \<open>Positions as they wrap around, without \<open>mod\<close>.\<close>

lemma wrap_diff:
  assumes "slot_ok p" "slot_ok r"
  shows "(p - r) mod UART_BUF_LEN = (if r \<le> p then p - r else p - r + 16)"
proof (cases "r \<le> p")
  case False
  then have "(p - r + 16) mod 16 = p - r + 16" using assms by (intro mod_pos_pos_trivial) (auto simp: slot_ok_def UART_BUF_LEN_def)
  then show ?thesis using False by (simp add: UART_BUF_LEN_def)
qed (use assms in \<open>simp add: slot_ok_def UART_BUF_LEN_def\<close>)

lemma filled_eq:
  assumes "slot_ok (put_pos b)" "slot_ok (read_pos b)"
  shows "filled b = nat (if read_pos b \<le> put_pos b then put_pos b - read_pos b else put_pos b - read_pos b + 16)"
  by (simp add: filled_def wrap_diff [OF assms])

lemma read_put_eq: "ring_ok b \<Longrightarrow> read_pos b = put_pos b \<longleftrightarrow> filled b = 0"
  by (auto simp: ring_ok_def filled_eq) (auto simp: slot_ok_def UART_BUF_LEN_def)

lemma filled_empty: "filled b = 0 \<longleftrightarrow> contents b = []"
  by (simp add: contents_def flip: length_0_conv)

lemma put_input_correct:
  assumes "ring_ok b"
  shows "\<exists>b'. put_input c b = Inr b' \<and> ring_ok b' \<and> contents b' = keep_last 15 (contents b @ [c])"
proof -
  define f r where "f = filled b" and "r = read_pos b"
  define buf where "buf = (buffer b)[nat (put_pos b) := c]"
  have p: "put_pos b = (r + int f) mod UART_BUF_LEN" using put_pos_filled [OF assms] by (simp add: f_def r_def)
  have f: "f < 16" using filled_bound [of b] by (simp add: f_def UART_BUF_LEN_def)
  have slots: "slot_ok r" "slot_ok (put_pos b)" "length (buffer b) = 16"
    using assms by (simp_all add: ring_ok_def r_def UART_BUF_LEN_def)
  have p': "advance (put_pos b) = (r + int f + 1) mod UART_BUF_LEN"
    using advance_mod [OF slots(2)] p by (simp add: mod_add_left_eq)
  have buf: "window buf r (Suc f) = contents b @ [c]"
    using window_update [of f "buffer b" r c] f slots
    by (simp add: window_snoc buf_def p contents_def f_def r_def UART_BUF_LEN_def nat_less_iff)
  let ?b = "b\<lparr>buffer := buf, put_pos := advance (put_pos b)\<rparr>"
  have put: "put_input c b = Inr (if r = advance (put_pos b) then ?b\<lparr>read_pos := advance r\<rparr> else ?b)"
    using slots by (simp add: put_input_def buf_def r_def)
  have ok: "ring_ok ?b" "ring_ok (?b\<lparr>read_pos := advance r\<rparr>)"
    using slots by (simp_all add: ring_ok_def slot_ok_advance buf_def r_def UART_BUF_LEN_def)
  have len: "length (contents b) = f" by (simp add: contents_def f_def)
  have fr: "f = nat (if r \<le> put_pos b then put_pos b - r else put_pos b - r + 16)"
    using slots filled_eq [of b] by (simp add: f_def r_def)
  have full: "r = advance (put_pos b) \<longleftrightarrow> f = 15"
    using slots unfolding fr advance_def slot_ok_def UART_BUF_LEN_def by (auto split: if_splits)
  show ?thesis
  proof (cases "f = 15")
    case True
    have "filled (?b\<lparr>read_pos := advance r\<rparr>) = f"
      using True full filled_eq [of "?b\<lparr>read_pos := advance r\<rparr>"] slots slot_ok_advance [OF slots(2)] slot_ok_advance [OF slots(1)]
      by (auto simp: advance_def slot_ok_def UART_BUF_LEN_def split: if_splits)
    then have "contents (?b\<lparr>read_pos := advance r\<rparr>) = window buf (r + 1) f"
      using advance_mod [OF slots(1)] by (simp add: contents_def window_mod)
    also have "\<dots> = keep_last 15 (contents b @ [c])"
      using True buf len window_Cons [of buf r f] by (simp add: keep_last_def)
    finally show ?thesis using put ok(2) True full by simp
  next
    case False
    then have "r \<noteq> advance (put_pos b)" using full by simp
    then have "filled ?b = Suc f"
      using slots filled_eq [of ?b] slot_ok_advance [OF slots(2)]
      unfolding fr advance_def slot_ok_def UART_BUF_LEN_def r_def by (auto split: if_splits)
    then have "contents ?b = window buf r (Suc f)" by (simp add: contents_def r_def)
    then show ?thesis using put ok(1) False full buf len f by simp
  qed
qed

lemma nb_uart_recv_empty: "ring_ok b \<Longrightarrow> contents b = [] \<Longrightarrow> nb_uart_recv b = Inr (NB_UART_NRET, b)"
  by (simp add: nb_uart_recv_def read_put_eq filled_empty)

lemma nb_uart_recv_next:
  assumes "ring_ok b" "contents b = x # xs"
  shows "\<exists>b'. nb_uart_recv b = Inr (x, b') \<and> ring_ok b' \<and> contents b' = xs"
proof -
  obtain f where f: "filled b = Suc f" using assms(2) by (cases "filled b") (auto simp: contents_def window_def)
  define r where "r = read_pos b"
  have r: "slot_ok r" using assms(1) by (simp add: ring_ok_def r_def)
  let ?b = "b\<lparr>read_pos := advance r\<rparr>"
  have x: "x = buffer b ! nat r" "xs = window (buffer b) (r + 1) f"
    using assms(2) f r by (simp_all add: contents_def r_def window_Cons slot_ok_def)
  have "nb_uart_recv b = Inr (x, ?b)"
    using f r x(1) read_put_eq [OF assms(1)] by (simp add: nb_uart_recv_def r_def)
  moreover have "ring_ok ?b" using assms(1) r by (simp add: ring_ok_def slot_ok_advance)
  moreover have "filled ?b = f"
    using f assms(1) filled_eq [of b] filled_eq [of ?b] slot_ok_advance [OF r]
    unfolding advance_def slot_ok_def UART_BUF_LEN_def r_def ring_ok_def by (auto split: if_splits)
  then have "contents ?b = xs" using x(2) advance_mod [OF r] by (simp add: contents_def window_mod)
  ultimately show ?thesis by blast
qed

interpretation uart_queue: drop_oldest_queue contents ring_ok put_input nb_uart_recv NB_UART_NRET 15
  by unfold_locales (simp_all add: put_input_correct nb_uart_recv_empty nb_uart_recv_next)

section \<open>Interrupts and readers\<close>

text \<open>A run of the driver: interrupts (\<open>Put ()\<close>) and calls of \<open>nb_uart_recv\<close> (\<open>Get\<close>).\<close>

fun uart_run :: "hardware \<Rightarrow> unit qevent list \<Rightarrow> uart \<Rightarrow> (u8 list \<times> uart) result" where
  "uart_run hw [] u = Inr ([], u)"
| "uart_run hw (Put _ # es) u = bindR (uart_irq_handler hw u) (uart_run hw es)"
| "uart_run hw (Get # es) u =
     bindR (nb_uart_recv (pl011_buffer u)) (\<lambda>(c, b).
     bindR (uart_run hw es (u\<lparr>pl011_buffer := b\<rparr>)) (\<lambda>(cs, u). Inr (c # cs, u)))"

fun with_input :: "unit qevent list \<Rightarrow> 'a list \<Rightarrow> 'a qevent list" where
  "with_input (Put _ # es) (c # cs) = Put c # with_input es cs"
| "with_input (Get # es) cs = Get # with_input es cs"
| "with_input _ _ = []"

text \<open>The transmit FIFO has room again and again.\<close>

definition drains :: "hardware \<Rightarrow> bool" where
  "drains hw \<longleftrightarrow> (\<forall>n. \<exists>k \<ge> n. (and) (hw RASPI3_PL011_FR k) (push_bit 5 1) = 0)"

definition byte_read :: "hardware \<Rightarrow> nat \<Rightarrow> u8" where
  "byte_read hw k = ucast ((and) (hw RASPI3_PL011_DR k) 0xFF)"

definition echo :: "u8 list \<Rightarrow> (u64 \<times> u32) list" where
  "echo cs = map (\<lambda>c. (RASPI3_PL011_DR, ucast c)) cs"

lemma echo_simps [simp]: "echo [] = []" "echo (c # cs) = (RASPI3_PL011_DR, ucast c) # echo cs"
  by (simp_all add: echo_def)

lemma uart_send_drains:
  assumes "drains hw"
  shows "\<exists>k. uart_send hw c d = Inr (put32 RASPI3_PL011_DR (ucast c) (d\<lparr>reads := reads d + k + 1\<rparr>))"
proof -
  obtain k where "reads d \<le> k" "(and) (hw RASPI3_PL011_FR k) (push_bit 5 1) = 0"
    using assms by (auto simp: drains_def)
  then have "wait_while hw RASPI3_PL011_FR (push_bit 5 1) d \<noteq> None"
    unfolding wait_while_iff by (intro exI [of _ "k - reads d"]) simp
  then show ?thesis using wait_while_result [of hw RASPI3_PL011_FR "push_bit 5 1" d] by (auto simp: uart_send_def)
qed

interpretation pl011: serial_line uart_send RASPI3_PL011_DR drains
  by unfold_locales (use uart_send_drains in blast)

lemma uart_irq_handler_correct:
  assumes "drains hw" "ring_ok (pl011_buffer u)"
  obtains u' where "uart_irq_handler hw u = Inr u'" "ring_ok (pl011_buffer u')" "reads (dev u) < reads (dev u')"
    "contents (pl011_buffer u') = keep_last 15 (contents (pl011_buffer u) @ [byte_read hw (reads (dev u))])"
    "writes (dev u') = writes (dev u) @ echo [byte_read hw (reads (dev u))]"
proof -
  define c where "c = byte_read hw (reads (dev u))"
  define d where "d = (dev u)\<lparr>reads := reads (dev u) + 1\<rparr>"
  obtain k where k: "uart_send hw c d = Inr (put32 RASPI3_PL011_DR (ucast c) (d\<lparr>reads := reads d + k + 1\<rparr>))"
    using uart_send_drains [OF assms(1)] by blast
  obtain b where b: "put_input c (pl011_buffer u) = Inr b" "ring_ok b" "contents b = keep_last 15 (contents (pl011_buffer u) @ [c])"
    using put_input_correct [OF assms(2)] by blast
  have "uart_irq_handler hw u = Inr (u\<lparr>dev := put32 RASPI3_PL011_DR (ucast c) (d\<lparr>reads := reads d + k + 1\<rparr>), pl011_buffer := b\<rparr>)"
    using k b(1) by (simp add: uart_irq_handler_def get32_def byte_read_def c_def d_def Let_def)
  then show ?thesis using that [of "u\<lparr>dev := put32 RASPI3_PL011_DR (ucast c) (d\<lparr>reads := reads d + k + 1\<rparr>), pl011_buffer := b\<rparr>"] b
    by (simp add: d_def flip: c_def)
qed

definition served :: "hardware \<Rightarrow> unit qevent list \<Rightarrow> uart \<Rightarrow> nat list \<Rightarrow> u8 option list \<Rightarrow> uart \<Rightarrow> bool" where
  "served hw es u ks ans u' \<longleftrightarrow>
     (let ins = map (byte_read hw) ks in
      uart_run hw es u = Inr (map (case_option NB_UART_NRET (\<lambda>c. c)) ans, u') \<and>
      length ks = length (inputs es) \<and> sorted_wrt (<) ks \<and> (\<forall>k \<in> set ks. reads (dev u) \<le> k) \<and>
      spec_run 15 (with_input es ins) (contents (pl011_buffer u)) = (ans, contents (pl011_buffer u')) \<and>
      ring_ok (pl011_buffer u') \<and> writes (dev u') = writes (dev u) @ echo ins)"

lemma served_irq:
  assumes "uart_irq_handler hw u = Inr u1" "reads (dev u) < reads (dev u1)"
    "contents (pl011_buffer u1) = keep_last 15 (contents (pl011_buffer u) @ [byte_read hw (reads (dev u))])"
    "writes (dev u1) = writes (dev u) @ echo [byte_read hw (reads (dev u))]"
    "served hw es u1 ks ans u'"
  shows "served hw (Put () # es) u (reads (dev u) # ks) ans u'"
proof -
  have "\<forall>k \<in> set ks. reads (dev u) < k" using assms(2,5) by (auto simp: served_def Let_def)
  then show ?thesis using assms by (auto simp: served_def Let_def)
qed

lemma served_recv:
  assumes "ring_ok (pl011_buffer u)" "nb_uart_recv (pl011_buffer u) = Inr (case_option NB_UART_NRET (\<lambda>c. c) a, b)"
    "case a of None \<Rightarrow> contents (pl011_buffer u) = [] \<and> contents b = [] | Some x \<Rightarrow> contents (pl011_buffer u) = x # contents b"
    "served hw es (u\<lparr>pl011_buffer := b\<rparr>) ks ans u'"
  shows "served hw (Get # es) u ks (a # ans) u'"
  using assms by (cases a) (auto simp: served_def Let_def)

lemma nb_uart_recv_cases:
  assumes "ring_ok b"
  obtains a b' where "nb_uart_recv b = Inr (case_option NB_UART_NRET (\<lambda>c. c) a, b')" "ring_ok b'"
    "case a of None \<Rightarrow> contents b = [] \<and> contents b' = [] | Some x \<Rightarrow> contents b = x # contents b'"
proof (cases "contents b")
  case Nil
  then show ?thesis using that [of None b] nb_uart_recv_empty [OF assms] assms by simp
next
  case (Cons x xs)
  then show ?thesis using that [of "Some x"] nb_uart_recv_next [OF assms Cons] by auto
qed

lemma uart_run_served:
  assumes "drains hw" "ring_ok (pl011_buffer u)"
  shows "\<exists>ks ans u'. served hw es u ks ans u'"
  using assms(2)
proof (induction es arbitrary: u)
  case Nil
  then have "served hw [] u [] [] u" by (simp add: served_def)
  then show ?case by blast
next
  case (Cons e es)
  show ?case
  proof (cases e)
    case (Put v)
    then show ?thesis using uart_irq_handler_correct [OF assms(1) Cons.prems] Cons.IH served_irq by (metis (full_types) old.unit.exhaust)
  next
    case Get
    obtain a b where "nb_uart_recv (pl011_buffer u) = Inr (case_option NB_UART_NRET (\<lambda>c. c) a, b)" "ring_ok b"
      "case a of None \<Rightarrow> contents (pl011_buffer u) = [] \<and> contents b = [] | Some x \<Rightarrow> contents (pl011_buffer u) = x # contents b"
      using nb_uart_recv_cases [OF Cons.prems] .
    then show ?thesis using Get served_recv [OF Cons.prems] Cons.IH [of "u\<lparr>pl011_buffer := b\<rparr>"] by fastforce
  qed
qed

section \<open>Properties\<close>

lemma inputs_with_input: "length cs = length (inputs es) \<Longrightarrow> inputs (with_input es cs) = cs"
  by (induction es cs rule: with_input.induct) auto

lemma keeps_up_with_input: "length cs = length (inputs es) \<Longrightarrow> keeps_up cap n (with_input es cs) = keeps_up cap n es"
  by (induction es cs arbitrary: n rule: with_input.induct) auto

lemma enable_uart_irq_buffer:
  assumes "0 \<le> irq"
  shows "\<exists>u1. enable_uart_irq irq u = Inr u1 \<and> pl011_buffer u1 = (pl011_buffer u)\<lparr>read_pos := 0, put_pos := 0\<rparr>"
proof -
  have "\<exists>d'. plat_enable_irqno irq d = Inr d'" for d using assms by (simp add: plat_enable_irqno_def)
  then show ?thesis unfolding enable_uart_irq_def Let_def by (metis (no_types, lifting) bindR_simps(2) uart.select_convs(1) uart.surjective uart.update_convs(1,2))
qed

definition idle_uart :: uart where
  "idle_uart = \<lparr>pl011_buffer = \<lparr>buffer = replicate 16 0, read_pos = 3, put_pos = 3\<rparr>, dev = \<lparr>reads = 0, writes = []\<rparr>\<rparr>"

text \<open>A line on which every read of the data register gives a new character.\<close>

definition counting_hw :: hardware where
  "counting_hw a n = (if a = RASPI3_PL011_DR then of_nat n else 0)"

lemma counting_drains: "drains counting_hw"
  by (auto simp: drains_def counting_hw_def RASPI3_PL011_FR_def RASPI3_PL011_DR_def)

text \<open>C9: The receive buffer refines a bounded queue. In every interleaving of interrupts and calls of
  \<open>nb_uart_recv\<close>, with a transmit FIFO that drains, the driver always returns; the characters it
  takes from the data register, at later and later reads, are echoed in order, and the answers to
  the readers are those of a first-in first-out queue of 15 characters that drops its oldest
  character when it is full.\<close>

theorem uart_refines_queue:
  assumes "drains hw" "ring_ok (pl011_buffer u)"
  shows "\<exists>ks ans u'.
     uart_run hw es u = Inr (map (case_option NB_UART_NRET (\<lambda>c. c)) ans, u') \<and>
     length ks = length (inputs es) \<and> sorted_wrt (<) ks \<and>
     spec_run 15 (with_input es (map (byte_read hw) ks)) (contents (pl011_buffer u)) = (ans, contents (pl011_buffer u')) \<and>
     ring_ok (pl011_buffer u') \<and> writes (dev u') = writes (dev u) @ echo (map (byte_read hw) ks)"
  using uart_run_served [OF assms, of es] by (auto simp: served_def Let_def)

theorem uart_refines_queue_witness:
  "\<exists>ks ans u'.
     uart_run counting_hw [Put (), Get, Get, Put ()] idle_uart = Inr (map (case_option NB_UART_NRET (\<lambda>c. c)) ans, u') \<and>
     length ks = 2 \<and> spec_run 15 (with_input [Put (), Get, Get, Put ()] (map (byte_read counting_hw) ks)) [] = (ans, contents (pl011_buffer u'))"
proof -
  have "ring_ok (pl011_buffer idle_uart)" "contents (pl011_buffer idle_uart) = []"
    by (simp_all add: idle_uart_def ring_ok_def slot_ok_def UART_BUF_LEN_def contents_def filled_def window_def)
  moreover have "length (inputs [Put (), Get, Get, Put ()]) = 2" by simp
  ultimately show ?thesis using uart_refines_queue [OF counting_drains, of idle_uart "[Put (), Get, Get, Put ()]"] by metis
qed

text \<open>Nothing is lost while the reader keeps up. After \<open>enable_uart_irq\<close> has emptied the buffer, if
  at no time more than 15 characters wait, then the characters delivered to the readers followed by
  those still waiting are exactly the characters that arrived, in their order.\<close>

lemma uart_no_loss:
  assumes "drains hw" "length (buffer (pl011_buffer u)) = 16" "0 \<le> irq" "keeps_up 15 0 es"
  shows "\<exists>u1 ks ans u'. enable_uart_irq irq u = Inr u1 \<and>
     uart_run hw es u1 = Inr (map (case_option NB_UART_NRET (\<lambda>c. c)) ans, u') \<and> length ks = length (inputs es) \<and>
     delivered ans @ contents (pl011_buffer u') = map (byte_read hw) ks \<and>
     writes (dev u') = writes (dev u1) @ echo (map (byte_read hw) ks)"
proof -
  obtain u1 where u1: "enable_uart_irq irq u = Inr u1" "pl011_buffer u1 = (pl011_buffer u)\<lparr>read_pos := 0, put_pos := 0\<rparr>"
    using enable_uart_irq_buffer [OF assms(3)] by blast
  then have empty: "ring_ok (pl011_buffer u1)" "contents (pl011_buffer u1) = []"
    using assms(2) by (simp_all add: ring_ok_def slot_ok_def UART_BUF_LEN_def contents_def filled_def window_def)
  obtain ks ans u' where s: "served hw es u1 ks ans u'" using uart_run_served [OF assms(1) empty(1)] by blast
  have "delivered ans @ contents (pl011_buffer u') = map (byte_read hw) ks"
    using spec_run_fifo [of 15 "[]" "with_input es (map (byte_read hw) ks)"] s assms(4) empty(2)
    by (auto simp: served_def Let_def keeps_up_with_input inputs_with_input)
  then show ?thesis using s u1(1) by (auto simp: served_def Let_def)
qed

lemma wait_while_first:
  assumes "(and) (hw a (reads d + n)) m = 0"
  shows "wait_while hw a m d = Some (d\<lparr>reads := reads d + (LEAST n. (and) (hw a (reads d + n)) m = 0) + 1\<rparr>)"
proof (rule wait_while_ready)
  show "(and) (hw a (reads d + (LEAST n. (and) (hw a (reads d + n)) m = 0))) m = 0" using assms by (rule LeastI)
qed (use not_less_Least in blast)

text \<open>\<open>uart_send\<close> waits for the transmit FIFO (bit 5 of the flag register) and returns after the first
  read that shows room, with exactly the character written to the data register; it fails to return
  only when no later read shows room.\<close>

lemma uart_send_outcome:
  "case uart_send hw c d of
     Inl e \<Rightarrow> e = DIVERGE \<and> (\<forall>n. bit (hw RASPI3_PL011_FR (reads d + n)) 5)
   | Inr d' \<Rightarrow> (\<exists>n. \<not> bit (hw RASPI3_PL011_FR (reads d + n)) 5) \<and>
       d' = \<lparr>reads = reads d + (LEAST n. \<not> bit (hw RASPI3_PL011_FR (reads d + n)) 5) + 1,
             writes = writes d @ [(RASPI3_PL011_DR, ucast c)]\<rparr>"
proof -
  have bit5: "(and) x (push_bit 5 1) = 0 \<longleftrightarrow> \<not> bit x 5" for x :: u32
    by (simp add: bit_iff_and_push_bit_not_eq_0)
  show ?thesis
  proof (cases "\<exists>n. \<not> bit (hw RASPI3_PL011_FR (reads d + n)) 5")
    case True
    then obtain n where "(and) (hw RASPI3_PL011_FR (reads d + n)) (push_bit 5 1) = 0" by (auto simp only: bit5)
    from wait_while_first [of hw RASPI3_PL011_FR d n, OF this] show ?thesis using True unfolding uart_send_def bit5 by (simp add: put32_def)
  next
    case False
    then have "wait_while hw RASPI3_PL011_FR (push_bit 5 1) d = None"
      using wait_while_iff [of hw RASPI3_PL011_FR "push_bit 5 1" d] unfolding bit5 by blast
    then show ?thesis using False unfolding uart_send_def by simp
  qed
qed

end
