(* ===== verification/Printk_Text.thy ===== *)
theory Printk_Text
  imports Printk Uart_Props
begin

text \<open>
  What the printing routines write, as strings. The two places text can go to, the serial port and
  a buffer, offer one interface (the locale \<open>char_sink\<close>); the output loops are shown to write a string
  through it, and the numbers and the padding are computed on strings.
\<close>

section \<open>Sinks\<close>

fun puts :: "(char \<Rightarrow> 's \<Rightarrow> 's result) \<Rightarrow> string \<Rightarrow> 's \<Rightarrow> 's result" where
  "puts put [] s = Inr s"
| "puts put (c # cs) s = bindR (put c s) (puts put cs)"

lemma bindR_assoc: "bindR (bindR r f) g = bindR r (\<lambda>x. bindR (f x) g)"
  by (cases r) auto

lemma puts_append: "puts put (xs @ ys) s = bindR (puts put xs s) (puts put ys)"
  by (induction xs arbitrary: s) (auto simp: bindR_assoc cong: bindR_cong)

locale char_sink =
  fixes put :: "char \<Rightarrow> 's \<Rightarrow> 's result"
    and written :: "'s \<Rightarrow> string"
    and room :: "nat \<Rightarrow> 's \<Rightarrow> bool"
  assumes put_char: "room (Suc n) s \<Longrightarrow> \<exists>s'. put c s = Inr s' \<and> written s' = written s @ [c] \<and> room n s'"
begin

lemma puts_written:
  "room (length cs + n) s \<Longrightarrow> \<exists>s'. puts put cs s = Inr s' \<and> written s' = written s @ cs \<and> room n s'"
proof (induction cs arbitrary: s)
  case (Cons c cs)
  then obtain s1 where s1: "put c s = Inr s1" "written s1 = written s @ [c]" "room (length cs + n) s1"
    using put_char [of "length cs + n" s c] by auto
  from Cons.IH [OF s1(3)] show ?case using s1 by auto
qed auto

end

text \<open>The characters on the line are the values written to the data register.\<close>

definition line_text :: "io \<Rightarrow> string" where
  "line_text d = map (\<lambda>(a, v). char_of (unat v)) (filter (\<lambda>(a, v). a = RASPI3_PL011_DR) (writes d))"

definition written :: "sink \<Rightarrow> string" where
  "written dst = (case dst of Serial d \<Rightarrow> line_text d | Buffer buf n \<Rightarrow> take n buf)"

definition room :: "hardware \<Rightarrow> nat \<Rightarrow> sink \<Rightarrow> bool" where
  "room hw k dst = (case dst of Serial d \<Rightarrow> drains hw | Buffer buf n \<Rightarrow> n + k \<le> length buf)"

lemma unat_of_char: "unat (of_char c :: u8) = of_char c"
proof -
  have "unat (of_nat (of_char c) :: u8) = of_char c"
    by (simp only: unsigned_of_nat) (simp add: take_bit_nat_eq_self_iff nat_of_char_less_256)
  then show ?thesis by (simp only: of_nat_of_char)
qed

lemma char_of_sent: "char_of (unat (ucast (of_char c :: u8) :: u32)) = c"
proof -
  have "unat (ucast x :: u32) = unat x" for x :: u8
    using unsigned_less [of x, where ?'a = nat] by (simp add: unsigned_ucast_eq take_bit_nat_eq_self_iff)
  then show ?thesis by (simp only: unat_of_char char_of_char)
qed

lemma simple_outputchar_ok:
  assumes "room hw (Suc n) dst"
  shows "\<exists>dst'. simple_outputchar hw c dst = Inr dst' \<and> written dst' = written dst @ [c] \<and> room hw n dst'"
proof (cases dst)
  case (Serial d)
  then have "drains hw" using assms by (simp add: room_def)
  then show ?thesis using uart_send_drains [of hw "of_char c" d] Serial
    by (auto simp: simple_outputchar_def written_def room_def line_text_def char_of_sent)
next
  case (Buffer buf k)
  then show ?thesis using assms
    by (simp add: simple_outputchar_def written_def room_def take_Suc_conv_app_nth)
qed

interpretation sink: char_sink "simple_outputchar hw" written "room hw" for hw
  by unfold_locales (rule simple_outputchar_ok)

abbreviation outputs :: "hardware \<Rightarrow> string \<Rightarrow> sink \<Rightarrow> sink result" where
  "outputs hw \<equiv> puts (simple_outputchar hw)"

section \<open>The output loops write strings\<close>

definition emit :: "hardware \<Rightarrow> string \<Rightarrow> sink \<Rightarrow> (int \<times> sink) result" where
  "emit hw s dst = bindR (outputs hw s dst) (\<lambda>dst. Inr (int (length s), dst))"

lemma output_string_puts:
  "output_string hw cs k dst = bindR (outputs hw cs dst) (\<lambda>dst. Inr (k + int (length cs), dst))"
  by (induction hw cs k dst rule: output_string.induct) (auto simp: bindR_assoc algebra_simps cong: bindR_cong)

lemma output_pad_puts:
  "output_pad hw c w k dst =
     bindR (outputs hw (replicate (nat w) c) dst) (\<lambda>dst. Inr (min w 0, k + int (nat w), dst))"
proof (induction "nat w" arbitrary: w k dst)
  case 0
  then show ?case by (subst output_pad.simps) simp
next
  case (Suc n)
  then have "nat (w - 1) = n" "w > 0" "nat w = Suc n" by linarith+
  then show ?case using Suc(1) [of "w - 1"]
    by (subst output_pad.simps) (simp add: bindR_assoc algebra_simps cong: bindR_cong)
qed

definition padded :: "string \<Rightarrow> int \<Rightarrow> int \<Rightarrow> string" where
  "padded s width flags =
     (let pad = replicate (nat width - length s) (if (and) flags PAD_ZERO \<noteq> 0 then CHR ''0'' else CHR '' '')
      in if (and) flags PAD_RIGHT = 0 then pad @ s else s @ pad)"

lemma length_padded: "length (padded s width flags) = max (nat width) (length s)"
  by (simp add: padded_def Let_def max_def)

lemma padded_none: "padded s 0 flags = s"
  by (simp add: padded_def)

lemma prints_emit: "prints hw s width flags dst = emit hw (padded s width flags) dst"
proof -
  let ?w = "if width > 0 then if int (length s) \<ge> width then 0 else width - int (length s) else width"
  have w: "nat ?w = nat width - length s" by auto
  show ?thesis
  proof (cases "(and) flags PAD_RIGHT = 0")
    case True
    have "nat (min ?w 0) = 0" by simp
    then show ?thesis using True w
      by (simp add: prints_def Let_def emit_def padded_def output_pad_puts output_string_puts bindR_assoc puts_append)
  next
    case False
    then show ?thesis using w
      by (simp add: prints_def Let_def emit_def padded_def output_pad_puts output_string_puts bindR_assoc puts_append)
  qed
qed

section \<open>Numerals\<close>

function digits_of :: "nat \<Rightarrow> int \<Rightarrow> nat \<Rightarrow> string" where
  "digits_of b letbase n =
     (if n = 0 \<or> b < 2 then [] else digits_of b letbase (n div b) @ [digit_char (int (n mod b)) letbase])"
  by pat_completeness auto
termination by (relation "measure (\<lambda>(_, _, n). n)") auto

declare digits_of.simps [simp del]

lemma digits_of_0 [simp]: "digits_of b letbase 0 = []"
  by (simp add: digits_of.simps)

lemma digits_of_step:
  "0 < n \<Longrightarrow> 2 \<le> b \<Longrightarrow> digits_of b letbase n = digits_of b letbase (n div b) @ [digit_char (int (n mod b)) letbase]"
  by (subst digits_of.simps) simp

lemma length_digits_of: "n < b ^ k \<Longrightarrow> 2 \<le> b \<Longrightarrow> length (digits_of b letbase n) \<le> k"
proof (induction k arbitrary: n)
  case (Suc k)
  then have "n div b < b ^ k" by (simp add: less_mult_imp_div_less mult.commute)
  then show ?case using Suc digits_of_step [of n b letbase] by (cases "n = 0") auto
qed simp

lemma digits_of_longer: "b ^ k \<le> n \<Longrightarrow> 2 \<le> b \<Longrightarrow> k < length (digits_of b letbase n)"
proof (induction k arbitrary: n)
  case (Suc k)
  have "b ^ k \<le> n div b" using Suc.prems by (simp add: div_greater_zero_iff less_eq_div_iff_mult_less_eq mult.commute)
  moreover have "0 < n" using Suc.prems by (metis gr0I le_zero_eq power_eq_0_iff not_numeral_le_zero)
  ultimately show ?case using Suc digits_of_step [of n b letbase] by simp
next
  case 0
  then show ?case using digits_of_step [of n b letbase] by simp
qed

text \<open>The words of the loop are the numbers of the reference.\<close>

lemma base_word:
  assumes "2 \<le> b" "b \<le> 16"
  shows "unat (of_nat b :: u64) = b"
  using assms by (simp add: unsigned_of_nat take_bit_nat_eq_self_iff)

lemma digit_word:
  assumes "2 \<le> b" "b \<le> 16"
  shows "sint (ucast (u mod of_nat b :: u64) :: u32) = int (unat u mod b)"
    "unat (u div of_nat b) = unat u div b"
proof -
  have m: "unat (u mod of_nat b) = unat u mod b" by (simp only: unat_mod_distrib base_word [OF assms])
  have lt: "unat u mod b < 16" using assms mod_less_divisor [of b "unat u"] by linarith
  have "ucast (u mod of_nat b) = (of_nat (unat u mod b) :: u32)" by (simp only: of_nat_unat flip: m)
  then show "sint (ucast (u mod of_nat b :: u64) :: u32) = int (unat u mod b)"
    using lt by (simp only: signed_of_nat) (simp add: signed_take_bit_int_eq_self_iff)
  show "unat (u div of_nat b) = unat u div b" by (simp only: unat_div_distrib base_word [OF assms])
qed

lemma output_digits_text:
  assumes "2 \<le> b" "b \<le> 16"
  shows "output_digits u (int b) letbase (n, s) =
    (let ds = digits_of b letbase (unat u) in if length ds \<le> n then Inr (n - length ds, ds @ s) else Inl FAULT)"
proof (induction "unat u" arbitrary: u n s rule: less_induct)
  case less
  show ?case
  proof (cases "u = 0")
    case True
    then show ?thesis by (subst output_digits.simps) simp
  next
    case False
    then have pos: "0 < unat u" by (simp add: unat_gt_0)
    let ?ds = "digits_of b letbase (unat u div b)" and ?c = "digit_char (int (unat u mod b)) letbase"
    have lt: "unat (u div of_nat b) < unat u" using pos assms by (simp only: digit_word(2) [OF assms]) simp
    have "output_digits u (int b) letbase (n, s) =
      bindR (push_char ?c (n, s)) (output_digits (u div of_nat b) (int b) letbase)"
      using False assms by (subst output_digits.simps) (simp add: digit_word(1) [OF assms])
    also have "\<dots> = (if length ?ds + 1 \<le> n then Inr (n - (length ?ds + 1), ?ds @ ?c # s) else Inl FAULT)"
      using less [OF lt] by (simp add: push_char_def digit_word(2) [OF assms] Let_def) linarith
    finally show ?thesis using digits_of_step [OF pos assms(1)] by (simp add: Let_def)
  qed
qed

text \<open>The text of a number, with its sign and padding.\<close>

definition negative :: "u64 \<Rightarrow> nat \<Rightarrow> bool \<Rightarrow> bool" where
  "negative i b sign \<longleftrightarrow> sign \<and> b = 10 \<and> sint i < 0"

definition number_digits :: "u64 \<Rightarrow> nat \<Rightarrow> bool \<Rightarrow> int \<Rightarrow> string" where
  "number_digits i b sign letbase =
     (if i = 0 then ''0'' else digits_of b letbase (unat (if negative i b sign then - i else i)))"

definition number_text :: "u64 \<Rightarrow> nat \<Rightarrow> bool \<Rightarrow> int \<Rightarrow> int \<Rightarrow> int \<Rightarrow> string" where
  "number_text i b sign width flags letbase =
     (let ds = number_digits i b sign letbase in
      if negative i b sign
      then if width \<noteq> 0 \<and> (and) flags PAD_ZERO \<noteq> 0 then CHR ''-'' # padded ds (width - 1) flags
           else padded (CHR ''-'' # ds) width flags
      else padded ds width flags)"

text \<open>The numbers that fit the buffer and whose negation is defined.\<close>

definition printable :: "u64 \<Rightarrow> nat \<Rightarrow> bool \<Rightarrow> bool" where
  "printable i b sign \<longleftrightarrow> b \<in> {2, 10, 16} \<and> (b = 2 \<longrightarrow> 0 \<le> sint i) \<and> (negative i b sign \<longrightarrow> sint i \<noteq> - (2 ^ 63))"

lemma digits_fit:
  fixes u :: u64
  assumes "b \<in> {2, 10, 16}" "b = 2 \<longrightarrow> unat u < 2 ^ 63"
  shows "length (digits_of b letbase (unat u)) \<le> (if b = 2 then 63 else 20)"
proof -
  have "unat u < 18446744073709551616" using unsigned_less [of u, where ?'a = nat] by simp
  then have "unat u < 10 ^ 20" "unat u < 16 ^ 20" by simp_all
  then show ?thesis using assms length_digits_of [of "unat u" b 20] length_digits_of [of "unat u" b 63] by auto
qed

lemma wrap_signed:
  assumes "0 \<le> k" "k < (18446744073709551616 :: int)"
  shows "(k + 9223372036854775808) mod 18446744073709551616 - 9223372036854775808 =
    (if k < 9223372036854775808 then k else k - 18446744073709551616)"
proof (cases "k < 9223372036854775808")
  case False
  then have "(k - 9223372036854775808) mod 18446744073709551616 = k - 9223372036854775808"
    using assms by (intro mod_pos_pos_trivial) auto
  then show ?thesis using False minus_mod_self2 [of "k + 9223372036854775808" 18446744073709551616] by simp
qed (use assms in simp)

lemma sint_unat: "sint (i :: u64) = (if unat i < 2 ^ 63 then int (unat i) else int (unat i) - 2 ^ 64)"
proof -
  have "unat i < 18446744073709551616" using unsigned_less [of i, where ?'a = nat] by simp
  then have k: "0 \<le> int (unat i)" "int (unat i) < 18446744073709551616" by linarith+
  have "sint i = signed_take_bit 63 (int (unat i))" by (simp add: sint_uint)
  also have "\<dots> = (int (unat i) + 9223372036854775808) mod 18446744073709551616 - 9223372036854775808"
    by (simp only: signed_take_bit_eq_take_bit_shift take_bit_eq_mod) simp
  also have "\<dots> = (if int (unat i) < 9223372036854775808 then int (unat i) else int (unat i) - 18446744073709551616)"
    by (rule wrap_signed [OF k])
  also have "(int (unat i) < 9223372036854775808) = (unat i < 9223372036854775808)" by linarith
  finally show ?thesis by simp
qed

lemma sint_nonneg_unat: "0 \<le> sint (i :: u64) \<longleftrightarrow> unat i < 2 ^ 63"
proof -
  have "unat i < 18446744073709551616" using unsigned_less [of i, where ?'a = nat] by simp
  then have "int (unat i) - 18446744073709551616 < 0" by linarith
  then show ?thesis using sint_unat [of i] by simp
qed

text \<open>\<open>simple_outputi\<close> writes the text of the number.\<close>

lemma simple_outputi_emit:
  assumes "printable i b sign"
  shows "simple_outputi hw i (int b) sign width flags letbase dst = emit hw (number_text i b sign width flags letbase) dst"
proof (cases "i = 0")
  case True
  then show ?thesis
    by (simp add: simple_outputi_def prints_emit number_text_def number_digits_def negative_def)
next
  case False
  define u where "u = (if negative i b sign then - i else i)"
  have b: "2 \<le> b" "b \<le> 16" "b \<in> {2, 10, 16}" using assms by (auto simp: printable_def)
  have "length (digits_of b letbase (unat u)) \<le> (if b = 2 then 63 else 20)"
    using assms by (intro digits_fit) (auto simp only: printable_def u_def negative_def sint_nonneg_unat split: if_splits)
  then have fits: "length (digits_of b letbase (unat u)) \<le> 63" "b = 10 \<Longrightarrow> length (digits_of b letbase (unat u)) \<le> 20"
    by (auto split: if_splits)
  have neg: "sign \<and> int b = 10 \<and> sint i < 0 \<longleftrightarrow> negative i b sign" by (auto simp: negative_def)
  have lim: "(negative i b sign \<and> sint i = - (2 ^ 63)) = False" using assms by (auto simp: printable_def)
  have len: "PRINT_BUF_LEN - 1 = 63" by (simp add: PRINT_BUF_LEN_def)
  have "simple_outputi hw i (int b) sign width flags letbase dst =
    bindR (output_digits u (int b) letbase (63, [])) (\<lambda>d.
          if negative i b sign
          then if width \<noteq> 0 \<and> (and) flags PAD_ZERO \<noteq> 0
               then bindR (simple_outputchar hw (CHR ''-'') dst) (\<lambda>dst.
                    bindR (prints hw (snd d) (width - 1) flags dst) (\<lambda>(n, dst). Inr (n + 1, dst)))
               else bindR (push_char (CHR ''-'') d) (\<lambda>d. prints hw (snd d) width flags dst)
          else prints hw (snd d) width flags dst)"
    unfolding simple_outputi_def Let_def neg lim len u_def [symmetric] using False by (simp only: if_False)
  also have "\<dots> = emit hw (number_text i b sign width flags letbase) dst"
  proof -
    define ds where "ds = digits_of b letbase (unat u)"
    have ds: "number_digits i b sign letbase = ds" using False by (simp add: number_digits_def ds_def u_def)
    have loop: "output_digits u (int b) letbase (63, []) = Inr (63 - length ds, ds)"
      using fits(1) by (simp add: output_digits_text [OF b(1,2)] ds_def Let_def)
    show ?thesis
    proof (cases "negative i b sign")
      case True
      then have "length ds \<le> 20" using fits(2) by (simp add: negative_def ds_def)
      then show ?thesis using True loop
        by (simp add: number_text_def ds Let_def prints_emit push_char_def emit_def bindR_assoc algebra_simps cong: bindR_cong)
    next
      case False
      then show ?thesis using loop by (simp add: number_text_def ds Let_def prints_emit)
    qed
  qed
  finally show ?thesis .
qed

section \<open>Reading numbers back\<close>

definition digit_value :: "char \<Rightarrow> nat" where
  "digit_value c = (let v = of_char c in if v \<le> 57 then v - 48 else if v \<le> 70 then v - 55 else v - 87)"

definition read_digits :: "nat \<Rightarrow> string \<Rightarrow> nat" where
  "read_digits b s = foldl (\<lambda>a c. a * b + digit_value c) 0 s"

definition read_number :: "nat \<Rightarrow> string \<Rightarrow> int" where
  "read_number b s =
     (case filter (\<lambda>c. c \<noteq> CHR '' '') s of
        [] \<Rightarrow> 0
      | c # cs \<Rightarrow> if c = CHR ''-'' then - int (read_digits b cs) else int (read_digits b (c # cs)))"

definition is_digit :: "char \<Rightarrow> bool" where
  "is_digit c \<longleftrightarrow> c \<noteq> CHR '' '' \<and> c \<noteq> CHR ''-''"

lemma of_digit_char:
  assumes "t < 16" "letbase \<in> {97, 65}"
  shows "(of_char (digit_char (int t) letbase) :: nat) = (if t < 10 then 48 + t else nat letbase + t - 10)"
proof -
  have "(if int t \<ge> 10 then int t + (letbase - 48 - 10) else int t) + 48 = int (if t < 10 then 48 + t else nat letbase + t - 10)"
    using assms by auto
  then have "digit_char (int t) letbase = char_of (if t < 10 then 48 + t else nat letbase + t - 10)"
    by (simp only: digit_char_def char_of_nat)
  then show ?thesis using assms by (simp only: of_char_of) auto
qed

lemma digit_value_char:
  assumes "t < 16" "letbase \<in> {97, 65}"
  shows "digit_value (digit_char (int t) letbase) = t" "is_digit (digit_char (int t) letbase)"
proof -
  show "digit_value (digit_char (int t) letbase) = t"
    using assms by (auto simp: digit_value_def of_digit_char Let_def)
  have "(of_char (digit_char (int t) letbase) :: nat) \<ge> 48" using assms by (auto simp: of_digit_char)
  then show "is_digit (digit_char (int t) letbase)" by (auto simp: is_digit_def)
qed

lemma read_digits_of:
  assumes "2 \<le> b" "b \<le> 16" "letbase \<in> {97, 65}"
  shows "read_digits b (digits_of b letbase n) = n \<and> (\<forall>c \<in> set (digits_of b letbase n). is_digit c)"
proof (induction n rule: less_induct)
  case (less n)
  show ?case
  proof (cases "n = 0")
    case False
    then have "n div b < n" "n mod b < 16" using assms mod_less_divisor [of b n] by (simp, linarith)
    then show ?thesis using less [of "n div b"] False assms digit_value_char [of "n mod b" letbase]
      by (simp add: digits_of_step read_digits_def)
  qed (simp add: read_digits_def)
qed

lemma read_zeros: "read_digits b (replicate k (CHR ''0'') @ s) = read_digits b s"
  by (induction k) (simp_all add: read_digits_def digit_value_def)

text \<open>Zeros on the left and spaces on either side do not change the number.\<close>

lemma read_padded:
  assumes "\<forall>c \<in> set s. is_digit c" "s \<noteq> []" "flags \<in> {0, 1, 2}"
  shows "read_number b (padded s width flags) = int (read_digits b s)"
    "read_number b (CHR ''-'' # padded s width flags) = - int (read_digits b s)"
    "(and) flags PAD_ZERO = 0 \<Longrightarrow> read_number b (padded (CHR ''-'' # s) width flags) = - int (read_digits b s)"
proof -
  have s: "filter (\<lambda>c. c \<noteq> CHR '' '') s = s" using assms(1) by (auto simp: is_digit_def filter_id_conv)
  obtain c cs where c: "s = c # cs" "c \<noteq> CHR ''-''" using assms(1,2) by (cases s) (auto simp: is_digit_def)
  have z: "read_number b (replicate k (CHR ''0'') @ s) = int (read_digits b s)" for k
    using s c read_zeros [of b k s] by (cases k) (simp_all add: read_number_def)
  show "read_number b (padded s width flags) = int (read_digits b s)"
    using assms(3) z s c by (auto simp: padded_def PAD_ZERO_def PAD_RIGHT_def read_number_def Let_def)
  show "read_number b (CHR ''-'' # padded s width flags) = - int (read_digits b s)"
    using assms(3) s read_zeros by (auto simp: padded_def PAD_ZERO_def PAD_RIGHT_def read_number_def Let_def)
  show "read_number b (padded (CHR ''-'' # s) width flags) = - int (read_digits b s)" if "(and) flags PAD_ZERO = 0"
    using assms(3) s that by (auto simp: padded_def PAD_ZERO_def PAD_RIGHT_def read_number_def Let_def)
qed

lemma uint_negate:
  fixes i :: u64
  assumes "i \<noteq> 0"
  shows "int (unat (- i)) = 2 ^ 64 - int (unat i)"
proof -
  have "uint i mod 2 ^ 64 = uint i" using uint_bounded [of i] by simp
  moreover have "uint i \<noteq> 0" using assms by (simp add: uint_0_iff)
  ultimately have "uint (- i) = 2 ^ 64 - uint i"
    using zmod_zminus1_eq_if [of "uint i" "2 ^ 64"] by (simp add: uint_word_ariths(4))
  then show ?thesis by simp
qed

lemma number_digits_value:
  assumes "printable i b sign" "letbase \<in> {97, 65}"
  defines "ds \<equiv> number_digits i b sign letbase"
  shows "\<forall>c \<in> set ds. is_digit c" "ds \<noteq> []"
    "int (read_digits b ds) = (if negative i b sign then - sint i else int (unat i))"
proof -
  define u where "u = (if negative i b sign then - i else i)"
  have b: "2 \<le> b" "b \<le> 16" using assms(1) by (auto simp: printable_def)
  have zero: "read_digits b ''0'' = 0" "is_digit (CHR ''0'')"
    by (simp_all add: read_digits_def digit_value_def is_digit_def)
  have ds: "ds = (if i = 0 then ''0'' else digits_of b letbase (unat u))"
    by (simp add: ds_def number_digits_def u_def)
  show "\<forall>c \<in> set ds. is_digit c" using read_digits_of [OF b assms(2)] zero ds by auto
  have "0 < unat u" if "i \<noteq> 0" using that by (auto simp: u_def unat_gt_0)
  then show "ds \<noteq> []" using digits_of_step [OF _ b(1)] by (auto simp: ds)
  have "int (unat u) = (if negative i b sign then - sint i else int (unat i))"
    using uint_negate [of i] sint_unat [of i] sint_nonneg_unat [of i] by (cases "i = 0") (auto simp: u_def negative_def)
  then show "int (read_digits b ds) = (if negative i b sign then - sint i else int (unat i))"
    using read_digits_of [OF b assms(2), of "unat u"] zero(1) by (auto simp: ds u_def)
qed

lemma number_text_value:
  assumes "printable i b sign" "letbase \<in> {97, 65}" "flags \<in> {0, 1, 2}"
  shows "read_number b (number_text i b sign width flags letbase) = (if sign \<and> b = 10 then sint i else int (unat i))"
proof -
  let ?ds = "number_digits i b sign letbase"
  note ds = number_digits_value [OF assms(1,2)]
  note pad = read_padded [OF ds(1,2) assms(3)]
  show ?thesis
  proof (cases "negative i b sign")
    case True
    then have "sign \<and> b = 10" by (simp add: negative_def)
    moreover have "read_number b (padded (CHR ''-'' # ?ds) width flags) = - int (read_digits b ?ds)"
      if "width = 0 \<or> (and) flags PAD_ZERO = 0"
      using that pad(2) [of b 0] pad(3) [of b width] by (auto simp: padded_none)
    ultimately show ?thesis using True pad(2) [of b "width - 1"] ds(3) by (simp add: number_text_def Let_def)
  next
    case False
    then have "int (unat i) = (if sign \<and> b = 10 then sint i else int (unat i))"
      using sint_unat [of i] sint_nonneg_unat [of i] by (auto simp: negative_def)
    then show ?thesis using False pad(1) ds(3) by (simp add: number_text_def Let_def)
  qed
qed

lemma length_number_text:
  "length (number_text i b sign width flags letbase) =
     max (nat width) (length (number_digits i b sign letbase) + (if negative i b sign then 1 else 0))"
  by (auto simp: number_text_def length_padded Let_def)

end
