(* ===== verification/Printk_Props.thy ===== *)
theory Printk_Props
  imports Printk_Text
begin

text \<open>
  Properties of \<open>printk\<close>: printed numbers read back, plain text comes out as it is, and a format whose
  conversions are complete and match their arguments is printed without fault. The formats and
  arguments outside that class are shown to go wrong.
\<close>

section \<open>Formats and their arguments\<close>

datatype kind = K_int | K_bin | K_long | K_slong | K_str

fun arg_fits :: "kind \<Rightarrow> va \<Rightarrow> bool" where
  "arg_fits K_int (Va_int _) = True"
| "arg_fits K_bin (Va_int x) = (0 \<le> sint x)"
| "arg_fits K_long (Va_long _) = True"
| "arg_fits K_slong (Va_long x) = (sint x \<noteq> - (2 ^ 63))"
| "arg_fits K_str (Va_str _ _) = True"
| "arg_fits _ _ = False"

definition long_kind :: "char \<Rightarrow> kind option" where
  "long_kind c = (if c = CHR ''d'' then Some K_slong else if c \<in> {CHR ''u'', CHR ''x'', CHR ''X''} then Some K_long else None)"

definition short_kind :: "char \<Rightarrow> kind option" where
  "short_kind c = (if c \<in> {CHR ''d'', CHR ''u'', CHR ''x'', CHR ''X''} then Some K_int else None)"

definition plain_kind :: "char \<Rightarrow> kind option" where
  "plain_kind c =
     (if c \<in> {CHR ''d'', CHR ''u'', CHR ''x'', CHR ''X'', CHR ''c''} then Some K_int
      else if c = CHR ''b'' then Some K_bin
      else if c = CHR ''p'' then Some K_long
      else if c = CHR ''s'' then Some K_str else None)"

text \<open>The argument a conversion takes and where it ends.\<close>

definition conv_kind :: "string \<Rightarrow> kind option \<times> string" where
  "conv_kind fmt =
     (if cur fmt = CHR ''l'' then
        let fmt = tl fmt in if cur fmt = CHR ''l'' then (long_kind (cur (tl fmt)), tl fmt) else (long_kind (cur fmt), fmt)
      else if cur fmt = CHR ''h'' then
        let fmt = tl fmt in if cur fmt = CHR ''h'' then (short_kind (cur (tl fmt)), tl fmt) else (short_kind (cur fmt), fmt)
      else (plain_kind (cur fmt), fmt))"

definition takes :: "kind option \<Rightarrow> va list \<Rightarrow> va list option" where
  "takes k args =
     (case k of None \<Rightarrow> Some args
      | Some k \<Rightarrow> (case args of [] \<Rightarrow> None | a # args \<Rightarrow> if arg_fits k a then Some args else None))"

text \<open>Where the width ends and the arguments left after it.\<close>

definition width_end :: "string \<Rightarrow> va list \<Rightarrow> (string \<times> va list) option" where
  "width_end fmt args =
     (if cur fmt = CHR ''*'' then (case args of Va_int _ # args \<Rightarrow> Some (tl fmt, args) | _ \<Rightarrow> None)
      else (case parse_digits fmt 0 of Inl _ \<Rightarrow> None | Inr (fmt, _) \<Rightarrow> Some (fmt, args)))"

inductive well_formed :: "string \<Rightarrow> va list \<Rightarrow> bool" where
  fmt_end: "well_formed [] args"
| fmt_lone: "well_formed ''%'' args"
| fmt_plain: "c \<noteq> CHR ''%'' \<Longrightarrow> well_formed fmt args \<Longrightarrow> well_formed (c # fmt) args"
| fmt_escaped: "well_formed fmt args \<Longrightarrow> well_formed (CHR ''%'' # CHR ''%'' # fmt) args"
| fmt_directive: "fmt \<noteq> [] \<Longrightarrow> cur fmt \<noteq> CHR ''%'' \<Longrightarrow> width_end (fst (parse_flags fmt)) args = Some (fmt2, args2) \<Longrightarrow>
    takes (fst (conv_kind fmt2)) args2 = Some args3 \<Longrightarrow> snd (conv_kind fmt2) = c # fmt3 \<Longrightarrow>
    well_formed fmt3 args3 \<Longrightarrow> well_formed (CHR ''%'' # fmt) args"

section \<open>Printing on a line that drains\<close>

definition sends :: "io \<Rightarrow> string \<Rightarrow> io \<Rightarrow> bool" where
  "sends d s d' \<longleftrightarrow> writes d' = writes d @ map (\<lambda>c. (RASPI3_PL011_DR, ucast (of_char c :: u8))) s"

lemma sends_nil [simp]: "sends d [] d"
  by (simp add: sends_def)

lemma sends_trans: "sends d s d1 \<Longrightarrow> sends d1 t d2 \<Longrightarrow> sends d (s @ t) d2"
  by (simp add: sends_def)

lemma char_serial:
  assumes "drains hw"
  shows "\<exists>d'. simple_outputchar hw c (Serial d) = Inr (Serial d') \<and> sends d [c] d'"
  using uart_send_drains [OF assms, of "of_char c" d] by (auto simp: simple_outputchar_def sends_def)

lemma outputs_serial:
  assumes "drains hw"
  shows "\<exists>d'. outputs hw s (Serial d) = Inr (Serial d') \<and> sends d s d'"
proof (induction s arbitrary: d)
  case (Cons c s)
  obtain d1 where d1: "simple_outputchar hw c (Serial d) = Inr (Serial d1)" "sends d [c] d1"
    using char_serial [OF assms] by blast
  with Cons [of d1] show ?case using sends_trans [of d "[c]" d1 s] by auto
qed auto

text \<open>A step of the printer that returns, consumes arguments and only sends characters.\<close>

definition prints_on :: "printer \<Rightarrow> va list \<Rightarrow> printer \<Rightarrow> bool" where
  "prints_on p args p' \<longleftrightarrow> ap p' = args \<and> (\<exists>d d' s. out p = Serial d \<and> out p' = Serial d' \<and> sends d s d')"

lemma prints_on_trans: "prints_on p args p1 \<Longrightarrow> prints_on p1 args' p2 \<Longrightarrow> prints_on p args' p2"
  using sends_trans by (fastforce simp: prints_on_def)

lemma add_pc_emit:
  assumes "drains hw" "out p = Serial d"
  shows "\<exists>p'. add_pc (emit hw s) p = Inr p' \<and> prints_on p (ap p) p'"
  using outputs_serial [OF assms(1), of s d] assms(2) by (auto simp: add_pc_def emit_def prints_on_def)

lemma set_union_simps [simp]: "out (set_union n v p) = out p" "ap (set_union n v p) = ap p"
  by (simp_all add: set_union_def)

lemma prints_on_set_union: "prints_on (set_union n v p) args p' \<longleftrightarrow> prints_on p args p'"
  by (simp add: prints_on_def)

lemma printable_unsigned: "b \<in> {10, 16} \<Longrightarrow> printable i b False"
  by (auto simp: printable_def negative_def)

lemma sint_scast:
  "sint (scast (x :: u32) :: u64) = sint x" "sint (scast (y :: 16 word) :: u64) = sint y" "sint (scast (z :: u8) :: u64) = sint z"
  using sint_greater_eq [of x] sint_less [of x] sint_greater_eq [of y] sint_less [of y] sint_greater_eq [of z] sint_less [of z]
  by (simp_all add: signed_scast_eq signed_take_bit_int_eq_self_iff)

lemma sint_not_min:
  "sint (x :: u32) \<noteq> - 9223372036854775808" "sint (y :: 16 word) \<noteq> - 9223372036854775808" "sint (z :: u8) \<noteq> - 9223372036854775808"
  using sint_greater_eq [of x] sint_greater_eq [of y] sint_greater_eq [of z] by auto

lemma printable_small: "sint x \<noteq> - (2 ^ 63) \<Longrightarrow> printable x 10 True"
  by (auto simp: printable_def)

lemma outputi_step:
  assumes "drains hw" "out p = Serial d" "printable i b sign"
  shows "\<exists>p'. add_pc (simple_outputi hw i (int b) sign width flags letbase) p = Inr p' \<and> prints_on p (ap p) p'"
  using add_pc_emit [OF assms(1,2)] simple_outputi_emit [OF assms(3)] by (metis ext)

lemma conv_i_step:
  assumes "drains hw" "out p = Serial d" "ap p = Va_int x # args" "printable (if sign then scast x else ucast x) b sign"
  shows "\<exists>p'. conv_i hw (int b) sign width flags letbase p = Inr p' \<and> prints_on p args p'"
  using outputi_step [OF assms(1) _ assms(4), of "set_union 32 (ucast x) (p\<lparr>ap := args\<rparr>)" d] assms(2,3)
  by (simp add: conv_i_def va_int_def prints_on_def)

lemma conv_l_step:
  assumes "drains hw" "out p = Serial d" "ap p = Va_long x # args" "printable x b sign"
  shows "\<exists>p'. conv_l hw (int b) sign width flags letbase p = Inr p' \<and> prints_on p args p'"
  using outputi_step [OF assms(1) _ assms(4), of "set_union 64 x (p\<lparr>ap := args\<rparr>)" d] assms(2,3)
  by (simp add: conv_l_def va_long_def prints_on_def)

lemma conv_hd_step:
  assumes "drains hw" "out p = Serial d" "ap p = Va_int x # args"
  shows "\<exists>p'. conv_hd hw width flags p = Inr p' \<and> prints_on p args p'" "\<exists>p'. conv_hhd hw width flags p = Inr p' \<and> prints_on p args p'"
  using outputi_step [OF assms(1) _ printable_small, of "set_union 16 (ucast x) (p\<lparr>ap := args\<rparr>)" d "scast (ucast x :: 16 word)"]
    outputi_step [OF assms(1) _ printable_small, of "set_union 8 (ucast x) (p\<lparr>ap := args\<rparr>)" d "scast (ucast x :: u8)"] assms(2,3)
  by (simp_all add: conv_hd_def conv_hhd_def va_int_def prints_on_def sint_scast sint_not_min)

lemma conv_hu_step:
  assumes "drains hw" "out p = Serial d" "ap p = Va_int x # args" "b \<in> {10, 16}"
  shows "\<exists>p'. conv_hu hw bits (int b) width flags letbase p = Inr p' \<and> prints_on p args p'"
  using outputi_step [OF assms(1) _ printable_unsigned [OF assms(4)], of "set_union bits (ucast x) (p\<lparr>ap := args\<rparr>)" d] assms(2,3)
  by (simp add: conv_hu_def va_int_def prints_on_def Let_def)

lemma conv_c_step:
  assumes "drains hw" "out p = Serial d" "ap p = Va_int x # args"
  shows "\<exists>p'. conv_c hw width flags p = Inr p' \<and> prints_on p args p'"
  using add_pc_emit [OF assms(1), of "set_union 8 (ucast x) (p\<lparr>ap := args\<rparr>)" d] assms(2,3)
  by (simp add: conv_c_def va_int_def prints_on_def Let_def prints_emit [abs_def])

lemma conv_s_step:
  assumes "drains hw" "out p = Serial d" "ap p = Va_str a s # args"
  shows "\<exists>p'. conv_s hw width flags p = Inr p' \<and> prints_on p args p'"
  using add_pc_emit [OF assms(1), of "set_union 64 a (p\<lparr>ap := args\<rparr>)" d] assms(2,3)
  by (simp add: conv_s_def va_str_def prints_on_def Let_def prints_emit [abs_def])

lemmas conv_i_bases = conv_i_step [where b = 10, unfolded of_nat_numeral] conv_i_step [where b = 16, unfolded of_nat_numeral]
  conv_i_step [where b = 2, unfolded of_nat_numeral]
lemmas conv_l_bases = conv_l_step [where b = 10, unfolded of_nat_numeral] conv_l_step [where b = 16, unfolded of_nat_numeral]
lemmas conv_hu_bases = conv_hu_step [where b = 10, unfolded of_nat_numeral] conv_hu_step [where b = 16, unfolded of_nat_numeral]

lemma prints_on_refl: "out p = Serial d \<Longrightarrow> prints_on p (ap p) p"
  by (auto simp: prints_on_def intro: exI [of _ "[]"])

lemma takes_Some:
  "takes (Some k) args = Some args' \<longleftrightarrow> (\<exists>a. args = a # args' \<and> arg_fits k a)" "takes None args = Some args' \<longleftrightarrow> args = args'"
  by (auto simp: takes_def split: list.splits)

lemma arg_fits_iff:
  "arg_fits K_int a \<longleftrightarrow> (\<exists>x. a = Va_int x)" "arg_fits K_bin a \<longleftrightarrow> (\<exists>x. a = Va_int x \<and> 0 \<le> sint x)"
  "arg_fits K_long a \<longleftrightarrow> (\<exists>x. a = Va_long x)" "arg_fits K_slong a \<longleftrightarrow> (\<exists>x. a = Va_long x \<and> sint x \<noteq> - (2 ^ 63))"
  "arg_fits K_str a \<longleftrightarrow> (\<exists>x s. a = Va_str x s)"
  by (cases a; simp)+

lemma long_switch:
  assumes "drains hw" "out p = Serial d" "takes (long_kind c) (ap p) = Some args"
  shows "\<exists>p'. (if c = CHR ''d'' then conv_l hw 10 True width flags 97 p
       else if c = CHR ''u'' then conv_l hw 10 False width flags 97 p
       else if c = CHR ''x'' then conv_l hw 16 False width flags 97 p
       else if c = CHR ''X'' then conv_l hw 16 False width flags 65 p
       else Inr p) = Inr p' \<and> prints_on p args p'"
  using assms conv_l_bases [OF assms(1,2)] prints_on_refl [OF assms(2)] printable_small printable_unsigned
  by (auto simp: long_kind_def takes_Some arg_fits_iff split: if_splits)

lemma short_switch:
  assumes "drains hw" "out p = Serial d" "takes (short_kind c) (ap p) = Some args"
  shows "\<exists>p'. (if c = CHR ''d'' then conv_hd hw width flags p
       else if c = CHR ''u'' then conv_hu hw 16 10 width flags 97 p
       else if c = CHR ''x'' then conv_hu hw 16 16 width flags 97 p
       else if c = CHR ''X'' then conv_hu hw 16 16 width flags 65 p
       else Inr p) = Inr p' \<and> prints_on p args p'"
    "\<exists>p'. (if c = CHR ''d'' then conv_hhd hw width flags p
       else if c = CHR ''u'' then conv_hu hw 8 10 width flags 97 p
       else if c = CHR ''x'' then conv_hu hw 8 16 width flags 97 p
       else if c = CHR ''X'' then conv_hu hw 8 16 width flags 65 p
       else Inr p) = Inr p' \<and> prints_on p args p'"
  using assms conv_hu_bases [OF assms(1,2)] conv_hd_step [OF assms(1,2)] prints_on_refl [OF assms(2)]
  by (auto simp: short_kind_def takes_Some arg_fits_iff split: if_splits)

lemma plain_switch:
  assumes "drains hw" "out p = Serial d" "takes (plain_kind c) (ap p) = Some args"
  shows "\<exists>p'. (if c = CHR ''d'' then conv_i hw 10 True width flags 97 p
        else if c = CHR ''b'' then conv_i hw 2 True width flags 97 p
        else if c = CHR ''u'' then conv_i hw 10 False width flags 97 p
        else if c = CHR ''p'' then conv_l hw 16 False width flags 97 p
        else if c = CHR ''x'' then conv_i hw 16 False width flags 97 p
        else if c = CHR ''X'' then conv_i hw 16 False width flags 65 p
        else if c = CHR ''c'' then conv_c hw width flags p
        else if c = CHR ''s'' then conv_s hw width flags p
        else Inr p) = Inr p' \<and> prints_on p args p'"
proof -
  have pd: "printable (scast (x :: u32)) 10 True" for x by (rule printable_small) (simp add: sint_scast sint_not_min)
  have pb: "0 \<le> sint x \<Longrightarrow> printable (scast (x :: u32)) 2 True" for x
    by (simp add: printable_def negative_def sint_scast)
  note takes = assms(3) [unfolded plain_kind_def]
  note conv_i = conv_i_bases [OF assms(1,2)] and pu = printable_unsigned
  consider "c = CHR ''d''" | "c = CHR ''b''" | "c = CHR ''u''" | "c = CHR ''p''" | "c = CHR ''x''" | "c = CHR ''X''" | "c = CHR ''c''" | "c = CHR ''s''"
    | (other) "c \<notin> {CHR ''d'', CHR ''b'', CHR ''u'', CHR ''p'', CHR ''x'', CHR ''X'', CHR ''c'', CHR ''s''}" by blast
  then show ?thesis
  proof cases
    case 1 then show ?thesis using takes conv_i(1) [where sign = True] pd by (auto simp: takes_Some arg_fits_iff)
  next
    case 2 then show ?thesis using takes conv_i(3) [where sign = True] pb by (auto simp: takes_Some arg_fits_iff)
  next
    case 3 then show ?thesis using takes conv_i(1) [where sign = False] pu by (auto simp: takes_Some arg_fits_iff)
  next
    case 4 then show ?thesis using takes conv_l_bases(2) [OF assms(1,2)] pu by (auto simp: takes_Some arg_fits_iff)
  next
    case 5 then show ?thesis using takes conv_i(2) [where sign = False] pu by (auto simp: takes_Some arg_fits_iff)
  next
    case 6 then show ?thesis using takes conv_i(2) [where sign = False] pu by (auto simp: takes_Some arg_fits_iff)
  next
    case 7 then show ?thesis using takes conv_c_step [OF assms(1,2)] by (auto simp: takes_Some arg_fits_iff)
  next
    case 8 then show ?thesis using takes conv_s_step [OF assms(1,2)] by (auto simp: takes_Some arg_fits_iff)
  next
    case other then show ?thesis using takes prints_on_refl [OF assms(2)] by (auto simp: takes_Some)
  qed
qed

lemma convert_step:
  assumes "drains hw" "out p = Serial d" "takes (fst (conv_kind fmt)) (ap p) = Some args"
  shows "\<exists>p'. convert hw width flags fmt p = Inr (snd (conv_kind fmt), p') \<and> prints_on p args p'"
proof -
  note long = long_switch [OF assms(1,2), of _ args width flags] and short = short_switch [OF assms(1,2), of _ args width flags]
  note plain = plain_switch [OF assms(1,2), of _ args width flags]
  consider (l) "cur fmt = CHR ''l''" | (h) "cur fmt \<noteq> CHR ''l''" "cur fmt = CHR ''h''" | (p) "cur fmt \<noteq> CHR ''l''" "cur fmt \<noteq> CHR ''h''" by blast
  then show ?thesis
  proof cases
    case l
    note k = assms(3) [unfolded conv_kind_def Let_def if_P [OF l]]
    show ?thesis
    proof (cases "cur (tl fmt) = CHR ''l''")
      case True
      from long [OF k [unfolded if_P [OF True] fst_conv]] obtain p' where sw: "convert_ll hw width flags (tl (tl fmt)) p = Inr (tl (tl fmt), p')" "prints_on p args p'"
        unfolding convert_ll_def by (auto simp only: bindR_simps)
      then show ?thesis unfolding convert_def if_P [OF l] convert_l_def if_P [OF True] conv_kind_def Let_def by simp
    next
      case False
      from long [OF k [unfolded if_not_P [OF False] fst_conv]] obtain p' where sw: "convert_l hw width flags (tl fmt) p = Inr (tl fmt, p')" "prints_on p args p'"
        unfolding convert_l_def if_not_P [OF False] by (auto simp only: bindR_simps)
      then show ?thesis unfolding convert_def if_P [OF l] if_not_P [OF False] conv_kind_def Let_def by simp
    qed
  next
    case h
    note k = assms(3) [unfolded conv_kind_def Let_def if_not_P [OF h(1)] if_P [OF h(2)]]
    show ?thesis
    proof (cases "cur (tl fmt) = CHR ''h''")
      case True
      from short(2) [OF k [unfolded if_P [OF True] fst_conv]] obtain p' where sw: "convert_hh hw width flags (tl (tl fmt)) p = Inr (tl (tl fmt), p')" "prints_on p args p'"
        unfolding convert_hh_def by (auto simp only: bindR_simps)
      then show ?thesis
        unfolding convert_def if_not_P [OF h(1)] if_P [OF h(2)] convert_h_def if_P [OF True] conv_kind_def Let_def by simp
    next
      case False
      from short(1) [OF k [unfolded if_not_P [OF False] fst_conv]] obtain p' where sw: "convert_h hw width flags (tl fmt) p = Inr (tl fmt, p')" "prints_on p args p'"
        unfolding convert_h_def if_not_P [OF False] by (auto simp only: bindR_simps)
      then show ?thesis unfolding convert_def if_not_P [OF h(1)] if_P [OF h(2)] if_not_P [OF False] conv_kind_def Let_def by simp
    qed
  next
    case p
    note k = assms(3) [unfolded conv_kind_def if_not_P [OF p(1)] if_not_P [OF p(2)] fst_conv]
    from plain [OF k] obtain p' where "convert hw width flags fmt p = Inr (fmt, p')" "prints_on p args p'"
      unfolding convert_def if_not_P [OF p(1)] if_not_P [OF p(2)] by (auto simp only: bindR_simps)
    then show ?thesis unfolding conv_kind_def if_not_P [OF p(1)] if_not_P [OF p(2)] by simp
  qed
qed

lemma parse_width_step:
  assumes "width_end fmt (ap p) = Some (fmt2, args)" "out p = Serial d"
  shows "\<exists>w p'. parse_width fmt p = Inr (fmt2, w, p') \<and> prints_on p args p'"
proof (cases "cur fmt = CHR ''*''")
  case True
  then obtain x where "ap p = Va_int x # args" "fmt2 = tl fmt"
    using assms(1) by (auto simp: width_end_def split: list.splits va.splits)
  then show ?thesis using True assms(2)
    by (auto simp: parse_width_def va_int_def prints_on_def intro: exI [of _ "[]"])
next
  case False
  then obtain w where "parse_digits fmt 0 = Inr (fmt2, w)" "args = ap p"
    using assms(1) by (auto simp: width_end_def split: sum.splits prod.splits)
  then show ?thesis using False prints_on_refl [OF assms(2)] by (auto simp: parse_width_def)
qed

lemma directive_step:
  assumes "drains hw" "out p = Serial d" "width_end (fst (parse_flags fmt)) (ap p) = Some (fmt2, args2)"
    "takes (fst (conv_kind fmt2)) args2 = Some args3" "snd (conv_kind fmt2) = c # fmt3"
  shows "\<exists>p'. directive hw fmt p = Inr (fmt3, p') \<and> prints_on p args3 p'"
proof -
  obtain f1 flags where f: "parse_flags fmt = (f1, flags)" by fastforce
  obtain w p1 where w: "parse_width f1 p = Inr (fmt2, w, p1)" "prints_on p args2 p1"
    using parse_width_step [OF _ assms(2)] assms(3) f by fastforce
  obtain d1 where d1: "out p1 = Serial d1" "ap p1 = args2" using w(2) by (auto simp: prints_on_def)
  obtain p2 where "convert hw w flags fmt2 p1 = Inr (c # fmt3, p2)" "prints_on p1 args3 p2"
    using convert_step [OF assms(1) d1(1)] assms(4,5) d1(2) by metis
  then show ?thesis using f w prints_on_trans [OF w(2)] by (auto simp: directive_def)
qed

lemma output_plain_step:
  assumes "drains hw" "out p = Serial d"
  shows "\<exists>d'. output_plain hw c p = Inr (p\<lparr>out := Serial d', pc := pc p + 1\<rparr>) \<and>
    sends d (if c = CHR 0x0A then [CHR 0x0D, c] else [c]) d'"
proof (cases "c = CHR 0x0A")
  case True
  obtain d1 where d1: "simple_outputchar hw (CHR 0x0D) (Serial d) = Inr (Serial d1)" "sends d [CHR 0x0D] d1"
    using char_serial [OF assms(1)] by blast
  obtain d2 where d2: "simple_outputchar hw c (Serial d1) = Inr (Serial d2)" "sends d1 [c] d2"
    using char_serial [OF assms(1)] by blast
  then show ?thesis using True assms(2) d1 d2 sends_trans [OF d1(2) d2(2)] by (auto simp: output_plain_def)
next
  case False
  then show ?thesis using char_serial [OF assms(1), of c d] assms(2) by (auto simp: output_plain_def)
qed

lemma output_plain_prints:
  assumes "drains hw" "out p = Serial d"
  shows "\<exists>p'. output_plain hw c p = Inr p' \<and> prints_on p (ap p) p'"
  using output_plain_step [OF assms, of c] assms(2) by (auto simp: prints_on_def)

lemma vsprintf_well_formed:
  assumes "well_formed fmt args" "drains hw" "out p = Serial d" "ap p = args"
  shows "\<exists>p' args'. vsprintf_loop hw fmt p = Inr p' \<and> prints_on p args' p'"
  using assms(1,3,4)
proof (induction arbitrary: p d rule: well_formed.induct)
  case (fmt_plain c fmt args)
  obtain p1 where p1: "output_plain hw c p = Inr p1" "prints_on p (ap p) p1"
    using output_plain_prints [OF assms(2) fmt_plain.prems(1)] by blast
  then obtain d1 where "out p1 = Serial d1" "ap p1 = args" using fmt_plain.prems by (auto simp: prints_on_def)
  from fmt_plain.IH [OF this] show ?case using p1 fmt_plain(1) prints_on_trans [OF p1(2)] by fastforce
next
  case (fmt_escaped fmt args)
  obtain p1 where p1: "output_plain hw (CHR ''%'') p = Inr p1" "prints_on p (ap p) p1"
    using output_plain_prints [OF assms(2) fmt_escaped.prems(1)] by blast
  then obtain d1 where "out p1 = Serial d1" "ap p1 = args" using fmt_escaped.prems by (auto simp: prints_on_def)
  from fmt_escaped.IH [OF this] show ?case using p1 prints_on_trans [OF p1(2)] by (fastforce simp: cur_def)
next
  case (fmt_directive fmt args fmt2 args2 args3 c fmt3)
  obtain p1 where p1: "directive hw fmt p = Inr (fmt3, p1)" "prints_on p args3 p1"
    using directive_step [OF assms(2) fmt_directive.prems(1) _ fmt_directive.hyps(4,5)] fmt_directive.hyps(3) fmt_directive.prems(2) by blast
  then obtain d1 where "out p1 = Serial d1" "ap p1 = args3" by (auto simp: prints_on_def)
  from fmt_directive.IH [OF this] show ?case
    using p1 fmt_directive.hyps(1,2) prints_on_trans [OF p1(2)] by fastforce
qed (use prints_on_refl in auto)

section \<open>Properties\<close>

definition still_line :: hardware where
  "still_line a n = 0"

definition fresh_io :: io where
  "fresh_io = \<lparr>reads = 0, writes = []\<rparr>"

lemma still_drains: "drains still_line"
  by (auto simp: drains_def still_line_def)

text \<open>C19: Printed numbers read back. For every base, width and flags the kernel uses (padding with zeros on
  the right apart), a number that fits the buffer is written to any sink with room as a text of at
  least the width asked for, and no more than needed, that reads back as the number; the count
  returned is its length.\<close>

theorem number_roundtrip:
  assumes "printable i b sign" "letbase \<in> {97, 65}" "flags \<in> {0, 1, 2}"
    and "room hw (length (number_text i b sign width flags letbase)) dst"
  shows "\<exists>s dst'. simple_outputi hw i (int b) sign width flags letbase dst = Inr (int (length s), dst') \<and>
    written dst' = written dst @ s \<and>
    read_number b s = (if sign \<and> b = 10 then sint i else int (unat i)) \<and>
    length s = max (nat width) (length (number_text i b sign 0 0 letbase))"
proof -
  let ?s = "number_text i b sign width flags letbase"
  obtain dst' where "outputs hw ?s dst = Inr dst'" "written dst' = written dst @ ?s"
    using sink.puts_written [of hw ?s 0 dst] assms(4) by auto
  then have "simple_outputi hw i (int b) sign width flags letbase dst = Inr (int (length ?s), dst')"
    by (simp add: simple_outputi_emit [OF assms(1)] emit_def)
  moreover have "length ?s = max (nat width) (length (number_text i b sign 0 0 letbase))"
    by (simp add: length_number_text)
  ultimately show ?thesis using \<open>written dst' = written dst @ ?s\<close> number_text_value [OF assms(1-3)] by blast
qed

theorem number_roundtrip_witness:
  "\<exists>s dst'. simple_outputi still_line (- 1234) (int 10) True 8 PAD_ZERO 97 (Buffer (replicate 20 (CHR ''.'')) 3) = Inr (int (length s), dst') \<and>
    read_number 10 s = - 1234"
proof -
  have i: "sint (- 1234 :: u64) = - 1234" by simp
  have p: "printable (- 1234) 10 True" by (simp add: printable_def i)
  have n: "length (number_text (- 1234) 10 True 8 PAD_ZERO 97) \<le> 17"
    using digits_fit [of 10 "1234 :: u64" 97]
    by (simp add: length_number_text number_digits_def digits_of.simps negative_def)
  have "room still_line (length (number_text (- 1234) 10 True 8 PAD_ZERO 97)) (Buffer (replicate 20 (CHR ''.'')) 3)"
    using n by (simp add: room_def)
  then show ?thesis using number_roundtrip [OF p, of 97 PAD_ZERO still_line 8] i by (fastforce simp: PAD_ZERO_def)
qed

lemma printk_returns:
  assumes "well_formed fmt args" "drains hw"
  shows "\<exists>d' s. printk hw u0 fmt args d = Inr d' \<and> sends d s d'"
proof -
  let ?p = "\<lparr>out = Serial d, ap = args, union = u0, pc = 0\<rparr>"
  obtain p' args' where "vsprintf_loop hw fmt ?p = Inr p'" "prints_on ?p args' p'"
    using vsprintf_well_formed [OF assms, of ?p d] by auto
  then show ?thesis by (auto simp: printk_def simple_vsprintf_def prints_on_def)
qed

text \<open>C18: A format whose conversions are complete and whose arguments have the types they ask for (no
  negative number for \<open>%b\<close>, not the smallest \<open>long\<close> for \<open>%ld\<close>) is printed: on a line that drains
  \<open>printk\<close> returns, without a fault, and it has only sent characters.\<close>

theorem printk_well_formed:
  assumes "well_formed fmt args" "drains hw"
  shows "\<exists>d' s. printk hw u0 fmt args d = Inr d' \<and> sends d s d'"
  by (rule printk_returns [OF assms])

theorem printk_well_formed_witness:
  "\<exists>d' s. printk still_line 7 ''%04d%s'' [Va_int (- 3), Va_str 0 []] fresh_io = Inr d' \<and> sends fresh_io s d'"
proof -
  have "well_formed ''%s'' [Va_str 0 []]"
    by (rule fmt_directive [where ?fmt2.0 = "''s''" and ?fmt3.0 = "[]" and c = "CHR ''s''" and ?args2.0 = "[Va_str 0 []]" and ?args3.0 = "[]", OF _ _ _ _ _ fmt_end])
      (simp_all add: cur_def parse_flags_def width_end_def conv_kind_def plain_kind_def takes_def)
  then have "well_formed ''%04d%s'' [Va_int (- 3), Va_str 0 []]"
    by (rule fmt_directive [where ?fmt2.0 = "''d%s''" and ?fmt3.0 = "''%s''" and c = "CHR ''d''" and args = "[Va_int (- 3), Va_str 0 []]" and ?args2.0 = "[Va_int (- 3), Va_str 0 []]", rotated 5])
      (simp_all add: cur_def parse_flags_def width_end_def conv_kind_def plain_kind_def takes_def)
  from printk_well_formed [OF this still_drains] show ?thesis .
qed

definition escape :: "char \<Rightarrow> string" where
  "escape c = (if c = CHR ''%'' then ''%%'' else [c])"

definition crlf :: "char \<Rightarrow> string" where
  "crlf c = (if c = CHR 0x0A then [CHR 0x0D, c] else [c])"

lemma escaped_loop:
  "vsprintf_loop hw (escape c @ fmt) p = bindR (output_plain hw c p) (vsprintf_loop hw fmt)"
  by (simp add: escape_def cur_def)

lemma vsprintf_plain:
  assumes "drains hw" "out p = Serial d"
  shows "\<exists>d'. vsprintf_loop hw (concat (map escape s)) p = Inr (p\<lparr>out := Serial d', pc := pc p + int (length s)\<rparr>) \<and>
    sends d (concat (map crlf s)) d'"
  using assms(2)
proof (induction s arbitrary: p d)
  case (Cons c s)
  obtain d1 where d1: "output_plain hw c p = Inr (p\<lparr>out := Serial d1, pc := pc p + 1\<rparr>)" "sends d (crlf c) d1"
    using output_plain_step [OF assms(1) Cons.prems, of c] by (auto simp: crlf_def)
  show ?case using Cons.IH [of "p\<lparr>out := Serial d1, pc := pc p + 1\<rparr>" d1] d1 sends_trans [OF d1(2)]
    by (auto simp: escaped_loop algebra_simps)
next
  case Nil
  have "p = p\<lparr>out := Serial d, pc := pc p + int (length [])\<rparr>" using Nil by (cases p) simp
  then have "vsprintf_loop hw (concat (map escape [])) p = Inr (p\<lparr>out := Serial d, pc := pc p + int (length [])\<rparr>)" by simp
  then show ?case by (intro exI [of _ d]) simp
qed

text \<open>Text without conversions comes out unchanged, with a carriage return before every newline, when its
  percent signs are doubled.\<close>

lemma printk_plain:
  assumes "drains hw"
  shows "\<exists>d'. printk hw u0 (concat (map escape s)) args d = Inr d' \<and> sends d (concat (map crlf s)) d'"
  using vsprintf_plain [OF assms, of "\<lparr>out = Serial d, ap = args, union = u0, pc = 0\<rparr>" d s]
  by (auto simp: printk_def simple_vsprintf_def)

theorem printk_plain_witness:
  "\<exists>d'. printk still_line 0 (concat (map escape ''50%'')) [] fresh_io = Inr d' \<and>
    writes d' = [(RASPI3_PL011_DR, 0x35), (RASPI3_PL011_DR, 0x30), (RASPI3_PL011_DR, 0x25)]"
  using printk_plain [OF still_drains, of 0 "''50%''" "[]" fresh_io] by (auto simp: sends_def crlf_def fresh_io_def)

lemma sint_neg_long: "sint (x :: u32) < 0 \<Longrightarrow> 2 ^ 63 \<le> unat (scast x :: u64)"
  using sint_nonneg_unat [of "scast x"] by (simp add: sint_scast)

text \<open>C36: A negative number printed with \<open>%b\<close> has 64 binary digits, one more than \<open>print_buf\<close> holds before
  its NUL: the conversion writes below the buffer.\<close>

theorem printk_negative_binary:
  assumes "sint x < 0"
  shows "printk hw u0 ''%b'' [Va_int x] d = Inl FAULT"
proof -
  define i where "i = (scast x :: u64)"
  have "63 < length (digits_of 2 97 (unat i))" using digits_of_longer [OF sint_neg_long [OF assms]] by (simp add: i_def)
  then have "output_digits i (int 2) 97 (63, []) = Inl FAULT" by (subst output_digits_text) (simp_all add: Let_def)
  moreover have "i \<noteq> 0" using assms by (auto simp: i_def simp flip: sint_scast(1))
  ultimately have "simple_outputi hw i 2 True 0 0 97 (Serial d) = Inl FAULT"
    by (simp add: simple_outputi_def PRINT_BUF_LEN_def)
  then show ?thesis
    by (simp add: printk_def simple_vsprintf_def directive_def parse_flags_def cur_def parse_width_def convert_def
        conv_i_def va_int_def add_pc_def set_union_def i_def)
qed

theorem printk_negative_binary_witness:
  "printk still_line 0 ''%b'' [Va_int (- 1)] fresh_io = Inl FAULT"
  by (rule printk_negative_binary) simp

text \<open>A format that ends inside a conversion: the loop steps over the NUL and reads on.\<close>

lemma printk_unfinished: "printk hw u0 ''%5'' args d = Inl FAULT" "printk hw u0 ''%l'' args d = Inl FAULT"
  by (simp_all add: printk_def simple_vsprintf_def directive_def parse_flags_def cur_def parse_width_def convert_defs)

end
