(* ===== verification/Bitops.thy ===== *)
theory Bitops
  imports KPrelude
begin

text \<open>
  Bit maps and bit scans: src/include/common/bitops.h. A bit map is an array of 64-bit words; an index
  past the array is an access outside the object. The names \<open>set_bit\<close> and the like carry the suffix
  \<open>_in\<close>.
\<close>

section \<open>The operations\<close>

definition BITS_PER_LONG :: nat where "BITS_PER_LONG = 64"
definition BITS_PER_INT :: nat where "BITS_PER_INT = 32"

definition get_bit_in_slot :: "u64 \<Rightarrow> nat \<Rightarrow> u64" where
  "get_bit_in_slot slot b = (and) slot (push_bit b 1)"

definition clear_bit_in_slot :: "u64 \<Rightarrow> nat \<Rightarrow> u64" where
  "clear_bit_in_slot slot b = (and) slot (not (push_bit b 1))"

definition set_bit_in_slot :: "u64 \<Rightarrow> nat \<Rightarrow> u64" where
  "set_bit_in_slot slot b = (or) slot (push_bit b 1)"

definition set_bit_in :: "u32 \<Rightarrow> u64 list \<Rightarrow> u64 list result" where
  "set_bit_in nr p =
     (let nlongs = unat nr div BITS_PER_LONG; ilongs = unat nr mod BITS_PER_LONG in
      if nlongs < length p then Inr (p[nlongs := (or) (p ! nlongs) (push_bit ilongs 1)]) else Inl FAULT)"

definition get_bit_in :: "u32 \<Rightarrow> u64 list \<Rightarrow> u64 result" where
  "get_bit_in nr p =
     (let nlongs = unat nr div BITS_PER_LONG; ilongs = unat nr mod BITS_PER_LONG in
      if nlongs < length p then Inr ((and) (drop_bit ilongs (p ! nlongs)) 1) else Inl FAULT)"

definition clear_bit_in :: "u32 \<Rightarrow> u64 list \<Rightarrow> u64 list result" where
  "clear_bit_in nr p =
     (let nlongs = unat nr div BITS_PER_LONG; ilongs = unat nr mod BITS_PER_LONG in
      if nlongs < length p then Inr (p[nlongs := (and) (p ! nlongs) (not (push_bit ilongs 1))]) else Inl FAULT)"

text \<open>\<open>__builtin_ctzl\<close> counts the zero bits below the lowest one, \<open>__builtin_clz\<close> those above the highest.\<close>

definition ctzl :: "u64 \<Rightarrow> nat" where
  "ctzl x = (if x = 0 then BITS_PER_LONG else length (takeWhile (\<lambda>n. \<not> bit x n) [0..<BITS_PER_LONG]))"

definition bsr :: "u32 \<Rightarrow> int result" where
  "bsr x =
     (if x = 0 then Inl FAULT
      else Inr (int BITS_PER_INT - 1 - int (length (takeWhile (\<lambda>n. \<not> bit x n) (rev [0..<BITS_PER_INT])))))"

text \<open>The conversion of a \<open>long\<close> to the \<open>int\<close> returned.\<close>

definition to_int :: "int \<Rightarrow> int" where
  "to_int x = sint (of_int x :: u32)"

text \<open>The inner loop of \<open>find_next_bit_helper\<close> over one word: \<open>Inl\<close> the bit found, or \<open>Inr\<close> the count so far.\<close>

function scan_slot :: "u64 \<Rightarrow> bool \<Rightarrow> nat \<Rightarrow> nat \<Rightarrow> int \<Rightarrow> int + int" where
  "scan_slot slot invert cur_bit max_bit res =
     (if cur_bit \<le> max_bit
      then let v = get_bit_in_slot slot cur_bit in
           if (if invert then v = 0 else v \<noteq> 0) then Inl res
           else scan_slot slot invert (cur_bit + 1) max_bit (res + 1)
      else Inr res)"
  by pat_completeness auto
termination by (relation "measure (\<lambda>(_, _, c, m, _). Suc m - c)") auto

declare scan_slot.simps [simp del]

function find_loop :: "u64 list \<Rightarrow> u64 \<Rightarrow> bool \<Rightarrow> nat \<Rightarrow> nat \<Rightarrow> int \<Rightarrow> int result" where
  "find_loop p sz invert cur_elem cur_bit res =
     (let max_elem = unat (sz - 1) div BITS_PER_LONG in
      if cur_elem \<le> max_elem
      then let max_bit = if cur_elem < max_elem then BITS_PER_LONG - 1 else unat (sz - 1) mod BITS_PER_LONG in
           if cur_bit \<le> max_bit \<and> length p \<le> cur_elem then Inl FAULT
           else (case scan_slot (p ! cur_elem) invert cur_bit max_bit res of
                   Inl res \<Rightarrow> Inr (to_int res)
                 | Inr res \<Rightarrow> find_loop p sz invert (cur_elem + 1) 0 res)
      else Inr (to_int (uint sz)))"
  by pat_completeness auto
termination by (relation "measure (\<lambda>(_, sz, _, c, _, _). Suc (unat (sz - 1) div BITS_PER_LONG) - c)") auto

declare find_loop.simps [simp del]

definition find_next_bit_helper :: "u64 list \<Rightarrow> u64 \<Rightarrow> u64 \<Rightarrow> bool \<Rightarrow> int result" where
  "find_next_bit_helper p sz start invert =
     find_loop p sz invert (unat start div BITS_PER_LONG) (unat start mod BITS_PER_LONG) (sint start)"

definition find_next_zero_bit :: "u64 list \<Rightarrow> u64 \<Rightarrow> u64 \<Rightarrow> int result" where
  "find_next_zero_bit p sz start = find_next_bit_helper p sz start True"

definition find_next_bit :: "u64 list \<Rightarrow> u64 \<Rightarrow> u64 \<Rightarrow> int result" where
  "find_next_bit p sz start = find_next_bit_helper p sz start False"

section \<open>Single bits\<close>

definition bit_at :: "u64 list \<Rightarrow> nat \<Rightarrow> bool" where
  "bit_at p n = bit (p ! (n div BITS_PER_LONG)) (n mod BITS_PER_LONG)"

definition in_map :: "u64 list \<Rightarrow> u32 \<Rightarrow> bool" where
  "in_map p nr \<longleftrightarrow> unat nr < BITS_PER_LONG * length p"

lemma in_map_slot: "in_map p nr \<longleftrightarrow> unat nr div BITS_PER_LONG < length p"
  by (simp add: in_map_def BITS_PER_LONG_def less_mult_imp_div_less div_less_iff_less_mult mult.commute)

lemma bit_at_update:
  assumes "k div BITS_PER_LONG < length p"
  shows "bit_at (p[k div BITS_PER_LONG := w]) n =
    (if n div BITS_PER_LONG = k div BITS_PER_LONG then bit w (n mod BITS_PER_LONG) else bit_at p n)"
  using assms by (simp add: bit_at_def nth_list_update)

lemma same_bit: "n div BITS_PER_LONG = k div BITS_PER_LONG \<Longrightarrow> n mod BITS_PER_LONG = k mod BITS_PER_LONG \<longleftrightarrow> n = k"
  by (metis div_mult_mod_eq)

lemma bit_slot_less: "n mod BITS_PER_LONG < 64"
  by (simp add: BITS_PER_LONG_def)

lemma set_bit_in_spec:
  assumes "in_map p nr"
  shows "\<exists>p'. set_bit_in nr p = Inr p' \<and> length p' = length p \<and> bit_at p' n = (n = unat nr \<or> bit_at p n)"
proof -
  let ?k = "unat nr"
  have k: "?k div BITS_PER_LONG < length p" using assms by (simp add: in_map_slot)
  have "bit ((or) w (push_bit (?k mod BITS_PER_LONG) 1)) (n mod BITS_PER_LONG) \<longleftrightarrow>
      bit w (n mod BITS_PER_LONG) \<or> n mod BITS_PER_LONG = ?k mod BITS_PER_LONG" for w :: u64
    using bit_slot_less [of n] by (auto simp: bit_simps)
  then have "bit_at (p[?k div BITS_PER_LONG := (or) (p ! (?k div BITS_PER_LONG)) (push_bit (?k mod BITS_PER_LONG) 1)]) n = (n = ?k \<or> bit_at p n)"
    unfolding bit_at_update [OF k] by (cases "n div BITS_PER_LONG = ?k div BITS_PER_LONG") (simp_all only: if_True if_False same_bit bit_at_def, auto)
  then show ?thesis using k by (simp only: set_bit_in_def Let_def if_True sum.inject length_list_update) simp
qed

lemma clear_bit_in_spec:
  assumes "in_map p nr"
  shows "\<exists>p'. clear_bit_in nr p = Inr p' \<and> length p' = length p \<and> bit_at p' n = (n \<noteq> unat nr \<and> bit_at p n)"
proof -
  let ?k = "unat nr"
  have k: "?k div BITS_PER_LONG < length p" using assms by (simp add: in_map_slot)
  have "bit ((and) w (not (push_bit (?k mod BITS_PER_LONG) 1))) (n mod BITS_PER_LONG) \<longleftrightarrow>
      bit w (n mod BITS_PER_LONG) \<and> n mod BITS_PER_LONG \<noteq> ?k mod BITS_PER_LONG" for w :: u64
    using bit_slot_less [of n] by (auto simp: bit_simps)
  then have "bit_at (p[?k div BITS_PER_LONG := (and) (p ! (?k div BITS_PER_LONG)) (not (push_bit (?k mod BITS_PER_LONG) 1))]) n = (n \<noteq> ?k \<and> bit_at p n)"
    unfolding bit_at_update [OF k] by (cases "n div BITS_PER_LONG = ?k div BITS_PER_LONG") (simp_all only: if_True if_False same_bit bit_at_def, auto)
  then show ?thesis using k by (simp only: clear_bit_in_def Let_def if_True sum.inject length_list_update) simp
qed

lemma get_bit_in_spec:
  assumes "in_map p nr"
  shows "get_bit_in nr p = Inr (if bit_at p (unat nr) then 1 else 0)"
  using assms by (auto simp: get_bit_in_def Let_def in_map_slot bit_at_def and_one_eq bit_iff_odd_drop_bit
      odd_iff_mod_2_eq_one even_iff_mod_2_eq_zero)

section \<open>A bit map as a set of numbers\<close>

datatype bit_op = Set_bit u32 | Clear_bit u32

fun op_index :: "bit_op \<Rightarrow> u32" where
  "op_index (Set_bit nr) = nr"
| "op_index (Clear_bit nr) = nr"

fun run_ops :: "(u32 \<Rightarrow> 'b \<Rightarrow> 'b result) \<Rightarrow> (u32 \<Rightarrow> 'b \<Rightarrow> 'b result) \<Rightarrow> bit_op list \<Rightarrow> 'b \<Rightarrow> 'b result" where
  "run_ops st cl [] b = Inr b"
| "run_ops st cl (Set_bit nr # ops) b = bindR (st nr b) (run_ops st cl ops)"
| "run_ops st cl (Clear_bit nr # ops) b = bindR (cl nr b) (run_ops st cl ops)"

fun set_ops :: "bit_op list \<Rightarrow> nat set \<Rightarrow> nat set" where
  "set_ops [] A = A"
| "set_ops (Set_bit nr # ops) A = set_ops ops (insert (unat nr) A)"
| "set_ops (Clear_bit nr # ops) A = set_ops ops (A - {unat nr})"

locale bit_store =
  fixes st :: "u32 \<Rightarrow> 'b \<Rightarrow> 'b result"
    and cl :: "u32 \<Rightarrow> 'b \<Rightarrow> 'b result"
    and members :: "'b \<Rightarrow> nat set"
    and valid :: "'b \<Rightarrow> u32 \<Rightarrow> bool"
  assumes st_spec: "valid b nr \<Longrightarrow> \<exists>b'. st nr b = Inr b' \<and> members b' = insert (unat nr) (members b) \<and> valid b' = valid b"
    and cl_spec: "valid b nr \<Longrightarrow> \<exists>b'. cl nr b = Inr b' \<and> members b' = members b - {unat nr} \<and> valid b' = valid b"
begin

lemma run_ops_set_ops:
  assumes "\<forall>op \<in> set ops. valid b (op_index op)"
  shows "\<exists>b'. run_ops st cl ops b = Inr b' \<and> members b' = set_ops ops (members b) \<and> valid b' = valid b"
  using assms
proof (induction ops arbitrary: b)
  case (Cons op ops)
  show ?case
  proof (cases op)
    case (Set_bit nr)
    then obtain b1 where "st nr b = Inr b1" "members b1 = insert (unat nr) (members b)" "valid b1 = valid b"
      using st_spec [of b nr] Cons.prems by auto
    then show ?thesis using Cons.IH [of b1] Cons.prems Set_bit by auto
  next
    case (Clear_bit nr)
    then obtain b1 where "cl nr b = Inr b1" "members b1 = members b - {unat nr}" "valid b1 = valid b"
      using cl_spec [of b nr] Cons.prems by auto
    then show ?thesis using Cons.IH [of b1] Cons.prems Clear_bit by auto
  qed
qed simp

end

definition bits_of :: "u64 list \<Rightarrow> nat set" where
  "bits_of p = {n. n < BITS_PER_LONG * length p \<and> bit_at p n}"

lemma set_bit_in_set:
  assumes "in_map p nr"
  shows "\<exists>p'. set_bit_in nr p = Inr p' \<and> bits_of p' = insert (unat nr) (bits_of p) \<and> in_map p' = in_map p"
proof -
  obtain p' where p': "set_bit_in nr p = Inr p'" "length p' = length p" using set_bit_in_spec [OF assms, of 0] by blast
  then have "bit_at p' n = (n = unat nr \<or> bit_at p n)" for n using set_bit_in_spec [OF assms, of n] by auto
  then show ?thesis using p' assms by (auto simp: bits_of_def in_map_def fun_eq_iff)
qed

lemma clear_bit_in_set:
  assumes "in_map p nr"
  shows "\<exists>p'. clear_bit_in nr p = Inr p' \<and> bits_of p' = bits_of p - {unat nr} \<and> in_map p' = in_map p"
proof -
  obtain p' where p': "clear_bit_in nr p = Inr p'" "length p' = length p" using clear_bit_in_spec [OF assms, of 0] by blast
  then have "bit_at p' n = (n \<noteq> unat nr \<and> bit_at p n)" for n using clear_bit_in_spec [OF assms, of n] by auto
  then show ?thesis using p' assms by (auto simp: bits_of_def in_map_def fun_eq_iff)
qed

interpretation bitmap: bit_store set_bit_in clear_bit_in bits_of in_map
  by unfold_locales (rule set_bit_in_set clear_bit_in_set; assumption)+

text \<open>C33: A bit map is a set of numbers: every sequence of \<open>set_bit\<close> and \<open>clear_bit\<close> on indices inside the array
  returns, and afterwards \<open>get_bit\<close> of an index tells whether it is in the set that the same
  insertions and removals give.\<close>

theorem bitmap_refines_set:
  assumes "\<forall>op \<in> set ops. in_map p (op_index op)" "in_map p nr"
  shows "\<exists>p'. run_ops set_bit_in clear_bit_in ops p = Inr p' \<and>
    get_bit_in nr p' = Inr (if unat nr \<in> set_ops ops (bits_of p) then 1 else 0)"
proof -
  obtain p' where p': "run_ops set_bit_in clear_bit_in ops p = Inr p'" "bits_of p' = set_ops ops (bits_of p)" "in_map p' = in_map p"
    using bitmap.run_ops_set_ops [OF assms(1)] by blast
  then have "bit_at p' (unat nr) \<longleftrightarrow> unat nr \<in> set_ops ops (bits_of p)" using assms(2) by (auto simp: bits_of_def in_map_def fun_eq_iff)
  then show ?thesis using p' assms(2) get_bit_in_spec [of p' nr] by auto
qed

theorem bitmap_refines_set_witness:
  "\<exists>p'. run_ops set_bit_in clear_bit_in [Set_bit 70, Set_bit 3, Clear_bit 70] [0, 0] = Inr p' \<and>
    get_bit_in 70 p' = Inr (if unat (70 :: u32) \<in> set_ops [Set_bit 70, Set_bit 3, Clear_bit 70] (bits_of [0, 0]) then 1 else 0)"
  by (rule bitmap_refines_set) (simp_all add: in_map_def BITS_PER_LONG_def)

section \<open>Searching\<close>

text \<open>The reference: the first number from \<open>lo\<close> below \<open>hi\<close> with the property, or \<open>hi\<close>.\<close>

definition first_match :: "(nat \<Rightarrow> bool) \<Rightarrow> nat \<Rightarrow> nat \<Rightarrow> nat" where
  "first_match P lo hi = hd (filter P [lo..<hi] @ [hi])"

lemma first_match_empty: "hi \<le> lo \<Longrightarrow> first_match P lo hi = hi"
  by (simp add: first_match_def)

lemma first_match_split:
  assumes "lo \<le> mid" "mid \<le> hi"
  shows "first_match P lo hi = (case filter P [lo..<mid] of [] \<Rightarrow> first_match P mid hi | n # _ \<Rightarrow> n)"
proof -
  have "[lo..<hi] = [lo..<mid] @ [mid..<hi]" using assms by (metis le_add_diff_inverse upt_add_eq_append)
  then show ?thesis by (simp add: first_match_def split: list.splits)
qed

lemma first_match_le: "first_match P lo hi \<le> hi" if "lo \<le> hi"
proof -
  have "first_match P lo hi \<in> set (filter P [lo..<hi] @ [hi])" unfolding first_match_def by (rule hd_in_set) simp
  then show ?thesis by auto
qed

lemma upt_shift: "[k + c..<k + d] = map ((+) k) [c..<d]"
  by (induction d) auto

lemma slot_bit: "b < 64 \<Longrightarrow> get_bit_in_slot slot b \<noteq> 0 \<longleftrightarrow> bit slot b"
  by (simp add: get_bit_in_slot_def bit_iff_and_push_bit_not_eq_0)

lemma scan_slot_filter:
  assumes "m < 64"
  shows "scan_slot slot invert c m r =
    (case filter (\<lambda>b. bit slot b \<noteq> invert) [c..<Suc m] of [] \<Rightarrow> Inr (r + int (Suc m - c)) | b # _ \<Rightarrow> Inl (r + int (b - c)))"
  using assms
proof (induction slot invert c m r rule: scan_slot.induct)
  case (1 slot invert c m r)
  show ?case
  proof (cases "c \<le> m")
    case True
    have up: "[c..<Suc m] = c # [Suc c..<Suc m]" using True by (simp add: upt_conv_Cons del: upt_Suc)
    have test: "(if invert then get_bit_in_slot slot c = 0 else get_bit_in_slot slot c \<noteq> 0) \<longleftrightarrow> bit slot c \<noteq> invert"
      using slot_bit [of c slot] True 1(2) by auto
    show ?thesis
    proof (cases "bit slot c \<noteq> invert")
      case False
      have ge: "Suc c \<le> b" if "filter (\<lambda>b. bit slot b \<noteq> invert) [Suc c..<Suc m] = b # bs" for b bs
      proof -
        have "b \<in> set (filter (\<lambda>b. bit slot b \<noteq> invert) [Suc c..<Suc m])" unfolding that by simp
        then show ?thesis by auto
      qed
      have "scan_slot slot invert c m r = scan_slot slot invert (c + 1) m (r + 1)"
        by (subst scan_slot.simps) (simp only: Let_def test if_not_P [OF False] if_P [OF True])
      also have "\<dots> = (case filter (\<lambda>b. bit slot b \<noteq> invert) [Suc c..<Suc m] of
          [] \<Rightarrow> Inr (r + 1 + int (Suc m - Suc c)) | b # _ \<Rightarrow> Inl (r + 1 + int (b - Suc c)))"
        using 1(1) [OF True refl _ 1(2)] test False by (simp only: Suc_eq_plus1 not_False_eq_True)
      also have "\<dots> = (case filter (\<lambda>b. bit slot b \<noteq> invert) [c..<Suc m] of
          [] \<Rightarrow> Inr (r + int (Suc m - c)) | b # _ \<Rightarrow> Inl (r + int (b - c)))"
        unfolding up filter.simps if_not_P [OF False] using True ge
        by (auto split: list.split simp: of_nat_diff simp del: upt_Suc)
      finally show ?thesis .
    qed (subst scan_slot.simps, simp only: Let_def test True if_True up, simp)
  qed (subst scan_slot.simps, simp)
qed

definition matches :: "u64 list \<Rightarrow> bool \<Rightarrow> nat \<Rightarrow> bool" where
  "matches p invert n \<longleftrightarrow> bit_at p n \<noteq> invert"

text \<open>A scan of one word is a stretch of the search.\<close>

lemma scan_slot_matches:
  assumes "m < 64"
  shows "scan_slot (p ! e) invert c m (int (64 * e + c)) =
    (case filter (matches p invert) [64 * e + c..<64 * e + Suc m] of
       [] \<Rightarrow> Inr (int (64 * e + c) + int (Suc m - c)) | n # _ \<Rightarrow> Inl (int n))"
proof -
  have bit: "matches p invert (64 * e + b) \<longleftrightarrow> bit (p ! e) b \<noteq> invert" if "b < 64" for b
    using that by (simp add: matches_def bit_at_def BITS_PER_LONG_def)
  have "filter (\<lambda>b. matches p invert (64 * e + b)) [c..<Suc m] = filter (\<lambda>b. bit (p ! e) b \<noteq> invert) [c..<Suc m]"
  proof (rule filter_cong [OF refl])
    fix b
    assume "b \<in> set [c..<Suc m]"
    then have "b < 64" using assms by auto
    then show "matches p invert (64 * e + b) = (bit (p ! e) b \<noteq> invert)" by (rule bit)
  qed
  then have f: "filter (matches p invert) [64 * e + c..<64 * e + Suc m] = map ((+) (64 * e)) (filter (\<lambda>b. bit (p ! e) b \<noteq> invert) [c..<Suc m])"
    unfolding upt_shift filter_map by (simp add: comp_def del: upt_Suc)
  show ?thesis
  proof (cases "filter (\<lambda>b. bit (p ! e) b \<noteq> invert) [c..<Suc m]")
    case Nil
    then show ?thesis unfolding scan_slot_filter [OF assms] f by simp
  next
    case (Cons b bs)
    have "b \<in> set (filter (\<lambda>b. bit (p ! e) b \<noteq> invert) [c..<Suc m])" unfolding Cons by simp
    then have "c \<le> b" by auto
    then show ?thesis unfolding scan_slot_filter [OF assms] f Cons by (simp add: of_nat_diff)
  qed
qed

lemma find_loop_end: "unat (sz - 1) div 64 < e \<Longrightarrow> find_loop p sz invert e c r = Inr (to_int (int (unat sz)))"
  by (subst find_loop.simps) (simp add: BITS_PER_LONG_def)

lemma find_loop_step:
  assumes "e \<le> unat (sz - 1) div 64" "e < length p"
  shows "find_loop p sz invert e c r =
    (case scan_slot (p ! e) invert c (if e < unat (sz - 1) div 64 then 63 else unat (sz - 1) mod 64) r of
       Inl r \<Rightarrow> Inr (to_int r) | Inr r \<Rightarrow> find_loop p sz invert (e + 1) 0 r)"
  using assms by (subst find_loop.simps) (simp add: BITS_PER_LONG_def Let_def)

lemma find_loop_first:
  assumes "0 < unat sz" "unat sz \<le> 64 * length p"
  shows "c < 64 \<Longrightarrow> find_loop p sz invert e c (int (64 * e + c)) = Inr (to_int (int (first_match (matches p invert) (64 * e + c) (unat sz))))"
proof (induction "Suc (unat (sz - 1) div 64) - e" arbitrary: e c)
  case 0
  define N where "N = unat sz"
  have N1: "unat (sz - 1) = N - 1" using assms(1) by (simp add: N_def unat_minus_one unat_gt_0)
  then have "N \<le> 64 * e" using 0 by (simp add: Suc_le_eq)
  then show ?case using 0 by (simp add: find_loop_end first_match_empty N_def)
next
  case (Suc k)
  define N where "N = unat sz"
  define M where "M = unat (sz - 1) div 64"
  define m where "m = (if e < M then 63 else unat (sz - 1) mod 64)"
  have N1: "unat (sz - 1) = N - 1" using assms(1) by (simp add: N_def unat_minus_one unat_gt_0)
  have N: "N = 64 * M + Suc (unat (sz - 1) mod 64)" using N1 assms(1) div_mult_mod_eq [of "N - 1" 64] by (simp add: M_def N_def)
  have e: "e \<le> M" using Suc(2) by (simp add: M_def)
  have len: "e < length p" using N e assms(2) by (simp add: N_def)
  have m: "m < 64" "64 * e + Suc m \<le> N" "e = M \<Longrightarrow> 64 * e + Suc m = N" using N e by (auto simp: m_def)
  let ?P = "matches p invert"
  have step: "find_loop p sz invert e c (int (64 * e + c)) =
    (case filter ?P [64 * e + c..<64 * e + Suc m] of
       [] \<Rightarrow> find_loop p sz invert (e + 1) 0 (int (64 * e + c) + int (Suc m - c)) | n # _ \<Rightarrow> Inr (to_int (int n)))"
    using find_loop_step [of e sz p invert c "int (64 * e + c)"] e len
    by (simp only: scan_slot_matches [OF m(1)] flip: M_def m_def) (auto split: list.split simp del: upt_Suc)
  show ?case
  proof (cases "c \<le> m")
    case True
    have next_word: "find_loop p sz invert (e + 1) 0 (int (64 * e + c) + int (Suc m - c)) =
      Inr (to_int (int (first_match ?P (64 * e + Suc m) N)))"
    proof (cases "e < M")
      case less: True
      then have "int (64 * e + c) + int (Suc m - c) = int (64 * (e + 1) + 0)" "64 * (e + 1) + 0 = 64 * e + Suc m"
        using True by (simp_all add: m_def)
      moreover have "k = Suc (unat (sz - 1) div 64) - (e + 1)" using Suc(2) by simp
      ultimately show ?thesis using Suc(1) [of "e + 1" 0] unfolding N_def by (simp add: add.commute)
    next
      case False
      then show ?thesis using e m(3) find_loop_end [of sz "e + 1"] by (simp add: first_match_empty N_def flip: M_def)
    qed
    have "first_match ?P (64 * e + c) N = (case filter ?P [64 * e + c..<64 * e + Suc m] of [] \<Rightarrow> first_match ?P (64 * e + Suc m) N | n # _ \<Rightarrow> n)"
      using True m(2) by (intro first_match_split) auto
    then show ?thesis using step next_word by (auto split: list.splits simp: N_def simp del: upt_Suc)
  next
    case False
    then have "e = M" using e Suc(3) by (auto simp: m_def split: if_splits)
    then have "N \<le> 64 * e + c" using m(3) False by simp
    moreover have "find_loop p sz invert (e + 1) 0 r = Inr (to_int (int N))" for r
      using find_loop_end [of sz "e + 1"] \<open>e = M\<close> by (simp add: N_def flip: M_def)
    ultimately show ?thesis using step False by (simp add: first_match_empty N_def)
  qed
qed

lemma to_int_small: "n < 2 ^ 31 \<Longrightarrow> to_int (int n) = int n"
  by (simp add: to_int_def signed_of_nat signed_take_bit_int_eq_self_iff)

lemma sint_small: "unat (x :: u64) < 2 ^ 63 \<Longrightarrow> sint x = int (unat x)"
proof -
  assume "unat x < 2 ^ 63"
  then have "unat x < 9223372036854775808" by simp
  then have "int (unat x) < 9223372036854775808" "- 9223372036854775808 \<le> int (unat x)" by linarith+
  then have "signed_take_bit 63 (int (unat x)) = int (unat x)" by (simp add: signed_take_bit_int_eq_self_iff)
  then show ?thesis by (simp add: sint_uint)
qed

text \<open>C32: \<open>find_next_bit\<close> and \<open>find_next_zero_bit\<close> answer the first index from \<open>start\<close> on, below the size, whose
  bit is set or clear, and the size when there is none, also when the last word is not full or
  \<open>start\<close> lies past the end.\<close>

theorem find_next_bit_first:
  assumes "0 < unat sz" "unat sz \<le> 64 * length p" "unat sz < 2 ^ 31" "unat start < 2 ^ 63"
  shows "find_next_bit p sz start = Inr (int (first_match (bit_at p) (unat start) (unat sz))) \<and>
    find_next_zero_bit p sz start = Inr (int (first_match (\<lambda>n. \<not> bit_at p n) (unat start) (unat sz)))"
proof -
  have pos: "64 * (unat start div 64) + unat start mod 64 = unat start" by simp
  have le: "first_match P (unat start) (unat sz) \<le> unat sz" for P
    using first_match_le first_match_empty by (metis nat_le_linear order_refl)
  have small: "to_int (int (first_match P (unat start) (unat sz))) = int (first_match P (unat start) (unat sz))" for P
    using le [of P] assms(3) by (intro to_int_small) linarith
  have "find_next_bit_helper p sz start invert = Inr (to_int (int (first_match (matches p invert) (unat start) (unat sz))))" for invert
    using find_loop_first [OF assms(1,2), of "unat start mod 64" invert "unat start div 64"]
    by (simp only: pos find_next_bit_helper_def BITS_PER_LONG_def sint_small [OF assms(4)])
  moreover have "matches p False = bit_at p" "matches p True = (\<lambda>n. \<not> bit_at p n)" by (auto simp: matches_def)
  ultimately show ?thesis by (simp add: find_next_bit_def find_next_zero_bit_def small)
qed

theorem find_next_bit_first_witness:
  "find_next_bit [1, 0x10] 70 1 = Inr (int (first_match (bit_at [1, 0x10]) 1 70)) \<and>
    first_match (bit_at [1, 0x10]) 1 70 = 68"
proof -
  have "first_match (bit_at [1, 0x10]) 1 70 = 68" by code_simp
  then show ?thesis using find_next_bit_first [of 70 "[1, 0x10]" 1] by simp
qed

end
