(* ===== verification/Utils.thy ===== *)
theory Utils
  imports KPrelude "HOL-Library.List_Lexorder"
begin

text \<open>
  The memory and string routines of src/include/common/utils.h, over a byte memory in which an access
  to an address without a byte faults. A \<open>char\<close> is an unsigned byte on this platform.
\<close>

section \<open>The routines\<close>

type_synonym bytes = "u64 \<rightharpoonup> u8"

definition load :: "bytes \<Rightarrow> u64 \<Rightarrow> u8 result" where
  "load m a = of_option (m a)"

definition store_byte :: "u64 \<Rightarrow> u8 \<Rightarrow> bytes \<Rightarrow> bytes result" where
  "store_byte a v m = (if m a = None then Inl FAULT else Inr (m(a \<mapsto> v)))"

text \<open>\<open>while (size--) *d++ = *s++;\<close>\<close>

fun copy_loop :: "nat \<Rightarrow> u64 \<Rightarrow> u64 \<Rightarrow> bytes \<Rightarrow> bytes result" where
  "copy_loop 0 d s m = Inr m"
| "copy_loop (Suc n) d s m =
     bindR (load m s) (\<lambda>v. bindR (store_byte d v m) (copy_loop n (d + 1) (s + 1)))"

definition memcpy :: "u64 \<Rightarrow> u64 \<Rightarrow> size_t \<Rightarrow> bytes \<Rightarrow> bytes result" where
  "memcpy dst src sz m = copy_loop (unat sz) dst src m"

fun fill_loop :: "nat \<Rightarrow> u64 \<Rightarrow> u8 \<Rightarrow> bytes \<Rightarrow> bytes result" where
  "fill_loop 0 p ch m = Inr m"
| "fill_loop (Suc n) p ch m = bindR (store_byte p ch m) (fill_loop n (p + 1) ch)"

definition memset :: "u64 \<Rightarrow> u8 \<Rightarrow> size_t \<Rightarrow> bytes \<Rightarrow> bytes result" where
  "memset dst ch sz m = fill_loop (unat sz) dst ch m"

text \<open>The loops that run to a NUL; not returning is \<open>None\<close>.\<close>

partial_function (option) strcmp :: "bytes \<Rightarrow> u64 \<Rightarrow> u64 \<Rightarrow> int result option" where
  "strcmp m src dst =
     (case (m src, m dst) of
        (Some a, Some b) \<Rightarrow>
          if a \<noteq> 0 \<and> b \<noteq> 0
          then if a = b then strcmp m (src + 1) (dst + 1) else Some (Inr (uint a - uint b))
          else if a = 0 \<and> b = 0 then Some (Inr 0)
          else if a = 0 then Some (Inr (- 1)) else Some (Inr 1)
      | _ \<Rightarrow> Some (Inl FAULT))"

partial_function (option) strlen_from :: "bytes \<Rightarrow> u64 \<Rightarrow> size_t \<Rightarrow> size_t result option" where
  "strlen_from m src i =
     (case m src of
        None \<Rightarrow> Some (Inl FAULT)
      | Some c \<Rightarrow> if c \<noteq> 0 then strlen_from m (src + 1) (i + 1) else Some (Inr i))"

definition strlen :: "bytes \<Rightarrow> u64 \<Rightarrow> size_t result option" where
  "strlen m src = strlen_from m src 0"

fun strncmp_loop :: "nat \<Rightarrow> bytes \<Rightarrow> u64 \<Rightarrow> u64 \<Rightarrow> int result" where
  "strncmp_loop 0 m src dst = Inr 0"
| "strncmp_loop (Suc n) m src dst =
     bindR (load m src) (\<lambda>a. bindR (load m dst) (\<lambda>b.
     if a = 0 \<or> a \<noteq> b then Inr (uint a - uint b) else strncmp_loop n m (src + 1) (dst + 1)))"

definition strncmp :: "bytes \<Rightarrow> u64 \<Rightarrow> u64 \<Rightarrow> size_t \<Rightarrow> int result" where
  "strncmp m src dst sz = strncmp_loop (unat sz) m src dst"

fun memcmp_loop :: "nat \<Rightarrow> bytes \<Rightarrow> u64 \<Rightarrow> u64 \<Rightarrow> int result" where
  "memcmp_loop 0 m l r = Inr 0"
| "memcmp_loop (Suc n) m l r =
     bindR (load m l) (\<lambda>a. bindR (load m r) (\<lambda>b.
     if a = b then memcmp_loop n m (l + 1) (r + 1) else Inr (uint a - uint b)))"

definition memcmp :: "bytes \<Rightarrow> u64 \<Rightarrow> u64 \<Rightarrow> size_t \<Rightarrow> int result" where
  "memcmp m s1 s2 n = memcmp_loop (unat n) m s1 s2"

section \<open>Strings and areas in memory\<close>

fun cstr :: "bytes \<Rightarrow> u64 \<Rightarrow> u8 list \<Rightarrow> bool" where
  "cstr m p [] \<longleftrightarrow> m p = Some 0"
| "cstr m p (c # cs) \<longleftrightarrow> c \<noteq> 0 \<and> m p = Some c \<and> cstr m (p + 1) cs"

fun area :: "bytes \<Rightarrow> u64 \<Rightarrow> u8 list \<Rightarrow> bool" where
  "area m p [] \<longleftrightarrow> True"
| "area m p (c # cs) \<longleftrightarrow> m p = Some c \<and> area m (p + 1) cs"

lemma strlen_from_cstr: "cstr m p s \<Longrightarrow> strlen_from m p i = Some (Inr (i + of_nat (length s)))"
  by (induction m p s arbitrary: i rule: cstr.induct) (subst strlen_from.simps, simp add: algebra_simps)+

lemma strcmp_cstr:
  assumes "cstr m p s" "cstr m q t"
  shows "\<exists>r. strcmp m p q = Some (Inr r) \<and> (r = 0 \<longleftrightarrow> s = t) \<and> (r < 0 \<longleftrightarrow> s < t)"
  using assms
proof (induction m p s arbitrary: q t rule: cstr.induct)
  case (1 m p)
  then show ?case by (cases t) (subst strcmp.simps, auto)+
next
  case (2 m p c cs)
  show ?case
  proof (cases t)
    case Nil
    then show ?thesis using 2 by (subst strcmp.simps) simp
  next
    case (Cons d ds)
    then show ?thesis using 2 by (subst strcmp.simps) (auto simp: word_less_def word_uint_eqI)
  qed
qed

lemma strncmp_cstr:
  assumes "cstr m p s" "cstr m q t"
  shows "\<exists>r. strncmp_loop n m p q = Inr r \<and> (r = 0 \<longleftrightarrow> take n s = take n t) \<and> (r < 0 \<longleftrightarrow> take n s < take n t)"
  using assms
proof (induction n arbitrary: p q s t)
  case (Suc n)
  show ?case
  proof (cases s)
    case Nil
    then show ?thesis using Suc.prems by (cases t) (auto simp: load_def word_less_def word_neq_0_conv)
  next
    case s: (Cons a as)
    show ?thesis
    proof (cases t)
      case Nil
      then show ?thesis using Suc.prems s by (auto simp: load_def word_less_def word_neq_0_conv)
    next
      case (Cons b bs)
      then show ?thesis using Suc s by (auto simp: load_def word_less_def word_uint_eqI)
    qed
  qed
qed simp

text \<open>Writing \<open>cs\<close> at \<open>p\<close>.\<close>

definition overwrite :: "bytes \<Rightarrow> u64 \<Rightarrow> u8 list \<Rightarrow> bytes" where
  "overwrite m p cs = (\<lambda>a. if unat (a - p) < length cs then Some (cs ! unat (a - p)) else m a)"

definition mapped :: "bytes \<Rightarrow> u64 \<Rightarrow> nat \<Rightarrow> bool" where
  "mapped m p n \<longleftrightarrow> (\<forall>i < n. m (p + of_nat i) \<noteq> None)"

lemma overwrite_step:
  assumes "Suc (length cs) < 2 ^ 64"
  shows "overwrite (m(p \<mapsto> c)) (p + 1) cs = overwrite m p (c # cs)"
proof
  fix a
  show "overwrite (m(p \<mapsto> c)) (p + 1) cs a = overwrite m p (c # cs) a"
  proof (cases "a = p")
    case True
    have "unat (- 1 :: u64) = 2 ^ 64 - 1" by (simp add: unsigned_minus_1_eq_mask mask_eq_exp_minus_1)
    then show ?thesis using True assms by (simp add: overwrite_def)
  next
    case False
    then have "unat (a - (p + 1)) = unat (a - p) - 1" "0 < unat (a - p)"
      using unat_minus_one [of "a - p"] by (simp_all add: diff_diff_add unat_gt_0)
    then show ?thesis using False by (auto simp: overwrite_def nth_Cons')
  qed
qed

lemma unat_index: "n < 2 ^ 64 \<Longrightarrow> unat (of_nat n :: u64) = n"
  by (simp add: unsigned_of_nat take_bit_nat_eq_self_iff)

lemma mapped_Suc: "mapped m p (Suc n) \<longleftrightarrow> m p \<noteq> None \<and> mapped m (p + 1) n"
  by (auto simp: mapped_def less_Suc_eq_0_disj algebra_simps)

lemma mapped_upd: "mapped m p n \<Longrightarrow> mapped (m(a \<mapsto> v)) p n"
  by (simp add: mapped_def)

lemma fill_loop_overwrite:
  "mapped m p n \<Longrightarrow> n < 2 ^ 64 \<Longrightarrow> fill_loop n p ch m = Inr (overwrite m p (replicate n ch))"
proof (induction n arbitrary: p m)
  case (Suc n)
  then have "fill_loop n (p + 1) ch (m(p \<mapsto> ch)) = Inr (overwrite (m(p \<mapsto> ch)) (p + 1) (replicate n ch))"
    by (intro Suc.IH mapped_upd) (auto simp: mapped_Suc)
  then show ?case using Suc.prems overwrite_step [of "replicate n ch" m p ch] by (auto simp: mapped_Suc store_byte_def)
qed (simp add: overwrite_def)

lemma area_upd_outside: "\<forall>i < length cs. p + of_nat i \<noteq> a \<Longrightarrow> area m p cs \<Longrightarrow> area (m(a \<mapsto> v)) p cs"
proof (induction m p cs rule: area.induct)
  case (2 m p c cs)
  have "p \<noteq> a" using 2(2) [rule_format, of 0] by simp
  moreover have "p + 1 + of_nat i \<noteq> a" if "i < length cs" for i
    using 2(2) [rule_format, of "Suc i"] that by (simp add: algebra_simps)
  ultimately show ?case using 2 by simp
qed simp

lemma no_clobber:
  assumes "dst = src \<or> n \<le> unat (dst - src)" "i < n" "n < 2 ^ 64"
  shows "src + of_nat i \<noteq> (dst :: u64) \<or> i = 0"
proof (rule ccontr)
  assume "\<not> ?thesis"
  then have i: "dst - src = of_nat i" "i \<noteq> 0" by auto
  then have "unat (dst - src) = i" using assms(2,3) by (simp add: unat_index)
  then show False using assms(1,2) i by auto
qed

lemma copy_loop_overwrite:
  assumes "area m src cs" "mapped m dst (length cs)" "dst = src \<or> length cs \<le> unat (dst - src)" "length cs < 2 ^ 64"
  shows "copy_loop (length cs) dst src m = Inr (overwrite m dst cs)"
  using assms
proof (induction cs arbitrary: src dst m)
  case (Cons c cs)
  have "src + 1 + of_nat i \<noteq> dst" if "i < length cs" for i
    using no_clobber [OF Cons.prems(3), of "Suc i"] that Cons.prems(4) by (simp add: algebra_simps)
  then have a: "area (m(dst \<mapsto> c)) (src + 1) cs" using Cons.prems(1) by (intro area_upd_outside) auto
  have b: "mapped (m(dst \<mapsto> c)) (dst + 1) (length cs)" "m dst \<noteq> None"
    using Cons.prems(2) mapped_upd by (auto simp: mapped_Suc)
  have c: "dst + 1 = src + 1 \<or> length cs \<le> unat (dst + 1 - (src + 1))" using Cons.prems(3) by auto
  have "copy_loop (length cs) (dst + 1) (src + 1) (m(dst \<mapsto> c)) = Inr (overwrite (m(dst \<mapsto> c)) (dst + 1) cs)"
    using Cons.prems(4) by (intro Cons.IH [OF a b(1) c]) simp
  then show ?case using Cons.prems(1,4) \<open>m dst \<noteq> None\<close> overwrite_step [of cs m dst c]
    by (simp add: load_def store_byte_def)
qed (simp add: overwrite_def)

section \<open>Properties\<close>

lemma memcmp_equal: "area m p cs \<Longrightarrow> area m q cs \<Longrightarrow> memcmp_loop (length cs) m p q = Inr 0"
  by (induction cs arbitrary: p q) (auto simp: load_def)

lemma area_iff: "area m p cs \<longleftrightarrow> (\<forall>i < length cs. m (p + of_nat i) = Some (cs ! i))"
  by (induction m p cs rule: area.induct) (auto simp: less_Suc_eq_0_disj algebra_simps)

lemma area_overwrite: "length cs < 2 ^ 64 \<Longrightarrow> area (overwrite m p cs) p cs"
  by (simp add: area_iff overwrite_def unat_index)

lemma area_overwrite_apart:
  assumes "area m q cs" "length cs < 2 ^ 64" "length cs \<le> unat (q - p)" "length cs \<le> unat (p - q)"
  shows "area (overwrite m p cs) q cs"
proof -
  have "\<not> unat (q + of_nat i - p) < length cs" if "i < length cs" for i
  proof
    assume j: "unat (q + of_nat i - p) < length cs"
    define j where "j = unat (q + of_nat i - p)"
    have "q + of_nat i - p = of_nat j" by (simp add: j_def)
    then have eq: "q - p = of_nat j - of_nat i" "p - q = of_nat i - of_nat j" by (simp_all add: algebra_simps)
    show False
    proof (cases "i \<le> j")
      case True
      then have "q - p = of_nat (j - i)" by (simp add: eq)
      then have "unat (q - p) = j - i" using j assms(2) by (simp add: j_def unat_index)
      then show False using assms(3) j by (simp add: j_def)
    next
      case False
      then have "p - q = of_nat (i - j)" by (simp add: eq)
      then have "unat (p - q) = i - j" using that assms(2) by (simp add: unat_index)
      then show False using assms(4) that by simp
    qed
  qed
  then show ?thesis using assms(1) by (simp add: area_iff overwrite_def)
qed

text \<open>C37: \<open>memcpy\<close> between areas that do not overlap returns with exactly the bytes of the source at the
  destination and every other byte unchanged, and \<open>memcmp\<close> then finds the areas equal; \<open>memcpy\<close> is
  also right for an overlapping destination that starts at or below the source.\<close>

theorem memcpy_exact:
  assumes "area m src cs" "mapped m dst (length cs)" "length cs = unat sz" "dst = src \<or> unat sz \<le> unat (dst - src)"
  shows "memcpy dst src sz m = Inr (overwrite m dst cs) \<and>
    (unat sz \<le> unat (dst - src) \<and> unat sz \<le> unat (src - dst) \<longrightarrow> memcmp (overwrite m dst cs) dst src sz = Inr 0)"
proof -
  have len: "length cs < 2 ^ 64" using assms(3) unsigned_less [of sz, where ?'a = nat] by simp
  have "memcpy dst src sz m = Inr (overwrite m dst cs)"
    using copy_loop_overwrite [OF assms(1,2)] assms(3,4) len by (simp add: memcpy_def)
  moreover have "memcmp (overwrite m dst cs) dst src sz = Inr 0" if "unat sz \<le> unat (dst - src)" "unat sz \<le> unat (src - dst)"
    using memcmp_equal [OF area_overwrite [OF len] area_overwrite_apart [OF assms(1) len]] that assms(3) by (simp add: memcmp_def)
  ultimately show ?thesis by blast
qed

definition two_strings :: bytes where
  "two_strings = [0x100 \<mapsto> 0x61, 0x101 \<mapsto> 0x62, 0x102 \<mapsto> 0, 0x200 \<mapsto> 0x61, 0x201 \<mapsto> 0x7A, 0x202 \<mapsto> 0]"

theorem memcpy_exact_witness:
  "memcpy 0x200 0x100 2 two_strings = Inr (overwrite two_strings 0x200 [0x61, 0x62])"
proof -
  have "mapped two_strings 0x200 (length [0x61 :: u8, 0x62])"
    by (simp add: mapped_Suc two_strings_def) (simp add: mapped_def)
  then show ?thesis using memcpy_exact [of two_strings "0x100" "[0x61, 0x62]" "0x200" 2] by (simp add: two_strings_def)
qed

text \<open>On strings that end in a NUL the string routines return: \<open>strlen\<close> gives the length, \<open>strcmp\<close> a number that
  is zero exactly for equal strings and negative exactly when the first comes earlier in the
  dictionary order of unsigned bytes, and \<open>strncmp\<close> the same for the first \<open>size\<close> bytes.\<close>

lemma string_order:
  assumes "cstr m p s" "cstr m q t"
  shows "strlen m p = Some (Inr (of_nat (length s))) \<and>
    (\<exists>r. strcmp m p q = Some (Inr r) \<and> (r = 0 \<longleftrightarrow> s = t) \<and> (r < 0 \<longleftrightarrow> s < t)) \<and>
    (\<exists>r. strncmp m p q sz = Inr r \<and> (r = 0 \<longleftrightarrow> take (unat sz) s = take (unat sz) t) \<and> (r < 0 \<longleftrightarrow> take (unat sz) s < take (unat sz) t))"
  using strlen_from_cstr [OF assms(1), of 0] strcmp_cstr [OF assms] strncmp_cstr [OF assms, of "unat sz"]
  by (simp add: strlen_def strncmp_def)

end
