(* ===== verification/Machine.thy ===== *)
theory Machine
  imports Printk BootPt
begin

text \<open>
  The per-core state and the timer: src/arch/aarch64/machine/smp.c, src/irq/timer.c and
  src/arch/aarch64/plat/raspi3/irq/timer.c. The state is that of the kernel with the registers of the
  core that runs; a register the hardware drives (the counter, its frequency, the cache type) is an
  argument of the operation that reads it, and so is the address of \<open>cpu_info\<close>. Messages of the log
  level of the default build (\<open>kinfo\<close>) are printed, those of \<open>kdebug\<close> are not.
\<close>

section \<open>State\<close>

record per_cpu_info =
  cur_exec_ctx :: u64
  cpu_stack :: u64
  fpu_owner :: u64
  fpu_disable :: u32

record core_regs =
  tpidr_el1 :: u64
  cntp_tval_el0 :: u64
  cntp_ctl_el0 :: u64
  irq_masked :: bool
  vector_set :: bool

record kernel =
  port :: uart
  regs :: core_regs
  once :: int
  irq_handle_type :: "u8 list"
  cpu_info :: "per_cpu_info list"
  ctr_el0 :: u64
  cntp_init :: u64
  cntp_freq :: u64
  cntp_tval :: u64
  tick_per_us :: u64
  sleep_lists :: "nat lheap"
  sleep_locks :: "u32 list"

definition on_dev :: "(io \<Rightarrow> io) \<Rightarrow> kernel \<Rightarrow> kernel" where
  "on_dev f k = k\<lparr>port := (port k)\<lparr>dev := f (dev (port k))\<rparr>\<rparr>"

text \<open>\<open>kinfo(fmt, ...)\<close>\<close>

definition kinfo :: "hardware \<Rightarrow> u64 \<Rightarrow> string \<Rightarrow> va list \<Rightarrow> kernel \<Rightarrow> kernel result" where
  "kinfo hw u0 fmt args k =
     bindR (printk hw u0 (''[INFO] '' @ fmt) args (dev (port k))) (\<lambda>d. Inr (on_dev (\<lambda>_. d) k))"

section \<open>Cores\<close>

definition PLAT_CPU_NUM :: nat where "PLAT_CPU_NUM = 4"

text \<open>A \<open>struct per_cpu_info\<close> takes 64 bytes; the pointer difference is cut to 32 bits.\<close>

definition smp_get_cpu_id :: "u64 \<Rightarrow> kernel \<Rightarrow> u32" where
  "smp_get_cpu_id cpu_info_addr k = ucast (drop_bit 6 (tpidr_el1 (regs k) - cpu_info_addr))"

definition init_per_cpu_info :: "u64 \<Rightarrow> u64 \<Rightarrow> u32 \<Rightarrow> kernel \<Rightarrow> kernel result" where
  "init_per_cpu_info cpu_info_addr ctr cpuid k =
     (let k = (if cpuid = 0 then k\<lparr>ctr_el0 := ctr\<rparr> else k) in
      if length (cpu_info k) \<le> unat cpuid then Inl FAULT
      else Inr (k\<lparr>cpu_info := (cpu_info k)[unat cpuid :=
                   \<lparr>cur_exec_ctx = 0, cpu_stack = KSTACKx_ADDR (ucast cpuid) + CPU_STACK_SIZE, fpu_owner = NULL, fpu_disable = 0\<rparr>],
                 regs := (regs k)\<lparr>tpidr_el1 := cpu_info_addr + 64 * ucast cpuid\<rparr>\<rparr>))"

text \<open>A core finds its own number again.\<close>

lemma init_per_cpu_id:
  assumes "unat cpuid < length (cpu_info k)" "length (cpu_info k) = PLAT_CPU_NUM"
  shows "\<exists>k'. init_per_cpu_info a ctr cpuid k = Inr k' \<and> smp_get_cpu_id a k' = cpuid \<and> port k' = port k \<and> once k' = once k"
proof -
  have lt: "unat cpuid < 4" using assms by (simp add: PLAT_CPU_NUM_def)
  have "unat (ucast cpuid :: u64) = unat cpuid"
    using lt by (simp add: unsigned_ucast_eq take_bit_nat_eq_self_iff)
  moreover have "unat (64 * ucast cpuid :: u64) = 64 * unat cpuid"
    using lt calculation unat_mult_lem [of 64 "ucast cpuid :: u64"] by simp
  ultimately have "drop_bit 6 (64 * ucast cpuid :: u64) = ucast cpuid"
    by (simp add: word_unat_eq_iff drop_bit_eq_div unat_div_distrib)
  moreover have "ucast (ucast cpuid :: u64) = cpuid" by (rule bit_word_eqI) (simp add: bit_simps)
  ultimately have "smp_get_cpu_id a (k\<lparr>regs := r\<lparr>tpidr_el1 := a + 64 * ucast cpuid\<rparr>\<rparr>) = cpuid" for k r
    by (simp add: smp_get_cpu_id_def)
  then show ?thesis using assms by (simp add: init_per_cpu_info_def Let_def smp_get_cpu_id_def)
qed

section \<open>Timer\<close>

definition TICK_MS :: u64 where "TICK_MS = 10"
definition NS_IN_US :: u64 where "NS_IN_US = 1000"
definition INT_SRC_TIMER1 :: u32 where "INT_SRC_TIMER1 = 0x002"
definition CORE_TIMER_IRQCNTL_BASE :: u64 where "CORE_TIMER_IRQCNTL_BASE = KBASE + 0x40000040"

definition core_timer_irqcntl :: "u64 list" where
  "core_timer_irqcntl = [CORE_TIMER_IRQCNTL_BASE + 0x0, CORE_TIMER_IRQCNTL_BASE + 0x4, CORE_TIMER_IRQCNTL_BASE + 0x8, CORE_TIMER_IRQCNTL_BASE + 0xC]"

definition plat_timer_init :: "hardware \<Rightarrow> u64 \<Rightarrow> u64 \<Rightarrow> u64 \<Rightarrow> u64 \<Rightarrow> kernel \<Rightarrow> kernel result" where
  "plat_timer_init hw u0 cpu_info_addr cntpct cntfrq k =
     (let cpuid = unat (smp_get_cpu_id cpu_info_addr k);
          k = k\<lparr>cntp_init := cntpct, cntp_freq := cntfrq, cntp_tval := cntfrq * TICK_MS div 1000\<rparr>
      in bindR (kinfo hw u0 ''CPU freq %lu, set timer %lu\<newline>'' [Va_long (cntp_freq k), Va_long (cntp_tval k)] k) (\<lambda>k.
         let k = k\<lparr>tick_per_us := cntp_freq k div 1000 div 1000, regs := (regs k)\<lparr>cntp_tval_el0 := cntp_tval k\<rparr>\<rparr>
         in if length core_timer_irqcntl \<le> cpuid then Inl FAULT
            else let k = on_dev (put32 (core_timer_irqcntl ! cpuid) INT_SRC_TIMER1) k
                 in Inr (k\<lparr>regs := (regs k)\<lparr>cntp_ctl_el0 := (or) (push_bit 1 0) 1\<rparr>\<rparr>)))"

definition plat_set_next_timer :: "u64 \<Rightarrow> kernel \<Rightarrow> kernel" where
  "plat_set_next_timer tick_delta k = k\<lparr>regs := (regs k)\<lparr>cntp_tval_el0 := tick_delta\<rparr>\<rparr>"

definition plat_set_init_timer :: "kernel \<Rightarrow> kernel" where
  "plat_set_init_timer k = k\<lparr>regs := (regs k)\<lparr>cntp_tval_el0 := cntp_tval k\<rparr>\<rparr>"

definition plat_get_mono_time :: "u64 \<Rightarrow> kernel \<Rightarrow> u64 result" where
  "plat_get_mono_time cur_cnt k =
     (if tick_per_us k = 0 then Inl FAULT else Inr ((cur_cnt - cntp_init k) * NS_IN_US div tick_per_us k))"

definition plat_get_current_tick :: "u64 \<Rightarrow> u64" where
  "plat_get_current_tick cur_cnt = cur_cnt"

fun init_time_states :: "nat list \<Rightarrow> kernel \<Rightarrow> kernel result" where
  "init_time_states [] k = Inr k"
| "init_time_states (i # is) k =
     bindR (of_option (init_list_head i (sleep_lists k))) (\<lambda>h.
     init_time_states is (k\<lparr>sleep_lists := h, sleep_locks := (sleep_locks k)[i := 0]\<rparr>))"

definition timer_init :: "hardware \<Rightarrow> u64 \<Rightarrow> u64 \<Rightarrow> u64 \<Rightarrow> u64 \<Rightarrow> kernel \<Rightarrow> kernel result" where
  "timer_init hw u0 cpu_info_addr cntpct cntfrq k =
     bindR (if smp_get_cpu_id cpu_info_addr k = 0 then init_time_states [0..<PLAT_CPU_NUM] k else Inr k)
       (plat_timer_init hw u0 cpu_info_addr cntpct cntfrq)"

definition handle_timer_irq :: "kernel \<Rightarrow> kernel" where
  "handle_timer_irq k = plat_set_init_timer k"

end
