(* ===== verification/Irq.thy ===== *)
theory Irq
  imports Machine Bitops
begin

text \<open>
  Interrupts and exceptions: src/arch/aarch64/plat/raspi3/irq/irq.c and
  src/arch/aarch64/irq/irq_entry.c. The exception vectors themselves are assembly (irq_entry.S); what
  they call is here.
\<close>

section \<open>Registers and numbers\<close>

definition BCM2835_IRQ_BASIC :: u64 where "BCM2835_IRQ_BASIC = BCM2835_BASE_INTC + 0x00"
definition BCM2835_IRQ_PENDING1 :: u64 where "BCM2835_IRQ_PENDING1 = BCM2835_BASE_INTC + 0x04"
definition BCM2835_IRQ_PENDING2 :: u64 where "BCM2835_IRQ_PENDING2 = BCM2835_BASE_INTC + 0x08"
definition BCM2835_IRQ_FIQ_CTRL :: u64 where "BCM2835_IRQ_FIQ_CTRL = BCM2835_BASE_INTC + 0x0C"
definition BCM2835_IRQ_DISABLE_BASIC :: u64 where "BCM2835_IRQ_DISABLE_BASIC = BCM2835_BASE_INTC + 0x24"
definition CORE_IRQ_BASE :: u64 where "CORE_IRQ_BASE = KBASE + 0x40000060"

definition core_irq_source :: "u64 list" where
  "core_irq_source = [CORE_IRQ_BASE + 0x0, CORE_IRQ_BASE + 0x4, CORE_IRQ_BASE + 0x8, CORE_IRQ_BASE + 0xC]"

definition IRQ_USB :: int where "IRQ_USB = 9"
definition IRQ_UART :: int where "IRQ_UART = 32 + 25"
definition IRQ_UART_BIT :: u32 where "IRQ_UART_BIT = push_bit (nat (IRQ_UART - 32)) 1"
definition MAX_IRQ_NUM :: nat where "MAX_IRQ_NUM = 128"
definition HANDLE_KERNEL :: u8 where "HANDLE_KERNEL = 0"

section \<open>The interrupt controller\<close>

text \<open>\<open>put32(a, get32(a))\<close>\<close>

definition ack :: "hardware \<Rightarrow> u64 \<Rightarrow> io \<Rightarrow> io" where
  "ack hw a d = (let (v, d) = get32 hw a d in put32 a v d)"

definition interrupt_init :: "hardware \<Rightarrow> kernel \<Rightarrow> kernel result" where
  "interrupt_init hw k =
     (if once k = 1
      then let k = k\<lparr>once := 0\<rparr>;
               k = on_dev (put32 BCM2835_IRQ_FIQ_CTRL 0) k;
               k = on_dev (put32 BCM2835_IRQ_DISABLE1 (- 1)) k;
               k = on_dev (put32 BCM2835_IRQ_DISABLE2 (- 1)) k;
               k = on_dev (put32 BCM2835_IRQ_DISABLE_BASIC (- 1)) k;
               k = on_dev (ack hw BCM2835_IRQ_BASIC) k;
               k = on_dev (ack hw BCM2835_IRQ_PENDING1) k;
               k = on_dev (ack hw BCM2835_IRQ_PENDING2) k
           in bindR (plat_enable_irqno IRQ_USB (dev (port k))) (\<lambda>d.
              bindR (enable_uart_irq IRQ_UART ((port k)\<lparr>dev := d\<rparr>)) (\<lambda>u. Inr (k\<lparr>port := u\<rparr>)))
      else Inr k)"

definition plat_interrupt_init :: "hardware \<Rightarrow> kernel \<Rightarrow> kernel result" where
  "plat_interrupt_init hw k = interrupt_init hw k"

text \<open>\<open>1 << ctzl(irq_src)\<close> is undefined for \<open>irq_src = 0\<close>, where \<open>ctzl\<close> is 64.\<close>

definition lowest_source :: "u32 \<Rightarrow> u32 result" where
  "lowest_source irq_src =
     (let n = ctzl (ucast irq_src) in if BITS_PER_INT \<le> n then Inl FAULT else Inr (push_bit n 1))"

text \<open>The peripheral interrupts, which go to core 0.\<close>

definition handle_peripheral :: "hardware \<Rightarrow> kernel \<Rightarrow> kernel result" where
  "handle_peripheral hw k =
     (let (irq, d) = get32 hw BCM2835_IRQ_PENDING2 (dev (port k)); k = on_dev (\<lambda>_. d) k
      in if irq \<noteq> 0
         then if (and) irq IRQ_UART_BIT \<noteq> 0
              then bindR (uart_irq_handler hw (port k)) (\<lambda>u. Inr (k\<lparr>port := u\<rparr>))
              else Inr k
         else Inr k)"

definition plat_handle_irq :: "hardware \<Rightarrow> u64 \<Rightarrow> u64 \<Rightarrow> kernel \<Rightarrow> kernel result" where
  "plat_handle_irq hw u0 cpu_info_addr k =
     (let cpuid = smp_get_cpu_id cpu_info_addr k in
      if length core_irq_source \<le> unat cpuid then Inl FAULT
      else let (irq_src, d) = get32 hw (core_irq_source ! unat cpuid) (dev (port k));
               k = on_dev (\<lambda>_. d) k
      in bindR (lowest_source irq_src) (\<lambda>irq.
         if irq = INT_SRC_TIMER1 then Inr (handle_timer_irq k)
         else bindR (kinfo hw u0 ''Unsupported IRQ %d\<newline>'' [Va_int irq] k) (\<lambda>k.
              bindR (BUG_ON (cpuid \<noteq> 0)) (\<lambda>_. handle_peripheral hw k))))"

section \<open>Entry\<close>

definition disable_irq :: "kernel \<Rightarrow> kernel" where
  "disable_irq k = k\<lparr>regs := (regs k)\<lparr>irq_masked := True\<rparr>\<rparr>"

definition set_exception_vector :: "kernel \<Rightarrow> kernel" where
  "set_exception_vector k = k\<lparr>regs := (regs k)\<lparr>vector_set := True\<rparr>\<rparr>"

definition arch_interrupt_init_per_cpu :: "hardware \<Rightarrow> kernel \<Rightarrow> kernel result" where
  "arch_interrupt_init_per_cpu hw k = plat_interrupt_init hw (set_exception_vector (disable_irq k))"

definition arch_interrupt_init :: "hardware \<Rightarrow> kernel \<Rightarrow> kernel result" where
  "arch_interrupt_init hw k =
     bindR (arch_interrupt_init_per_cpu hw k) (\<lambda>k. Inr (k\<lparr>irq_handle_type := replicate MAX_IRQ_NUM HANDLE_KERNEL\<rparr>))"

definition handle_irq :: "hardware \<Rightarrow> u64 \<Rightarrow> u64 \<Rightarrow> kernel \<Rightarrow> kernel result" where
  "handle_irq hw u0 cpu_info_addr k = plat_handle_irq hw u0 cpu_info_addr k"

definition unexpected_handler :: "unit result" where
  "unexpected_handler = Inl BUG"

section \<open>Synchronous exceptions\<close>

definition EC_MASK :: u64 where "EC_MASK = push_bit 6 1 - 1"
definition GET_ESR_EL1_EC :: "u64 \<Rightarrow> u32" where "GET_ESR_EL1_EC esr = ucast ((and) (drop_bit 26 esr) EC_MASK)"
definition SYNC_EL0_64 :: int where "SYNC_EL0_64 = 8"

definition ESR_EL1_EC_UNKNOWN :: u32 where "ESR_EL1_EC_UNKNOWN = 0b000000"
definition ESR_EL1_EC_WFI_WFE :: u32 where "ESR_EL1_EC_WFI_WFE = 0b000001"
definition ESR_EL1_EC_ENFP :: u32 where "ESR_EL1_EC_ENFP = 0b000111"
definition ESR_EL1_EC_ILLEGAL_EXEC :: u32 where "ESR_EL1_EC_ILLEGAL_EXEC = 0b001110"
definition ESR_EL1_EC_SVC_32 :: u32 where "ESR_EL1_EC_SVC_32 = 0b010001"
definition ESR_EL1_EC_SVC_64 :: u32 where "ESR_EL1_EC_SVC_64 = 0b010101"
definition ESR_EL1_EC_MRS_MSR_64 :: u32 where "ESR_EL1_EC_MRS_MSR_64 = 0b011000"
definition ESR_EL1_EC_IABT_LEL :: u32 where "ESR_EL1_EC_IABT_LEL = 0b100000"
definition ESR_EL1_EC_IABT_CEL :: u32 where "ESR_EL1_EC_IABT_CEL = 0b100001"
definition ESR_EL1_EC_PC_ALIGN :: u32 where "ESR_EL1_EC_PC_ALIGN = 0b100010"
definition ESR_EL1_EC_DABT_LEL :: u32 where "ESR_EL1_EC_DABT_LEL = 0b100100"
definition ESR_EL1_EC_DABT_CEL :: u32 where "ESR_EL1_EC_DABT_CEL = 0b100101"
definition ESR_EL1_EC_SP_ALIGN :: u32 where "ESR_EL1_EC_SP_ALIGN = 0b100110"
definition ESR_EL1_EC_FP_32 :: u32 where "ESR_EL1_EC_FP_32 = 0b101000"
definition ESR_EL1_EC_FP_64 :: u32 where "ESR_EL1_EC_FP_64 = 0b101100"
definition ESR_EL1_EC_SError :: u32 where "ESR_EL1_EC_SError = 0b101111"

text \<open>The cases of the \<open>switch\<close> in their order: \<open>Some\<close> the value returned, or \<open>None\<close> for \<open>break\<close>.\<close>

definition sync_switch :: "u32 \<Rightarrow> u64 \<Rightarrow> u64 \<Rightarrow> u64 option" where
  "sync_switch ec address fix_addr =
     (if ec = ESR_EL1_EC_UNKNOWN then None
      else if ec = ESR_EL1_EC_WFI_WFE then Some address
      else if ec = ESR_EL1_EC_ENFP then None
      else if ec = ESR_EL1_EC_ILLEGAL_EXEC then None
      else if ec = ESR_EL1_EC_SVC_32 then None
      else if ec = ESR_EL1_EC_SVC_64 then None
      else if ec = ESR_EL1_EC_MRS_MSR_64 then None
      else if ec = ESR_EL1_EC_IABT_LEL then Some address
      else if ec = ESR_EL1_EC_IABT_CEL then None
      else if ec = ESR_EL1_EC_PC_ALIGN then None
      else if ec = ESR_EL1_EC_DABT_LEL then Some address
      else if ec = ESR_EL1_EC_DABT_CEL then (if fix_addr \<noteq> 0 then Some fix_addr else Some address)
      else if ec = ESR_EL1_EC_SP_ALIGN then None
      else if ec = ESR_EL1_EC_FP_32 then None
      else if ec = ESR_EL1_EC_FP_64 then None
      else if ec = ESR_EL1_EC_SError then None
      else None)"

text \<open>The messages before the final \<open>BUG\<close> are left out: nothing returns after them.\<close>

definition handle_sync :: "int \<Rightarrow> u64 \<Rightarrow> u64 \<Rightarrow> u64 result" where
  "handle_sync ty esr address =
     (let esr_ec = GET_ESR_EL1_EC esr in
      bindR (if ty < SYNC_EL0_64 \<and> esr_ec \<noteq> ESR_EL1_EC_DABT_CEL then Inl BUG else Inr ()) (\<lambda>_.
      case sync_switch esr_ec address 0 of Some a \<Rightarrow> Inr a | None \<Rightarrow> Inl BUG))"

end
