(* ===== verification/Irq_Props.thy ===== *)
theory Irq_Props
  imports Irq Printk_Props
begin

text \<open>
  Properties of interrupts, exceptions and the timer: which interrupt is served and how, the order in
  which the controller is set up, which exceptions return, and how exact the clock is.
\<close>

section \<open>Log messages\<close>

lemma well_formed_text: "\<forall>c \<in> set s. c \<noteq> CHR ''%'' \<Longrightarrow> well_formed fmt args \<Longrightarrow> well_formed (s @ fmt) args"
  by (induction s) (auto intro: fmt_plain)

lemma well_formed_d:
  assumes "well_formed fmt args"
  shows "well_formed (''%d'' @ fmt) (Va_int x # args)"
proof -
  have "well_formed (CHR ''%'' # CHR ''d'' # fmt) (Va_int x # args)"
    using assms by (intro fmt_directive [where ?fmt2.0 = "CHR ''d'' # fmt" and ?args2.0 = "Va_int x # args"])
      (simp_all add: cur_def parse_flags_def width_end_def conv_kind_def plain_kind_def takes_def)
  then show ?thesis by simp
qed

lemma well_formed_lu:
  assumes "well_formed fmt args"
  shows "well_formed (''%lu'' @ fmt) (Va_long x # args)"
proof -
  have "well_formed (CHR ''%'' # CHR ''l'' # CHR ''u'' # fmt) (Va_long x # args)"
    using assms by (intro fmt_directive [where ?fmt2.0 = "CHR ''l'' # CHR ''u'' # fmt" and ?args2.0 = "Va_long x # args"])
      (simp_all add: cur_def parse_flags_def width_end_def conv_kind_def long_kind_def takes_def Let_def)
  then show ?thesis by simp
qed

lemma unsupported_message: "well_formed (''[INFO] '' @ ''Unsupported IRQ %d\<newline>'') [Va_int x]"
proof -
  have "well_formed (''[INFO] Unsupported IRQ '' @ ''%d'' @ ''\<newline>'' @ []) [Va_int x]"
    by (intro well_formed_text well_formed_d fmt_end) auto
  then show ?thesis by simp
qed

lemma timer_message: "well_formed (''[INFO] '' @ ''CPU freq %lu, set timer %lu\<newline>'') [Va_long x, Va_long y]"
proof -
  have "well_formed (''[INFO] CPU freq '' @ ''%lu'' @ '', set timer '' @ ''%lu'' @ ''\<newline>'' @ []) [Va_long x, Va_long y]"
    by (intro well_formed_text well_formed_lu fmt_end) auto
  then show ?thesis by simp
qed

lemma kinfo_returns:
  assumes "well_formed (''[INFO] '' @ fmt) args" "drains hw"
  shows "\<exists>d s. kinfo hw u0 fmt args k = Inr (on_dev (\<lambda>_. d) k) \<and> sends (dev (port k)) s d"
  using printk_returns [OF assms, of u0 "dev (port k)"] by (auto simp: kinfo_def)

section \<open>The lowest source\<close>

lemma ctzl_lowest:
  assumes "x \<noteq> 0"
  shows "ctzl x < 64 \<and> bit x (ctzl x) \<and> (\<forall>j < ctzl x. \<not> bit x j)"
proof -
  let ?l = "takeWhile (\<lambda>n. \<not> bit x n) [0..<64]"
  have c: "ctzl x = length ?l" using assms by (simp add: ctzl_def BITS_PER_LONG_def)
  obtain n where n: "bit x n" using assms by (auto simp: bit_eq_iff)
  then have "n < 64" using bit_imp_le_length [of x n] by simp
  with n have "?l \<noteq> [0..<64]" by (auto simp: takeWhile_eq_all_conv)
  then have lt: "length ?l < 64" using length_takeWhile_le [of "\<lambda>n. \<not> bit x n" "[0..<64]"]
    by (metis (no_types, lifting) diff_zero le_neq_implies_less length_upt same_length_different takeWhile_dropWhile_id append_Nil2 append_eq_conv_conj take_all_iff order_refl)
  have "\<not> \<not> bit x ([0..<64] ! length ?l)" using lt by (intro nth_length_takeWhile) simp
  moreover have "\<not> bit x j" if "j < length ?l" for j
  proof -
    have "?l ! j \<in> set ?l" using that by simp
    moreover have "?l ! j = j" using that lt by (simp add: takeWhile_nth)
    ultimately show ?thesis using set_takeWhileD by fastforce
  qed
  ultimately show ?thesis using c lt by simp
qed

lemma lowest_source_spec:
  "lowest_source x =
     (if x = 0 then Inl FAULT else Inr (push_bit (ctzl (ucast x)) 1))"
  "x \<noteq> 0 \<Longrightarrow> push_bit (ctzl (ucast x)) 1 = INT_SRC_TIMER1 \<longleftrightarrow> bit x 1 \<and> \<not> bit x 0"
proof -
  have nz: "(ucast x :: u64) \<noteq> 0" if "x \<noteq> 0"
  proof
    assume "(ucast x :: u64) = 0"
    then have "bit (ucast x :: u64) n = bit (0 :: u64) n" for n by simp
    then have "\<not> bit x n" for n using bit_imp_le_length [of x n] by (fastforce simp: bit_simps)
    then show False using that by (auto simp: bit_eq_iff)
  qed
  have low: "ctzl (ucast x) < 32" "bit x (ctzl (ucast x))" "\<forall>j < ctzl (ucast x). \<not> bit x j" if "x \<noteq> 0"
  proof -
    note c = ctzl_lowest [OF nz [OF that]]
    show b: "bit x (ctzl (ucast x))" using c by (simp add: bit_simps)
    then show "ctzl (ucast x) < 32" using bit_imp_le_length [OF b] by simp
    then show "\<forall>j < ctzl (ucast x). \<not> bit x j" using c by (simp add: bit_simps)
  qed
  show "lowest_source x = (if x = 0 then Inl FAULT else Inr (push_bit (ctzl (ucast x)) 1))"
  proof (cases "x = 0")
    case True
    then show ?thesis by (simp add: lowest_source_def BITS_PER_INT_def ctzl_def BITS_PER_LONG_def)
  next
    case False
    then show ?thesis using low(1) by (simp add: lowest_source_def Let_def BITS_PER_INT_def)
  qed
  show "push_bit (ctzl (ucast x)) 1 = INT_SRC_TIMER1 \<longleftrightarrow> bit x 1 \<and> \<not> bit x 0" if "x \<noteq> 0"
  proof -
    define n where "n = ctzl (ucast x)"
    have "n < 32" "bit x n" "\<forall>j < n. \<not> bit x j" using low [OF that] by (simp_all add: n_def)
    have "INT_SRC_TIMER1 = push_bit 1 1" by (simp add: INT_SRC_TIMER1_def)
    moreover have "push_bit n (1 :: u32) = push_bit 1 1 \<longleftrightarrow> n = 1"
    proof
      assume "push_bit n (1 :: u32) = push_bit 1 1"
      then have "bit (push_bit n (1 :: u32)) n = bit (push_bit 1 (1 :: u32)) n" by simp
      then show "n = 1" using \<open>n < 32\<close> by (simp add: bit_simps)
    qed simp
    moreover have "n = 1 \<longleftrightarrow> bit x 1 \<and> \<not> bit x 0"
    proof
      assume "bit x 1 \<and> \<not> bit x 0"
      then have "\<not> n = 0" "\<not> 1 < n" using \<open>bit x n\<close> \<open>\<forall>j < n. \<not> bit x j\<close> by (metis, blast)
      then show "n = 1" by simp
    qed (use \<open>bit x n\<close> \<open>\<forall>j < n. \<not> bit x j\<close> in auto)
    ultimately show ?thesis by (simp add: n_def)
  qed
qed

section \<open>Serving an interrupt\<close>

lemma on_dev_simps [simp]:
  "dev (port (on_dev f k)) = f (dev (port k))" "pl011_buffer (port (on_dev f k)) = pl011_buffer (port k)"
  "regs (on_dev f k) = regs k" "cntp_tval (on_dev f k) = cntp_tval k" "cntp_init (on_dev f k) = cntp_init k"
  "cntp_freq (on_dev f k) = cntp_freq k" "once (on_dev f k) = once k" "on_dev g (on_dev f k) = on_dev (\<lambda>d. g (f d)) k"
  by (simp_all add: on_dev_def)

text \<open>The source word the handler reads, and the first word of pending peripheral interrupts it may see.\<close>

definition source_word :: "hardware \<Rightarrow> u64 \<Rightarrow> kernel \<Rightarrow> u32" where
  "source_word hw a k = hw (core_irq_source ! unat (smp_get_cpu_id a k)) (reads (dev (port k)))"

definition is_timer :: "u32 \<Rightarrow> bool" where
  "is_timer src \<longleftrightarrow> bit src 1 \<and> \<not> bit src 0"

lemma handle_irq_start:
  assumes "unat (smp_get_cpu_id a k) < 4"
  shows "plat_handle_irq hw u0 a k =
    bindR (lowest_source (source_word hw a k)) (\<lambda>irq.
      if irq = INT_SRC_TIMER1 then Inr (handle_timer_irq (on_dev (\<lambda>d. d\<lparr>reads := reads d + 1\<rparr>) k))
      else bindR (kinfo hw u0 ''Unsupported IRQ %d\<newline>'' [Va_int irq] (on_dev (\<lambda>d. d\<lparr>reads := reads d + 1\<rparr>) k)) (\<lambda>k1.
           bindR (BUG_ON (smp_get_cpu_id a k \<noteq> 0)) (\<lambda>_. handle_peripheral hw k1)))"
proof -
  have "length core_irq_source = 4" by (simp add: core_irq_source_def)
  then show ?thesis using assms unfolding plat_handle_irq_def get32_def source_word_def
    by (simp add: Let_def on_dev_def cong del: if_weak_cong)
qed

text \<open>After the message, on core 0: a pending serial interrupt is served, nothing else happens.\<close>

definition peripheral_effect :: "hardware \<Rightarrow> kernel \<Rightarrow> kernel \<Rightarrow> bool" where
  "peripheral_effect hw k k' \<longleftrightarrow>
     (if bit (hw BCM2835_IRQ_PENDING2 (reads (dev (port k)))) 25
      then let c = byte_read hw (reads (dev (port k)) + 1) in
           contents (pl011_buffer (port k')) = keep_last 15 (contents (pl011_buffer (port k)) @ [c]) \<and>
           writes (dev (port k')) = writes (dev (port k)) @ echo [c]
      else pl011_buffer (port k') = pl011_buffer (port k) \<and> writes (dev (port k')) = writes (dev (port k)))"

lemma uart_bit: "irq \<noteq> 0 \<and> (and) irq IRQ_UART_BIT \<noteq> 0 \<longleftrightarrow> bit irq 25"
proof -
  have "IRQ_UART_BIT = push_bit 25 1" by (simp add: IRQ_UART_BIT_def IRQ_UART_def)
  then show ?thesis using bit_iff_and_push_bit_not_eq_0 [of irq 25] by auto
qed

lemma handle_peripheral_correct:
  assumes "drains hw" "ring_ok (pl011_buffer (port k))"
  shows "\<exists>k'. handle_peripheral hw k = Inr k' \<and> ring_ok (pl011_buffer (port k')) \<and> peripheral_effect hw k k'"
proof -
  define irq where "irq = hw BCM2835_IRQ_PENDING2 (reads (dev (port k)))"
  define k1 where "k1 = on_dev (\<lambda>_. (dev (port k))\<lparr>reads := reads (dev (port k)) + 1\<rparr>) k"
  have start: "handle_peripheral hw k =
    (if irq \<noteq> 0 \<and> (and) irq IRQ_UART_BIT \<noteq> 0 then bindR (uart_irq_handler hw (port k1)) (\<lambda>u. Inr (k1\<lparr>port := u\<rparr>)) else Inr k1)"
    by (simp add: handle_peripheral_def get32_def Let_def irq_def k1_def)
  have k1: "pl011_buffer (port k1) = pl011_buffer (port k)" "reads (dev (port k1)) = reads (dev (port k)) + 1" "writes (dev (port k1)) = writes (dev (port k))"
    by (simp_all add: k1_def)
  show ?thesis
  proof (cases "bit irq 25")
    case True
    obtain u' where u': "uart_irq_handler hw (port k1) = Inr u'" "ring_ok (pl011_buffer u')"
      "contents (pl011_buffer u') = keep_last 15 (contents (pl011_buffer (port k1)) @ [byte_read hw (reads (dev (port k1)))])"
      "writes (dev u') = writes (dev (port k1)) @ echo [byte_read hw (reads (dev (port k1)))]"
      using uart_irq_handler_correct [OF assms(1), of "port k1"] assms(2) k1(1) by metis
    then show ?thesis using True start k1 unfolding uart_bit by (simp add: peripheral_effect_def irq_def)
  next
    case False
    then show ?thesis using start k1 assms(2) unfolding uart_bit by (simp add: peripheral_effect_def irq_def)
  qed
qed

section \<open>Properties\<close>

text \<open>C20: How an interrupt is served on a core set up before, with a transmit FIFO that drains. The lowest
  source bit decides: the timer is started again with its period and nothing else is touched; no
  source at all is an undefined shift; any other source is logged, and then a core other than 0
  stops, while core 0 stores and echoes the character of a pending serial interrupt and returns.\<close>

theorem irq_dispatch:
  assumes "drains hw" "ring_ok (pl011_buffer (port k))" "unat (smp_get_cpu_id a k) < 4"
  shows "(source_word hw a k = 0 \<longrightarrow> handle_irq hw u0 a k = Inl FAULT) \<and>
    (is_timer (source_word hw a k) \<longrightarrow>
       (\<exists>k'. handle_irq hw u0 a k = Inr k' \<and> cntp_tval_el0 (regs k') = cntp_tval k \<and>
         pl011_buffer (port k') = pl011_buffer (port k) \<and> writes (dev (port k')) = writes (dev (port k)))) \<and>
    (source_word hw a k \<noteq> 0 \<and> \<not> is_timer (source_word hw a k) \<longrightarrow>
       (if smp_get_cpu_id a k \<noteq> 0 then handle_irq hw u0 a k = Inl BUG
        else \<exists>k1 k' s. handle_irq hw u0 a k = Inr k' \<and> sends (dev (port k)) s (dev (port k1)) \<and>
          pl011_buffer (port k1) = pl011_buffer (port k) \<and> ring_ok (pl011_buffer (port k')) \<and> peripheral_effect hw k1 k'))"
proof -
  define src where "src = source_word hw a k"
  define k0 where "k0 = on_dev (\<lambda>d. d\<lparr>reads := reads d + 1\<rparr>) k"
  define irq where "irq = (push_bit (ctzl (ucast src)) 1 :: u32)"
  have start: "handle_irq hw u0 a k = (if src = 0 then Inl FAULT
      else if is_timer src then Inr (handle_timer_irq k0)
      else bindR (kinfo hw u0 ''Unsupported IRQ %d\<newline>'' [Va_int irq] k0) (\<lambda>k1.
           bindR (BUG_ON (smp_get_cpu_id a k \<noteq> 0)) (\<lambda>_. handle_peripheral hw k1)))"
    using lowest_source_spec [of src] unfolding handle_irq_def handle_irq_start [OF assms(3)]
    by (auto simp: is_timer_def irq_def k0_def simp flip: src_def)
  obtain d s where log: "kinfo hw u0 ''Unsupported IRQ %d\<newline>'' [Va_int irq] k0 = Inr (on_dev (\<lambda>_. d) k0)" "sends (dev (port k0)) s d"
    using kinfo_returns [OF unsupported_message assms(1)] by blast
  have "sends (dev (port k)) s (dev (port (on_dev (\<lambda>_. d) k0)))" using log(2) by (simp add: k0_def sends_def)
  moreover have "ring_ok (pl011_buffer (port (on_dev (\<lambda>_. d) k0)))" using assms(2) by (simp add: k0_def)
  from handle_peripheral_correct [OF assms(1) this] obtain k' where
    "handle_peripheral hw (on_dev (\<lambda>_. d) k0) = Inr k'" "ring_ok (pl011_buffer (port k'))" "peripheral_effect hw (on_dev (\<lambda>_. d) k0) k'" by blast
  moreover have "is_timer src \<Longrightarrow> src \<noteq> 0" by (auto simp: is_timer_def)
  ultimately show ?thesis unfolding start src_def [symmetric]
    using log(1) by (auto simp: handle_timer_irq_def plat_set_init_timer_def k0_def intro!: exI [of _ "on_dev (\<lambda>_. d) k"])
qed

definition booted :: kernel where
  "booted = \<lparr>port = idle_uart, regs = \<lparr>tpidr_el1 = 0x5000, cntp_tval_el0 = 0, cntp_ctl_el0 = 1, irq_masked = True, vector_set = True\<rparr>,
     once = 1, irq_handle_type = [], cpu_info = [], ctr_el0 = 0, cntp_init = 0, cntp_freq = 0, cntp_tval = 192000, tick_per_us = 0,
     sleep_lists = Map.empty, sleep_locks = []\<rparr>"

text \<open>A line on which the timer is the lowest source.\<close>

definition timer_hw :: hardware where
  "timer_hw a n = (if a = CORE_IRQ_BASE then 0x102 else 0)"

lemma timer_drains: "drains timer_hw"
  by (auto simp: drains_def timer_hw_def RASPI3_PL011_FR_def RASPI3_PL011_BASE_def PHYSADDR_OFFSET_def CORE_IRQ_BASE_def KBASE_def)

theorem irq_dispatch_witness:
  "\<exists>k'. handle_irq timer_hw 0 0x5000 booted = Inr k' \<and> cntp_tval_el0 (regs k') = 192000"
proof -
  note timer_drains
  moreover have "ring_ok (pl011_buffer (port booted))"
    by (simp add: booted_def idle_uart_def ring_ok_def slot_ok_def UART_BUF_LEN_def)
  moreover have cpu: "unat (smp_get_cpu_id 0x5000 booted) < 4" "smp_get_cpu_id 0x5000 booted = 0"
    by (simp_all add: smp_get_cpu_id_def booted_def)
  moreover have "is_timer (source_word timer_hw 0x5000 booted)"
    using cpu(2) by (simp add: is_timer_def source_word_def timer_hw_def core_irq_source_def bit_numeral_rec)
  ultimately show ?thesis using irq_dispatch [of timer_hw booted "0x5000" 0] by (auto simp: booted_def)
qed

lemma interrupt_init_correct:
  assumes "once k = 1" "length (buffer (pl011_buffer (port k))) = 16"
  shows "\<exists>k' v0 v1 v2. interrupt_init hw k = Inr k' \<and> once k' = 0 \<and> regs k' = regs k \<and> sleep_lists k' = sleep_lists k \<and>
    ring_ok (pl011_buffer (port k')) \<and> contents (pl011_buffer (port k')) = [] \<and>
    writes (dev (port k')) = writes (dev (port k)) @
      [(BCM2835_IRQ_FIQ_CTRL, 0), (BCM2835_IRQ_DISABLE1, - 1), (BCM2835_IRQ_DISABLE2, - 1), (BCM2835_IRQ_DISABLE_BASIC, - 1),
       (BCM2835_IRQ_BASIC, v0), (BCM2835_IRQ_PENDING1, v1), (BCM2835_IRQ_PENDING2, v2),
       (BCM2835_IRQ_ENABLE1, push_bit 9 1), (RASPI3_PL011_ICR, 0x7FF), (RASPI3_PL011_IMSC, push_bit 4 1),
       (RASPI3_PL011_IFLS, 0), (BCM2835_IRQ_ENABLE2, push_bit 25 1)]"
  using assms
  by (simp add: interrupt_init_def Let_def ack_def get32_def plat_enable_irqno_def enable_uart_irq_def IRQ_USB_def IRQ_UART_def
      ring_ok_def slot_ok_def UART_BUF_LEN_def contents_def filled_def window_def on_dev_def)



text \<open>Which exceptions return. An exception taken in the kernel (a type below 8) returns only for a data abort at
  the current level; one from user space only for a trapped wait, or an instruction or data abort
  at a lower or the current level; all others, system calls included, stop the kernel. What is
  returned is always the address of the exception itself: nothing is repaired.\<close>

lemma handle_sync_outcome:
  "handle_sync ty esr address =
     (let ec = GET_ESR_EL1_EC esr in
      if ec = ESR_EL1_EC_DABT_CEL \<or> (8 \<le> ty \<and> ec \<in> {ESR_EL1_EC_WFI_WFE, ESR_EL1_EC_IABT_LEL, ESR_EL1_EC_DABT_LEL})
      then Inr address else Inl BUG)"
proof -
  note codes = ESR_EL1_EC_UNKNOWN_def ESR_EL1_EC_WFI_WFE_def ESR_EL1_EC_ENFP_def ESR_EL1_EC_ILLEGAL_EXEC_def ESR_EL1_EC_SVC_32_def
    ESR_EL1_EC_SVC_64_def ESR_EL1_EC_MRS_MSR_64_def ESR_EL1_EC_IABT_LEL_def ESR_EL1_EC_IABT_CEL_def ESR_EL1_EC_PC_ALIGN_def
    ESR_EL1_EC_DABT_LEL_def ESR_EL1_EC_DABT_CEL_def ESR_EL1_EC_SP_ALIGN_def ESR_EL1_EC_FP_32_def ESR_EL1_EC_FP_64_def ESR_EL1_EC_SError_def
  have switch: "sync_switch ec address 0 =
    (if ec \<in> {ESR_EL1_EC_DABT_CEL, ESR_EL1_EC_WFI_WFE, ESR_EL1_EC_IABT_LEL, ESR_EL1_EC_DABT_LEL} then Some address else None)" for ec
    by (simp add: sync_switch_def codes)
  show ?thesis by (auto simp: handle_sync_def Let_def switch SYNC_EL0_64_def)
qed

section \<open>The clock\<close>

lemma plat_timer_init_returns:
  assumes "drains hw" "unat (smp_get_cpu_id a k) < 4"
  shows "\<exists>k1. plat_timer_init hw u0 a c0 f k = Inr k1 \<and> cntp_init k1 = c0 \<and> tick_per_us k1 = f div 1000 div 1000 \<and>
    cntp_tval k1 = f * TICK_MS div 1000 \<and> regs k1 = (regs k)\<lparr>cntp_tval_el0 := f * TICK_MS div 1000, cntp_ctl_el0 := 1\<rparr> \<and>
    pl011_buffer (port k1) = pl011_buffer (port k) \<and> sleep_lists k1 = sleep_lists k \<and>
    (\<exists>ws. writes (dev (port k1)) = writes (dev (port k)) @ ws)"
proof -
  let ?k = "k\<lparr>cntp_init := c0, cntp_freq := f, cntp_tval := f * TICK_MS div 1000\<rparr>"
  obtain d s where "kinfo hw u0 ''CPU freq %lu, set timer %lu\<newline>'' [Va_long f, Va_long (f * TICK_MS div 1000)] ?k = Inr (on_dev (\<lambda>_. d) ?k)"
    "sends (dev (port k)) s d"
    using kinfo_returns [OF timer_message assms(1), of u0 f "f * TICK_MS div 1000" ?k] by auto
  moreover have "unat (smp_get_cpu_id a k) < length core_timer_irqcntl" using assms(2) by (simp add: core_timer_irqcntl_def)
  ultimately show ?thesis by (simp add: plat_timer_init_def Let_def on_dev_def sends_def)
qed

lemma unat_ticks: "unat (f div 1000 div 1000 :: u64) = unat f div 1000000"
  by (simp add: unat_div_distrib div_mult2_eq [symmetric])

lemma mono_bound:
  assumes "1000000 \<le> (F :: nat)"
  shows "D * 1000000000 div F \<le> D * 1000 div (F div 1000000)"
    "1000000 dvd F \<Longrightarrow> D * 1000000000 div F = D * 1000 div (F div 1000000)"
proof -
  define q where "q = F div 1000000"
  have q: "0 < q" "q * 1000000 \<le> F" using assms by (simp_all add: q_def div_greater_zero_iff)
  have eq: "D * 1000000000 div (q * 1000000) = D * 1000 div q"
    using div_mult_mult2 [of 1000000 "D * 1000" q] by simp
  show "D * 1000000000 div F \<le> D * 1000 div (F div 1000000)"
    using div_le_mono2 [OF _ q(2), of "D * 1000000000"] q(1) eq by (simp add: q_def)
  show "D * 1000000000 div F = D * 1000 div (F div 1000000)" if "1000000 dvd F"
    using that eq by (simp add: q_def)
qed

text \<open>C38: The clock. With a counter of at least 1 MHz, and until the product with 1000 overflows, \<open>plat_timer_init\<close>
  returns with the timer running at 100 ticks a second, and \<open>plat_get_mono_time\<close> never falls behind
  the nanoseconds since then; it is exact when the frequency is a whole number of MHz, and runs
  ahead otherwise.\<close>

theorem mono_time_accuracy:
  assumes "drains hw" "unat (smp_get_cpu_id a k) < 4" "1000000 \<le> unat f" "unat f * 10 < 2 ^ 64"
    "unat c0 \<le> unat c" "(unat c - unat c0) * 1000 < 2 ^ 64"
  shows "\<exists>k1 t. plat_timer_init hw u0 a c0 f k = Inr k1 \<and> unat (cntp_tval_el0 (regs k1)) = unat f div 100 \<and>
    plat_get_mono_time c k1 = Inr t \<and> (unat c - unat c0) * 1000000000 div unat f \<le> unat t \<and>
    (1000000 dvd unat f \<longrightarrow> unat t = (unat c - unat c0) * 1000000000 div unat f)"
proof -
  obtain k1 where k1: "plat_timer_init hw u0 a c0 f k = Inr k1" "cntp_init k1 = c0" "tick_per_us k1 = f div 1000 div 1000"
    "cntp_tval_el0 (regs k1) = f * TICK_MS div 1000"
    using plat_timer_init_returns [OF assms(1,2), of u0 c0 f] by (auto simp del: unat_sub)
  have "unat (f * TICK_MS) = unat f * 10" using assms(4) unat_mult_lem [of f TICK_MS] by (simp add: TICK_MS_def)
  then have period: "unat (f * TICK_MS div 1000) = unat f div 100"
    using div_mult_mult2 [of 10 "unat f" 100] by (simp add: unat_div_distrib)
  have diff: "unat (c - c0) = unat c - unat c0" using assms(5) by (simp add: unat_sub word_le_nat_alt)
  then have prod: "unat ((c - c0) * NS_IN_US) = (unat c - unat c0) * 1000"
    using assms(6) unat_mult_lem [of "c - c0" NS_IN_US] by (simp add: NS_IN_US_def)
  have ticks: "f div 1000 div 1000 \<noteq> 0"
  proof
    assume "f div 1000 div 1000 = 0"
    then have "unat f div 1000000 = 0" using unat_ticks [of f] by simp
    then show False using assms(3) by (simp add: div_eq_0_iff)
  qed
  have "plat_get_mono_time c k1 = Inr ((c - c0) * NS_IN_US div (f div 1000 div 1000))"
    using k1 ticks by (simp add: plat_get_mono_time_def)
  moreover have "unat ((c - c0) * NS_IN_US div (f div 1000 div 1000)) = (unat c - unat c0) * 1000 div (unat f div 1000000)"
    by (simp only: unat_div_distrib [of "(c - c0) * NS_IN_US"] unat_ticks prod)
  ultimately show ?thesis using k1(1,4) period mono_bound [OF assms(3), of "unat c - unat c0"] by auto
qed

theorem mono_time_accuracy_witness:
  "\<exists>k1 t. plat_timer_init timer_hw 0 0x5000 5 19200000 booted = Inr k1 \<and> unat (cntp_tval_el0 (regs k1)) = 192000 \<and>
    plat_get_mono_time 192005 k1 = Inr t \<and> 10000000 \<le> unat t"
proof -
  note timer_drains
  moreover have "unat (smp_get_cpu_id 0x5000 booted) < 4" by (simp add: smp_get_cpu_id_def booted_def)
  ultimately show ?thesis
    using mono_time_accuracy [of timer_hw "0x5000" booted 19200000 5 192005 0] by auto
qed

end
