(* ===== verification/Poweroff.thy ===== *)
theory Poweroff
  imports Machine
begin

text \<open>
  Switching the machine off through the mailbox and the watchdog
  (src/arch/aarch64/plat/raspi3/poweroff.c), and the system call table (src/syscall/syscall.c), whose
  only working entry does that. The message lies on the stack, at an address that is an argument.
  \<open>wait_cycles\<close> only spends time.
\<close>

definition MMIO_BASE :: u64 where "MMIO_BASE = KBASE + 0x3F000000"
definition VIDEOCORE_MBOX :: u64 where "VIDEOCORE_MBOX = MMIO_BASE + 0x0000B880"
definition MBOX_READ :: u64 where "MBOX_READ = VIDEOCORE_MBOX + 0x0"
definition MBOX_STATUS :: u64 where "MBOX_STATUS = VIDEOCORE_MBOX + 0x18"
definition MBOX_WRITE :: u64 where "MBOX_WRITE = VIDEOCORE_MBOX + 0x20"
definition MBOX_FULL :: u32 where "MBOX_FULL = 0x80000000"
definition MBOX_EMPTY :: u32 where "MBOX_EMPTY = 0x40000000"
definition MBOX_TAG_POWER_STATE :: u32 where "MBOX_TAG_POWER_STATE = 0x00028001"
definition PM_RSTC :: u64 where "PM_RSTC = MMIO_BASE + 0x0010001C"
definition PM_RSTS :: u64 where "PM_RSTS = MMIO_BASE + 0x00100020"
definition PM_WDOG :: u64 where "PM_WDOG = MMIO_BASE + 0x00100024"
definition PM_WDOG_MAGIC :: u32 where "PM_WDOG_MAGIC = 0x5A000000"
definition PM_RSTC_FULLRST :: u32 where "PM_RSTC_FULLRST = 0x00000020"

definition GPFSEL :: "nat \<Rightarrow> u64" where "GPFSEL i = MMIO_BASE + 0x00200000 + 4 * of_nat i"
definition POWER_GPPUD :: u64 where "POWER_GPPUD = MMIO_BASE + 0x00200094"
definition POWER_GPPUDCLK0 :: u64 where "POWER_GPPUDCLK0 = MMIO_BASE + 0x00200098"
definition POWER_GPPUDCLK1 :: u64 where "POWER_GPPUDCLK1 = MMIO_BASE + 0x0020009C"

definition put_all :: "(u64 \<times> u32) list \<Rightarrow> io \<Rightarrow> io" where
  "put_all ws d = fold (\<lambda>(a, v). put32 a v) ws d"

definition mbox_message :: "u64 \<Rightarrow> (u64 \<times> u32) list" where
  "mbox_message mbox =
     [(mbox, 8 * 4), (mbox + 4, 0), (mbox + 8, MBOX_TAG_POWER_STATE), (mbox + 12, 8),
      (mbox + 16, 8), (mbox + 20, 0), (mbox + 24, 0), (mbox + 28, 0)]"

definition mbox_word :: "u64 \<Rightarrow> u32" where
  "mbox_word mbox = (or) ((and) (ucast (virt_to_phys mbox)) (not 0xF)) ((and) 8 0xF)"

text \<open>The loop that waits for the response.\<close>

partial_function (option) wait_reply :: "hardware \<Rightarrow> u32 \<Rightarrow> io \<Rightarrow> io option" where
  "wait_reply hw r d =
     (case wait_while hw MBOX_STATUS MBOX_EMPTY d of
        None \<Rightarrow> None
      | Some d \<Rightarrow> let (v, d) = get32 hw MBOX_READ d in if r = v then Some d else wait_reply hw r d)"

text \<open>The pins, then the watchdog.\<close>

definition gpio_off :: "(u64 \<times> u32) list" where
  "gpio_off = [(GPFSEL 0, 0), (GPFSEL 1, 0), (GPFSEL 2, 0), (GPFSEL 3, 0), (GPFSEL 4, 0), (GPFSEL 5, 0), (POWER_GPPUD, 0),
     (POWER_GPPUDCLK0, 0xFFFFFFFF), (POWER_GPPUDCLK1, 0xFFFFFFFF), (POWER_GPPUDCLK0, 0), (POWER_GPPUDCLK1, 0)]"

definition watchdog_off :: "u32 \<Rightarrow> (u64 \<times> u32) list" where
  "watchdog_off r = [(PM_RSTS, (or) PM_WDOG_MAGIC r), (PM_WDOG, (or) PM_WDOG_MAGIC 10), (PM_RSTC, (or) PM_WDOG_MAGIC PM_RSTC_FULLRST)]"

definition power_down :: "hardware \<Rightarrow> io \<Rightarrow> io" where
  "power_down hw d =
     (let d = put_all gpio_off d; (r, d) = get32 hw PM_RSTS d; r = (and) r (not 0xFFFFFAAA); r = (or) r 0x555
      in put_all (watchdog_off r) d)"

definition plat_poweroff :: "hardware \<Rightarrow> u64 \<Rightarrow> io \<Rightarrow> io result" where
  "plat_poweroff hw mbox d =
     (let d = put_all (mbox_message mbox) d; r = mbox_word mbox in
      case wait_while hw MBOX_STATUS MBOX_FULL d of
        None \<Rightarrow> Inl DIVERGE
      | Some d \<Rightarrow>
        (case wait_reply hw r (put32 MBOX_WRITE r d) of
           None \<Rightarrow> Inl DIVERGE
         | Some d \<Rightarrow> Inr (power_down hw d)))"

section \<open>System calls\<close>

datatype syscall = Sys_null_placeholder | Sys_poweroff

definition NR_SYSCALL :: nat where "NR_SYSCALL = 64"
definition KMK_SYS_poweroff :: nat where "KMK_SYS_poweroff = 51"
definition EBADSYSCALL :: int where "EBADSYSCALL = 202"

definition syscall_table :: "syscall list" where
  "syscall_table = (replicate NR_SYSCALL Sys_null_placeholder)[KMK_SYS_poweroff := Sys_poweroff]"

definition sys_null_placeholder :: "hardware \<Rightarrow> u64 \<Rightarrow> u64 \<Rightarrow> string \<Rightarrow> io \<Rightarrow> (int \<times> io) result" where
  "sys_null_placeholder hw u0 file_addr file d =
     bindR (printk hw u0 (''[WARN] file: %s:%u '' @ ''Invoke non-implemented syscall\<newline>'') [Va_str file_addr file, Va_int 14] d)
       (\<lambda>d. Inr (- EBADSYSCALL, d))"

definition sys_poweroff :: "hardware \<Rightarrow> u64 \<Rightarrow> io \<Rightarrow> io result" where
  "sys_poweroff hw mbox d = plat_poweroff hw mbox d"

text \<open>The numbers of the user interface, under their names without \<open>KMK_SYS_\<close>.\<close>

definition syscall_numbers :: "(string \<times> nat) list" where
  "syscall_numbers = [
    (''putstr'', 0), (''getc'', 1), (''create_pmo'', 2), (''map_pmo'', 4), (''unmap_pmo'', 5),
    (''write_pmo'', 6), (''read_pmo'', 7), (''get_phys_addr'', 8), (''revoke_cap'', 9),
    (''transfer_caps'', 10), (''create_cap_group'', 11), (''exit_group'', 12), (''kill_group'', 60),
    (''create_thread'', 13), (''thread_exit'', 14), (''register_recycle'', 15), (''cap_group_recycle'', 16),
    (''ipc_close_connection'', 17), (''yield'', 18), (''set_affinity'', 19), (''get_affinity'', 20),
    (''set_prio'', 21), (''get_prio'', 22), (''suspend'', 23), (''resume'', 24), (''ptrace'', 25),
    (''register_server'', 26), (''register_client'', 27), (''ipc_register_cb_return'', 28), (''ipc_call'', 29),
    (''ipc_return'', 30), (''ipc_exit_routine_return'', 31), (''ipc_get_cap'', 32), (''ipc_set_cap'', 33),
    (''create_notifc'', 34), (''wait'', 35), (''notify'', 36), (''irq_register'', 37), (''irq_wait'', 38),
    (''irq_ack'', 39), (''configure_irq'', 40), (''user_fault_register'', 41), (''user_fault_map'', 42),
    (''clock_gettime'', 43), (''clock_nanosleep'', 44), (''handle_brk'', 45), (''handle_mprotect'', 46),
    (''cache_flush'', 47), (''cache_config'', 48), (''get_current_tick'', 49), (''get_pci_device'', 50),
    (''poweroff'', 51), (''empty_syscall'', 52), (''top'', 53), (''get_free_mem_size'', 54),
    (''get_mem_usage_msg'', 55), (''get_system_info'', 56), (''futex'', 57), (''set_tid_address'', 58)]"

section \<open>The mailbox answers\<close>

text \<open>From some read on the mailbox is neither full nor empty and holds the response.\<close>

definition mailbox_answers :: "hardware \<Rightarrow> u32 \<Rightarrow> bool" where
  "mailbox_answers hw r \<longleftrightarrow>
     (\<exists>N. \<forall>n \<ge> N. (and) (hw MBOX_STATUS n) MBOX_FULL = 0 \<and> (and) (hw MBOX_STATUS n) MBOX_EMPTY = 0 \<and> hw MBOX_READ n = r)"

lemma wait_while_eventually:
  assumes "\<forall>n \<ge> N. (and) (hw a n) m = 0"
  obtains j where "wait_while hw a m d = Some (d\<lparr>reads := reads d + j + 1\<rparr>)"
proof -
  have "(and) (hw a (reads d + N)) m = 0" using assms by simp
  then have "wait_while hw a m d \<noteq> None" unfolding wait_while_iff by blast
  then show ?thesis using wait_while_result [of hw a m d] that by blast
qed

lemma wait_reply_eventually:
  assumes "\<forall>n \<ge> N. (and) (hw MBOX_STATUS n) MBOX_EMPTY = 0 \<and> hw MBOX_READ n = r"
  shows "\<exists>j. wait_reply hw r d = Some (d\<lparr>reads := j\<rparr>)"
proof (induction "N - reads d" arbitrary: d rule: less_induct)
  case less
  obtain j where j: "wait_while hw MBOX_STATUS MBOX_EMPTY d = Some (d\<lparr>reads := reads d + j + 1\<rparr>)"
    by (rule wait_while_eventually [of N hw MBOX_STATUS MBOX_EMPTY d]) (use assms in auto)
  let ?d = "d\<lparr>reads := reads d + j + 2\<rparr>"
  have step: "wait_reply hw r d = (if r = hw MBOX_READ (reads d + j + 1) then Some ?d else wait_reply hw r ?d)"
    by (subst wait_reply.simps) (simp add: j get32_def)
  show ?case
  proof (cases "r = hw MBOX_READ (reads d + j + 1)")
    case True
    then show ?thesis using step by auto
  next
    case False
    then have "reads d + j + 1 < N" using assms not_less by metis
    then have "N - reads ?d < N - reads d" by simp
    from less [OF this] show ?thesis using step False by auto
  qed
qed

lemma put_all_simps [simp]: "writes (put_all ws d) = writes d @ ws" "reads (put_all ws d) = reads d"
  by (induction ws arbitrary: d) (auto simp: put_all_def)

lemma power_down_writes: "\<exists>r. writes (power_down hw d) = writes d @ gpio_off @ watchdog_off r"
  by (auto simp: power_down_def get32_def Let_def)

lemma plat_poweroff_returns:
  assumes "mailbox_answers hw (mbox_word mbox)"
  shows "\<exists>d' r. plat_poweroff hw mbox d = Inr d' \<and>
    writes d' = writes d @ mbox_message mbox @ [(MBOX_WRITE, mbox_word mbox)] @ gpio_off @ watchdog_off r"
proof -
  obtain N where N: "\<forall>n \<ge> N. (and) (hw MBOX_STATUS n) MBOX_FULL = 0"
    "\<forall>n \<ge> N. (and) (hw MBOX_STATUS n) MBOX_EMPTY = 0 \<and> hw MBOX_READ n = mbox_word mbox"
    using assms by (auto simp: mailbox_answers_def)
  define d1 where "d1 = put_all (mbox_message mbox) d"
  obtain j where j: "wait_while hw MBOX_STATUS MBOX_FULL d1 = Some (d1\<lparr>reads := reads d1 + j + 1\<rparr>)"
    by (rule wait_while_eventually [of N hw MBOX_STATUS MBOX_FULL d1, OF N(1)])
  define d2 where "d2 = put32 MBOX_WRITE (mbox_word mbox) (d1\<lparr>reads := reads d1 + j + 1\<rparr>)"
  obtain i where i: "wait_reply hw (mbox_word mbox) d2 = Some (d2\<lparr>reads := i\<rparr>)"
    using wait_reply_eventually [OF N(2)] by blast
  have "plat_poweroff hw mbox d = Inr (power_down hw (d2\<lparr>reads := i\<rparr>))"
    unfolding plat_poweroff_def Let_def d1_def [symmetric] j option.case d2_def [symmetric] i by simp
  moreover have "writes (d2\<lparr>reads := i\<rparr>) = writes d @ mbox_message mbox @ [(MBOX_WRITE, mbox_word mbox)]"
    by (simp add: d2_def d1_def)
  ultimately show ?thesis using power_down_writes [of hw "d2\<lparr>reads := i\<rparr>"] by auto
qed

text \<open>No number of the user interface stands for two calls, all of them index the table, and \<open>poweroff\<close> is the only
  call behind them.\<close>

lemma only_poweroff: "n < NR_SYSCALL \<Longrightarrow> syscall_table ! n = Sys_poweroff \<longleftrightarrow> n = KMK_SYS_poweroff"
  by (simp add: NR_SYSCALL_def KMK_SYS_poweroff_def syscall_table_def nth_list_update)

lemma syscall_numbers_table: "list_all (\<lambda>(f, n). n < NR_SYSCALL \<and> (n = KMK_SYS_poweroff \<longleftrightarrow> f = ''poweroff'')) syscall_numbers"
  by code_simp

lemma syscall_numbers_ok:
  "distinct (map snd syscall_numbers)" "(f, n) \<in> set syscall_numbers \<Longrightarrow> n < NR_SYSCALL"
  "(f, n) \<in> set syscall_numbers \<Longrightarrow> syscall_table ! n = Sys_poweroff \<longleftrightarrow> f = ''poweroff''"
proof -
  show "distinct (map snd syscall_numbers)" by code_simp
  show n: "n < NR_SYSCALL" if "(f, n) \<in> set syscall_numbers" for f n using that syscall_numbers_table by (auto simp: list_all_iff)
  show "syscall_table ! n = Sys_poweroff \<longleftrightarrow> f = ''poweroff''" if "(f, n) \<in> set syscall_numbers"
    using that syscall_numbers_table only_poweroff [OF n [OF that]] by (auto simp: list_all_iff)
qed

end
