(* ===== verification/BootAsm.thy ===== *)
theory BootAsm
  imports BootPt
begin

text \<open>
  What a core does before C code runs with the MMU on: the assembly of
  src/arch/aarch64/boot/raspi3/init/tools.S. The core is a record of the system registers the
  code touches and a log of the cache and TLB maintenance instructions in their order. 32-bit
  registers are 32-bit words; a shift by a register takes its amount modulo 32; \<open>b.ge\<close> after \<open>subs\<close> is
  the signed comparison of the operands.
\<close>

section \<open>The core\<close>

datatype maintenance = Dc_isw u64 | Dc_civac u64 | Ic_iallu | Tlbi_vmalle1is | Tlbi_vmalle1

record cpu_core =
  pc :: u64
  sp :: u64
  CurrentEL :: u64
  daif :: u64
  scr_el3 :: u64
  elr_el3 :: u64
  spsr_el3 :: u64
  cnthctl_el2 :: u64
  cntvoff_el2 :: u64
  vttbr_el2 :: u64
  cptr_el2 :: u64
  icc_sre_el2 :: u64
  ich_hcr_el2 :: u64
  hcr_el2 :: u64
  elr_el2 :: u64
  spsr_el2 :: u64
  cpacr_el1 :: u64
  id_aa64pfr0_el1 :: u64
  clidr_el1 :: u64
  csselr_el1 :: u64
  ccsidr_el1 :: "u64 \<Rightarrow> u64"
  mair_el1 :: u64
  tcr_el1 :: u64
  ttbr0 :: u64
  ttbr1 :: u64
  sctlr_el1 :: u64
  maint :: "maintenance list"

definition CURRENTEL_EL1 :: u64 where "CURRENTEL_EL1 = push_bit 2 1"
definition CURRENTEL_EL2 :: u64 where "CURRENTEL_EL2 = push_bit 2 2"
definition CURRENTEL_EL3 :: u64 where "CURRENTEL_EL3 = push_bit 2 3"
definition CPACR_EL1_FPEN :: u64 where "CPACR_EL1_FPEN = push_bit 20 3"
definition ID_AA64PFR0_EL1_GIC :: u64 where "ID_AA64PFR0_EL1_GIC = push_bit 24 15"
definition CNTHCTL_EL2_EL1PCEN :: u64 where "CNTHCTL_EL2_EL1PCEN = push_bit 1 1"
definition CNTHCTL_EL2_EL1PCTEN :: u64 where "CNTHCTL_EL2_EL1PCTEN = push_bit 0 1"
definition CPTR_EL2_RES1 :: u64 where "CPTR_EL2_RES1 = 0x33FF"
definition HCR_EL2_RW :: u64 where "HCR_EL2_RW = push_bit 31 1"
definition ICC_SRE_EL2_SRE :: u64 where "ICC_SRE_EL2_SRE = push_bit 0 1"
definition ICC_SRE_EL2_ENABLE :: u64 where "ICC_SRE_EL2_ENABLE = push_bit 3 1"
definition SCR_EL3_NS :: u64 where "SCR_EL3_NS = push_bit 0 1"
definition SCR_EL3_HCE :: u64 where "SCR_EL3_HCE = push_bit 8 1"
definition SCR_EL3_RW :: u64 where "SCR_EL3_RW = push_bit 10 1"
definition SPSR_ELX_DAIF :: u64 where "SPSR_ELX_DAIF = push_bit 6 15"
definition SPSR_ELX_EL1H :: u64 where "SPSR_ELX_EL1H = 5"

section \<open>Entering EL1\<close>

text \<open>\<open>eret\<close> takes the program counter and the state from the registers of the level it is executed at; bits 2 and 3
  of the saved state are the level, bits 6 to 9 the masks.\<close>

definition eret :: "cpu_core \<Rightarrow> cpu_core" where
  "eret c =
     (let (target, spsr) = if (and) (CurrentEL c) 12 = CURRENTEL_EL2 then (elr_el2 c, spsr_el2 c) else (elr_el3 c, spsr_el3 c)
      in c\<lparr>pc := target, CurrentEL := (and) spsr 12, daif := (and) spsr 0x3C0\<rparr>)"

definition from_el3 :: "u64 \<Rightarrow> cpu_core \<Rightarrow> cpu_core" where
  "from_el3 Ltarget c =
     c\<lparr>scr_el3 := (or) (scr_el3 c) ((or) SCR_EL3_NS ((or) SCR_EL3_HCE SCR_EL3_RW)),
       elr_el3 := Ltarget, spsr_el3 := (or) SPSR_ELX_DAIF SPSR_ELX_EL1H\<rparr>"

definition from_el2 :: "u64 \<Rightarrow> cpu_core \<Rightarrow> cpu_core" where
  "from_el2 Ltarget c =
     (let c = c\<lparr>cnthctl_el2 := (or) (cnthctl_el2 c) ((or) CNTHCTL_EL2_EL1PCEN CNTHCTL_EL2_EL1PCTEN), cntvoff_el2 := 0,
            vttbr_el2 := 0, cptr_el2 := CPTR_EL2_RES1, cpacr_el1 := CPACR_EL1_FPEN\<rparr>;
          c = (if (and) (id_aa64pfr0_el1 c) ID_AA64PFR0_EL1_GIC = 0 then c
               else c\<lparr>icc_sre_el2 := (or) (icc_sre_el2 c) ((or) ICC_SRE_EL2_ENABLE ICC_SRE_EL2_SRE), ich_hcr_el2 := 0\<rparr>)
      in c\<lparr>hcr_el2 := HCR_EL2_RW, elr_el2 := Ltarget, spsr_el2 := (or) SPSR_ELX_DAIF SPSR_ELX_EL1H\<rparr>)"

text \<open>\<open>Ltarget\<close> is the address of the label; only there does the function return to its caller.\<close>

definition arm64_elX_to_el1 :: "u64 \<Rightarrow> cpu_core \<Rightarrow> cpu_core result" where
  "arm64_elX_to_el1 Ltarget c =
     (let x9 = (and) (CurrentEL c) 12 in
      if x9 = CURRENTEL_EL1 then Inr (c\<lparr>pc := Ltarget\<rparr>)
      else let c = (if x9 = CURRENTEL_EL2 then c else from_el3 Ltarget c);
               c = eret (from_el2 Ltarget c)
           in if pc c = Ltarget then Inr c else Inl FAULT)"

section \<open>Invalidating the caches\<close>

definition lslv :: "u32 \<Rightarrow> u32 \<Rightarrow> u32" where "lslv w n = push_bit (unat n mod 32) w"
definition lsrv :: "u32 \<Rightarrow> u32 \<Rightarrow> u32" where "lsrv w n = drop_bit (unat n mod 32) w"
definition ubfx :: "u32 \<Rightarrow> nat \<Rightarrow> nat \<Rightarrow> u32" where "ubfx w lsb width = take_bit width (drop_bit lsb w)"
definition clz :: "u32 \<Rightarrow> u32" where "clz w = of_nat (length (takeWhile (\<lambda>n. \<not> bit w n) (rev [0..<32])))"

partial_function (option) set_loop :: "u32 \<Rightarrow> u32 \<Rightarrow> u32 \<Rightarrow> u32 \<Rightarrow> maintenance list \<Rightarrow> maintenance list option" where
  "set_loop w10 w9 w13 w7 log =
     (let w11 = (or) ((or) w10 w9) w7; log = log @ [Dc_isw (ucast w11)] in
      if sint w13 \<le> sint w7 then set_loop w10 w9 w13 (w7 - w13) log else Some log)"

partial_function (option) way_loop :: "u32 \<Rightarrow> u32 \<Rightarrow> u32 \<Rightarrow> u64 \<Rightarrow> u64 \<Rightarrow> maintenance list \<Rightarrow> maintenance list option" where
  "way_loop w10 w1 w2 x12 x9 log =
     (let w7 = lslv (ubfx w1 13 15) w2; w13 = lslv 1 w2 in
      Option.bind (set_loop w10 (ucast x9) w13 w7 log)
        (\<lambda>log. if sint x12 \<le> sint x9 then way_loop w10 w1 w2 x12 (x9 - x12) log else Some log))"

definition invalidate_level :: "u32 \<Rightarrow> cpu_core \<Rightarrow> cpu_core option" where
  "invalidate_level w10 c =
     (let c = c\<lparr>csselr_el1 := ucast w10\<rparr>; w1 = ucast (ccsidr_el1 c (csselr_el1 c));
          w2 = (and) w1 7 + 4; w4 = ubfx w1 3 10; w5 = clz w4; w9 = lslv w4 w5; w12 = lslv 1 w5
      in map_option (\<lambda>log. c\<lparr>maint := log\<rparr>) (way_loop w10 w1 w2 (ucast w12) (ucast w9) (maint c)))"

partial_function (option) level_loop :: "u32 \<Rightarrow> u32 \<Rightarrow> u32 \<Rightarrow> cpu_core \<Rightarrow> cpu_core option" where
  "level_loop w0 w3 w10 c =
     (let w2 = w10 + drop_bit 1 w10; w1 = (and) (lsrv w0 w2) 7 in
      Option.bind (if sint w1 < 2 then Some c else invalidate_level w10 c)
        (\<lambda>c. let w10 = w10 + 2 in if sint w10 < sint w3 then level_loop w0 w3 w10 c else Some c))"

definition invalidate_cache_all :: "cpu_core \<Rightarrow> cpu_core option" where
  "invalidate_cache_all c =
     (let w0 = ucast (clidr_el1 c); w3 = drop_bit 23 ((and) w0 0x07000000) in
      map_option (\<lambda>c. c\<lparr>maint := maint c @ [Ic_iallu]\<rparr>) (if w3 = 0 then Some c else level_loop w0 w3 0 c))"

section \<open>Switching the MMU on\<close>

definition MMU_MAIR_ATTR0 :: u64 where "MMU_MAIR_ATTR0 = push_bit (8 * 0) 0x00"
definition MMU_MAIR_ATTR1 :: u64 where "MMU_MAIR_ATTR1 = push_bit (8 * 1) 0x04"
definition MMU_MAIR_ATTR2 :: u64 where "MMU_MAIR_ATTR2 = push_bit (8 * 2) 0x0C"
definition MMU_MAIR_ATTR3 :: u64 where "MMU_MAIR_ATTR3 = push_bit (8 * 3) 0x44"
definition MMU_MAIR_ATTR4 :: u64 where "MMU_MAIR_ATTR4 = push_bit (8 * 4) 0xFF"

definition MMU_TCR_FLAGS1 :: u64 where
  "MMU_TCR_FLAGS1 = (or) (push_bit 14 0) ((or) (push_bit 28 3) ((or) (push_bit 26 1) ((or) (push_bit 24 1) (push_bit 16 (64 - 48)))))"

definition MMU_TCR_FLAGS0 :: u64 where
  "MMU_TCR_FLAGS0 = (or) (push_bit 30 0) ((or) (push_bit 12 3) ((or) (push_bit 10 1) ((or) (push_bit 8 1) (push_bit 0 (64 - 48)))))"

definition MMU_TCR_IPS :: u64 where "MMU_TCR_IPS = push_bit 32 5"
definition MMU_TCR_AS :: u64 where "MMU_TCR_AS = push_bit 36 1"

definition SCTLR_EL1_I :: u64 where "SCTLR_EL1_I = push_bit 12 1"
definition SCTLR_EL1_nAA :: u64 where "SCTLR_EL1_nAA = push_bit 6 1"
definition SCTLR_EL1_SA0 :: u64 where "SCTLR_EL1_SA0 = push_bit 4 1"
definition SCTLR_EL1_SA :: u64 where "SCTLR_EL1_SA = push_bit 3 1"
definition SCTLR_EL1_C :: u64 where "SCTLR_EL1_C = push_bit 2 1"
definition SCTLR_EL1_A :: u64 where "SCTLR_EL1_A = push_bit 1 1"
definition SCTLR_EL1_M :: u64 where "SCTLR_EL1_M = push_bit 0 1"

text \<open>\<open>adrp\<close> gives the page of a symbol.\<close>

definition adrp :: "u64 \<Rightarrow> u64" where "adrp a = (and) a (not (mask 12))"

definition el1_mmu_activate :: "boot_layout \<Rightarrow> cpu_core \<Rightarrow> cpu_core option" where
  "el1_mmu_activate lay c =
     map_option (\<lambda>c.
       let c = c\<lparr>maint := maint c @ [Tlbi_vmalle1is]\<rparr>;
           c = c\<lparr>mair_el1 := (or) MMU_MAIR_ATTR0 ((or) MMU_MAIR_ATTR1 ((or) MMU_MAIR_ATTR2 ((or) MMU_MAIR_ATTR3 MMU_MAIR_ATTR4)))\<rparr>;
           c = c\<lparr>tcr_el1 := (or) MMU_TCR_FLAGS1 ((or) MMU_TCR_FLAGS0 ((or) MMU_TCR_IPS MMU_TCR_AS))\<rparr>;
           c = c\<lparr>ttbr0 := adrp (boot_ttbr0_l0_at lay)\<rparr>;
           c = c\<lparr>ttbr1 := adrp (boot_ttbr1_l0_at lay)\<rparr>;
           x8 = sctlr_el1 c; x8 = (or) x8 SCTLR_EL1_M; x8 = (and) x8 (not SCTLR_EL1_A); x8 = (and) x8 (not SCTLR_EL1_SA0);
           x8 = (and) x8 (not SCTLR_EL1_SA); x8 = (or) x8 SCTLR_EL1_nAA; x8 = (or) x8 SCTLR_EL1_C; x8 = (or) x8 SCTLR_EL1_I
       in c\<lparr>sctlr_el1 := x8\<rparr>) (invalidate_cache_all c)"

section \<open>Flushing an area\<close>

text \<open>\<open>flush_dcache_area\<close> of src/arch/aarch64/tools.S; \<open>b.cc\<close> after \<open>cmp\<close> is the unsigned comparison.\<close>

partial_function (option) flush_loop :: "u64 \<Rightarrow> u64 \<Rightarrow> u64 \<Rightarrow> maintenance list \<Rightarrow> maintenance list option" where
  "flush_loop x2 x1 x0 log =
     (let log = log @ [Dc_civac x0]; x0 = x0 + x2 in if x0 < x1 then flush_loop x2 x1 x0 log else Some log)"

definition flush_dcache_area :: "u64 \<Rightarrow> u64 \<Rightarrow> u64 \<Rightarrow> cpu_core \<Rightarrow> cpu_core option" where
  "flush_dcache_area ctr_el0 addr sz c =
     (let x3 = take_bit 4 (drop_bit 16 ctr_el0); x2 = push_bit (unat x3) 4; x1 = addr + sz; x3 = x2 - 1; x0 = (and) addr (not x3)
      in map_option (\<lambda>log. c\<lparr>maint := log\<rparr>) (flush_loop x2 x1 x0 (maint c)))"

section \<open>Entering EL1 is safe\<close>

text \<open>The registers that decide what EL1 may do, after the code of EL2.\<close>

definition el1_unrestricted :: "cpu_core \<Rightarrow> bool" where
  "el1_unrestricted c \<longleftrightarrow> bit (hcr_el2 c) 31 \<and> vttbr_el2 c = 0 \<and> cntvoff_el2 c = 0 \<and> bit (cnthctl_el2 c) 0 \<and> bit (cnthctl_el2 c) 1 \<and>
     (and) (cpacr_el1 c) CPACR_EL1_FPEN = CPACR_EL1_FPEN"

lemma level_bits: "(and) (5 :: u64) 12 = 4" "(and) ((or) (push_bit 6 15) 5 :: u64) 12 = 4" "(and) ((or) (push_bit 6 15) 5 :: u64) 0x3C0 = 0x3C0"
  by (simp_all add: push_bit_eq_mult)

lemma level_consts: "CURRENTEL_EL1 = 4" "CURRENTEL_EL2 = 8" "CURRENTEL_EL3 = 12"
  by (simp_all add: CURRENTEL_EL1_def CURRENTEL_EL2_def CURRENTEL_EL3_def)

lemma from_el2_fields:
  "CurrentEL (from_el2 t c) = CurrentEL c" "elr_el2 (from_el2 t c) = t" "spsr_el2 (from_el2 t c) = (or) SPSR_ELX_DAIF SPSR_ELX_EL1H"
  "elr_el3 (from_el2 t c) = elr_el3 c" "spsr_el3 (from_el2 t c) = spsr_el3 c" "el1_unrestricted (from_el2 t c)" "maint (from_el2 t c) = maint c"
  "clidr_el1 (from_el2 t c) = clidr_el1 c" "ccsidr_el1 (from_el2 t c) = ccsidr_el1 c"
  by (simp_all add: from_el2_def Let_def el1_unrestricted_def HCR_EL2_RW_def CNTHCTL_EL2_EL1PCEN_def CNTHCTL_EL2_EL1PCTEN_def bit_simps)

lemma from_el3_fields:
  "CurrentEL (from_el3 t c) = CurrentEL c" "elr_el3 (from_el3 t c) = t" "spsr_el3 (from_el3 t c) = (or) SPSR_ELX_DAIF SPSR_ELX_EL1H"
  "maint (from_el3 t c) = maint c" "clidr_el1 (from_el3 t c) = clidr_el1 c" "ccsidr_el1 (from_el3 t c) = ccsidr_el1 c"
  by (simp_all add: from_el3_def)

lemma eret_fields:
  "el1_unrestricted (eret c) = el1_unrestricted c" "maint (eret c) = maint c" "clidr_el1 (eret c) = clidr_el1 c" "ccsidr_el1 (eret c) = ccsidr_el1 c"
  by (simp_all add: eret_def el1_unrestricted_def Let_def split: prod.splits)

lemma enters_el1:
  assumes "CurrentEL c \<in> {CURRENTEL_EL1, CURRENTEL_EL2, CURRENTEL_EL3}"
  shows "\<exists>c'. arm64_elX_to_el1 t c = Inr c' \<and> CurrentEL c' = CURRENTEL_EL1 \<and> pc c' = t \<and> maint c' = maint c \<and> clidr_el1 c' = clidr_el1 c \<and> ccsidr_el1 c' = ccsidr_el1 c \<and>
    (CurrentEL c \<noteq> CURRENTEL_EL1 \<longrightarrow> daif c' = 0x3C0 \<and> el1_unrestricted c') \<and> (CurrentEL c = CURRENTEL_EL1 \<longrightarrow> c' = c\<lparr>pc := t\<rparr>)"
proof (cases "CurrentEL c = CURRENTEL_EL1")
  case True
  then show ?thesis by (simp add: arm64_elX_to_el1_def level_consts)
next
  case False
  define c1 where "c1 = eret (from_el2 t (if CurrentEL c = CURRENTEL_EL2 then c else from_el3 t c))"
  have "pc c1 = t" "CurrentEL c1 = CURRENTEL_EL1" "daif c1 = 0x3C0"
    using False assms
    by (auto simp: c1_def eret_def from_el2_fields from_el3_fields level_consts SPSR_ELX_DAIF_def SPSR_ELX_EL1H_def level_bits)
  moreover have "el1_unrestricted c1" "maint c1 = maint c" "clidr_el1 c1 = clidr_el1 c" "ccsidr_el1 c1 = ccsidr_el1 c"
    by (simp_all add: c1_def eret_fields from_el2_fields from_el3_fields)
  moreover have "arm64_elX_to_el1 t c = Inr c1"
    using \<open>pc c1 = t\<close> False assms unfolding arm64_elX_to_el1_def c1_def by (auto simp: level_consts Let_def)
  ultimately show ?thesis using False by blast
qed

end
