(* ===== verification/BootAsm_Props.thy ===== *)
theory BootAsm_Props
  imports BootAsm PageTable_Props
begin

text \<open>
  The loops of \<open>invalidate_cache_all\<close> end and reach every line: the operands are those of all sets and ways
  of each data or unified cache below the level of coherence. What the registers written by
  \<open>el1_mmu_activate\<close> say, field by field.
\<close>

section \<open>Signed comparison of small numbers\<close>

lemma sint_small32: "n < 2 ^ 31 \<Longrightarrow> sint (of_nat n :: u32) = int n"
  by (simp add: signed_of_nat signed_take_bit_int_eq_self)

lemma sint_small64: "n < 2 ^ 63 \<Longrightarrow> sint (of_nat n :: u64) = int n"
  by (simp add: signed_of_nat signed_take_bit_int_eq_self)

lemma unat_small32: "n < 2 ^ 32 \<Longrightarrow> unat (of_nat n :: u32) = n"
  by (simp add: unsigned_of_nat take_bit_nat_eq_self)

lemma ucast_small: "n < 2 ^ 32 \<Longrightarrow> (ucast (of_nat n :: u32) :: u64) = of_nat n"
  using unat_small32 [of n] by (simp add: unsigned_ucast_eq word_unat_eq_iff unsigned_of_nat take_bit_nat_eq_self)

lemma ucast_down_word: "ucast (of_nat n :: u64) = (of_nat n :: u32)"
  by (rule bit_word_eqI) (simp add: bit_simps)

lemma unat_take_bit_less: "unat (take_bit k (v :: u64)) < 2 ^ k"
  by (simp add: unsigned_take_bit_eq)

lemma lslv_of_nat: "lslv (of_nat n) s = of_nat (n * 2 ^ (unat s mod 32))"
  by (simp add: lslv_def push_bit_eq_mult)

section \<open>The counting of leading zeros\<close>

lemma clz_length:
  obtains k where "unat (clz w) = k" "k \<le> 32" "\<And>n. 32 - k \<le> n \<Longrightarrow> n < 32 \<Longrightarrow> \<not> bit w n"
proof -
  define t where "t = takeWhile (\<lambda>n. \<not> bit w n) (rev [0..<32])"
  have le: "length t \<le> 32" using length_takeWhile_le [of "\<lambda>n. \<not> bit w n" "rev [0..<32]"] by (simp add: t_def)
  have "\<not> bit w n" if "32 - length t \<le> n" "n < 32" for n
  proof -
    have i: "31 - n < length t" using that by arith
    have "t ! (31 - n) = rev [0..<32] ! (31 - n)" using i unfolding t_def by (rule takeWhile_nth)
    also have "\<dots> = n" using that by (simp add: rev_nth)
    finally have "n \<in> set t" using nth_mem [OF i] by simp
    then show ?thesis unfolding t_def by (blast dest: set_takeWhileD)
  qed
  moreover have "unat (clz w) = length t" using le unfolding clz_def t_def [symmetric] by (simp add: unat_small32)
  ultimately show ?thesis using le that by blast
qed

lemma clz_bound: "unat w * 2 ^ (unat (clz w) mod 32) < 2 ^ 32"
proof -
  obtain k where k: "unat (clz w) = k" "k \<le> 32" "\<And>n. 32 - k \<le> n \<Longrightarrow> n < 32 \<Longrightarrow> \<not> bit w n" using clz_length [of w] by blast
  have "bit (take_bit (32 - k) w) n = bit w n" if "n < 32" for n
    using k(3) [of n] that by (cases "32 - k \<le> n") (auto simp: bit_take_bit_iff)
  then have "take_bit (32 - k) w = w" by (intro bit_word_eqI) simp
  then have w: "unat w < 2 ^ (32 - k)"
    using unsigned_take_bit_eq [of "32 - k" w, where ?'a = nat] take_bit_nat_less_exp [of "32 - k" "unat w"] by simp
  show ?thesis
  proof (cases "k = 32")
    case True
    then show ?thesis using w k(1) by simp
  next
    case False
    then have "k mod 32 = k" using k(2) by simp
    moreover have "unat w * 2 ^ k < 2 ^ (32 - k) * 2 ^ k" using w by simp
    moreover have "(2 :: nat) ^ (32 - k) * 2 ^ k = 2 ^ 32" using k(2) by (simp flip: power_add)
    ultimately show ?thesis using k(1) by simp
  qed
qed

section \<open>The loops\<close>

definition set_ops :: "u32 \<Rightarrow> u32 \<Rightarrow> nat \<Rightarrow> nat \<Rightarrow> maintenance list" where
  "set_ops w10 w9 d n = map (\<lambda>s. Dc_isw (ucast ((or) ((or) w10 w9) (of_nat (s * d))))) (rev [0..<Suc n])"

lemma set_loop_run:
  assumes "n * d < 2 ^ 31" "0 < d" "d < 2 ^ 31"
  shows "set_loop w10 w9 (of_nat d) (of_nat (n * d)) log = Some (log @ set_ops w10 w9 d n)"
  using assms(1)
proof (induction n arbitrary: log)
  case 0
  then show ?case using assms(2,3) by (subst set_loop.simps) (simp add: sint_small32 Let_def set_ops_def)
next
  case (Suc n)
  have "of_nat (Suc n * d) - of_nat d = (of_nat (n * d) :: u32)" by simp
  moreover have "sint (of_nat d :: u32) \<le> sint (of_nat (Suc n * d) :: u32)" using Suc.prems assms(3) by (simp only: sint_small32) simp
  moreover have "n * d < 2 ^ 31" using Suc.prems by simp
  ultimately show ?case using Suc.IH by (subst set_loop.simps) (simp add: Let_def set_ops_def del: of_nat_mult of_nat_Suc mult_Suc)
qed

definition way_ops :: "u32 \<Rightarrow> nat \<Rightarrow> nat \<Rightarrow> nat \<Rightarrow> nat \<Rightarrow> maintenance list" where
  "way_ops w10 d n e k = concat (map (\<lambda>w. set_ops w10 (of_nat (w * e)) d n) (rev [0..<Suc k]))"

lemma way_loop_run:
  assumes "k * e < 2 ^ 32" "0 < e" "e < 2 ^ 32" and sets: "lslv (ubfx w1 13 15) w2 = of_nat (n * d)" "lslv 1 w2 = of_nat d" "n * d < 2 ^ 31" "0 < d" "d < 2 ^ 31"
  shows "way_loop w10 w1 w2 (of_nat e) (of_nat (k * e)) log = Some (log @ way_ops w10 d n e k)"
  using assms(1)
proof (induction k arbitrary: log)
  case 0
  then show ?case using assms(2,3) sets by (subst way_loop.simps) (simp add: sint_small64 Let_def way_ops_def set_loop_run del: of_nat_mult)
next
  case (Suc k)
  have "of_nat (Suc k * e) - of_nat e = (of_nat (k * e) :: u64)" by simp
  moreover have "sint (of_nat e :: u64) \<le> sint (of_nat (Suc k * e) :: u64)" using Suc.prems assms(3) sint_small64 [of e] sint_small64 [of "Suc k * e"] by simp
  moreover have "k * e < 2 ^ 32" using Suc.prems by simp
  moreover have "ucast (of_nat (Suc k * e) :: u64) = (of_nat (Suc k * e) :: u32)" by (rule ucast_down_word)
  ultimately show ?case using Suc.IH sets
    by (subst way_loop.simps) (simp add: Let_def way_ops_def set_loop_run del: of_nat_mult of_nat_Suc mult_Suc)
qed

section \<open>Properties\<close>

text \<open>The geometry of a cache, as the register describes it: the logarithm of the line size, the largest number of a
  way and of a set.\<close>

definition line_log :: "u64 \<Rightarrow> nat" where "line_log v = unat (take_bit 3 v) + 4"
definition max_way :: "u64 \<Rightarrow> nat" where "max_way v = unat (take_bit 10 (drop_bit 3 v))"
definition max_set :: "u64 \<Rightarrow> nat" where "max_set v = unat (take_bit 15 (drop_bit 13 v))"

text \<open>All lines of the cache of level \<open>l\<close> (from 0): the way in the top bits, the set above the offset in the line.\<close>

definition level_lines :: "u64 \<Rightarrow> nat \<Rightarrow> maintenance list" where
  "level_lines v l = way_ops (of_nat (2 * l)) (2 ^ line_log v) (max_set v) (2 ^ (unat (clz (of_nat (max_way v))) mod 32)) (max_way v)"

lemma ubfx_unat: "n + w \<le> 32 \<Longrightarrow> ubfx (ucast (v :: u64)) n w = of_nat (unat (take_bit w (drop_bit n v)))"
  unfolding ubfx_def by (rule bit_word_eqI) (auto simp: bit_simps)

lemma invalidate_level_run:
  assumes "ccsidr_el1 c (of_nat (2 * l)) = v" "l < 8"
  shows "invalidate_level (of_nat (2 * l)) c = Some (c\<lparr>csselr_el1 := of_nat (2 * l), maint := maint c @ level_lines v l\<rparr>)"
proof -
  let ?w1 = "ucast v :: u32" and ?L = "line_log v"
  let ?w2 = "(and) ?w1 7 + 4 :: u32"
  have b: "unat (take_bit 3 v) < 8" "max_set v < 2 ^ 15"
    using unat_take_bit_less [of 3 v] unat_take_bit_less [of 15 "drop_bit 13 v"] by (simp_all add: max_set_def)
  have "(and) ?w1 7 = (of_nat (unat (take_bit 3 v)) :: u32)"
    using ubfx_unat [of 0 3 v] by (simp add: ubfx_def take_bit_eq_mask mask_eq_exp_minus_1)
  then have L: "?w2 = of_nat ?L" by (simp add: line_log_def)
  have L11: "?L \<le> 11" using b(1) by (simp add: line_log_def)
  then have uL: "unat ?w2 mod 32 = ?L" by (simp add: L unat_small32)
  have p: "(2 :: nat) ^ ?L \<le> 2 ^ 11" using L11 by (rule power_increasing) simp
  have "max_set v * 2 ^ ?L < 2 ^ 15 * 2 ^ 11" using b(2) p by (intro mult_less_le_imp_less) simp_all
  then have s: "lslv (ubfx ?w1 13 15) ?w2 = of_nat (max_set v * 2 ^ ?L)" "lslv 1 ?w2 = of_nat (2 ^ ?L)" "max_set v * 2 ^ ?L < 2 ^ 31"
    using lslv_of_nat [of "max_set v" ?w2] lslv_of_nat [of 1 ?w2] uL ubfx_unat [of 13 15 v] by (simp_all add: max_set_def)
  define w4 :: u32 where "w4 = of_nat (max_way v)"
  define e :: nat where "e = 2 ^ (unat (clz w4) mod 32)"
  have w4: "ubfx ?w1 3 10 = w4" using ubfx_unat [of 3 10 v] by (simp add: w4_def max_way_def)
  have mw: "unat w4 = max_way v"
  proof -
    have "max_way v < 2 ^ 10" unfolding max_way_def by (rule unat_take_bit_less)
    then show ?thesis by (simp add: w4_def unat_small32)
  qed
  have e: "max_way v * e < 2 ^ 32" "0 < e" "e < 2 ^ 32"
    using clz_bound [of w4] mw power_strict_increasing [of "unat (clz w4) mod 32" 32 "2 :: nat"] by (simp_all add: e_def)
  have u: "ucast (lslv w4 (clz w4)) = (of_nat (max_way v * e) :: u64)" "ucast (lslv 1 (clz w4)) = (of_nat e :: u64)"
    using lslv_of_nat [of "max_way v" "clz w4"] lslv_of_nat [of 1 "clz w4"] ucast_small [OF e(1)] ucast_small [OF e(3)]
    by (simp_all add: w4_def [symmetric] e_def [symmetric] del: of_nat_mult)
  have cs: "(ucast (of_nat (2 * l) :: u32) :: u64) = of_nat (2 * l)" using assms(2) by (intro ucast_small) simp
  have "way_loop (of_nat (2 * l)) ?w1 ?w2 (of_nat e) (of_nat (max_way v * e)) (maint c) = Some (maint c @ level_lines v l)"
    unfolding level_lines_def w4_def [symmetric] e_def [symmetric] using p by (intro way_loop_run e s) simp_all
  then show ?thesis
    unfolding invalidate_level_def Let_def by (simp add: cs w4 u assms(1) del: of_nat_mult)
qed

text \<open>The field of the level \<open>l\<close> in the register that lists the caches, and the level of coherence.\<close>

definition cache_type :: "u64 \<Rightarrow> nat \<Rightarrow> nat" where "cache_type r l = unat (take_bit 3 (drop_bit (3 * l) r))"
definition coherence_level :: "u64 \<Rightarrow> nat" where "coherence_level r = unat (take_bit 3 (drop_bit 24 r))"

definition data_levels :: "u64 \<Rightarrow> nat \<Rightarrow> nat list" where
  "data_levels r l = filter (\<lambda>l. 2 \<le> cache_type r l) [l..<coherence_level r]"

definition geometry :: "cpu_core \<Rightarrow> nat \<Rightarrow> u64" where
  "geometry c l = ccsidr_el1 c (of_nat (2 * l))"

definition lines_from :: "cpu_core \<Rightarrow> nat \<Rightarrow> maintenance list" where
  "lines_from c l = concat (map (\<lambda>l. level_lines (geometry c l) l) (data_levels (clidr_el1 c) l))"

lemma unat_half: "unat (drop_bit 1 (w :: u32)) = unat w div 2"
  using unsigned_less [of w, where ?'a = nat] by (simp only: unsigned_drop_bit_eq) (simp add: drop_bit_eq_div take_bit_nat_eq_self)

lemma type_field:
  assumes "l < 8"
  shows "(and) (lsrv (ucast r) (of_nat (2 * l) + drop_bit 1 (of_nat (2 * l)))) 7 = of_nat (cache_type r l)"
proof -
  have "drop_bit 1 (of_nat (2 * l) :: u32) = of_nat l"
    using assms unat_small32 [of "2 * l"] unat_small32 [of l] unat_half [of "of_nat (2 * l)"]
    by (simp add: word_unat_eq_iff del: of_nat_mult)
  then have "of_nat (2 * l) + drop_bit 1 (of_nat (2 * l)) = (of_nat (3 * l) :: u32)" by simp
  moreover have "unat (of_nat (3 * l) :: u32) mod 32 = 3 * l" using assms by (subst unat_small32) simp_all
  ultimately have "lsrv (ucast r) (of_nat (2 * l) + drop_bit 1 (of_nat (2 * l))) = drop_bit (3 * l) (ucast r)" by (simp add: lsrv_def)
  then show ?thesis using ubfx_unat [of "3 * l" 3 r] assms by (simp add: ubfx_def take_bit_eq_mask mask_eq_exp_minus_1 cache_type_def)
qed

lemma level_loop_run:
  assumes "r = clidr_el1 c" "l < coherence_level r"
  shows "\<exists>s. level_loop (ucast r) (of_nat (2 * coherence_level r)) (of_nat (2 * l)) c = Some (c\<lparr>csselr_el1 := s, maint := maint c @ lines_from c l\<rparr>)"
  using assms
proof (induction "coherence_level r - l" arbitrary: l c)
  case (Suc n)
  let ?C = "coherence_level r"
  have C: "?C < 8" using unat_take_bit_less [of 3 "drop_bit 24 r"] by (simp add: coherence_level_def)
  have l8: "l < 8" using C Suc.prems by simp
  have t: "cache_type r l < 8" using unat_take_bit_less [of 3 "drop_bit (3 * l) r"] by (simp add: cache_type_def)
  have sg: "sint (of_nat (cache_type r l) :: u32) = int (cache_type r l)" "sint (of_nat (2 * ?C) :: u32) = int (2 * ?C)"
    "sint (of_nat (2 * Suc l) :: u32) = int (2 * Suc l)" using t C l8 by (intro sint_small32; simp)+
  have nx: "of_nat (2 * l) + 2 = (of_nat (2 * Suc l) :: u32)" by simp
  obtain s c1 where c1: "(if sint (of_nat (cache_type r l) :: u32) < 2 then Some c else invalidate_level (of_nat (2 * l)) c) = Some c1"
    "c1 = c\<lparr>csselr_el1 := s, maint := maint c @ (if 2 \<le> cache_type r l then level_lines (ccsidr_el1 c (of_nat (2 * l))) l else [])\<rparr>"
  proof (cases "2 \<le> cache_type r l")
    case True
    then show ?thesis using that [OF _ refl, of "of_nat (2 * l)"] invalidate_level_run [OF refl l8, of c] sg(1) by simp
  next
    case False
    then show ?thesis using that [of c "csselr_el1 c"] sg(1) by simp
  qed
  have r1: "r = clidr_el1 c1" "ccsidr_el1 c1 = ccsidr_el1 c" using c1(2) Suc.prems by simp_all
  have step: "lines_from c l = (if 2 \<le> cache_type r l then level_lines (ccsidr_el1 c (of_nat (2 * l))) l else []) @
      (if Suc l < ?C then lines_from c1 (Suc l) else [])"
    using Suc.prems r1 by (simp add: lines_from_def data_levels_def geometry_def upt_conv_Cons)
  have run: "level_loop (ucast r) (of_nat (2 * ?C)) (of_nat (2 * l)) c =
      (if Suc l < ?C then level_loop (ucast r) (of_nat (2 * ?C)) (of_nat (2 * Suc l)) c1 else Some c1)"
    by (subst level_loop.simps) (simp only: Let_def type_field [OF l8] c1(1) nx sg(2,3) bind.simps, simp)
  show ?case
  proof (cases "Suc l < ?C")
    case True
    have "n = ?C - Suc l" using Suc.hyps(2) by simp
    from Suc.hyps(1) [OF this r1(1) True] obtain s' where
      "level_loop (ucast r) (of_nat (2 * ?C)) (of_nat (2 * Suc l)) c1 = Some (c1\<lparr>csselr_el1 := s', maint := maint c1 @ lines_from c1 (Suc l)\<rparr>)" ..
    then show ?thesis using True run c1(2) step by (intro exI [of _ s']) simp
  next
    case False
    then show ?thesis using run c1(2) step by (intro exI [of _ s]) simp
  qed
qed simp

lemma doubled_field: "drop_bit 23 ((and) w 0x07000000) = push_bit 1 (ubfx w 24 3)" for w :: u32
proof (rule bit_word_eqI)
  fix n
  have "(0x07000000 :: u32) = push_bit 24 (mask 3)" by (simp add: mask_eq_exp_minus_1)
  then have b: "bit (0x07000000 :: u32) k \<longleftrightarrow> 24 \<le> k \<and> k < 27" for k by (simp only: bit_push_bit_iff bit_mask_iff) auto
  show "bit (drop_bit 23 ((and) w 0x07000000)) n = bit (push_bit 1 (ubfx w 24 3)) n" if "n < LENGTH(32)"
  proof (cases n)
    case 0
    then show ?thesis using b [of 23] by (simp only: bit_drop_bit_eq comp_apply bit_and_iff bit_push_bit_iff) simp
  next
    case (Suc m)
    then show ?thesis using b [of "24 + m"] that
      by (simp only: ubfx_def bit_drop_bit_eq comp_apply bit_and_iff bit_push_bit_iff bit_take_bit_iff) auto
  qed
qed

lemma coherence_field: "drop_bit 23 ((and) (ucast (r :: u64)) 0x07000000) = (of_nat (2 * coherence_level r) :: u32)"
  by (simp only: doubled_field) (simp add: ubfx_unat coherence_level_def push_bit_eq_mult)

lemma invalidate_unfold:
  "invalidate_cache_all c = map_option (\<lambda>c. c\<lparr>maint := maint c @ [Ic_iallu]\<rparr>)
     (if coherence_level (clidr_el1 c) = 0 then Some c else level_loop (ucast (clidr_el1 c)) (of_nat (2 * coherence_level (clidr_el1 c))) 0 c)"
proof -
  let ?C = "coherence_level (clidr_el1 c)"
  have "?C < 8" using unat_take_bit_less [of 3 "drop_bit 24 (clidr_el1 c)"] by (simp add: coherence_level_def)
  then have "(of_nat (2 * ?C) :: u32) = 0 \<longleftrightarrow> ?C = 0" using unat_small32 [of "2 * ?C"] by (auto simp: unat_eq_0 [symmetric])
  then show ?thesis by (simp only: invalidate_cache_all_def Let_def coherence_field)
qed

lemma invalidate_run:
  "\<exists>s. invalidate_cache_all c = Some (c\<lparr>csselr_el1 := s, maint := maint c @ lines_from c 0 @ [Ic_iallu]\<rparr>)"
proof (cases "coherence_level (clidr_el1 c) = 0")
  case True
  then show ?thesis by (intro exI [of _ "csselr_el1 c"]) (simp add: invalidate_unfold lines_from_def data_levels_def)
next
  case False
  then show ?thesis using level_loop_run [OF refl, of 0 c] by (auto simp: invalidate_unfold simp del: of_nat_mult)
qed

section \<open>Every line\<close>

text \<open>The operand that names a line: the way in the top bits, the set above the bits of the offset, the level in bits 1
  to 3.\<close>

definition line_operand :: "u64 \<Rightarrow> nat \<Rightarrow> nat \<Rightarrow> nat \<Rightarrow> u64" where
  "line_operand v l way s =
     ucast ((or) ((or) (of_nat (2 * l)) (of_nat (way * 2 ^ (unat (clz (of_nat (max_way v))) mod 32)))) (of_nat (s * 2 ^ line_log v) :: u32))"

lemma level_lines_set: "set (level_lines v l) = {Dc_isw (line_operand v l way s) | way s. way \<le> max_way v \<and> s \<le> max_set v}"
  by (fastforce simp: level_lines_def way_ops_def set_ops_def line_operand_def less_Suc_eq_le simp del: of_nat_mult upt_Suc)

lemma level_lines_length: "length (level_lines v l) = Suc (max_way v) * Suc (max_set v)"
  by (simp add: level_lines_def way_ops_def set_ops_def length_concat comp_def sum_list_triv)

text \<open>C25: The caches. \<open>invalidate_cache_all\<close> returns on every geometry of the caches: it invalidates all ways and sets of each
  data or unified cache below the level of coherence, as many times as there are lines, then the
  instruction cache, and changes nothing but the register that selects a cache. The loops count the
  ways down in 64 bits and the sets in 32 signed bits, which is enough for the widths of the fields; a
  cache of one way, where the shift by 32 leaves the step at 1, is no exception.\<close>

theorem cache_invalidation:
  "\<exists>s ops. invalidate_cache_all c = Some (c\<lparr>csselr_el1 := s, maint := maint c @ ops @ [Ic_iallu]\<rparr>) \<and>
    set ops = {Dc_isw (line_operand (geometry c l) l way st) | l way st.
      l \<in> set (data_levels (clidr_el1 c) 0) \<and> way \<le> max_way (geometry c l) \<and> st \<le> max_set (geometry c l)} \<and>
    length ops = sum_list (map (\<lambda>l. Suc (max_way (geometry c l)) * Suc (max_set (geometry c l))) (data_levels (clidr_el1 c) 0))"
proof -
  have "set (lines_from c 0) = {Dc_isw (line_operand (geometry c l) l way st) | l way st.
      l \<in> set (data_levels (clidr_el1 c) 0) \<and> way \<le> max_way (geometry c l) \<and> st \<le> max_set (geometry c l)}"
    by (fastforce simp: lines_from_def level_lines_set)
  moreover have "length (lines_from c 0) =
      sum_list (map (\<lambda>l. Suc (max_way (geometry c l)) * Suc (max_set (geometry c l))) (data_levels (clidr_el1 c) 0))"
    by (simp add: lines_from_def length_concat comp_def level_lines_length)
  ultimately show ?thesis using invalidate_run [of c] by blast
qed

section \<open>The registers of the MMU\<close>

definition mair_attr :: "cpu_core \<Rightarrow> u64 \<Rightarrow> u64" where
  "mair_attr c i = get_field (8 * unat i) 8 (mair_el1 c)"

text \<open>Translation is on and both caches, accesses need not be aligned, the tables in use for the kernel half are the
  ones given, both halves have 48 bits, and the indices the page tables use for normal, uncached and
  device memory name write-back, non-cacheable and device memory.\<close>

definition kernel_translation :: "boot_layout \<Rightarrow> cpu_core \<Rightarrow> bool" where
  "kernel_translation lay c \<longleftrightarrow> bit (sctlr_el1 c) 0 \<and> bit (sctlr_el1 c) 2 \<and> bit (sctlr_el1 c) 12 \<and> \<not> bit (sctlr_el1 c) 1 \<and>
     ttbr1 c = boot_ttbr1_l0_at lay \<and> get_field 0 6 (tcr_el1 c) = 64 - 48 \<and> get_field 16 6 (tcr_el1 c) = 64 - 48 \<and>
     mair_attr c NORMAL_MEMORY = 0xFF \<and> mair_attr c NORMAL_MEMORY_NOCACHE = 0x44 \<and> mair_attr c DEVICE_MEMORY = 0"

text \<open>What switching the MMU on leaves alone.\<close>

definition same_mode :: "cpu_core \<Rightarrow> cpu_core \<Rightarrow> bool" where
  "same_mode c c' \<longleftrightarrow> CurrentEL c' = CurrentEL c \<and> daif c' = daif c \<and> sp c' = sp c \<and> (el1_unrestricted c' \<longleftrightarrow> el1_unrestricted c)"

lemma adrp_aligned: "4096 dvd unat a \<Longrightarrow> adrp a = a"
  using unat_and_not_mask [of a 12] by (simp add: adrp_def word_unat_eq_iff)

lemma mair_value: "(or) MMU_MAIR_ATTR0 ((or) MMU_MAIR_ATTR1 ((or) MMU_MAIR_ATTR2 ((or) MMU_MAIR_ATTR3 MMU_MAIR_ATTR4))) = 0xFF440C0400"
  by (simp add: MMU_MAIR_ATTR0_def MMU_MAIR_ATTR1_def MMU_MAIR_ATTR2_def MMU_MAIR_ATTR3_def MMU_MAIR_ATTR4_def push_bit_eq_mult)

lemma tcr_value: "(or) MMU_TCR_FLAGS1 ((or) MMU_TCR_FLAGS0 ((or) MMU_TCR_IPS MMU_TCR_AS)) = 0x1535103510"
  by (simp add: MMU_TCR_FLAGS1_def MMU_TCR_FLAGS0_def MMU_TCR_IPS_def MMU_TCR_AS_def push_bit_eq_mult)

lemma mmu_activates:
  assumes "4096 dvd unat (boot_ttbr1_l0_at lay)"
  shows "\<exists>c'. el1_mmu_activate lay c = Some c' \<and> kernel_translation lay c' \<and> same_mode c c' \<and>
    maint c' = maint c @ lines_from c 0 @ [Ic_iallu, Tlbi_vmalle1is]"
proof -
  obtain s where "invalidate_cache_all c = Some (c\<lparr>csselr_el1 := s, maint := maint c @ lines_from c 0 @ [Ic_iallu]\<rparr>)" using invalidate_run by blast
  then obtain c' where c': "el1_mmu_activate lay c = Some c'" "maint c' = maint c @ lines_from c 0 @ [Ic_iallu, Tlbi_vmalle1is]"
    "mair_el1 c' = 0xFF440C0400" "tcr_el1 c' = 0x1535103510" "ttbr1 c' = boot_ttbr1_l0_at lay" "same_mode c c'"
    "sctlr_el1 c' = (or) ((or) ((or) ((and) ((and) ((and) ((or) (sctlr_el1 c) SCTLR_EL1_M) (not SCTLR_EL1_A)) (not SCTLR_EL1_SA0)) (not SCTLR_EL1_SA)) SCTLR_EL1_nAA) SCTLR_EL1_C) SCTLR_EL1_I"
    using adrp_aligned [OF assms] by (simp only: el1_mmu_activate_def mair_value tcr_value Let_def option.map) (simp add: same_mode_def el1_unrestricted_def)
  have "bit (sctlr_el1 c') 0" "bit (sctlr_el1 c') 2" "bit (sctlr_el1 c') 12" "\<not> bit (sctlr_el1 c') 1"
    by (simp_all add: c'(7) SCTLR_EL1_M_def SCTLR_EL1_A_def SCTLR_EL1_SA0_def SCTLR_EL1_SA_def SCTLR_EL1_nAA_def SCTLR_EL1_C_def SCTLR_EL1_I_def bit_simps)
  moreover have "mair_attr c' NORMAL_MEMORY = 0xFF" "mair_attr c' NORMAL_MEMORY_NOCACHE = 0x44" "mair_attr c' DEVICE_MEMORY = 0"
    by (simp_all add: mair_attr_def c'(3) get_field_def NORMAL_MEMORY_def NORMAL_MEMORY_NOCACHE_def DEVICE_MEMORY_def drop_bit_eq_div take_bit_eq_mod)
  moreover have "get_field 0 6 (tcr_el1 c') = 64 - 48" "get_field 16 6 (tcr_el1 c') = 64 - 48"
    by (simp_all add: c'(4) get_field_def drop_bit_eq_div take_bit_eq_mod)
  ultimately have "kernel_translation lay c'" using c'(5) by (simp add: kernel_translation_def)
  then show ?thesis using c' by blast
qed

text \<open>The granule of the kernel half is left at 0, where 2 means 4KB pages: the two granule fields have each other's
  place in the code.\<close>

lemma kernel_granule_unset:
  "get_field 30 2 ((or) MMU_TCR_FLAGS1 ((or) MMU_TCR_FLAGS0 ((or) MMU_TCR_IPS MMU_TCR_AS))) = 0"
  unfolding tcr_value by (simp add: get_field_def drop_bit_eq_div take_bit_eq_mod)

section \<open>Flushing an area\<close>

lemma unat_small64: "n < 2 ^ 64 \<Longrightarrow> unat (of_nat n :: u64) = n"
  by (simp add: unsigned_of_nat take_bit_nat_eq_self)

lemma flush_loop_run:
  fixes L i N :: nat and x1 :: u64
  assumes "0 < L" "i < N" "N * L < 2 ^ 64" "(N - 1) * L < unat x1" "unat x1 \<le> N * L"
  shows "flush_loop (of_nat L) x1 (of_nat (i * L)) log = Some (log @ map (\<lambda>k. Dc_civac (of_nat (k * L))) [i..<N])"
  using assms(2)
proof (induction "N - i" arbitrary: i log)
  case (Suc n)
  have nx: "of_nat (i * L) + of_nat L = (of_nat (Suc i * L) :: u64)" by simp
  have "Suc i * L \<le> N * L" using Suc.prems by (intro mult_right_mono) simp_all
  then have u: "unat (of_nat (Suc i * L) :: u64) = Suc i * L" using assms(3) by (intro unat_small64) simp
  have lt: "of_nat (Suc i * L) < x1 \<longleftrightarrow> Suc i < N"
  proof
    assume "of_nat (Suc i * L) < x1"
    then have "Suc i * L < N * L" using assms(5) by (simp only: word_less_nat_alt u)
    then show "Suc i < N" by (simp only: mult_less_cancel2)
  next
    assume "Suc i < N"
    then have "Suc i * L \<le> (N - 1) * L" by (intro mult_right_mono) simp_all
    then show "of_nat (Suc i * L) < x1" using assms(4) by (simp only: word_less_nat_alt u)
  qed
  show ?case
  proof (cases "Suc i < N")
    case True
    then have "flush_loop (of_nat L) x1 (of_nat (Suc i * L)) (log @ [Dc_civac (of_nat (i * L))]) =
        Some ((log @ [Dc_civac (of_nat (i * L))]) @ map (\<lambda>k. Dc_civac (of_nat (k * L))) [Suc i..<N])"
      using Suc.hyps(2) by (intro Suc.hyps(1)) simp_all
    then show ?thesis using True Suc.prems
      by (subst flush_loop.simps) (simp only: Let_def nx lt if_True, simp add: upt_conv_Cons)
  next
    case False
    then have "N = Suc i" using Suc.prems by simp
    then show ?thesis by (subst flush_loop.simps) (simp only: Let_def nx lt, simp)
  qed
qed simp

text \<open>An area that is not empty and does not reach the end of the address space: exactly the lines that meet it are
  cleaned, in order.\<close>

lemma flush_covers:
  fixes ctr a sz :: u64 and c :: cpu_core
  defines "L \<equiv> 2 ^ (unat (take_bit 4 (drop_bit 16 ctr)) + 2) :: nat"
  assumes "0 < sz" "unat a + unat sz + L \<le> 2 ^ 64"
  shows "flush_dcache_area ctr a sz c =
    Some (c\<lparr>maint := maint c @ map (\<lambda>k. Dc_civac (of_nat (k * L))) [unat a div L..<(unat a + unat sz + L - 1) div L]\<rparr>)"
proof -
  let ?k = "unat (take_bit 4 (drop_bit 16 ctr)) + 2" and ?N = "(unat a + unat sz + L - 1) div L"
  have k: "?k \<le> 17" using unat_take_bit_less [of 4 "drop_bit 16 ctr"] by simp
  have L: "0 < L" by (simp add: L_def)
  have x2: "push_bit (unat (take_bit 4 (drop_bit 16 ctr))) 4 = (of_nat L :: u64)" by (simp add: L_def push_bit_eq_mult power_add)
  have "of_nat L - 1 = (mask ?k :: u64)" by (simp add: L_def mask_eq_exp_minus_1)
  then have "unat ((and) a (not (of_nat L - 1))) = unat a div L * L" by (simp only: unat_and_not_mask L_def)
  then have "of_nat (unat ((and) a (not (of_nat L - 1)))) = (of_nat (unat a div L * L) :: u64)" by (simp only:)
  then have x0: "(and) a (not (of_nat L - 1)) = of_nat (unat a div L * L)" by (simp del: of_nat_mult)
  have e: "unat (a + sz) = unat a + unat sz" using assms(3) L by (simp add: unat_plus_if')
  have n: "?N * L \<le> unat a + unat sz + L - 1" "unat a + unat sz + L - 1 < ?N * L + L"
    using dividend_less_div_times [OF L, of "unat a + unat sz + L - 1"] by (simp_all add: add.commute)
  have sz: "0 < unat sz" using assms(2) by (simp add: word_less_nat_alt)
  have "unat a div L * L \<le> unat a" by (rule div_times_less_eq_dividend)
  then have "unat a div L * L < ?N * L" using n sz by arith
  then have lt: "unat a div L < ?N" by (simp only: mult_less_cancel2)
  have d: "(?N - 1) * L = ?N * L - L" by (simp only: diff_mult_distrib mult_1)
  have "?N * L < 2 ^ 64" "(?N - 1) * L < unat (a + sz)" "unat (a + sz) \<le> ?N * L"
    unfolding d e using n sz assms(3) L by linarith+
  from flush_loop_run [OF L lt this] have "flush_loop (of_nat L) (a + sz) (of_nat (unat a div L * L)) (maint c) =
      Some (maint c @ map (\<lambda>k. Dc_civac (of_nat (k * L))) [unat a div L..<?N])" .
  then show ?thesis by (simp add: flush_dcache_area_def Let_def x2 x0 del: of_nat_mult)
qed

end
