(* ===== verification/Boot.thy ===== *)
theory Boot
  imports BootPt_Props BootAsm_Props Uart_Props Utils
begin

text \<open>
  The boot code that runs before the kernel, in physical addresses: src/arch/aarch64/boot/raspi3/init/init.c
  and the early serial port (src/arch/aarch64/boot/raspi3/peripherals/uart.c, the PL011 branch of the
  default build). Where the linker puts the \<open>.bss\<close> section and the tables is a parameter. \<open>el1_mmu_activate\<close> is
  that of \<open>BootAsm\<close>; the jump to the kernel (\<open>start_kernel\<close>) follows in \<open>Boot_Entry\<close>.
\<close>

section \<open>State and registers\<close>

record boot_machine =
  ram :: bytes
  serial :: io
  tables :: boot_tables
  boot_core :: cpu_core

definition EARLY_OFFSET :: u64 where "EARLY_OFFSET = 0x3F000000"
definition EARLY_GPFSEL1 :: u64 where "EARLY_GPFSEL1 = EARLY_OFFSET + 0x00200004"
definition EARLY_GPPUD :: u64 where "EARLY_GPPUD = EARLY_OFFSET + 0x00200094"
definition EARLY_GPPUDCLK0 :: u64 where "EARLY_GPPUDCLK0 = EARLY_OFFSET + 0x00200098"
definition EARLY_PL011_BASE :: u64 where "EARLY_PL011_BASE = EARLY_OFFSET + 0x201000"
definition EARLY_PL011_DR :: u64 where "EARLY_PL011_DR = EARLY_PL011_BASE + 0x00"
definition EARLY_PL011_FR :: u64 where "EARLY_PL011_FR = EARLY_PL011_BASE + 0x18"
definition EARLY_PL011_IBRD :: u64 where "EARLY_PL011_IBRD = EARLY_PL011_BASE + 0x24"
definition EARLY_PL011_FBRD :: u64 where "EARLY_PL011_FBRD = EARLY_PL011_BASE + 0x28"
definition EARLY_PL011_LCRH :: u64 where "EARLY_PL011_LCRH = EARLY_PL011_BASE + 0x2C"
definition EARLY_PL011_CR :: u64 where "EARLY_PL011_CR = EARLY_PL011_BASE + 0x30"
definition EARLY_PL011_IMSC :: u64 where "EARLY_PL011_IMSC = EARLY_PL011_BASE + 0x38"
definition TEXT_OFFSET :: u64 where "TEXT_OFFSET = 0x80000"

section \<open>The early serial port\<close>

definition early_uart_init :: "hardware \<Rightarrow> io \<Rightarrow> io" where
  "early_uart_init hw d =
     (let (ra, d) = get32 hw EARLY_GPFSEL1 d;
          ra = (and) ra (not (push_bit 12 7)); ra = (or) ra (push_bit 12 4);
          ra = (and) ra (not (push_bit 15 7)); ra = (or) ra (push_bit 15 4);
          d = put32 EARLY_GPFSEL1 ra d;
          d = put32 EARLY_GPPUD 0 d;
          d = put32 EARLY_GPPUDCLK0 ((or) (push_bit 14 1) (push_bit 15 1)) d;
          d = put32 EARLY_GPPUDCLK0 0 d;
          d = put32 EARLY_PL011_CR 0 d;
          d = put32 EARLY_PL011_IBRD 26 d;
          d = put32 EARLY_PL011_FBRD 3 d;
          d = put32 EARLY_PL011_LCRH ((or) (push_bit 4 1) (push_bit 5 3)) d;
          d = put32 EARLY_PL011_IMSC 0 d
      in put32 EARLY_PL011_CR ((or) 1 ((or) (push_bit 8 1) (push_bit 9 1))) d)"

definition early_uart_send :: "hardware \<Rightarrow> u8 \<Rightarrow> io \<Rightarrow> io result" where
  "early_uart_send hw c d =
     (case wait_while hw EARLY_PL011_FR (push_bit 5 1) d of
        None \<Rightarrow> Inl DIVERGE
      | Some d \<Rightarrow> Inr (put32 EARLY_PL011_DR (ucast c) d))"

text \<open>The string is a literal, its terminating NUL the end of the list.\<close>

fun uart_send_string :: "hardware \<Rightarrow> string \<Rightarrow> io \<Rightarrow> io result" where
  "uart_send_string hw [] d = Inr d"
| "uart_send_string hw (c # str) d = bindR (early_uart_send hw (of_char c) d) (uart_send_string hw str)"

section \<open>Boot\<close>

function clear_loop :: "u64 \<Rightarrow> u64 \<Rightarrow> bytes \<Rightarrow> bytes result" where
  "clear_loop bss_end i m = (if i < bss_end then bindR (store_byte i 0 m) (clear_loop bss_end (i + 1)) else Inr m)"
  by pat_completeness auto

termination
proof (relation "measure (\<lambda>(bss_end, i, m). unat (bss_end - i))")
  fix e i :: u64 and m m'
  assume "i < e"
  then have "unat (e - (i + 1)) < unat (e - i)"
    using measure_unat [of "e - i"] by (simp add: diff_diff_eq)
  then show "((e, i + 1, m'), (e, i, m)) \<in> measure (\<lambda>(e, i, m). unat (e - i))" by simp
qed simp

definition clear_bss :: "u64 \<Rightarrow> u64 \<Rightarrow> bytes \<Rightarrow> bytes result" where
  "clear_bss bss_start bss_end m = clear_loop bss_end bss_start m"

text \<open>A little-endian store of eight bytes.\<close>

fun store_bytes :: "u64 \<Rightarrow> u8 list \<Rightarrow> bytes \<Rightarrow> bytes result" where
  "store_bytes a [] m = Inr m"
| "store_bytes a (c # cs) m = bindR (store_byte a c m) (store_bytes (a + 1) cs)"

definition le_bytes :: "u64 \<Rightarrow> u8 list" where
  "le_bytes v = map (\<lambda>i. ucast (drop_bit (8 * i) v)) [0..<8]"

definition wakeup_other_cores :: "bytes \<Rightarrow> bytes result" where
  "wakeup_other_cores m =
     bindR (store_bytes 0xE0 (le_bytes TEXT_OFFSET) m) (\<lambda>m.
     bindR (store_bytes 0xE8 (le_bytes TEXT_OFFSET) m) (\<lambda>m.
     store_bytes 0xF0 (le_bytes TEXT_OFFSET) m))"

definition CRLF :: string where "CRLF = [CHR 0x0D, CHR 0x0A]"

definition boot_message :: "hardware \<Rightarrow> string \<Rightarrow> boot_machine \<Rightarrow> boot_machine result" where
  "boot_message hw str b = bindR (uart_send_string hw str (serial b)) (\<lambda>d. Inr (b\<lparr>serial := d\<rparr>))"

definition init :: "hardware \<Rightarrow> boot_layout \<Rightarrow> u64 \<Rightarrow> u64 \<Rightarrow> boot_machine \<Rightarrow> boot_machine result" where
  "init hw lay bss_start bss_end b =
     bindR (clear_bss bss_start bss_end (ram b)) (\<lambda>m.
     let b = b\<lparr>ram := m, serial := early_uart_init hw (serial b)\<rparr> in
     bindR (wakeup_other_cores (ram b)) (\<lambda>m.
     bindR (boot_message hw (''[BOOT] Wake up other cores'' @ CRLF) (b\<lparr>ram := m\<rparr>)) (\<lambda>b.
     case init_kernel_pt lay (tables b) of
       None \<Rightarrow> Inl DIVERGE
     | Some t \<Rightarrow>
         bindR (boot_message hw (''[BOOT] Install kernel page table'' @ CRLF) (b\<lparr>tables := t\<rparr>)) (\<lambda>b.
         case el1_mmu_activate lay (boot_core b) of
           None \<Rightarrow> Inl DIVERGE
         | Some c \<Rightarrow>
             bindR (boot_message hw (''[BOOT] Enable el1 MMU'' @ CRLF) (b\<lparr>boot_core := c\<rparr>)) (\<lambda>b.
             boot_message hw (''[BOOT] Jump to kernel main'' @ CRLF) b)))))"

section \<open>Correctness\<close>

definition early_drains :: "hardware \<Rightarrow> bool" where
  "early_drains hw \<longleftrightarrow> (\<forall>n. \<exists>k \<ge> n. (and) (hw EARLY_PL011_FR k) (push_bit 5 1) = 0)"

lemma clear_loop_overwrite:
  "i \<le> e \<Longrightarrow> mapped m i (unat (e - i)) \<Longrightarrow> clear_loop e i m = Inr (overwrite m i (replicate (unat (e - i)) 0))"
proof (induction e i m rule: clear_loop.induct)
  case (1 e i m)
  show ?case
  proof (cases "i < e")
    case True
    have n: "unat (e - i) = Suc (unat (e - (i + 1)))"
      using True unat_minus_one [of "e - i"] unat_gt_0 [of "e - i"] by (simp add: diff_diff_eq)
    have lt: "Suc (unat (e - (i + 1))) < 2 ^ 64" using unsigned_less [of "e - i", where ?'a = nat] n by simp
    have m: "m i \<noteq> None" "mapped m (i + 1) (unat (e - (i + 1)))" using 1(3) n by (simp_all add: mapped_Suc)
    have "store_byte i 0 m = Inr (m(i \<mapsto> 0))" using m(1) by (simp add: store_byte_def)
    moreover have "i + 1 \<le> e" using True by (rule inc_le)
    ultimately have "clear_loop e (i + 1) (m(i \<mapsto> 0)) = Inr (overwrite (m(i \<mapsto> 0)) (i + 1) (replicate (unat (e - (i + 1))) 0))"
      using 1(1) [OF True, of "m(i \<mapsto> 0)"] mapped_upd [OF m(2)] by blast
    then show ?thesis using True m(1) overwrite_step [of "replicate (unat (e - (i + 1))) 0" m i 0] lt n
      by (simp add: store_byte_def)
  next
    case False
    then have "e = i" using 1(2) by simp
    then show ?thesis by (simp add: overwrite_def)
  qed
qed

lemma store_bytes_overwrite:
  "mapped m a (length cs) \<Longrightarrow> length cs < 2 ^ 64 \<Longrightarrow> store_bytes a cs m = Inr (overwrite m a cs)"
proof (induction cs arbitrary: a m)
  case (Cons c cs)
  then have "store_bytes (a + 1) cs (m(a \<mapsto> c)) = Inr (overwrite (m(a \<mapsto> c)) (a + 1) cs)"
    by (intro Cons.IH mapped_upd) (auto simp: mapped_Suc)
  then show ?case using Cons.prems overwrite_step [of cs m a c] by (auto simp: mapped_Suc store_byte_def)
qed (simp add: overwrite_def)

lemma mapped_overwrite: "mapped m p n \<Longrightarrow> mapped (overwrite m q cs) p n"
  by (simp add: mapped_def overwrite_def)

lemma early_send_drains:
  assumes "early_drains hw"
  shows "\<exists>n. early_uart_send hw c d = Inr (put32 EARLY_PL011_DR (ucast c) (d\<lparr>reads := n\<rparr>))"
proof -
  obtain k where "reads d \<le> k" "(and) (hw EARLY_PL011_FR k) (push_bit 5 1) = 0"
    using assms by (auto simp: early_drains_def)
  then have "wait_while hw EARLY_PL011_FR (push_bit 5 1) d \<noteq> None"
    unfolding wait_while_iff by (intro exI [of _ "k - reads d"]) simp
  then show ?thesis using wait_while_result [of hw EARLY_PL011_FR "push_bit 5 1" d] by (auto simp: early_uart_send_def)
qed

definition early_output :: "string \<Rightarrow> (u64 \<times> u32) list" where
  "early_output str = map (\<lambda>c. (EARLY_PL011_DR, ucast (of_char c :: u8))) str"

interpretation early_pl011: serial_line early_uart_send EARLY_PL011_DR early_drains
  by unfold_locales (rule early_send_drains)

lemma send_string_drains:
  assumes "early_drains hw"
  shows "\<exists>d'. uart_send_string hw str d = Inr d' \<and> writes d' = writes d @ early_output str"
  unfolding early_output_def by (rule early_pl011.sends_in_order [OF assms]) simp_all

lemma boot_message_drains:
  assumes "early_drains hw"
  obtains d where "boot_message hw str b = Inr (b\<lparr>serial := d\<rparr>)" "writes d = writes (serial b) @ early_output str"
  using send_string_drains [OF assms, of str "serial b"] that by (auto simp: boot_message_def)

definition early_setup :: "u32 \<Rightarrow> (u64 \<times> u32) list" where
  "early_setup ra = [(EARLY_GPFSEL1, ra), (EARLY_GPPUD, 0), (EARLY_GPPUDCLK0, 0xC000), (EARLY_GPPUDCLK0, 0),
     (EARLY_PL011_CR, 0), (EARLY_PL011_IBRD, 26), (EARLY_PL011_FBRD, 3), (EARLY_PL011_LCRH, 0x70), (EARLY_PL011_IMSC, 0),
     (EARLY_PL011_CR, 0x301)]"

lemma early_uart_init_writes: "\<exists>ra. writes (early_uart_init hw d) = writes d @ early_setup ra"
  by (simp add: early_uart_init_def get32_def Let_def early_setup_def)

lemma unat_from: "(a :: u64) \<le> x \<Longrightarrow> unat (x - a) = unat x - unat a"
  by (simp add: unat_sub)

lemma area_range:
  assumes "(p :: u64) \<le> q"
  shows "unat (a - p) < unat (q - p) \<longleftrightarrow> p \<le> a \<and> a < q"
proof (cases "p \<le> a")
  case True
  then have "unat p \<le> unat a" "unat p \<le> unat q" using assms by (simp_all add: word_le_nat_alt)
  then show ?thesis using True assms by (auto simp: unat_from word_less_nat_alt)
next
  case False
  then have "unat a < unat p" "unat p \<le> unat q" using assms by (simp_all add: word_less_nat_alt word_le_nat_alt)
  moreover have "unat (a - p) = unat a + 18446744073709551616 - unat p"
    using False unat_sub_if' [of a p] by (simp add: word_less_nat_alt word_le_nat_alt not_le)
  moreover have "unat q < 18446744073709551616" using unsigned_less [of q, where ?'a = nat] by simp
  ultimately show ?thesis using False assms by (simp add: unat_from)
qed

lemma wakeup_writes:
  assumes "mapped m 0xE0 24"
  shows "\<exists>m'. wakeup_other_cores m = Inr m' \<and>
    (\<forall>a. m' a = (if 0xE0 \<le> a \<and> a < 0xF8 then Some (le_bytes TEXT_OFFSET ! (unat a mod 8)) else m a))"
proof -
  let ?w = "le_bytes TEXT_OFFSET" and ?ow = "\<lambda>p m. overwrite m p (le_bytes TEXT_OFFSET)"
  have l: "length ?w = 8" by (simp add: le_bytes_def)
  have sub: "mapped m (0xE0 + of_nat j) 8" if "j \<le> 16" for j
  proof (unfold mapped_def, intro allI impI)
    fix i :: nat
    assume "i < 8"
    then have "m (0xE0 + of_nat (j + i)) \<noteq> None" using assms [unfolded mapped_def, rule_format, of "j + i"] that by simp
    then show "m (0xE0 + of_nat j + of_nat i) \<noteq> None" by (simp add: add.assoc)
  qed
  have "wakeup_other_cores m = Inr (?ow 0xF0 (?ow 0xE8 (?ow 0xE0 m)))"
    using sub [of 0] sub [of 8] sub [of 16]
    by (simp add: wakeup_other_cores_def store_bytes_overwrite l mapped_overwrite)
  moreover have "?ow 0xF0 (?ow 0xE8 (?ow 0xE0 m)) a = (if 0xE0 \<le> a \<and> a < 0xF8 then Some (?w ! (unat a mod 8)) else m a)" for a
  proof -
    have r: "unat (a - 0xE0) < 8 \<longleftrightarrow> 0xE0 \<le> a \<and> a < 0xE8" "unat (a - 0xE8) < 8 \<longleftrightarrow> 0xE8 \<le> a \<and> a < 0xF0"
      "unat (a - 0xF0) < 8 \<longleftrightarrow> 0xF0 \<le> a \<and> a < 0xF8"
      using area_range [of "0xE0" "0xE8" a] area_range [of "0xE8" "0xF0" a] area_range [of "0xF0" "0xF8" a] by simp_all
    have i: "unat (a - 0xE0) = unat a mod 8" if "0xE0 \<le> a" "a < 0xE8"
      using that by (simp add: unat_from word_le_nat_alt word_less_nat_alt) presburger
    have j: "unat (a - 0xE8) = unat a mod 8" if "0xE8 \<le> a" "a < 0xF0"
      using that by (simp add: unat_from word_le_nat_alt word_less_nat_alt) presburger
    have k: "unat (a - 0xF0) = unat a mod 8" if "0xF0 \<le> a" "a < 0xF8"
      using that by (simp add: unat_from word_le_nat_alt word_less_nat_alt) presburger
    show ?thesis using i j k by (auto simp: overwrite_def l r word_le_nat_alt word_less_nat_alt)
  qed
  ultimately show ?thesis by blast
qed

definition boot_messages :: string where
  "boot_messages = ''[BOOT] Wake up other cores'' @ CRLF @ ''[BOOT] Install kernel page table'' @ CRLF @
     ''[BOOT] Enable el1 MMU'' @ CRLF @ ''[BOOT] Jump to kernel main'' @ CRLF"

text \<open>With a serial line that drains and cleared tables, \<open>init\<close> reaches the kernel: exactly the \<open>.bss\<close> section is
  zeroed, the three words the firmware polls hold the address of the image, no other byte of memory
  is touched, the page tables are the ones \<open>init_kernel_pt\<close> makes, the MMU is on, and the port was set
  up before the four messages were sent.\<close>

lemma init_run:
  assumes "early_drains hw" "bss_start \<le> bss_end" "0xF8 \<le> bss_start"
    "mapped (ram b) bss_start (unat (bss_end - bss_start))" "mapped (ram b) 0xE0 24"
    "boot_ttbr1_l0 (tables b) = (\<lambda>_. 0)" "boot_ttbr1_l1 (tables b) = (\<lambda>_. 0)" "boot_ttbr1_l2 (tables b) = (\<lambda>_. 0)"
    "4096 dvd unat (boot_ttbr1_l0_at lay)"
  shows "\<exists>b' ra. init hw lay bss_start bss_end b = Inr b' \<and> kernel_translation lay (boot_core b') \<and> same_mode (boot_core b) (boot_core b') \<and> init_kernel_pt lay (tables b) = Some (tables b') \<and>
    (\<forall>a. ram b' a = (if bss_start \<le> a \<and> a < bss_end then Some 0
       else if 0xE0 \<le> a \<and> a < 0xF8 then Some (le_bytes TEXT_OFFSET ! (unat a mod 8)) else ram b a)) \<and>
    writes (serial b') = writes (serial b) @ early_setup ra @ early_output boot_messages"
proof -
  define m1 where "m1 = overwrite (ram b) bss_start (replicate (unat (bss_end - bss_start)) 0)"
  have c: "clear_bss bss_start bss_end (ram b) = Inr m1"
    using clear_loop_overwrite [OF assms(2,4)] by (simp add: clear_bss_def m1_def)
  obtain m2 where m2: "wakeup_other_cores m1 = Inr m2"
    "\<forall>a. m2 a = (if 0xE0 \<le> a \<and> a < 0xF8 then Some (le_bytes TEXT_OFFSET ! (unat a mod 8)) else m1 a)"
    using wakeup_writes [of m1] mapped_overwrite [OF assms(5)] unfolding m1_def by blast
  obtain t where t: "init_kernel_pt lay (tables b) = Some t" using init_kernel_pt_run [OF assms(6-8)] by blast
  obtain ra where ra: "writes (early_uart_init hw (serial b)) = writes (serial b) @ early_setup ra" using early_uart_init_writes by blast
  define b1 where "b1 = b\<lparr>serial := early_uart_init hw (serial b), ram := m2\<rparr>"
  obtain d1 where d1: "boot_message hw (''[BOOT] Wake up other cores'' @ CRLF) b1 = Inr (b1\<lparr>serial := d1\<rparr>)"
    "writes d1 = writes (serial b1) @ early_output (''[BOOT] Wake up other cores'' @ CRLF)" by (rule boot_message_drains [OF assms(1)])
  define b2 where "b2 = b1\<lparr>serial := d1, tables := t\<rparr>"
  obtain d2 where d2: "boot_message hw (''[BOOT] Install kernel page table'' @ CRLF) b2 = Inr (b2\<lparr>serial := d2\<rparr>)"
    "writes d2 = writes (serial b2) @ early_output (''[BOOT] Install kernel page table'' @ CRLF)" by (rule boot_message_drains [OF assms(1)])
  obtain c' where c': "el1_mmu_activate lay (boot_core b) = Some c'" "kernel_translation lay c'" "same_mode (boot_core b) c'"
    using mmu_activates [OF assms(9)] by blast
  define b3 where "b3 = b2\<lparr>serial := d2, boot_core := c'\<rparr>"
  obtain d3 where d3: "boot_message hw (''[BOOT] Enable el1 MMU'' @ CRLF) b3 = Inr (b3\<lparr>serial := d3\<rparr>)"
    "writes d3 = writes (serial b3) @ early_output (''[BOOT] Enable el1 MMU'' @ CRLF)" by (rule boot_message_drains [OF assms(1)])
  define b4 where "b4 = b3\<lparr>serial := d3\<rparr>"
  obtain d4 where d4: "boot_message hw (''[BOOT] Jump to kernel main'' @ CRLF) b4 = Inr (b4\<lparr>serial := d4\<rparr>)"
    "writes d4 = writes (serial b4) @ early_output (''[BOOT] Jump to kernel main'' @ CRLF)" by (rule boot_message_drains [OF assms(1)])
  have f: "serial b1 = early_uart_init hw (serial b)" "serial b2 = d1" "serial b3 = d2" "serial b4 = d3" "ram b4 = m2" "tables b4 = t" "boot_core b4 = c'" "boot_core b2 = boot_core b" "tables b1 = tables b"
    by (simp_all add: b1_def b2_def b3_def b4_def)
  have "init hw lay bss_start bss_end b = Inr (b4\<lparr>serial := d4\<rparr>)"
    using c m2(1) t d1(1) d2(1) d3(1) d4(1) c'(1)
    by (simp add: init_def Let_def b1_def b2_def b3_def b4_def del: append_Cons append_Nil)
  moreover have "writes d4 = writes (serial b) @ early_setup ra @ early_output boot_messages"
    using d1(2) d2(2) d3(2) d4(2) f(1-4) ra by (simp add: early_output_def boot_messages_def)
  moreover have "m2 a = (if bss_start \<le> a \<and> a < bss_end then Some 0
       else if 0xE0 \<le> a \<and> a < 0xF8 then Some (le_bytes TEXT_OFFSET ! (unat a mod 8)) else ram b a)" for a
    using m2(2) [rule_format, of a] area_range [OF assms(2), of a] assms(3) by (auto simp: m1_def overwrite_def)
  ultimately show ?thesis using f(5-7) t c'(2,3) by (intro exI [of _ "b4\<lparr>serial := d4\<rparr>"] exI [of _ ra]) simp
qed

end
