(* ===== verification/Boot_Entry.thy ===== *)
theory Boot_Entry
  imports Boot
begin

text \<open>
  From the first instruction to the C code of the kernel: \<open>_start\<close> (src/arch/aarch64/boot/raspi3/init/start.S),
  \<open>secondary_init\<close> (init.c) and \<open>start_kernel\<close>, \<open>secondary_cpu_boot\<close> (src/arch/aarch64/head.S). Core 0 goes
  through \<open>init\<close>, the other cores wait for their word of \<open>secondary_boot_flag\<close>. Where the linker puts the
  stacks, the empty page and the label in \<open>arm64_elX_to_el1\<close> is a parameter.
\<close>

section \<open>The code\<close>

record entry_env =
  Ltarget_at :: u64
  boot_cpu_stack_at :: u64
  secondary_boot_flag_at :: u64
  cpu_stacks_at :: vaddr_t
  empty_page_at :: vaddr_t

definition INIT_STACK_SIZE :: u64 where "INIT_STACK_SIZE = 0x1000"

text \<open>\<open>flag n\<close> is what the word of this core reads at the n-th read; another core writes it.\<close>

partial_function (option) wait_until_smp_enabled :: "(nat \<Rightarrow> u64) \<Rightarrow> nat \<Rightarrow> nat option" where
  "wait_until_smp_enabled flag n = (if flag n = 0 then wait_until_smp_enabled flag (Suc n) else Some n)"

definition start_primary :: "entry_env \<Rightarrow> cpu_core \<Rightarrow> cpu_core result" where
  "start_primary e c = bindR (arm64_elX_to_el1 (Ltarget_at e) c) (\<lambda>c. Inr (c\<lparr>sp := boot_cpu_stack_at e + INIT_STACK_SIZE\<rparr>))"

definition start_secondary :: "entry_env \<Rightarrow> (nat \<Rightarrow> u64) \<Rightarrow> u64 \<Rightarrow> cpu_core \<Rightarrow> cpu_core result" where
  "start_secondary e flag x8 c =
     bindR (arm64_elX_to_el1 (Ltarget_at e) c) (\<lambda>c.
     let x1 = x8 * INIT_STACK_SIZE; x0 = boot_cpu_stack_at e + x1; x0 = x0 + INIT_STACK_SIZE; c = c\<lparr>sp := x0\<rparr> in
     case wait_until_smp_enabled flag 0 of None \<Rightarrow> Inl DIVERGE | Some _ \<Rightarrow> Inr c)"

definition flush_tlb_all :: "cpu_core \<Rightarrow> cpu_core" where
  "flush_tlb_all c = c\<lparr>maint := maint c @ [Tlbi_vmalle1]\<rparr>"

text \<open>A little-endian load of eight bytes.\<close>

fun load_word :: "nat \<Rightarrow> u64 \<Rightarrow> bytes \<Rightarrow> u64 result" where
  "load_word 0 a m = Inr 0"
| "load_word (Suc n) a m = bindR (load m a) (\<lambda>v. bindR (load_word n (a + 1) m) (\<lambda>w. Inr ((or) (ucast v) (push_bit 8 w))))"

text \<open>\<open>start_kernel\<close> runs at its kernel address, memory is reached through the direct map. It keeps its two arguments on
  the new stack while the TLB is flushed; the result are the arguments of \<open>main\<close>.\<close>

definition start_kernel :: "entry_env \<Rightarrow> u64 \<Rightarrow> u64 \<Rightarrow> boot_machine \<Rightarrow> ((u64 \<times> u64) \<times> boot_machine) result" where
  "start_kernel e x0 x1 b =
     (let x2 = cpu_stacks_at e + push_bit 12 1; top = x2 - 16; b = b\<lparr>boot_core := (boot_core b)\<lparr>sp := top\<rparr>\<rparr> in
      bindR (store_bytes (virt_to_phys top) (le_bytes x0) (ram b)) (\<lambda>m.
      bindR (store_bytes (virt_to_phys (top + 8)) (le_bytes x1) m) (\<lambda>m.
      let b = b\<lparr>ram := m, boot_core := flush_tlb_all ((boot_core b)\<lparr>ttbr0 := adrp (empty_page_at e)\<rparr>)\<rparr> in
      bindR (load_word 8 (virt_to_phys (sp (boot_core b))) (ram b)) (\<lambda>x0.
      bindR (load_word 8 (virt_to_phys (sp (boot_core b) + 8)) (ram b)) (\<lambda>x1.
      Inr ((x0, x1), b\<lparr>boot_core := (boot_core b)\<lparr>sp := sp (boot_core b) + 16\<rparr>\<rparr>))))))"

text \<open>The result is the argument of \<open>secondary_start\<close>.\<close>

definition secondary_cpu_boot :: "entry_env \<Rightarrow> u64 \<Rightarrow> cpu_core \<Rightarrow> u64 \<times> cpu_core" where
  "secondary_cpu_boot e x0 c =
     (let x19 = x0; x1 = 0x1000; x2 = x0 * x1; x3 = cpu_stacks_at e; x2 = x2 + x3; x2 = x2 + push_bit 12 1; c = c\<lparr>sp := x2\<rparr>;
          c = flush_tlb_all (c\<lparr>ttbr0 := adrp (empty_page_at e)\<rparr>)
      in (x19, c))"

definition secondary_init :: "boot_layout \<Rightarrow> entry_env \<Rightarrow> u64 \<Rightarrow> cpu_core \<Rightarrow> (u64 \<times> cpu_core) result" where
  "secondary_init lay e cpuid c =
     (case el1_mmu_activate lay c of None \<Rightarrow> Inl DIVERGE | Some c \<Rightarrow> Inr (secondary_cpu_boot e cpuid c))"

text \<open>The path of core 0 and that of the others.\<close>

definition boot_primary :: "hardware \<Rightarrow> boot_layout \<Rightarrow> entry_env \<Rightarrow> u64 \<Rightarrow> u64 \<Rightarrow> u64 \<Rightarrow> boot_machine \<Rightarrow> ((u64 \<times> u64) \<times> boot_machine) result" where
  "boot_primary hw lay e bss_start bss_end x1 b =
     bindR (start_primary e (boot_core b)) (\<lambda>c.
     bindR (init hw lay bss_start bss_end (b\<lparr>boot_core := c\<rparr>)) (\<lambda>b.
     start_kernel e (secondary_boot_flag_at e) x1 b))"

definition boot_secondary :: "boot_layout \<Rightarrow> entry_env \<Rightarrow> (nat \<Rightarrow> u64) \<Rightarrow> u64 \<Rightarrow> cpu_core \<Rightarrow> (u64 \<times> cpu_core) result" where
  "boot_secondary lay e flag cpu c = bindR (start_secondary e flag cpu c) (\<lambda>c. secondary_init lay e cpu c)"

text \<open>The low byte of \<open>mpidr_el1\<close> is the number of the core.\<close>

datatype kernel_entry = At_main u64 u64 | At_secondary_start u64

definition start :: "hardware \<Rightarrow> boot_layout \<Rightarrow> entry_env \<Rightarrow> u64 \<Rightarrow> u64 \<Rightarrow> u64 \<Rightarrow> (nat \<Rightarrow> u64) \<Rightarrow> u64 \<Rightarrow> boot_machine \<Rightarrow> (kernel_entry \<times> boot_machine) result" where
  "start hw lay e bss_start bss_end x1 flag mpidr_el1 b =
     (let x8 = (and) mpidr_el1 0xFF in
      if x8 = 0 then bindR (boot_primary hw lay e bss_start bss_end x1 b) (\<lambda>((x0, x1), b). Inr (At_main x0 x1, b))
      else bindR (boot_secondary lay e flag x8 (boot_core b)) (\<lambda>(x0, c). Inr (At_secondary_start x0, b\<lparr>boot_core := c\<rparr>)))"

section \<open>Words in memory\<close>

lemma le_split:
  "(or) (ucast (ucast (drop_bit (8 * j) v) :: u8)) (push_bit 8 (take_bit (8 * n) (drop_bit (8 * Suc j) v))) = take_bit (8 * Suc n) (drop_bit (8 * j) (v :: u64))"
  by (rule bit_word_eqI) (auto simp: bit_simps not_less add.commute)

lemma load_overwrite:
  assumes "\<And>i. i < n \<Longrightarrow> m (p + of_nat i) = Some (ucast (drop_bit (8 * (j + i)) v))"
  shows "load_word n p m = Inr (take_bit (8 * n) (drop_bit (8 * j) v))"
  using assms
proof (induction n arbitrary: j p)
  case (Suc n)
  have "load_word n (p + 1) m = Inr (take_bit (8 * n) (drop_bit (8 * Suc j) v))"
    using Suc.prems [of "Suc i" for i] by (intro Suc.IH) (simp add: add.assoc add.left_commute)
  moreover have "load m p = Inr (ucast (drop_bit (8 * j) v))" using Suc.prems [of 0] by (simp add: load_def)
  ultimately show ?case using le_split [of j v n] by simp
qed simp

lemma le_bytes_nth: "i < 8 \<Longrightarrow> le_bytes v ! i = ucast (drop_bit (8 * i) v)" "length (le_bytes v) = 8"
  by (simp_all add: le_bytes_def)

lemma pair_apart:
  assumes "i < 8"
  shows "\<not> unat ((p :: u64) + of_nat i - (p + 8)) < 8"
proof -
  have "p + of_nat i - (p + 8) = of_nat i - 8" by simp
  moreover have "unat (of_nat i :: u64) = i" using assms by (intro unat_index) simp
  ultimately show ?thesis using assms unat_sub_if' [of "of_nat i :: u64" 8] by simp
qed

lemma pair_stored:
  fixes x0 x1 p :: u64 and m :: bytes
  assumes "mapped m p 16"
  defines "m' \<equiv> overwrite (overwrite m p (le_bytes x0)) (p + 8) (le_bytes x1)"
  shows "store_bytes p (le_bytes x0) m = Inr (overwrite m p (le_bytes x0))"
    "store_bytes (p + 8) (le_bytes x1) (overwrite m p (le_bytes x0)) = Inr m'"
    "load_word 8 p m' = Inr x0" "load_word 8 (p + 8) m' = Inr x1"
proof -
  have "m (p + 8 + of_nat i) \<noteq> None" if "i < 8" for i
    using assms(1) that unfolding mapped_def by (metis add.assoc of_nat_add of_nat_numeral nat_add_left_cancel_less numeral_Bit0)
  then have m: "mapped m p 8" "mapped m (p + 8) 8" using assms(1) by (simp_all add: mapped_def)
  show "store_bytes p (le_bytes x0) m = Inr (overwrite m p (le_bytes x0))"
    using m(1) by (simp add: store_bytes_overwrite le_bytes_nth)
  show "store_bytes (p + 8) (le_bytes x1) (overwrite m p (le_bytes x0)) = Inr m'"
    using m(2) by (simp add: store_bytes_overwrite le_bytes_nth mapped_overwrite m'_def)
  have full: "take_bit 64 v = v" for v :: u64 by (rule bit_word_eqI) (simp add: bit_simps)
  have u: "unat (of_nat i :: u64) = i" if "i < 8" for i using that by (intro unat_index) simp
  have "m' (p + of_nat i) = Some (ucast (drop_bit (8 * (0 + i)) x0))" if "i < 8" for i
    using that pair_apart [OF that, of p] u [OF that] by (simp add: m'_def overwrite_def le_bytes_nth)
  from load_overwrite [of 8, OF this] show "load_word 8 p m' = Inr x0" by (simp add: full)
  have "m' (p + 8 + of_nat i) = Some (ucast (drop_bit (8 * (0 + i)) x1))" if "i < 8" for i
    using that u [OF that] by (simp add: m'_def overwrite_def le_bytes_nth)
  from load_overwrite [of 8, OF this] show "load_word 8 (p + 8) m' = Inr x1" by (simp add: full)
qed

section \<open>The last steps\<close>

definition saved_at :: "entry_env \<Rightarrow> u64" where
  "saved_at e = virt_to_phys (cpu_stacks_at e + 0x1000 - 16)"

lemma start_kernel_run:
  assumes "mapped (ram b) (saved_at e) 16"
  shows "start_kernel e x0 x1 b = Inr ((x0, x1),
    b\<lparr>ram := overwrite (overwrite (ram b) (saved_at e) (le_bytes x0)) (saved_at e + 8) (le_bytes x1),
      boot_core := (boot_core b)\<lparr>sp := cpu_stacks_at e + 0x1000, ttbr0 := adrp (empty_page_at e), maint := maint (boot_core b) @ [Tlbi_vmalle1]\<rparr>\<rparr>)"
proof -
  have "virt_to_phys (cpu_stacks_at e + push_bit 12 1 - 16) = saved_at e" "virt_to_phys (cpu_stacks_at e + push_bit 12 1 - 16 + 8) = saved_at e + 8"
    by (simp_all add: saved_at_def virt_to_phys_def)
  then show ?thesis using pair_stored [OF assms] by (simp add: start_kernel_def Let_def flush_tlb_all_def)
qed

lemma wait_returns: "flag (n + k) \<noteq> 0 \<Longrightarrow> wait_until_smp_enabled flag n \<noteq> None"
  by (induction k arbitrary: n) (subst wait_until_smp_enabled.simps; simp)+

lemma wait_result: "wait_until_smp_enabled flag n = Some k \<Longrightarrow> flag k \<noteq> 0"
  by (rule wait_until_smp_enabled.raw_induct [of "\<lambda>flag n k. flag k \<noteq> 0"]) (auto split: if_split_asm)

lemma wait_iff: "wait_until_smp_enabled flag 0 \<noteq> None \<longleftrightarrow> (\<exists>k. flag k \<noteq> 0)"
  using wait_returns [of flag 0] wait_result [of flag 0] by auto

lemma lines_from_cong: "clidr_el1 c' = clidr_el1 c \<Longrightarrow> ccsidr_el1 c' = ccsidr_el1 c \<Longrightarrow> lines_from c' 0 = lines_from c 0"
  by (simp add: lines_from_def geometry_def)

lemma kernel_translation_later:
  "kernel_translation lay (c\<lparr>sp := s, ttbr0 := t, maint := l\<rparr>) = kernel_translation lay c" "el1_unrestricted (c\<lparr>sp := s, ttbr0 := t, maint := l\<rparr>) = el1_unrestricted c"
  by (simp_all add: kernel_translation_def mair_attr_def el1_unrestricted_def)

lemma unrestricted_stack: "el1_unrestricted (c\<lparr>sp := s\<rparr>) = el1_unrestricted c"
  by (simp add: el1_unrestricted_def)

lemma secondary_run:
  assumes "CurrentEL c \<in> {CURRENTEL_EL1, CURRENTEL_EL2, CURRENTEL_EL3}" "4096 dvd unat (boot_ttbr1_l0_at lay)"
  shows "if \<exists>k. flag k \<noteq> 0
    then \<exists>c'. boot_secondary lay e flag cpu c = Inr (cpu, c') \<and> CurrentEL c' = CURRENTEL_EL1 \<and> kernel_translation lay c' \<and>
      sp c' = cpu_stacks_at e + (cpu + 1) * 0x1000 \<and> (CurrentEL c \<noteq> CURRENTEL_EL1 \<longrightarrow> daif c' = 0x3C0 \<and> el1_unrestricted c') \<and>
      maint c' = maint c @ lines_from c 0 @ [Ic_iallu, Tlbi_vmalle1is, Tlbi_vmalle1]
    else boot_secondary lay e flag cpu c = Inl DIVERGE"
proof -
  obtain c1 where c1: "arm64_elX_to_el1 (Ltarget_at e) c = Inr c1" "CurrentEL c1 = CURRENTEL_EL1" "maint c1 = maint c" "clidr_el1 c1 = clidr_el1 c"
    "ccsidr_el1 c1 = ccsidr_el1 c" "CurrentEL c \<noteq> CURRENTEL_EL1 \<longrightarrow> daif c1 = 0x3C0 \<and> el1_unrestricted c1"
    using enters_el1 [OF assms(1)] by blast
  define c2 where "c2 = c1\<lparr>sp := boot_cpu_stack_at e + cpu * INIT_STACK_SIZE + INIT_STACK_SIZE\<rparr>"
  have "lines_from c2 0 = lines_from c 0" using c1(4,5) by (intro lines_from_cong) (simp_all add: c2_def)
  then obtain c3 where c3: "el1_mmu_activate lay c2 = Some c3" "kernel_translation lay c3" "same_mode c2 c3"
    "maint c3 = maint c2 @ lines_from c 0 @ [Ic_iallu, Tlbi_vmalle1is]" using mmu_activates [OF assms(2), of c2] by auto
  show ?thesis
  proof (cases "\<exists>k. flag k \<noteq> 0")
    case True
    then have "boot_secondary lay e flag cpu c = Inr (secondary_cpu_boot e cpu c3)"
      using c1(1) c3(1) wait_iff [of flag] by (auto simp: boot_secondary_def start_secondary_def secondary_init_def Let_def c2_def)
    then show ?thesis using True c1 c3(2-4)
      by (simp add: secondary_cpu_boot_def flush_tlb_all_def Let_def c2_def same_mode_def kernel_translation_later unrestricted_stack algebra_simps)
  next
    case False
    then have "wait_until_smp_enabled flag 0 = None" using wait_iff [of flag] by blast
    then show ?thesis using False c1(1) by (simp add: boot_secondary_def start_secondary_def Let_def)
  qed
qed

lemma primary_run:
  assumes "early_drains hw" "bss_start \<le> bss_end" "0xF8 \<le> bss_start"
    "mapped (ram b) bss_start (unat (bss_end - bss_start))" "mapped (ram b) 0xE0 24" "mapped (ram b) (saved_at e) 16"
    "boot_ttbr1_l0 (tables b) = (\<lambda>_. 0)" "boot_ttbr1_l1 (tables b) = (\<lambda>_. 0)" "boot_ttbr1_l2 (tables b) = (\<lambda>_. 0)"
    "4096 dvd unat (boot_ttbr1_l0_at lay)" "CurrentEL (boot_core b) \<in> {CURRENTEL_EL1, CURRENTEL_EL2, CURRENTEL_EL3}"
  shows "\<exists>b' ra. boot_primary hw lay e bss_start bss_end x1 b = Inr ((secondary_boot_flag_at e, x1), b') \<and>
    CurrentEL (boot_core b') = CURRENTEL_EL1 \<and> kernel_translation lay (boot_core b') \<and> sp (boot_core b') = cpu_stacks_at e + 0x1000 \<and>
    (CurrentEL (boot_core b) \<noteq> CURRENTEL_EL1 \<longrightarrow> daif (boot_core b') = 0x3C0 \<and> el1_unrestricted (boot_core b')) \<and>
    init_kernel_pt lay (tables b) = Some (tables b') \<and>
    (\<forall>a. 16 \<le> unat (a - saved_at e) \<longrightarrow> ram b' a = (if bss_start \<le> a \<and> a < bss_end then Some 0
       else if 0xE0 \<le> a \<and> a < 0xF8 then Some (le_bytes TEXT_OFFSET ! (unat a mod 8)) else ram b a)) \<and>
    writes (serial b') = writes (serial b) @ early_setup ra @ early_output boot_messages"
proof -
  obtain c1 where c1: "arm64_elX_to_el1 (Ltarget_at e) (boot_core b) = Inr c1" "CurrentEL c1 = CURRENTEL_EL1"
    "CurrentEL (boot_core b) \<noteq> CURRENTEL_EL1 \<longrightarrow> daif c1 = 0x3C0 \<and> el1_unrestricted c1"
    using enters_el1 [OF assms(11)] by blast
  define b1 where "b1 = b\<lparr>boot_core := c1\<lparr>sp := boot_cpu_stack_at e + INIT_STACK_SIZE\<rparr>\<rparr>"
  have f: "ram b1 = ram b" "tables b1 = tables b" "serial b1 = serial b" by (simp_all add: b1_def)
  obtain b2 ra where b2: "init hw lay bss_start bss_end b1 = Inr b2" "kernel_translation lay (boot_core b2)" "same_mode (boot_core b1) (boot_core b2)"
    "init_kernel_pt lay (tables b) = Some (tables b2)"
    "\<And>a. ram b2 a = (if bss_start \<le> a \<and> a < bss_end then Some 0
       else if 0xE0 \<le> a \<and> a < 0xF8 then Some (le_bytes TEXT_OFFSET ! (unat a mod 8)) else ram b a)"
    "writes (serial b2) = writes (serial b) @ early_setup ra @ early_output boot_messages"
    using init_run [of hw bss_start bss_end b1 lay] assms(1-5,7-10) unfolding f by blast
  have "mapped (ram b2) (saved_at e) 16" using assms(6) by (auto simp: mapped_def b2(5))
  note k = start_kernel_run [OF this, of "secondary_boot_flag_at e" x1]
  have p: "boot_primary hw lay e bss_start bss_end x1 b = start_kernel e (secondary_boot_flag_at e) x1 b2"
    using c1(1) b2(1) by (simp add: boot_primary_def start_primary_def b1_def)
  have out: "overwrite (overwrite m q (le_bytes x)) (q + 8) (le_bytes y) a = m a" if "16 \<le> unat (a - q)" for m q x y a
  proof -
    have "unat (a - (q + 8)) = unat (a - q) - 8" using that unat_sub_if' [of "a - q" 8] by (simp add: diff_diff_eq)
    then have "\<not> unat (a - (q + 8)) < 8" "\<not> unat (a - q) < 8" using that by arith+
    then show ?thesis by (simp add: overwrite_def le_bytes_nth(2))
  qed
  define b3 where "b3 = b2\<lparr>ram := overwrite (overwrite (ram b2) (saved_at e) (le_bytes (secondary_boot_flag_at e))) (saved_at e + 8) (le_bytes x1),
    boot_core := (boot_core b2)\<lparr>sp := cpu_stacks_at e + 0x1000, ttbr0 := adrp (empty_page_at e), maint := maint (boot_core b2) @ [Tlbi_vmalle1]\<rparr>\<rparr>"
  have "boot_primary hw lay e bss_start bss_end x1 b = Inr ((secondary_boot_flag_at e, x1), b3)" unfolding p k b3_def ..
  then show ?thesis using b2(2-4,6) c1(2,3)
    by (intro exI [of _ b3] exI [of _ ra]) (simp add: b3_def b2(5) out kernel_translation_later same_mode_def b1_def unrestricted_stack)
qed

section \<open>Properties\<close>

text \<open>C24: The other cores. A core that starts in EL1, EL2 or EL3 and whose word of \<open>secondary_boot_flag\<close> is set at some
  time reaches the C code of the kernel with its number, in EL1, with the tables of the first core
  and the MMU on, its caches invalidated and its TLB flushed, on the top of its own stack; from EL2 and
  EL3 interrupts are masked. A core whose word stays 0 waits for ever.\<close>

theorem secondary_core_starts:
  assumes "CurrentEL (boot_core b) \<in> {CURRENTEL_EL1, CURRENTEL_EL2, CURRENTEL_EL3}" "4096 dvd unat (boot_ttbr1_l0_at lay)" "(and) mpidr 0xFF = cpu" "cpu \<noteq> 0"
  shows "if \<exists>k. flag k \<noteq> 0
    then \<exists>c'. start hw lay e bss_start bss_end x1 flag mpidr b = Inr (At_secondary_start cpu, b\<lparr>boot_core := c'\<rparr>) \<and>
      CurrentEL c' = CURRENTEL_EL1 \<and> kernel_translation lay c' \<and> sp c' = cpu_stacks_at e + (cpu + 1) * 0x1000 \<and>
      (CurrentEL (boot_core b) \<noteq> CURRENTEL_EL1 \<longrightarrow> daif c' = 0x3C0 \<and> el1_unrestricted c') \<and>
      maint c' = maint (boot_core b) @ lines_from (boot_core b) 0 @ [Ic_iallu, Tlbi_vmalle1is, Tlbi_vmalle1]
    else start hw lay e bss_start bss_end x1 flag mpidr b = Inl DIVERGE"
  using secondary_run [OF assms(1,2), of flag e cpu] assms(3,4) by (auto simp: start_def split: if_split_asm)

text \<open>C23: From the first instruction to \<open>main\<close>. Core 0, started in EL1, EL2 or EL3 with a serial line that drains and
  cleared tables, enters \<open>main\<close> in EL1 on its kernel stack, translation on and with the tables \<open>init_kernel_pt\<close>
  makes, the address of the boot flags as its argument; from EL2 and EL3 interrupts are masked. Exactly
  the \<open>.bss\<close> section was zeroed, the three words the firmware polls hold the address of the image, no
  other byte changed but the two words saved at the top of the stack, and the port was set up before the
  four messages were sent.\<close>

theorem boot_reaches_main:
  assumes "early_drains hw" "bss_start \<le> bss_end" "0xF8 \<le> bss_start"
    "mapped (ram b) bss_start (unat (bss_end - bss_start))" "mapped (ram b) 0xE0 24" "mapped (ram b) (saved_at e) 16"
    "boot_ttbr1_l0 (tables b) = (\<lambda>_. 0)" "boot_ttbr1_l1 (tables b) = (\<lambda>_. 0)" "boot_ttbr1_l2 (tables b) = (\<lambda>_. 0)"
    "4096 dvd unat (boot_ttbr1_l0_at lay)" "CurrentEL (boot_core b) \<in> {CURRENTEL_EL1, CURRENTEL_EL2, CURRENTEL_EL3}" "(and) mpidr 0xFF = 0"
  shows "\<exists>b' ra. start hw lay e bss_start bss_end x1 flag mpidr b = Inr (At_main (secondary_boot_flag_at e) x1, b') \<and>
    CurrentEL (boot_core b') = CURRENTEL_EL1 \<and> kernel_translation lay (boot_core b') \<and> sp (boot_core b') = cpu_stacks_at e + 0x1000 \<and>
    (CurrentEL (boot_core b) \<noteq> CURRENTEL_EL1 \<longrightarrow> daif (boot_core b') = 0x3C0 \<and> el1_unrestricted (boot_core b')) \<and>
    init_kernel_pt lay (tables b) = Some (tables b') \<and>
    (\<forall>a. 16 \<le> unat (a - saved_at e) \<longrightarrow> ram b' a = (if bss_start \<le> a \<and> a < bss_end then Some 0
       else if 0xE0 \<le> a \<and> a < 0xF8 then Some (le_bytes TEXT_OFFSET ! (unat a mod 8)) else ram b a)) \<and>
    writes (serial b') = writes (serial b) @ early_setup ra @ early_output boot_messages"
  using primary_run [OF assms(1-11), of x1] assms(12) by (fastforce simp: start_def)

text \<open>A megabyte of memory with \<open>.bss\<close> and the stacks from 0x90000 on, and a core that starts in EL2 with two levels of
  cache of four and sixteen ways.\<close>

definition example_core :: cpu_core where
  "example_core = \<lparr>pc = 0x80000, sp = 0, CurrentEL = 8, daif = 0, scr_el3 = 0, elr_el3 = 0, spsr_el3 = 0, cnthctl_el2 = 0, cntvoff_el2 = 0,
     vttbr_el2 = 0, cptr_el2 = 0, icc_sre_el2 = 0, ich_hcr_el2 = 0, hcr_el2 = 0, elr_el2 = 0, spsr_el2 = 0, cpacr_el1 = 0,
     id_aa64pfr0_el1 = 0x2222, clidr_el1 = 0x0A200023, csselr_el1 = 0, ccsidr_el1 = (\<lambda>l. if l = 0 then 0x700FE01A else 0x703FE07A),
     mair_el1 = 0, tcr_el1 = 0, ttbr0 = 0, ttbr1 = 0, sctlr_el1 = 0x30C50830, maint = []\<rparr>"

definition example_entry :: entry_env where
  "example_entry = \<lparr>Ltarget_at = 0x80100, boot_cpu_stack_at = 0x84000, secondary_boot_flag_at = 0x83000,
     cpu_stacks_at = phys_to_virt 0x91000, empty_page_at = phys_to_virt 0x90000\<rparr>"

definition example_machine :: boot_machine where
  "example_machine = \<lparr>ram = (\<lambda>a. if a < 0x100000 then Some 7 else None), serial = \<lparr>reads = 0, writes = []\<rparr>, tables = cleared_tables, boot_core = example_core\<rparr>"

lemma example_aligned: "4096 dvd unat (boot_ttbr1_l0_at example_layout)"
  by (simp add: example_layout_def)

lemma example_level:
  "CurrentEL (boot_core example_machine) \<in> {CURRENTEL_EL1, CURRENTEL_EL2, CURRENTEL_EL3}" "CurrentEL (boot_core example_machine) \<noteq> CURRENTEL_EL1"
  by (simp_all add: example_machine_def example_core_def level_consts)

theorem secondary_core_starts_witness:
  "\<exists>c'. start (\<lambda>_ _. 0) example_layout example_entry 0x90000 0x95000 0 (\<lambda>n. if n < 5 then 0 else 1) 0x80000003 example_machine =
       Inr (At_secondary_start 3, example_machine\<lparr>boot_core := c'\<rparr>) \<and> daif c' = 0x3C0 \<and> sp c' = phys_to_virt 0x95000"
proof -
  have "\<exists>k. (if k < (5 :: nat) then 0 else 1) \<noteq> (0 :: u64)" by (intro exI [of _ 5]) simp
  moreover have "(and) 0x80000003 0xFF = (3 :: u64)" by simp
  ultimately obtain c' where "start (\<lambda>_ _. 0) example_layout example_entry 0x90000 0x95000 0 (\<lambda>n. if n < 5 then 0 else 1) 0x80000003 example_machine =
       Inr (At_secondary_start 3, example_machine\<lparr>boot_core := c'\<rparr>)"
    "sp c' = cpu_stacks_at example_entry + (3 + 1) * 0x1000" "daif c' = 0x3C0"
    using secondary_core_starts [OF example_level(1) example_aligned, of "0x80000003" 3 "\<lambda>n. if n < 5 then 0 else 1" "\<lambda>_ _. 0" example_entry "0x90000" "0x95000" 0]
      example_level(2) by auto
  then show ?thesis by (intro exI [of _ c']) (simp add: example_entry_def phys_to_virt_def)
qed

theorem boot_reaches_main_witness:
  "\<exists>b'. start (\<lambda>_ _. 0) example_layout example_entry 0x90000 0x95000 0 (\<lambda>_. 0) 0x80000000 example_machine = Inr (At_main 0x83000 0, b') \<and>
     sp (boot_core b') = phys_to_virt 0x92000 \<and> daif (boot_core b') = 0x3C0 \<and>
     ram b' 0x94FFF = Some 0 \<and> ram b' 0x95000 = Some 7 \<and> ram b' 0xEA = Some 8"
proof -
  have small: "a + of_nat i < (0x100000 :: u64)" if "unat a + i < 0x100000" for a :: u64 and i
    using that unat_index [of i] unat_plus_if' [of a "of_nat i"] by (simp add: word_less_nat_alt)
  have sa: "saved_at example_entry = 0x91FF0" by (simp add: saved_at_def example_entry_def phys_to_virt_def virt_to_phys_def)
  have map: "mapped (ram example_machine) 0x90000 (unat (0x95000 - 0x90000 :: u64))" "mapped (ram example_machine) 0xE0 24"
    "mapped (ram example_machine) (saved_at example_entry) 16"
    unfolding mapped_def sa by (auto simp: example_machine_def intro!: small)
  have z: "boot_ttbr1_l0 (tables example_machine) = (\<lambda>_. 0)" "boot_ttbr1_l1 (tables example_machine) = (\<lambda>_. 0)" "boot_ttbr1_l2 (tables example_machine) = (\<lambda>_. 0)"
    by (simp_all add: example_machine_def cleared_tables_def)
  have "early_drains (\<lambda>_ _. 0)" by (auto simp: early_drains_def)
  moreover have "(and) 0x80000000 0xFF = (0 :: u64)" by simp
  ultimately obtain b' where
    b': "start (\<lambda>_ _. 0) example_layout example_entry 0x90000 0x95000 0 (\<lambda>_. 0) 0x80000000 example_machine = Inr (At_main (secondary_boot_flag_at example_entry) 0, b')"
      "sp (boot_core b') = cpu_stacks_at example_entry + 0x1000" "daif (boot_core b') = 0x3C0"
      "\<And>a. 16 \<le> unat (a - saved_at example_entry) \<Longrightarrow> ram b' a = (if 0x90000 \<le> a \<and> a < 0x95000 then Some 0
       else if 0xE0 \<le> a \<and> a < 0xF8 then Some (le_bytes TEXT_OFFSET ! (unat a mod 8)) else ram example_machine a)"
    using boot_reaches_main [OF _ _ _ map z example_aligned example_level(1), of "\<lambda>_ _. 0" "0x80000000" 0 "\<lambda>_. 0"] example_level(2) by auto
  have "le_bytes TEXT_OFFSET ! 2 = 8" by (simp add: le_bytes_def TEXT_OFFSET_def drop_bit_eq_div)
  then show ?thesis using b'(1-3) b'(4) [of "0x94FFF"] b'(4) [of "0x95000"] b'(4) [of "0xEA"] unfolding sa
    by (simp add: example_machine_def example_entry_def phys_to_virt_def)
qed

section \<open>The empty page\<close>

text \<open>\<open>start_kernel\<close> runs at kernel addresses, so \<open>adrp\<close> gives the kernel address of the empty page, and not the physical one
  the register wants: the walk of a user address starts somewhere else.\<close>

lemma empty_page_not_physical:
  assumes "mapped (ram b) (saved_at e) 16" "empty_page_at e = phys_to_virt pa" "4096 dvd unat pa" "unat pa < 2 ^ 40"
  shows "\<exists>b'. start_kernel e x0 x1 b = Inr ((x0, x1), b') \<and> take_bit 48 (ttbr0 (boot_core b')) \<noteq> pa"
proof -
  have "unat (phys_to_virt pa) = unat pa + 0xFFFFFF0000000000"
    using assms(4) unat_plus_if' [of pa KBASE] by (simp add: phys_to_virt_def KBASE_def)
  moreover from this have "adrp (phys_to_virt pa) = phys_to_virt pa" using assms(3) by (intro adrp_aligned) (simp add: dvd_add)
  ultimately have "unat (take_bit 48 (adrp (phys_to_virt pa))) = (unat pa + 0xFFFFFF0000000000) mod 2 ^ 48" by (simp add: unat_take_bit)
  also have "\<dots> = (unat pa + 0xFF0000000000 + 0xFFFF * 2 ^ 48) mod 2 ^ 48" by (simp add: add.commute)
  also have "\<dots> = unat pa + 0xFF0000000000" using assms(4) by (simp only: mod_mult_self1) simp
  finally have "take_bit 48 (adrp (phys_to_virt pa)) \<noteq> pa" by auto
  then show ?thesis using start_kernel_run [OF assms(1)] assms(2) by auto
qed

end
