(* ===== verification/Kernel_Main.thy ===== *)
theory Kernel_Main
  imports Irq_Props Poweroff BootPt_Props
begin

text \<open>
  The kernel as a whole: \<open>main\<close> of src/arch/aarch64/main.c with the cycle counter
  (src/arch/aarch64/machine/pmu.c) it starts. The state joins that of the devices and cores, of
  the memory and of the performance monitor; what the linker and the machine decide (where the
  tables, the stacks and the per-core data lie, what the counters read) is the environment. \<open>mm_init\<close>
  is that of the memory theories, without its messages and self tests.
\<close>

section \<open>State and environment\<close>

record system =
  kern :: kernel
  vm :: vmem
  big_kernel_lock :: u32
  pmuserenr_el0 :: u32
  pmcr_el0 :: u32
  pmcntenset_el0 :: u32

record boot_env =
  env_layout :: boot_layout
  env_img_end :: paddr_t
  env_cpu_stack0 :: vaddr_t
  env_cpu_info :: u64
  env_ctr_el0 :: u64
  env_cntpct_el0 :: u64
  env_cntfrq_el0 :: u64
  env_mbox :: u64
  env_stack_word :: u64

definition on_kern :: "(kernel \<Rightarrow> kernel result) \<Rightarrow> system \<Rightarrow> system result" where
  "on_kern f s = bindR (f (kern s)) (\<lambda>k. Inr (s\<lparr>kern := k\<rparr>))"

definition log_text :: "hardware \<Rightarrow> boot_env \<Rightarrow> string \<Rightarrow> system \<Rightarrow> system result" where
  "log_text hw e msg = on_kern (kinfo hw (env_stack_word e) msg [])"

section \<open>The performance monitor\<close>

definition PMUSERENR_EL0_EN :: u32 where "PMUSERENR_EL0_EN = push_bit 0 1"
definition PMUSERENR_EL0_SW :: u32 where "PMUSERENR_EL0_SW = push_bit 1 1"
definition PMUSERENR_EL0_CR :: u32 where "PMUSERENR_EL0_CR = push_bit 2 1"
definition PMUSERENR_EL0_ER :: u32 where "PMUSERENR_EL0_ER = push_bit 3 1"
definition PMCR_EL0_E :: u32 where "PMCR_EL0_E = push_bit 0 1"
definition PMCR_EL0_LC :: u32 where "PMCR_EL0_LC = push_bit 6 1"
definition PMCNTENSET_EL0_C :: u32 where "PMCNTENSET_EL0_C = push_bit 31 1"

text \<open>\<open>PMCNTENSET_EL0\<close> sets the bits written as 1 and keeps the others.\<close>

definition write_pmcntenset :: "u32 \<Rightarrow> system \<Rightarrow> system" where
  "write_pmcntenset v s = s\<lparr>pmcntenset_el0 := (or) (pmcntenset_el0 s) v\<rparr>"

definition enable_cpu_cnt :: "system \<Rightarrow> system" where
  "enable_cpu_cnt s =
     (let s = s\<lparr>pmuserenr_el0 := (or) PMUSERENR_EL0_EN ((or) PMUSERENR_EL0_SW ((or) PMUSERENR_EL0_CR PMUSERENR_EL0_ER))\<rparr>;
          s = s\<lparr>pmcr_el0 := (or) PMCR_EL0_LC PMCR_EL0_E\<rparr>
      in write_pmcntenset PMCNTENSET_EL0_C s)"

definition disable_cpu_cnt :: "system \<Rightarrow> system" where
  "disable_cpu_cnt s = write_pmcntenset 0 (s\<lparr>pmcr_el0 := not PMCR_EL0_E\<rparr>)"

definition pmu_init :: "system \<Rightarrow> system" where
  "pmu_init s = enable_cpu_cnt s"

section \<open>main\<close>

text \<open>The lock and the data of core 0.\<close>

definition main_core :: "hardware \<Rightarrow> boot_env \<Rightarrow> system \<Rightarrow> system result" where
  "main_core hw e s =
     bindR (log_text hw e ''Hello KingdoMicroKernel! I am in kernel now!\<newline>'' s) (\<lambda>s.
     bindR (log_text hw e ''big_kernel_lock init finished\<newline>'' (s\<lparr>big_kernel_lock := 0\<rparr>)) (\<lambda>s.
     bindR (on_kern (init_per_cpu_info (env_cpu_info e) (env_ctr_el0 e) 0) s) (\<lambda>s.
     log_text hw e ''per-CPU info init finished\<newline>'' s)))"

text \<open>The allocators and the stack of core 0.\<close>

definition main_memory :: "hardware \<Rightarrow> boot_env \<Rightarrow> system \<Rightarrow> system result" where
  "main_memory hw e s =
     bindR (mm_init (env_img_end e) (heap (vm s))) (\<lambda>k.
     bindR (log_text hw e ''mm init finished\<newline>'' (s\<lparr>vm := (vm s)\<lparr>heap := k\<rparr>\<rparr>)) (\<lambda>s.
     bindR (map_range_in_pgtbl_kernel (boot_ttbr1_l0_at (env_layout e) + KBASE) (KSTACKx_ADDR 0) (env_cpu_stack0 e - KBASE)
              CPU_STACK_SIZE ((or) VMR_READ VMR_WRITE) (vm s)) (\<lambda>(ret, v).
     Inr (s\<lparr>vm := v\<rparr>))))"

text \<open>Interrupts, the timer and the counters, and then the machine is switched off.\<close>

definition main_devices :: "hardware \<Rightarrow> boot_env \<Rightarrow> system \<Rightarrow> system result" where
  "main_devices hw e s =
     bindR (on_kern (arch_interrupt_init hw) s) (\<lambda>s.
     bindR (on_kern (timer_init hw (env_stack_word e) (env_cpu_info e) (env_cntpct_el0 e) (env_cntfrq_el0 e)) s) (\<lambda>s.
     bindR (log_text hw e ''interrupt init finished\<newline>'' s) (\<lambda>s.
     bindR (log_text hw e ''pmu init finished\<newline>'' (pmu_init s)) (\<lambda>s.
     on_kern (\<lambda>k. bindR (plat_poweroff hw (env_mbox e) (dev (port k))) (\<lambda>d. Inr (on_dev (\<lambda>_. d) k))) s))))"

definition main :: "hardware \<Rightarrow> boot_env \<Rightarrow> system \<Rightarrow> system result" where
  "main hw e s = bindR (main_core hw e s) (\<lambda>s. bindR (main_memory hw e s) (main_devices hw e))"

text \<open>The other cores spin.\<close>

definition secondary_start :: "u32 \<Rightarrow> unit result" where
  "secondary_start cpuid = Inl DIVERGE"

section \<open>Messages\<close>

text \<open>Nothing but the device changes when a text without conversions is printed.\<close>

definition same_but_output :: "kernel \<Rightarrow> kernel \<Rightarrow> bool" where
  "same_but_output k k' \<longleftrightarrow> (\<exists>d. k' = on_dev (\<lambda>_. d) k)"

lemma same_but_output_fields:
  assumes "same_but_output k k'"
  shows "regs k' = regs k" "once k' = once k" "cpu_info k' = cpu_info k" "sleep_lists k' = sleep_lists k"
    "pl011_buffer (port k') = pl011_buffer (port k)" "smp_get_cpu_id a k' = smp_get_cpu_id a k" "cntp_tval k' = cntp_tval k"
  using assms by (auto simp: same_but_output_def on_dev_def smp_get_cpu_id_def)

lemma log_text_returns:
  assumes "CHR ''%'' \<notin> set msg" "drains hw"
  obtains k where "log_text hw e msg s = Inr (s\<lparr>kern := k\<rparr>)" "same_but_output (kern s) k"
proof -
  have "well_formed ((''[INFO] '' @ msg) @ []) []" using assms(1) by (intro well_formed_text fmt_end) auto
  then have "well_formed (''[INFO] '' @ msg) []" by simp
  from kinfo_returns [OF this assms(2), of "env_stack_word e" "kern s"] obtain d
    where "kinfo hw (env_stack_word e) msg [] (kern s) = Inr (on_dev (\<lambda>_. d) (kern s))" by blast
  then have "log_text hw e msg s = Inr (s\<lparr>kern := on_dev (\<lambda>_. d) (kern s)\<rparr>)" by (simp add: log_text_def on_kern_def)
  then show ?thesis by (rule that) (auto simp: same_but_output_def)
qed

section \<open>The parts of main return\<close>

lemma init_per_cpu_sleep: "init_per_cpu_info a ctr c k = Inr k' \<Longrightarrow> sleep_lists k' = sleep_lists k"
  by (auto simp: init_per_cpu_info_def Let_def split: if_splits)

lemma main_core_returns:
  assumes "drains hw" "length (cpu_info (kern s)) = PLAT_CPU_NUM"
  obtains s' where "main_core hw e s = Inr s'" "big_kernel_lock s' = 0" "vm s' = vm s"
    "smp_get_cpu_id (env_cpu_info e) (kern s') = 0" "once (kern s') = once (kern s)"
    "pl011_buffer (port (kern s')) = pl011_buffer (port (kern s))" "sleep_lists (kern s') = sleep_lists (kern s)"
proof -
  obtain k1 where k1: "log_text hw e ''Hello KingdoMicroKernel! I am in kernel now!\<newline>'' s = Inr (s\<lparr>kern := k1\<rparr>)" "same_but_output (kern s) k1"
    by (rule log_text_returns [OF _ assms(1)]) auto
  define s1 where "s1 = s\<lparr>kern := k1, big_kernel_lock := 0\<rparr>"
  obtain k2 where k2: "log_text hw e ''big_kernel_lock init finished\<newline>'' s1 = Inr (s1\<lparr>kern := k2\<rparr>)" "same_but_output k1 k2"
    by (rule log_text_returns [OF _ assms(1), of _ e s1]) (auto simp: s1_def)
  note f2 = same_but_output_fields [OF k1(2)] same_but_output_fields [OF k2(2)]
  have "unat (0 :: u32) < length (cpu_info k2)" "length (cpu_info k2) = PLAT_CPU_NUM" using assms(2) f2(3,10) by (auto simp: PLAT_CPU_NUM_def)
  from init_per_cpu_id [OF this, of "env_cpu_info e" "env_ctr_el0 e"] obtain k3 where
    k3: "init_per_cpu_info (env_cpu_info e) (env_ctr_el0 e) 0 k2 = Inr k3" "smp_get_cpu_id (env_cpu_info e) k3 = 0" "port k3 = port k2" "once k3 = once k2"
    by blast
  define s3 where "s3 = s1\<lparr>kern := k3\<rparr>"
  obtain k4 where k4: "log_text hw e ''per-CPU info init finished\<newline>'' s3 = Inr (s3\<lparr>kern := k4\<rparr>)" "same_but_output k3 k4"
    by (rule log_text_returns [OF _ assms(1), of _ e s3]) (auto simp: s3_def)
  have "main_core hw e s = Inr (s3\<lparr>kern := k4\<rparr>)"
    using k1(1) k2(1) k3(1) k4(1) by (simp add: main_core_def on_kern_def s1_def s3_def)
  then show ?thesis
    by (rule that) (use f2 same_but_output_fields [OF k4(2)] k3 init_per_cpu_sleep [OF k3(1)] in \<open>simp_all add: s3_def s1_def\<close>)
qed

lemma main_memory_returns:
  assumes "drains hw" "main_mm (env_layout e) (env_img_end e) (env_cpu_stack0 e) (vm s) = Inr (0, v)"
  obtains k where "main_memory hw e s = Inr (s\<lparr>kern := k, vm := v\<rparr>)" "same_but_output (kern s) k"
proof -
  obtain h where h: "mm_init (env_img_end e) (heap (vm s)) = Inr h"
    and map: "map_range_in_pgtbl_kernel (boot_ttbr1_l0_at (env_layout e) + KBASE) (KSTACKx_ADDR 0) (env_cpu_stack0 e - KBASE)
       CPU_STACK_SIZE ((or) VMR_READ VMR_WRITE) ((vm s)\<lparr>heap := h\<rparr>) = Inr (0, v)"
    using assms(2) by (cases "mm_init (env_img_end e) (heap (vm s))") (auto simp: main_mm_def)
  let ?s = "s\<lparr>vm := (vm s)\<lparr>heap := h\<rparr>\<rparr>"
  obtain k where k: "log_text hw e ''mm init finished\<newline>'' ?s = Inr (?s\<lparr>kern := k\<rparr>)" "same_but_output (kern s) k"
    by (rule log_text_returns [OF _ assms(1), of _ e ?s]) auto
  have "main_memory hw e s = Inr (s\<lparr>kern := k, vm := v\<rparr>)" using h map k(1) by (simp add: main_memory_def)
  then show ?thesis using k(2) by (rule that)
qed

lemma init_time_states_returns:
  assumes "set is \<subseteq> dom (sleep_lists k)" "distinct is"
  shows "\<exists>h l. init_time_states is k = Inr (k\<lparr>sleep_lists := h, sleep_locks := l\<rparr>) \<and>
    (\<forall>i \<in> set is. dlist h i []) \<and> (\<forall>i. i \<notin> set is \<longrightarrow> h i = sleep_lists k i)"
  using assms
proof (induction "is" arbitrary: k)
  case Nil
  have "init_time_states [] k = Inr (k\<lparr>sleep_lists := sleep_lists k, sleep_locks := sleep_locks k\<rparr>)" by simp
  then show ?case by fastforce
next
  case (Cons i "is")
  obtain h1 where h1: "init_list_head i (sleep_lists k) = Some h1" "dlist h1 i []" "dom h1 = dom (sleep_lists k)" "\<And>m. m \<noteq> i \<Longrightarrow> h1 m = sleep_lists k m"
    by (rule init_list_head_correct [of i "sleep_lists k"]) (use Cons.prems(1) in auto)
  let ?k = "k\<lparr>sleep_lists := h1, sleep_locks := (sleep_locks k)[i := 0]\<rparr>"
  have "set is \<subseteq> dom (sleep_lists ?k)" "distinct is" using Cons.prems h1(3) by auto
  from Cons.IH [OF this] obtain h l where hl: "init_time_states is ?k = Inr (?k\<lparr>sleep_lists := h, sleep_locks := l\<rparr>)"
    "\<forall>j \<in> set is. dlist h j []" "\<forall>j. j \<notin> set is \<longrightarrow> h j = h1 j" by auto
  have "dlist h i []" by (rule dlist_frame [OF h1(2)]) (use hl(3) Cons.prems(2) in auto)
  then show ?case using hl h1 by (auto simp: of_option_def)
qed

lemma timer_init_returns:
  assumes "drains hw" "smp_get_cpu_id a k = 0" "{0..<PLAT_CPU_NUM} \<subseteq> dom (sleep_lists k)"
  obtains k' where "timer_init hw u0 a c0 f k = Inr k'" "\<forall>i < PLAT_CPU_NUM. dlist (sleep_lists k') i []"
    "regs k' = (regs k)\<lparr>cntp_tval_el0 := f * TICK_MS div 1000, cntp_ctl_el0 := 1\<rparr>" "cntp_tval k' = f * TICK_MS div 1000"
    "pl011_buffer (port k') = pl011_buffer (port k)"
proof -
  obtain h l where h: "init_time_states [0..<PLAT_CPU_NUM] k = Inr (k\<lparr>sleep_lists := h, sleep_locks := l\<rparr>)" "\<forall>i < PLAT_CPU_NUM. dlist h i []"
    using init_time_states_returns [of "[0..<PLAT_CPU_NUM]" k] assms(3) by auto
  define k1 where "k1 = k\<lparr>sleep_lists := h, sleep_locks := l\<rparr>"
  have "smp_get_cpu_id a k1 = 0" using assms(2) by (simp add: k1_def smp_get_cpu_id_def)
  then have "unat (smp_get_cpu_id a k1) < 4" by simp
  from plat_timer_init_returns [OF assms(1) this, of u0 c0 f] obtain k' where
    "plat_timer_init hw u0 a c0 f k1 = Inr k'" "cntp_tval k' = f * TICK_MS div 1000"
    "regs k' = (regs k1)\<lparr>cntp_tval_el0 := f * TICK_MS div 1000, cntp_ctl_el0 := 1\<rparr>"
    "pl011_buffer (port k') = pl011_buffer (port k1)" "sleep_lists k' = sleep_lists k1" by blast
  moreover from this(1) have "timer_init hw u0 a c0 f k = Inr k'" using h(1) assms(2) by (simp add: timer_init_def k1_def)
  ultimately show ?thesis using h(2) that by (simp add: k1_def)
qed

lemma arch_interrupt_init_returns:
  assumes "once k = 1" "length (buffer (pl011_buffer (port k))) = 16"
  obtains k' where "arch_interrupt_init hw k = Inr k'" "once k' = 0" "regs k' = (regs k)\<lparr>irq_masked := True, vector_set := True\<rparr>"
    "sleep_lists k' = sleep_lists k" "ring_ok (pl011_buffer (port k'))" "contents (pl011_buffer (port k')) = []"
proof -
  let ?k = "set_exception_vector (disable_irq k)"
  have "once ?k = 1" "length (buffer (pl011_buffer (port ?k))) = 16" using assms by (simp_all add: set_exception_vector_def disable_irq_def)
  from interrupt_init_correct [OF this, of hw] obtain k1 where k1: "interrupt_init hw ?k = Inr k1" "once k1 = 0" "regs k1 = regs ?k"
    "sleep_lists k1 = sleep_lists ?k" "ring_ok (pl011_buffer (port k1))" "contents (pl011_buffer (port k1)) = []" by blast
  then have "arch_interrupt_init hw k = Inr (k1\<lparr>irq_handle_type := replicate MAX_IRQ_NUM HANDLE_KERNEL\<rparr>)"
    by (simp add: arch_interrupt_init_def arch_interrupt_init_per_cpu_def plat_interrupt_init_def)
  then show ?thesis by (rule that) (use k1 in \<open>simp_all add: set_exception_vector_def disable_irq_def\<close>)
qed

text \<open>What holds when \<open>main\<close> has set up the devices of core 0.\<close>

definition devices_up :: "boot_env \<Rightarrow> kernel \<Rightarrow> bool" where
  "devices_up e k \<longleftrightarrow> smp_get_cpu_id (env_cpu_info e) k = 0 \<and> irq_masked (regs k) \<and> vector_set (regs k) \<and>
     cntp_tval k = env_cntfrq_el0 e * TICK_MS div 1000 \<and> cntp_tval_el0 (regs k) = cntp_tval k \<and> cntp_ctl_el0 (regs k) = 1 \<and>
     ring_ok (pl011_buffer (port k)) \<and> contents (pl011_buffer (port k)) = [] \<and>
     (\<forall>i < PLAT_CPU_NUM. dlist (sleep_lists k) i [])"

lemma devices_up_output: "devices_up e k \<Longrightarrow> same_but_output k k' \<Longrightarrow> devices_up e k'"
  using same_but_output_fields [of k k'] by (simp add: devices_up_def)

lemma main_devices_returns:
  assumes "drains hw" "mailbox_answers hw (mbox_word (env_mbox e))" "once (kern s) = 1" "length (buffer (pl011_buffer (port (kern s)))) = 16"
    "smp_get_cpu_id (env_cpu_info e) (kern s) = 0" "{0..<PLAT_CPU_NUM} \<subseteq> dom (sleep_lists (kern s))"
  obtains s' r ws where "main_devices hw e s = Inr s'" "devices_up e (kern s')" "vm s' = vm s" "big_kernel_lock s' = big_kernel_lock s"
    "pmcr_el0 s' = 0x41" "bit (pmcntenset_el0 s') 31"
    "writes (dev (port (kern s'))) = ws @ [(MBOX_WRITE, mbox_word (env_mbox e))] @ gpio_off @ watchdog_off r"
proof -
  obtain k1 where k1: "arch_interrupt_init hw (kern s) = Inr k1" "regs k1 = (regs (kern s))\<lparr>irq_masked := True, vector_set := True\<rparr>"
    "sleep_lists k1 = sleep_lists (kern s)" "ring_ok (pl011_buffer (port k1))" "contents (pl011_buffer (port k1)) = []"
    by (rule arch_interrupt_init_returns [OF assms(3,4), of hw])
  have cpu: "smp_get_cpu_id (env_cpu_info e) k1 = 0" "{0..<PLAT_CPU_NUM} \<subseteq> dom (sleep_lists k1)" using assms(5,6) k1(2,3) by (simp_all add: smp_get_cpu_id_def)
  obtain k2 where k2: "timer_init hw (env_stack_word e) (env_cpu_info e) (env_cntpct_el0 e) (env_cntfrq_el0 e) k1 = Inr k2"
    "\<forall>i < PLAT_CPU_NUM. dlist (sleep_lists k2) i []"
    "regs k2 = (regs k1)\<lparr>cntp_tval_el0 := env_cntfrq_el0 e * TICK_MS div 1000, cntp_ctl_el0 := 1\<rparr>" "cntp_tval k2 = env_cntfrq_el0 e * TICK_MS div 1000"
    "pl011_buffer (port k2) = pl011_buffer (port k1)"
    by (rule timer_init_returns [OF assms(1) cpu])
  have up: "devices_up e k2" using k1 k2 cpu(1) by (simp add: devices_up_def smp_get_cpu_id_def)
  define s2 where "s2 = s\<lparr>kern := k2\<rparr>"
  obtain k3 where k3: "log_text hw e ''interrupt init finished\<newline>'' s2 = Inr (s2\<lparr>kern := k3\<rparr>)" "same_but_output k2 k3"
    by (rule log_text_returns [OF _ assms(1), of _ e s2]) (auto simp: s2_def)
  define s3 where "s3 = pmu_init (s2\<lparr>kern := k3\<rparr>)"
  have s3: "kern s3 = k3" "vm s3 = vm s" "big_kernel_lock s3 = big_kernel_lock s" "pmcr_el0 s3 = 0x41" "bit (pmcntenset_el0 s3) 31"
    by (simp_all add: s3_def s2_def pmu_init_def enable_cpu_cnt_def write_pmcntenset_def Let_def PMCR_EL0_LC_def PMCR_EL0_E_def PMCNTENSET_EL0_C_def bit_simps)
  obtain k4 where k4: "log_text hw e ''pmu init finished\<newline>'' s3 = Inr (s3\<lparr>kern := k4\<rparr>)" "same_but_output k3 k4"
    by (rule log_text_returns [OF _ assms(1), of _ e s3]) (auto simp: s3(1))
  obtain d r where d: "plat_poweroff hw (env_mbox e) (dev (port k4)) = Inr d"
    "writes d = writes (dev (port k4)) @ mbox_message (env_mbox e) @ [(MBOX_WRITE, mbox_word (env_mbox e))] @ gpio_off @ watchdog_off r"
    using plat_poweroff_returns [OF assms(2), of "dev (port k4)"] by blast
  define k5 where "k5 = on_dev (\<lambda>_. d) k4"
  have "same_but_output k4 k5" by (auto simp: same_but_output_def k5_def)
  then have "devices_up e k5" using up k3(2) k4(2) by (blast intro: devices_up_output)
  moreover have "main_devices hw e s = Inr (s3\<lparr>kern := k5\<rparr>)"
    using k1(1) k2(1) k3(1) k4(1) d(1) by (simp add: main_devices_def on_kern_def flip: s2_def s3_def k5_def)
  ultimately show ?thesis using that [of "s3\<lparr>kern := k5\<rparr>" "writes (dev (port k4)) @ mbox_message (env_mbox e)" r] s3 d(2) by (simp add: k5_def on_dev_def)
qed

end
