(* ===== verification/Exc_Entry.thy ===== *)
theory Exc_Entry
  imports Irq Poweroff
begin

text \<open>
  How an exception enters and leaves the kernel: the vector table, the saving and restoring of the context and the
  dispatch of system calls of src/arch/aarch64/irq/irq_entry.S, with the register numbers of
  src/include/arch/aarch64/arch/machine/registers.h. The straight-line assembly is a list of
  instructions with an execution function; memory is a map from addresses of 8-byte words. The C
  functions called in between are those of the other theories; what compiled code does to the
  registers and the stack is a parameter.
\<close>

section \<open>Registers and instructions\<close>

datatype reg_type =
    X0 | X1 | X2 | X3 | X4 | X5 | X6 | X7 | X8 | X9 | X10 | X11 | X12 | X13 | X14 | X15 | X16 | X17 | X18 |
    X19 | X20 | X21 | X22 | X23 | X24 | X25 | X26 | X27 | X28 | X29 | X30 | SP_EL0 | ELR_EL1 | SPSR_EL1

fun reg_number :: "reg_type \<Rightarrow> nat" where
  "reg_number X0 = 0"
| "reg_number X1 = 1"
| "reg_number X2 = 2"
| "reg_number X3 = 3"
| "reg_number X4 = 4"
| "reg_number X5 = 5"
| "reg_number X6 = 6"
| "reg_number X7 = 7"
| "reg_number X8 = 8"
| "reg_number X9 = 9"
| "reg_number X10 = 10"
| "reg_number X11 = 11"
| "reg_number X12 = 12"
| "reg_number X13 = 13"
| "reg_number X14 = 14"
| "reg_number X15 = 15"
| "reg_number X16 = 16"
| "reg_number X17 = 17"
| "reg_number X18 = 18"
| "reg_number X19 = 19"
| "reg_number X20 = 20"
| "reg_number X21 = 21"
| "reg_number X22 = 22"
| "reg_number X23 = 23"
| "reg_number X24 = 24"
| "reg_number X25 = 25"
| "reg_number X26 = 26"
| "reg_number X27 = 27"
| "reg_number X28 = 28"
| "reg_number X29 = 29"
| "reg_number X30 = 30"
| "reg_number SP_EL0 = 31"
| "reg_number ELR_EL1 = 32"
| "reg_number SPSR_EL1 = 33"

definition REG_NUM :: u64 where "REG_NUM = 34"
definition SZ_U64 :: u64 where "SZ_U64 = 8"
definition ARCH_EXEC_CONT_SIZE :: u64 where "ARCH_EXEC_CONT_SIZE = REG_NUM * SZ_U64"
definition OFFSET_CURRENT_EXEC_CTX :: u64 where "OFFSET_CURRENT_EXEC_CTX = 0"
definition OFFSET_LOCAL_CPU_STACK :: u64 where "OFFSET_LOCAL_CPU_STACK = 8"

record machine =
  reg :: "reg_type \<Rightarrow> u64"
  stack_ptr :: u64
  esr_el1 :: u64
  thread_ptr :: u64
  words :: "u64 \<rightharpoonup> u64"

text \<open>\<open>Stp r1 r2 k\<close> is \<open>stp r1, r2, [sp, #16 * k]\<close>.\<close>

datatype instr = Sub_sp u64 | Add_sp u64 | Stp reg_type reg_type nat | Ldp reg_type reg_type nat | Mov reg_type reg_type

definition ldr :: "u64 \<Rightarrow> machine \<Rightarrow> u64 result" where
  "ldr a m = of_option (words m a)"

definition str :: "u64 \<Rightarrow> u64 \<Rightarrow> machine \<Rightarrow> machine result" where
  "str v a m = (if words m a = None then Inl FAULT else Inr (m\<lparr>words := (words m)(a \<mapsto> v)\<rparr>))"

definition set_reg :: "reg_type \<Rightarrow> u64 \<Rightarrow> machine \<Rightarrow> machine" where
  "set_reg r v m = m\<lparr>reg := (reg m)(r := v)\<rparr>"

fun exec1 :: "instr \<Rightarrow> machine \<Rightarrow> machine result" where
  "exec1 (Sub_sp n) m = Inr (m\<lparr>stack_ptr := stack_ptr m - n\<rparr>)"
| "exec1 (Add_sp n) m = Inr (m\<lparr>stack_ptr := stack_ptr m + n\<rparr>)"
| "exec1 (Stp r1 r2 k) m = bindR (str (reg m r1) (stack_ptr m + 16 * of_nat k) m) (\<lambda>m. str (reg m r2) (stack_ptr m + 16 * of_nat k + 8) m)"
| "exec1 (Ldp r1 r2 k) m =
     bindR (ldr (stack_ptr m + 16 * of_nat k) m) (\<lambda>v1. bindR (ldr (stack_ptr m + 16 * of_nat k + 8) m) (\<lambda>v2. Inr (set_reg r2 v2 (set_reg r1 v1 m))))"
| "exec1 (Mov r1 r2) m = Inr (set_reg r1 (reg m r2) m)"

fun exec :: "instr list \<Rightarrow> machine \<Rightarrow> machine result" where
  "exec [] m = Inr m"
| "exec (i # is) m = bindR (exec1 i m) (exec is)"

lemma exec_append: "exec (is @ js) m = bindR (exec is m) (exec js)"
  by (induction "is" arbitrary: m) (auto simp: bindR_def split: sum.splits)

definition exception_enter :: "instr list" where
  "exception_enter = [
     Sub_sp ARCH_EXEC_CONT_SIZE, Stp X0 X1 0, Stp X2 X3 1, Stp X4 X5 2, Stp X6 X7 3, Stp X8 X9 4,
     Stp X10 X11 5, Stp X12 X13 6, Stp X14 X15 7, Stp X16 X17 8, Stp X18 X19 9, Stp X20 X21 10,
     Stp X22 X23 11, Stp X24 X25 12, Stp X26 X27 13, Stp X28 X29 14, Mov X21 SP_EL0, Mov X22 ELR_EL1,
     Mov X23 SPSR_EL1, Stp X30 X21 15, Stp X22 X23 16]"

definition exception_exit :: "instr list" where
  "exception_exit = [
     Ldp X22 X23 16, Ldp X30 X21 15, Mov SP_EL0 X21, Mov ELR_EL1 X22, Mov SPSR_EL1 X23, Ldp X0 X1 0,
     Ldp X2 X3 1, Ldp X4 X5 2, Ldp X6 X7 3, Ldp X8 X9 4, Ldp X10 X11 5, Ldp X12 X13 6, Ldp X14 X15 7,
     Ldp X16 X17 8, Ldp X18 X19 9, Ldp X20 X21 10, Ldp X22 X23 11, Ldp X24 X25 12, Ldp X26 X27 13,
     Ldp X28 X29 14, Add_sp ARCH_EXEC_CONT_SIZE]"

definition switch_to_cpu_stack :: "machine \<Rightarrow> machine result" where
  "switch_to_cpu_stack m = bindR (ldr (thread_ptr m + OFFSET_LOCAL_CPU_STACK) m) (\<lambda>v. Inr ((set_reg X24 v m)\<lparr>stack_ptr := v\<rparr>))"

definition switch_to_thread_ctx :: "machine \<Rightarrow> machine result" where
  "switch_to_thread_ctx m = bindR (ldr (thread_ptr m + OFFSET_CURRENT_EXEC_CTX) m) (\<lambda>v. Inr ((set_reg X24 v m)\<lparr>stack_ptr := v\<rparr>))"

section \<open>Entry\<close>

text \<open>The environment of an entry: what the compiled code called does to the machine, the reads of the hardware, the
  word \<open>printk\<close> finds on its stack, where the per-core data and the message of \<open>plat_poweroff\<close> lie, the
  name of the source file in a warning, and what is in \<open>x0\<close> where a result leaves it open (its upper
  half after an \<open>int\<close>, all of it after \<open>void\<close>).\<close>

record exc_env =
  compiled :: "machine \<Rightarrow> machine"
  exc_hw :: hardware
  exc_stack_word :: u64
  exc_cpu_info :: u64
  exc_mbox :: u64
  exc_file :: "u64 \<times> string"
  x0_upper :: u32
  x0_left :: u64

text \<open>\<open>__eret_to_thread(sp)\<close>: leave the kernel through the context at the address given.\<close>

definition eret_to_thread :: "machine \<Rightarrow> machine result" where
  "eret_to_thread m = exec exception_exit (m\<lparr>stack_ptr := reg m X0\<rparr>)"

definition irq_entry :: "exc_env \<Rightarrow> machine \<times> kernel \<Rightarrow> (machine \<times> kernel) result" where
  "irq_entry e = (\<lambda>(m, k).
     bindR (exec exception_enter m) (\<lambda>m.
     bindR (handle_irq (exc_hw e) (exc_stack_word e) (exc_cpu_info e) k) (\<lambda>k.
     bindR (exec exception_exit (compiled e m)) (\<lambda>m. Inr (m, k)))))"

text \<open>The call of \<open>handle_sync\<close> with its three arguments; the result is in \<open>x0\<close>.\<close>

definition call_handle_sync :: "exc_env \<Rightarrow> int \<Rightarrow> machine \<Rightarrow> machine result" where
  "call_handle_sync e ty m =
     (let m = set_reg X0 (word_of_int ty) m; m = set_reg X1 (esr_el1 m) m; m = set_reg X2 (reg m ELR_EL1) m
      in bindR (handle_sync ty (reg m X1) (reg m X2)) (\<lambda>a. Inr (set_reg X0 a (compiled e m))))"

definition SYNC_EL1h :: int where "SYNC_EL1h = 4"

definition sync_el1h :: "exc_env \<Rightarrow> machine \<times> kernel \<Rightarrow> (machine \<times> kernel) result" where
  "sync_el1h e = (\<lambda>(m, k).
     bindR (exec exception_enter m) (\<lambda>m.
     bindR (call_handle_sync e SYNC_EL1h m) (\<lambda>m.
     bindR (str (reg m X0) (stack_ptr m + 16 * 16) m) (\<lambda>m.
     bindR (exec exception_exit m) (\<lambda>m. Inr (m, k))))))"

text \<open>The system call with the number in \<open>w8\<close>: the entry of the table is loaded without a check of the number, and a
  word behind the table is no function.\<close>

definition call_syscall :: "exc_env \<Rightarrow> nat \<Rightarrow> io \<Rightarrow> (u64 \<times> io) result" where
  "call_syscall e nr d =
     (if length syscall_table \<le> nr then Inl FAULT
      else case syscall_table ! nr of
        Sys_null_placeholder \<Rightarrow>
          bindR (sys_null_placeholder (exc_hw e) (exc_stack_word e) (fst (exc_file e)) (snd (exc_file e)) d) (\<lambda>(ret, d).
          Inr ((or) (push_bit 32 (ucast (x0_upper e))) (ucast (word_of_int ret :: u32)), d))
      | Sys_poweroff \<Rightarrow> bindR (sys_poweroff (exc_hw e) (exc_mbox e) d) (\<lambda>d. Inr (x0_left e, d)))"

definition el0_syscall :: "exc_env \<Rightarrow> machine \<times> kernel \<Rightarrow> (machine \<times> kernel) result" where
  "el0_syscall e = (\<lambda>(m, k).
     bindR (call_syscall e (unat (ucast (reg m X8) :: u32)) (dev (port k))) (\<lambda>(ret, d).
     bindR (switch_to_thread_ctx (set_reg X0 ret (compiled e m))) (\<lambda>m.
     bindR (str (reg m X0) (stack_ptr m) m) (\<lambda>m.
     bindR (exec exception_exit m) (\<lambda>m. Inr (m, on_dev (\<lambda>_. d) k))))))"

definition sync_el0_64 :: "exc_env \<Rightarrow> machine \<times> kernel \<Rightarrow> (machine \<times> kernel) result" where
  "sync_el0_64 e = (\<lambda>(m, k).
     bindR (exec exception_enter m) (\<lambda>m.
     bindR (switch_to_cpu_stack m) (\<lambda>m.
     let m = set_reg X25 (esr_el1 m) m; m = set_reg X24 (drop_bit 26 (reg m X25)) m
     in if reg m X24 = ucast ESR_EL1_EC_SVC_64 then el0_syscall e (m, k)
        else bindR (call_handle_sync e SYNC_EL0_64 m) (\<lambda>m.
             bindR (switch_to_thread_ctx m) (\<lambda>m.
             bindR (exec exception_exit m) (\<lambda>m. Inr (m, k)))))))"

text \<open>The vector table, in the order of the exception types.\<close>

datatype vector = Unexpected | Irq_entry | Sync_el1h | Sync_el0_64

definition el1_vector :: "vector list" where
  "el1_vector =
     [Unexpected, Unexpected, Unexpected, Unexpected,
      Sync_el1h, Irq_entry, Unexpected, Unexpected,
      Sync_el0_64, Irq_entry, Unexpected, Unexpected,
      Unexpected, Unexpected, Unexpected, Unexpected]"

definition take_exception :: "exc_env \<Rightarrow> nat \<Rightarrow> machine \<times> kernel \<Rightarrow> (machine \<times> kernel) result" where
  "take_exception e ty s =
     (if length el1_vector \<le> ty then Inl FAULT else case el1_vector ! ty of
        Unexpected \<Rightarrow> bindR unexpected_handler (\<lambda>_. Inr s)
      | Irq_entry \<Rightarrow> irq_entry e s
      | Sync_el1h \<Rightarrow> sync_el1h e s
      | Sync_el0_64 \<Rightarrow> sync_el0_64 e s)"

text \<open>Compiled code returns with its stack pointer and the per-core pointer, and leaves what is not its own alone.\<close>

definition call_safe :: "u64 set \<Rightarrow> (machine \<Rightarrow> machine) \<Rightarrow> bool" where
  "call_safe A f \<longleftrightarrow> (\<forall>m. stack_ptr (f m) = stack_ptr m \<and> thread_ptr (f m) = thread_ptr m \<and> (\<forall>a \<in> A. words (f m) a = words m a))"

section \<open>The frame\<close>

text \<open>A frame at \<open>f\<close> holds 34 words, one for each register. The view of a machine on its frame is its registers and
  the words by number; all other words are \<open>w\<close>.\<close>

definition slot :: "u64 \<Rightarrow> nat \<Rightarrow> u64" where
  "slot f i = f + 8 * of_nat i"

definition frame :: "u64 \<Rightarrow> u64 set" where
  "frame f = slot f ` {0..<34}"

definition view :: "u64 \<Rightarrow> machine \<Rightarrow> machine \<Rightarrow> (reg_type \<Rightarrow> u64) \<times> (nat \<Rightarrow> u64) \<Rightarrow> bool" where
  "view f m0 m v \<longleftrightarrow> stack_ptr m = f \<and> reg m = fst v \<and> (\<forall>i < 34. words m (slot f i) = Some (snd v i)) \<and>
     (\<forall>a. a \<notin> frame f \<longrightarrow> words m a = words m0 a) \<and> thread_ptr m = thread_ptr m0 \<and> esr_el1 m = esr_el1 m0"

lemma slot_inj: "i < 34 \<Longrightarrow> j < 34 \<Longrightarrow> slot f i = slot f j \<longleftrightarrow> i = j"
proof -
  assume "i < 34" "j < 34"
  then have "(of_nat (8 * i) :: u64) = of_nat (8 * j) \<longleftrightarrow> i = j"
    unfolding word_of_nat_eq_iff by (simp add: take_bit_nat_eq_self)
  then show ?thesis by (simp add: slot_def)
qed

text \<open>The instructions on the view.\<close>

fun vexec1 :: "instr \<Rightarrow> (reg_type \<Rightarrow> u64) \<times> (nat \<Rightarrow> u64) \<Rightarrow> (reg_type \<Rightarrow> u64) \<times> (nat \<Rightarrow> u64)" where
  "vexec1 (Stp r1 r2 k) (g, s) = (g, s(2 * k := g r1, 2 * k + 1 := g r2))"
| "vexec1 (Ldp r1 r2 k) (g, s) = (g(r1 := s (2 * k), r2 := s (2 * k + 1)), s)"
| "vexec1 (Mov r1 r2) (g, s) = (g(r1 := g r2), s)"
| "vexec1 _ v = v"

fun in_frame :: "instr \<Rightarrow> bool" where
  "in_frame (Stp r1 r2 k) \<longleftrightarrow> k < 17"
| "in_frame (Ldp r1 r2 k) \<longleftrightarrow> k < 17"
| "in_frame (Mov r1 r2) \<longleftrightarrow> True"
| "in_frame _ \<longleftrightarrow> False"

lemma slot_offset: "f + 16 * of_nat k = slot f (2 * k)" "slot f i + 8 = slot f (Suc i)"
  by (simp_all add: slot_def algebra_simps)

lemma view_exec1:
  assumes "view f m0 m v" "in_frame i"
  shows "\<exists>m'. exec1 i m = Inr m' \<and> view f m0 m' (vexec1 i v)"
proof (cases i)
  case (Stp r1 r2 k)
  have k: "2 * k < 34" "2 * k + 1 < 34" using assms(2) Stp by auto
  let ?m = "m\<lparr>words := (words m)(slot f (2 * k) \<mapsto> reg m r1, slot f (2 * k + 1) \<mapsto> reg m r2)\<rparr>"
  have "words m (slot f (2 * k)) \<noteq> None" "words m (slot f (2 * k + 1)) \<noteq> None" "stack_ptr m = f" using assms(1) k by (auto simp: view_def)
  then have "exec1 i m = Inr ?m" by (simp add: Stp str_def slot_offset)
  moreover have "slot f (2 * k) \<in> frame f" "slot f (2 * k + 1) \<in> frame f" unfolding frame_def using k by (auto intro!: imageI)
  then have "view f m0 ?m (vexec1 i v)" using assms(1) Stp k by (cases v) (auto simp: view_def slot_inj)
  ultimately show ?thesis by blast
next
  case (Ldp r1 r2 k)
  have k: "2 * k < 34" "2 * k + 1 < 34" using assms(2) Ldp by auto
  have "words m (slot f (2 * k)) = Some (snd v (2 * k))" "words m (slot f (2 * k + 1)) = Some (snd v (2 * k + 1))" "stack_ptr m = f"
    using assms(1) k by (auto simp: view_def)
  then show ?thesis using assms(1) by (cases v) (auto simp: Ldp ldr_def slot_offset set_reg_def view_def)
next
  case (Mov r1 r2)
  then show ?thesis using assms(1) by (cases v) (auto simp: set_reg_def view_def)
qed (use assms(2) in auto)

lemma view_exec:
  "view f m0 m v \<Longrightarrow> \<forall>i \<in> set is. in_frame i \<Longrightarrow> \<exists>m'. exec is m = Inr m' \<and> view f m0 m' (fold vexec1 is v)"
proof (induction "is" arbitrary: m v)
  case (Cons i "is")
  obtain m' where "exec1 i m = Inr m'" "view f m0 m' (vexec1 i v)" using view_exec1 Cons.prems by fastforce
  then show ?case using Cons.IH [of m' "vexec1 i v"] Cons.prems(2) by auto
qed auto

lemma enter_saves:
  assumes "\<forall>i < 34. words m (slot (stack_ptr m - ARCH_EXEC_CONT_SIZE) i) \<noteq> None"
  shows "\<exists>m1 s g. exec exception_enter m = Inr m1 \<and> view (stack_ptr m - ARCH_EXEC_CONT_SIZE) m m1 (g, s) \<and>
     (\<forall>r. s (reg_number r) = reg m r) \<and> (\<forall>r. r \<notin> {X21, X22, X23} \<longrightarrow> g r = reg m r)"
proof -
  let ?f = "stack_ptr m - ARCH_EXEC_CONT_SIZE" and ?body = "tl exception_enter"
  define m' where "m' = m\<lparr>stack_ptr := ?f\<rparr>"
  define s0 where "s0 = (\<lambda>i. the (words m (slot ?f i)))"
  have v: "view ?f m m' (reg m, s0)" using assms by (auto simp: view_def m'_def s0_def)
  have e: "exec exception_enter m = exec ?body m'" by (simp add: exception_enter_def m'_def)
  have b: "\<forall>i \<in> set ?body. in_frame i" by (simp add: exception_enter_def)
  obtain m1 where m1: "exec ?body m' = Inr m1" "view ?f m m1 (fold vexec1 ?body (reg m, s0))" using view_exec [OF v b] by blast
  obtain g s where gs: "fold vexec1 ?body (reg m, s0) = (g, s)" by fastforce
  have "s (reg_number r) = reg m r \<and> (r \<notin> {X21, X22, X23} \<longrightarrow> g r = reg m r)" for r
    using gs by (cases r) (auto simp: exception_enter_def)
  then show ?thesis using e m1 gs by auto
qed

lemma reg_number_onto: "i < 34 \<Longrightarrow> \<exists>r. reg_number r = i"
proof -
  assume "i < 34"
  let ?regs = "[
    X0, X1, X2, X3, X4, X5, X6, X7, X8, X9, X10, X11, X12, X13, X14, X15, X16, X17, X18, X19, X20, X21, X22,
    X23, X24, X25, X26, X27, X28, X29, X30, SP_EL0, ELR_EL1, SPSR_EL1]"
  have "map reg_number ?regs = [0..<34]" by code_simp
  then have "reg_number (?regs ! i) = [0..<34] ! i" using nth_map [of i ?regs reg_number] \<open>i < 34\<close> by simp
  then show ?thesis using \<open>i < 34\<close> by auto
qed

lemma exit_restores:
  assumes "\<forall>r. words m (slot (stack_ptr m) (reg_number r)) = Some (g r)"
  shows "exec exception_exit m = Inr (m\<lparr>reg := g, stack_ptr := stack_ptr m + ARCH_EXEC_CONT_SIZE\<rparr>)"
proof -
  let ?f = "stack_ptr m" and ?body = "butlast exception_exit"
  define s where "s = (\<lambda>i. the (words m (slot ?f i)))"
  have s: "s (reg_number r) = g r" for r using assms by (simp add: s_def)
  have full: "\<forall>i < 34. words m (slot ?f i) = Some (s i)" using assms reg_number_onto s by metis
  then have v: "view ?f m m (reg m, s)" by (simp add: view_def)
  have b: "\<forall>i \<in> set ?body. in_frame i" by (simp add: exception_exit_def)
  obtain m1 where m1: "exec ?body m = Inr m1" "view ?f m m1 (fold vexec1 ?body (reg m, s))" using view_exec [OF v b] by blast
  obtain h t where ht: "fold vexec1 ?body (reg m, s) = (h, t)" by fastforce
  have "t = s" using ht by (auto simp: exception_exit_def)
  have "h r = s (reg_number r)" for r using ht by (cases r) (auto simp: exception_exit_def)
  then have h: "h = g" using s by (simp add: fun_eq_iff)
  have "words m1 a = words m a" for a
    using m1(2) full ht \<open>t = s\<close> by (cases "a \<in> frame ?f") (auto simp: view_def frame_def)
  then have "words m1 = words m" by (simp add: fun_eq_iff)
  moreover have "exec exception_exit m = exec [Add_sp ARCH_EXEC_CONT_SIZE] m1"
    using m1(1) exec_append [of ?body "[Add_sp ARCH_EXEC_CONT_SIZE]" m] by (simp add: exception_exit_def)
  ultimately show ?thesis using m1(2) ht h by (simp add: view_def)
qed

end
