(* ===== verification/Exc_Props.thy ===== *)
theory Exc_Props
  imports Exc_Entry Irq_Props
begin

text \<open>
  Properties of the exception entry: the interrupted code gets its registers back, and a system call reaches the
  function its number stands for.
\<close>

section \<open>Leaving the kernel\<close>

text \<open>The frame of \<open>m\<close> at \<open>f\<close> holds the registers \<open>g\<close>.\<close>

definition holds_frame :: "u64 \<Rightarrow> (reg_type \<Rightarrow> u64) \<Rightarrow> machine \<Rightarrow> bool" where
  "holds_frame f g m \<longleftrightarrow> (\<forall>r. words m (slot f (reg_number r)) = Some (g r))"

lemma reg_number_less: "reg_number r < 34"
  by (cases r) simp_all

lemma reg_number_eq: "reg_number r = reg_number s \<longleftrightarrow> r = s"
  by (cases r) (cases s; simp)+

lemma slot_in_frame: "slot f (reg_number r) \<in> frame f"
  unfolding frame_def using reg_number_less [of r] by auto

lemma frame_cong: "(\<And>a. a \<in> frame f \<Longrightarrow> words m' a = words m a) \<Longrightarrow> holds_frame f g m \<Longrightarrow> holds_frame f g m'"
  using slot_in_frame by (auto simp: holds_frame_def)

lemma frame_store:
  assumes "holds_frame f g m"
  shows "str v (slot f (reg_number r)) m = Inr (m\<lparr>words := (words m)(slot f (reg_number r) \<mapsto> v)\<rparr>)"
    "holds_frame f (g(r := v)) (m\<lparr>words := (words m)(slot f (reg_number r) \<mapsto> v)\<rparr>)"
  using assms by (auto simp: holds_frame_def str_def slot_inj reg_number_less reg_number_eq)

lemma frame_exit:
  "holds_frame f g m \<Longrightarrow> stack_ptr m = f \<Longrightarrow> exec exception_exit m = Inr (m\<lparr>reg := g, stack_ptr := f + ARCH_EXEC_CONT_SIZE\<rparr>)"
  using exit_restores [of m g] by (simp add: holds_frame_def)

lemma eret_to_thread_restores:
  assumes "holds_frame f g m" "reg m X0 = f"
  shows "eret_to_thread m = Inr (m\<lparr>reg := g, stack_ptr := f + ARCH_EXEC_CONT_SIZE\<rparr>)"
  using frame_exit [of f g "m\<lparr>stack_ptr := f\<rparr>"] assms by (simp add: eret_to_thread_def holds_frame_def)

text \<open>What \<open>exception_enter\<close> leaves behind.\<close>

definition stack_mapped :: "u64 \<Rightarrow> machine \<Rightarrow> bool" where
  "stack_mapped f m \<longleftrightarrow> (\<forall>i < 34. words m (slot f i) \<noteq> None)"

lemma enter_frame:
  assumes "stack_mapped f m" "stack_ptr m = f + ARCH_EXEC_CONT_SIZE"
  obtains m1 where "exec exception_enter m = Inr m1" "stack_ptr m1 = f" "holds_frame f (reg m) m1" "\<forall>a. a \<notin> frame f \<longrightarrow> words m1 a = words m a"
    "\<forall>r. r \<notin> {X21, X22, X23} \<longrightarrow> reg m1 r = reg m r" "thread_ptr m1 = thread_ptr m" "esr_el1 m1 = esr_el1 m"
proof -
  have f: "stack_ptr m - ARCH_EXEC_CONT_SIZE = f" using assms(2) by simp
  then have "\<forall>i < 34. words m (slot (stack_ptr m - ARCH_EXEC_CONT_SIZE) i) \<noteq> None" using assms(1) by (simp add: stack_mapped_def)
  from enter_saves [OF this] obtain m1 s g where m1: "exec exception_enter m = Inr m1" "view f m m1 (g, s)"
    "\<forall>r. s (reg_number r) = reg m r" "\<forall>r. r \<notin> {X21, X22, X23} \<longrightarrow> g r = reg m r" unfolding f by blast
  have "holds_frame f (reg m) m1" using m1(2,3) reg_number_less by (simp add: view_def holds_frame_def)
  then show ?thesis using m1(1,2,4) by (intro that [of m1]) (auto simp: view_def)
qed

lemma call_keeps_frame: "call_safe A c \<Longrightarrow> frame f \<subseteq> A \<Longrightarrow> holds_frame f g m \<Longrightarrow> holds_frame f g (c m)"
  by (rule frame_cong) (auto simp: call_safe_def)

lemma set_reg_simps [simp]:
  "words (set_reg r v m) = words m" "stack_ptr (set_reg r v m) = stack_ptr m" "thread_ptr (set_reg r v m) = thread_ptr m"
  "esr_el1 (set_reg r v m) = esr_el1 m" "reg (set_reg r v m) s = (if s = r then v else reg m s)"
  by (simp_all add: set_reg_def)

lemma holds_frame_set_reg [simp]: "holds_frame f g (set_reg r v m) = holds_frame f g m"
  by (simp add: holds_frame_def)

lemma irq_entry_returns:
  assumes "stack_mapped f m" "stack_ptr m = f + ARCH_EXEC_CONT_SIZE" "call_safe (frame f) (compiled e)"
    "handle_irq (exc_hw e) (exc_stack_word e) (exc_cpu_info e) k = Inr k'"
  shows "\<exists>m'. irq_entry e (m, k) = Inr (m', k') \<and> reg m' = reg m \<and> stack_ptr m' = stack_ptr m"
proof -
  obtain m1 where m1: "exec exception_enter m = Inr m1" "stack_ptr m1 = f" "holds_frame f (reg m) m1"
    by (rule enter_frame [OF assms(1,2)])
  have "holds_frame f (reg m) (compiled e m1)" using call_keeps_frame [OF assms(3) _ m1(3)] by simp
  moreover have "stack_ptr (compiled e m1) = f" using assms(3) m1(2) by (simp add: call_safe_def)
  ultimately show ?thesis using frame_exit m1(1) assms(2,4) by (simp add: irq_entry_def)
qed

lemma sync_el1h_returns:
  assumes "stack_mapped f m" "stack_ptr m = f + ARCH_EXEC_CONT_SIZE" "call_safe (frame f) (compiled e)"
    "handle_sync SYNC_EL1h (esr_el1 m) (reg m ELR_EL1) = Inr a"
  shows "\<exists>m'. sync_el1h e (m, k) = Inr (m', k) \<and> reg m' = (reg m)(ELR_EL1 := a) \<and> stack_ptr m' = stack_ptr m"
proof -
  obtain m1 where m1: "exec exception_enter m = Inr m1" "stack_ptr m1 = f" "holds_frame f (reg m) m1"
    "\<forall>r. r \<notin> {X21, X22, X23} \<longrightarrow> reg m1 r = reg m r" "esr_el1 m1 = esr_el1 m"
    by (rule enter_frame [OF assms(1,2)])
  define m2 where "m2 = set_reg X2 (reg m ELR_EL1) (set_reg X1 (esr_el1 m) (set_reg X0 (word_of_int SYNC_EL1h) m1))"
  define m3 where "m3 = set_reg X0 a (compiled e m2)"
  have call: "call_handle_sync e SYNC_EL1h m1 = Inr m3" using assms(4) m1(4,5) by (simp add: call_handle_sync_def Let_def m2_def m3_def)
  have m3: "holds_frame f (reg m) m3" "stack_ptr m3 = f" "reg m3 X0 = a"
    using call_keeps_frame [OF assms(3), of f "reg m" m2] assms(3) m1(2,3) by (simp_all add: m3_def m2_def call_safe_def)
  have "stack_ptr m3 + 16 * 16 = slot f (reg_number ELR_EL1)" using m3(2) by (simp add: slot_def)
  then show ?thesis
    using m1(1) call frame_store [OF m3(1), where v = a and r = ELR_EL1] m3(2,3) assms(2) frame_exit
    by (simp add: sync_el1h_def)
qed

section \<open>System calls\<close>

lemma well_formed_s:
  assumes "well_formed fmt args"
  shows "well_formed (''%s'' @ fmt) (Va_str a t # args)"
proof -
  have "well_formed (CHR ''%'' # CHR ''s'' # fmt) (Va_str a t # args)"
    using assms by (intro fmt_directive [where ?fmt2.0 = "CHR ''s'' # fmt" and ?args2.0 = "Va_str a t # args"])
      (simp_all add: cur_def parse_flags_def width_end_def conv_kind_def plain_kind_def takes_def)
  then show ?thesis by simp
qed

lemma well_formed_u:
  assumes "well_formed fmt args"
  shows "well_formed (''%u'' @ fmt) (Va_int x # args)"
proof -
  have "well_formed (CHR ''%'' # CHR ''u'' # fmt) (Va_int x # args)"
    using assms by (intro fmt_directive [where ?fmt2.0 = "CHR ''u'' # fmt" and ?args2.0 = "Va_int x # args"])
      (simp_all add: cur_def parse_flags_def width_end_def conv_kind_def plain_kind_def takes_def)
  then show ?thesis by simp
qed

lemma placeholder_returns:
  assumes "drains hw"
  shows "\<exists>d' s. sys_null_placeholder hw u0 a t d = Inr (- 202, d') \<and> sends d s d'"
proof -
  have "well_formed (''[WARN] file: '' @ ''%s'' @ '':'' @ ''%u'' @ '' Invoke non-implemented syscall\<newline>'' @ []) [Va_str a t, Va_int 14]"
    by (intro well_formed_text well_formed_s well_formed_u fmt_end) auto
  then have "well_formed (''[WARN] file: %s:%u '' @ ''Invoke non-implemented syscall\<newline>'') [Va_str a t, Va_int 14]" by simp
  from printk_returns [OF this assms, of u0 d] obtain d' s where
    "printk hw u0 (''[WARN] file: %s:%u '' @ ''Invoke non-implemented syscall\<newline>'') [Va_str a t, Va_int 14] d = Inr d'" "sends d s d'" by blast
  then show ?thesis by (auto simp: sys_null_placeholder_def EBADSYSCALL_def)
qed

lemma syscall_table_entries:
  "length syscall_table = 64" "nr < 64 \<Longrightarrow> syscall_table ! nr = (if nr = 51 then Sys_poweroff else Sys_null_placeholder)"
  by (simp_all add: syscall_table_def NR_SYSCALL_def KMK_SYS_poweroff_def nth_list_update)

lemma low_half: "(ucast ((or) (push_bit 32 (ucast (a :: u32))) (ucast (b :: u32)) :: u64) :: u32) = b"
  by (rule bit_word_eqI) (auto simp: bit_simps)

text \<open>A thread at EL0: the exception stack pointer is the end of its context, which the core knows as its current one, and
  the kernel stack and the per-core data lie apart from it.\<close>

definition thread_runs :: "u64 \<Rightarrow> u64 \<Rightarrow> machine \<Rightarrow> bool" where
  "thread_runs ctx stk m \<longleftrightarrow> stack_ptr m = ctx + ARCH_EXEC_CONT_SIZE \<and> stack_mapped ctx m \<and>
     words m (thread_ptr m) = Some ctx \<and> words m (thread_ptr m + 8) = Some stk \<and> thread_ptr m \<notin> frame ctx \<and> thread_ptr m + 8 \<notin> frame ctx"

definition kept :: "u64 \<Rightarrow> machine \<Rightarrow> u64 set" where
  "kept ctx m = frame ctx \<union> {thread_ptr m, thread_ptr m + 8}"

lemma sync_el0_start:
  assumes "thread_runs ctx stk m"
  obtains m1 where "bindR (exec exception_enter m) switch_to_cpu_stack = Inr m1" "stack_ptr m1 = stk" "holds_frame ctx (reg m) m1"
    "words m1 (thread_ptr m) = Some ctx" "thread_ptr m1 = thread_ptr m" "esr_el1 m1 = esr_el1 m" "\<forall>r. r \<notin> {X21, X22, X23, X24} \<longrightarrow> reg m1 r = reg m r"
proof -
  note t = assms [unfolded thread_runs_def]
  obtain m1 where m1: "exec exception_enter m = Inr m1" "stack_ptr m1 = ctx" "holds_frame ctx (reg m) m1" "\<forall>a. a \<notin> frame ctx \<longrightarrow> words m1 a = words m a"
    "\<forall>r. r \<notin> {X21, X22, X23} \<longrightarrow> reg m1 r = reg m r" "thread_ptr m1 = thread_ptr m" "esr_el1 m1 = esr_el1 m"
    by (rule enter_frame [of ctx m]) (use t in auto)
  have "words m1 (thread_ptr m + 8) = Some stk" "words m1 (thread_ptr m) = Some ctx" using t m1(4) by auto
  then have "bindR (exec exception_enter m) switch_to_cpu_stack = Inr ((set_reg X24 stk m1)\<lparr>stack_ptr := stk\<rparr>)"
    using m1(1,6) by (simp add: switch_to_cpu_stack_def ldr_def OFFSET_LOCAL_CPU_STACK_def)
  then show ?thesis by (rule that) (use m1 \<open>words m1 (thread_ptr m) = Some ctx\<close> in \<open>auto simp: holds_frame_def\<close>)
qed

text \<open>Back to the thread with \<open>v\<close> in the slot of \<open>x0\<close>.\<close>

lemma back_to_thread:
  assumes "call_safe (kept ctx m) c" "holds_frame ctx g m1" "words m1 (thread_ptr m) = Some ctx" "thread_ptr m1 = thread_ptr m"
  shows "\<exists>m'. bindR (switch_to_thread_ctx (set_reg X0 v (c m1))) (\<lambda>m. bindR (str (reg m X0) (stack_ptr m) m) (exec exception_exit)) = Inr m' \<and>
    reg m' = g(X0 := v) \<and> stack_ptr m' = ctx + ARCH_EXEC_CONT_SIZE"
proof -
  define m2 where "m2 = (set_reg X24 ctx (set_reg X0 v (c m1)))\<lparr>stack_ptr := ctx\<rparr>"
  have k: "thread_ptr (c m1) = thread_ptr m" "words (c m1) (thread_ptr m) = Some ctx" "holds_frame ctx g (c m1)"
    using assms call_keeps_frame [OF assms(1) _ assms(2)] by (auto simp: call_safe_def kept_def)
  have s: "switch_to_thread_ctx (set_reg X0 v (c m1)) = Inr m2"
    using k by (simp add: switch_to_thread_ctx_def ldr_def OFFSET_CURRENT_EXEC_CTX_def m2_def)
  have h: "holds_frame ctx g m2" "stack_ptr m2 = ctx" "reg m2 X0 = v" using k(3) by (auto simp: m2_def holds_frame_def)
  have "ctx = slot ctx (reg_number X0)" by (simp add: slot_def)
  then show ?thesis using s h(2,3) frame_store [OF h(1), where v = v and r = X0] frame_exit by fastforce
qed

lemma syscall_path:
  assumes "thread_runs ctx stk m" "call_safe (kept ctx m) (compiled e)" "drop_bit 26 (esr_el1 m) = 21"
  shows "\<exists>m1. take_exception e 8 (m, k) = el0_syscall e (m1, k) \<and> reg m1 X8 = reg m X8 \<and>
    (\<forall>d ret. call_syscall e (unat (ucast (reg m X8) :: u32)) (dev (port k)) = Inr (ret, d) \<longrightarrow>
       (\<exists>m'. el0_syscall e (m1, k) = Inr (m', on_dev (\<lambda>_. d) k) \<and> reg m' = (reg m)(X0 := ret) \<and> stack_ptr m' = stack_ptr m))"
proof -
  obtain m0 where m0: "bindR (exec exception_enter m) switch_to_cpu_stack = Inr m0" "holds_frame ctx (reg m) m0"
    "words m0 (thread_ptr m) = Some ctx" "thread_ptr m0 = thread_ptr m" "esr_el1 m0 = esr_el1 m" "\<forall>r. r \<notin> {X21, X22, X23, X24} \<longrightarrow> reg m0 r = reg m r"
    by (rule sync_el0_start [OF assms(1)])
  define m1 where "m1 = set_reg X24 21 (set_reg X25 (esr_el1 m) m0)"
  obtain mm where mm: "exec exception_enter m = Inr mm" "switch_to_cpu_stack mm = Inr m0" using m0(1) by (cases "exec exception_enter m") auto
  have "take_exception e 8 (m, k) = el0_syscall e (m1, k)"
    using mm assms(3) m0(5) by (simp add: take_exception_def el1_vector_def sync_el0_64_def Let_def ESR_EL1_EC_SVC_64_def m1_def)
  moreover have x8: "reg m1 X8 = reg m X8" using m0(6) by (simp add: m1_def)
  moreover have "\<exists>m'. el0_syscall e (m1, k) = Inr (m', on_dev (\<lambda>_. d) k) \<and> reg m' = (reg m)(X0 := ret) \<and> stack_ptr m' = stack_ptr m"
    if "call_syscall e (unat (ucast (reg m X8) :: u32)) (dev (port k)) = Inr (ret, d)" for d ret
  proof -
    have "holds_frame ctx (reg m) m1" "words m1 (thread_ptr m) = Some ctx" "thread_ptr m1 = thread_ptr m" using m0 by (simp_all add: m1_def)
    from back_to_thread [OF assms(2) this, of ret] obtain m2 m' where
      "switch_to_thread_ctx (set_reg X0 ret (compiled e m1)) = Inr m2" "bindR (str (reg m2 X0) (stack_ptr m2) m2) (exec exception_exit) = Inr m'"
      "reg m' = (reg m)(X0 := ret)" "stack_ptr m' = ctx + ARCH_EXEC_CONT_SIZE"
      by (cases "switch_to_thread_ctx (set_reg X0 ret (compiled e m1))") auto
    then show ?thesis using that x8 assms(1)
      by (cases "str (reg m2 X0) (stack_ptr m2) m2") (auto simp: el0_syscall_def thread_runs_def)
  qed
  ultimately show ?thesis by blast
qed

section \<open>Properties\<close>

text \<open>C11: Exceptions are transparent. When the compiled code keeps to the call standard and the stack has room for the
  frame, an interrupt taken in the kernel or in user space whose handler returns gives every
  register, the stack pointer, the return address and the saved state back; a synchronous exception
  of the kernel does so too, but resumes at the address \<open>handle_sync\<close> returned; of the sixteen
  vectors twelve stop the kernel.\<close>

theorem exception_return:
  assumes "stack_mapped f m" "stack_ptr m = f + ARCH_EXEC_CONT_SIZE" "call_safe (frame f) (compiled e)"
  shows "(\<forall>k'. handle_irq (exc_hw e) (exc_stack_word e) (exc_cpu_info e) k = Inr k' \<longrightarrow> ty \<in> {5, 9} \<longrightarrow>
       (\<exists>m'. take_exception e ty (m, k) = Inr (m', k') \<and> reg m' = reg m \<and> stack_ptr m' = stack_ptr m)) \<and>
    (\<forall>a. handle_sync SYNC_EL1h (esr_el1 m) (reg m ELR_EL1) = Inr a \<longrightarrow>
       (\<exists>m'. take_exception e 4 (m, k) = Inr (m', k) \<and> reg m' = (reg m)(ELR_EL1 := a) \<and> stack_ptr m' = stack_ptr m)) \<and>
    (ty < 16 \<longrightarrow> ty \<notin> {4, 5, 8, 9} \<longrightarrow> take_exception e ty (m, k) = Inl BUG)"
proof -
  have "take_exception e ty (m, k) = Inl BUG" if "ty < 16" "ty \<notin> {4, 5, 8, 9}"
  proof -
    have "ty = 0 \<or> ty = 1 \<or> ty = 2 \<or> ty = 3 \<or> ty = 6 \<or> ty = 7 \<or> ty = 10 \<or> ty = 11 \<or> ty = 12 \<or> ty = 13 \<or> ty = 14 \<or> ty = 15"
      using that by simp presburger
    then show ?thesis by (auto simp: take_exception_def el1_vector_def unexpected_handler_def)
  qed
  moreover have "take_exception e ty (m, k) = irq_entry e (m, k)" if "ty \<in> {5, 9}"
    using that by (auto simp: take_exception_def el1_vector_def)
  moreover have "take_exception e 4 (m, k) = sync_el1h e (m, k)" by (simp add: take_exception_def el1_vector_def)
  ultimately show ?thesis using irq_entry_returns [OF assms] sync_el1h_returns [OF assms] by simp
qed

text \<open>C12: System calls. From a running thread an \<open>svc\<close> reaches the function with the number in \<open>w8\<close>: the placeholder
  returns -EBADSYSCALL in the low half of \<open>x0\<close> and every other register comes back as it was, number
  51 switches the machine off; but the number is not checked, and one of 64 or more calls whatever
  lies behind the table.\<close>

theorem syscall_dispatch:
  assumes "thread_runs ctx stk m" "call_safe (kept ctx m) (compiled e)" "drop_bit 26 (esr_el1 m) = 21" "drains (exc_hw e)"
    "nr = unat (ucast (reg m X8) :: u32)"
  shows "(64 \<le> nr \<longrightarrow> take_exception e 8 (m, k) = Inl FAULT) \<and>
    (nr < 64 \<longrightarrow> nr \<noteq> 51 \<longrightarrow> (\<exists>m' d s v. take_exception e 8 (m, k) = Inr (m', on_dev (\<lambda>_. d) k) \<and> sends (dev (port k)) s d \<and>
       reg m' = (reg m)(X0 := v) \<and> (ucast v :: u32) = - 202 \<and> stack_ptr m' = stack_ptr m)) \<and>
    (nr = 51 \<longrightarrow> mailbox_answers (exc_hw e) (mbox_word (exc_mbox e)) \<longrightarrow>
       (\<exists>m' d ws r. take_exception e 8 (m, k) = Inr (m', on_dev (\<lambda>_. d) k) \<and> writes d = writes (dev (port k)) @ ws @ gpio_off @ watchdog_off r))"
proof -
  obtain m1 where m1: "take_exception e 8 (m, k) = el0_syscall e (m1, k)" "reg m1 X8 = reg m X8"
    "\<And>d ret. call_syscall e nr (dev (port k)) = Inr (ret, d) \<Longrightarrow>
       \<exists>m'. el0_syscall e (m1, k) = Inr (m', on_dev (\<lambda>_. d) k) \<and> reg m' = (reg m)(X0 := ret) \<and> stack_ptr m' = stack_ptr m"
    using syscall_path [OF assms(1-3), of k] unfolding assms(5) by blast
  have "take_exception e 8 (m, k) = Inl FAULT" if "64 \<le> nr"
    using that m1(1,2) assms(5) by (simp add: el0_syscall_def call_syscall_def syscall_table_entries(1))
  moreover have "\<exists>m' d s v. take_exception e 8 (m, k) = Inr (m', on_dev (\<lambda>_. d) k) \<and> sends (dev (port k)) s d \<and>
       reg m' = (reg m)(X0 := v) \<and> (ucast v :: u32) = - 202 \<and> stack_ptr m' = stack_ptr m" if "nr < 64" "nr \<noteq> 51"
  proof -
    obtain d s where d: "sys_null_placeholder (exc_hw e) (exc_stack_word e) (fst (exc_file e)) (snd (exc_file e)) (dev (port k)) = Inr (- 202, d)" "sends (dev (port k)) s d"
      using placeholder_returns [OF assms(4)] by blast
    let ?v = "(or) (push_bit 32 (ucast (x0_upper e))) (ucast (- 202 :: u32)) :: u64"
    have "call_syscall e nr (dev (port k)) = Inr (?v, d)"
      using d(1) syscall_table_entries that by (simp add: call_syscall_def)
    moreover have "(ucast ?v :: u32) = - 202" by (rule low_half)
    ultimately show ?thesis using m1(1) m1(3) [of ?v d] d(2) by auto
  qed
  moreover have "\<exists>m' d ws r. take_exception e 8 (m, k) = Inr (m', on_dev (\<lambda>_. d) k) \<and> writes d = writes (dev (port k)) @ ws @ gpio_off @ watchdog_off r"
    if nr: "nr = 51" and ans: "mailbox_answers (exc_hw e) (mbox_word (exc_mbox e))"
  proof -
    obtain d r where d: "plat_poweroff (exc_hw e) (exc_mbox e) (dev (port k)) = Inr d"
      "writes d = writes (dev (port k)) @ (mbox_message (exc_mbox e) @ [(MBOX_WRITE, mbox_word (exc_mbox e))]) @ gpio_off @ watchdog_off r"
      using plat_poweroff_returns [OF ans, of "dev (port k)"] by auto
    then have "call_syscall e nr (dev (port k)) = Inr (x0_left e, d)"
      using nr syscall_table_entries by (simp add: call_syscall_def sys_poweroff_def)
    then show ?thesis using m1(1,3) d(2) by metis
  qed
  ultimately show ?thesis by blast
qed

text \<open>A machine whose memory is zero but for the per-core data at 0x5000, and code that changes a register.\<close>

definition example_cpu :: machine where
  "example_cpu = \<lparr>reg = (\<lambda>r. if r = X8 then 3 else 7), stack_ptr = 0x9000 + ARCH_EXEC_CONT_SIZE, esr_el1 = push_bit 26 21,
     thread_ptr = 0x5000, words = (\<lambda>_. Some 0)(0x5000 \<mapsto> 0x9000, 0x5008 \<mapsto> 0xA000)\<rparr>"

definition example_exc :: exc_env where
  "example_exc = \<lparr>compiled = set_reg X5 1, exc_hw = timer_hw, exc_stack_word = 0, exc_cpu_info = 0x5000, exc_mbox = 0, exc_file = (0x100, ''syscall.c''),
     x0_upper = 5, x0_left = 0\<rparr>"

lemma example_call_safe: "call_safe A (compiled example_exc)"
  by (simp add: call_safe_def example_exc_def)

lemma example_mapped: "stack_mapped 0x9000 example_cpu"
  by (simp add: stack_mapped_def example_cpu_def)

lemma example_frame: "a < 0x9000 \<Longrightarrow> a \<notin> frame 0x9000"
proof
  assume "a < 0x9000" "a \<in> frame 0x9000"
  then obtain i where i: "a = 0x9000 + of_nat (8 * i)" "i < 34" by (auto simp: frame_def slot_def)
  then have "unat (of_nat (8 * i) :: u64) = 8 * i" by (simp del: of_nat_mult add: unsigned_of_nat take_bit_nat_eq_self)
  then have "unat a = 0x9000 + 8 * i" using i unat_plus_if' [of "0x9000" "of_nat (8 * i) :: u64"] by simp
  then show False using \<open>a < 0x9000\<close> by (simp add: word_less_nat_alt)
qed

lemma timer_served: "\<exists>k'. handle_irq timer_hw 0 0x5000 booted = Inr k' \<and> cntp_tval_el0 (regs k') = 192000"
proof -
  have cpu: "smp_get_cpu_id 0x5000 booted = 0" by (simp add: smp_get_cpu_id_def booted_def)
  then have "is_timer (source_word timer_hw 0x5000 booted)"
    by (simp add: is_timer_def source_word_def timer_hw_def core_irq_source_def bit_numeral_rec)
  then show ?thesis
    using lowest_source_spec [of "source_word timer_hw 0x5000 booted"] handle_irq_start [of "0x5000" booted timer_hw 0] cpu
    by (auto simp: handle_irq_def handle_timer_irq_def plat_set_init_timer_def is_timer_def booted_def on_dev_def)
qed

theorem exception_return_witness:
  "\<exists>m' k'. take_exception example_exc 5 (example_cpu, booted) = Inr (m', k') \<and> reg m' = reg example_cpu \<and> cntp_tval_el0 (regs k') = 192000"
proof -
  have "\<exists>k'. handle_irq timer_hw 0 0x5000 booted = Inr k' \<and> cntp_tval_el0 (regs k') = 192000"
    using timer_served by simp
  then show ?thesis
    using exception_return [OF example_mapped _ example_call_safe, where k = booted and ty = 5] by (auto simp: example_exc_def example_cpu_def)
qed

theorem syscall_dispatch_witness:
  "\<exists>m' k'. take_exception example_exc 8 (example_cpu, booted) = Inr (m', k') \<and> (ucast (reg m' X0) :: u32) = - 202 \<and> reg m' X8 = 3"
proof -
  have "thread_runs 0x9000 0xA000 example_cpu"
    using example_mapped example_frame [of "0x5000"] example_frame [of "0x5008"] by (simp add: thread_runs_def example_cpu_def)
  moreover have "drop_bit 26 (esr_el1 example_cpu) = 21" by (simp add: example_cpu_def drop_bit_eq_div)
  moreover have "drains (exc_hw example_exc)" using timer_drains by (simp add: example_exc_def)
  moreover have "unat (ucast (reg example_cpu X8) :: u32) = 3" "reg example_cpu X8 = 3" by (simp_all add: example_cpu_def)
  ultimately show ?thesis
    using syscall_dispatch [OF _ example_call_safe, of "0x9000" "0xA000" example_cpu 3 booted] by auto
qed

end
