(* ===== verification/Selftest.thy ===== *)
theory Selftest
  imports Kmalloc Printk
begin

text \<open>
  What \<open>mm_init\<close> of src/mm/mm.c does beside setting the allocators up: the messages of src/mm/buddy.c and
  src/mm/slab.c, and the self tests of src/mm/slab_test.c and src/mm/kmalloc.c, over the heap and
  the serial port. A failed \<open>assert\<close> prints its place and stops, like a failed \<open>BUG_ON\<close>.
\<close>

section \<open>Messages\<close>

definition assert_that :: "bool \<Rightarrow> unit result" where
  "assert_that e = (if e then Inr () else Inl BUG)"

definition log_info :: "hardware \<Rightarrow> u64 \<Rightarrow> string \<Rightarrow> va list \<Rightarrow> io \<Rightarrow> io result" where
  "log_info hw u0 fmt args = printk hw u0 (''[INFO] '' @ fmt) args"

fun print_free_lists :: "hardware \<Rightarrow> u64 \<Rightarrow> (nat \<Rightarrow> u64) \<Rightarrow> nat list \<Rightarrow> io \<Rightarrow> io result" where
  "print_free_lists hw u0 nr [] d = Inr d"
| "print_free_lists hw u0 nr (q # qs) d =
     bindR (log_info hw u0 ''order %d: %ld\<newline>'' [Va_int (of_nat q), Va_long (nr q)] d) (print_free_lists hw u0 nr qs)"

definition print_buddy_info :: "hardware \<Rightarrow> u64 \<Rightarrow> mem_region \<Rightarrow> io \<Rightarrow> io result" where
  "print_buddy_info hw u0 m d =
     bindR (log_info hw u0 ''Free pages has %ld: \<newline>'' [Va_long (get_free_pages_nums_from_buddy m)] d) (\<lambda>d.
     bindR (print_free_lists hw u0 (nr_free m) [0..<nat BUDDY_MAX_ORDER] d) (\<lambda>d.
     log_info hw u0 ''Free Memory size: %ldMB %ldKB, Total Memory size: %ldMB %ldKB\<newline>''
       [Va_long (get_free_mem_size_from_buddy m div 1024 div 1024), Va_long (get_free_mem_size_from_buddy m div 1024 mod 1024),
        Va_long (get_total_mem_size_from_buddy m div 1024 div 1024), Va_long (get_total_mem_size_from_buddy m div 1024 mod 1024)] d))"

text \<open>The counts are \<open>int\<close>s that \<open>%lu\<close> reads as 64 bits: the upper half is whatever the argument register holds,
  \<open>up\<close>.\<close>

fun slab_counts :: "kmem \<Rightarrow> nat list \<Rightarrow> u32 list result" where
  "slab_counts k [] = Inr []"
| "slab_counts k (ix # ixs) =
     bindR (calculate_slab_free_block_count k ix) (\<lambda>c. bindR (slab_counts k ixs) (\<lambda>cs. Inr (c # cs)))"

fun print_counts :: "hardware \<Rightarrow> u64 \<Rightarrow> u32 \<Rightarrow> nat \<Rightarrow> u32 list \<Rightarrow> io \<Rightarrow> io result" where
  "print_counts hw u0 up ix [] d = Inr d"
| "print_counts hw u0 up ix (c # cs) d =
     bindR (log_info hw u0 ''slab pool of order-%d: free block count %lu\<newline>''
       [Va_int (of_nat ix), Va_long ((or) (push_bit 32 (ucast up)) (ucast c))] d) (print_counts hw u0 up (ix + 1) cs)"

definition print_slab_info :: "hardware \<Rightarrow> u64 \<Rightarrow> u32 \<Rightarrow> kmem \<Rightarrow> io \<Rightarrow> io result" where
  "print_slab_info hw u0 up k d = bindR (slab_counts k [0..<SLAB_POOL_SIZE]) (\<lambda>cs. print_counts hw u0 up 0 cs d)"

section \<open>The slab test\<close>

definition NUM_OPERATIONS :: nat where "NUM_OPERATIONS = 1000"

fun compare_allocations :: "vaddr_t list \<Rightarrow> vaddr_t list \<Rightarrow> bool" where
  "compare_allocations (a # as) (b # bs) = (if a \<noteq> b then False else compare_allocations as bs)"
| "compare_allocations _ _ = True"

fun alloc_all :: "size_t list \<Rightarrow> kmem \<Rightarrow> (vaddr_t list \<times> kmem) result" where
  "alloc_all [] k = Inr ([], k)"
| "alloc_all (sz # szs) k =
     bindR (slab_alloc sz k) (\<lambda>(a, k).
     bindR (assert_that (a \<noteq> NULL)) (\<lambda>_.
     bindR (alloc_all szs k) (\<lambda>(as, k). Inr (a # as, k))))"

fun free_all :: "vaddr_t list \<Rightarrow> kmem \<Rightarrow> kmem result" where
  "free_all [] k = Inr k"
| "free_all (a # as) k =
     bindR (slab_free a k) (\<lambda>(err, k).
     bindR (assert_that (err = 0)) (\<lambda>_. free_all as k))"

definition run_test :: "size_t list \<Rightarrow> kmem \<Rightarrow> kmem result" where
  "run_test szs k =
     bindR (alloc_all (take NUM_OPERATIONS szs) k) (\<lambda>(allocation, k).
     bindR (free_all (rev allocation) k) (\<lambda>k.
     bindR (alloc_all (take NUM_OPERATIONS szs) k) (\<lambda>(allocation', k).
     bindR (assert_that (compare_allocations allocation allocation')) (\<lambda>_.
     free_all allocation' k))))"

fun alloc_free_each :: "size_t list \<Rightarrow> kmem \<Rightarrow> kmem result" where
  "alloc_free_each [] k = Inr k"
| "alloc_free_each (sz # szs) k =
     bindR (slab_alloc sz k) (\<lambda>(a, k).
     bindR (slab_free a k) (\<lambda>(err, k).
     bindR (assert_that (err = 0)) (\<lambda>_. alloc_free_each szs k)))"

definition run_test1 :: "size_t list \<Rightarrow> kmem \<Rightarrow> kmem result" where
  "run_test1 szs k = alloc_free_each (take NUM_OPERATIONS szs) k"

text \<open>The table gives fewer than its 2000 elements; the rest are 0.\<close>

definition test_sizes :: "size_t list" where
  "test_sizes = [
     1121, 482, 1469, 648, 1204, 413, 1096, 302, 704, 1008, 1517, 1110, 1992, 865, 815, 1577, 227, 1799, 648, 1178, 1357, 286, 1795, 776, 1974, 654,
     1363, 1239, 1555, 338, 1467, 274, 740, 929, 1180, 226, 1327, 1055, 1595, 1077, 1091, 1775, 680, 1030, 247, 1817, 1706, 475, 797, 799, 1588, 1052,
     531, 1985, 1399, 1061, 878, 1272, 522, 1024, 1299, 1899, 1214, 1069, 302, 893, 720, 387, 295, 1108, 225, 1450, 1759, 1390, 1095, 330, 1362, 1254,
     726, 982, 235, 1131, 238, 1869, 754, 445, 987, 951, 1006, 1156, 1223, 1259, 855, 1300, 1877, 539, 1196, 397, 338, 1265, 1341, 1278, 271, 343,
     681, 978, 1393, 268, 1669, 1718, 1531, 753, 330, 1067, 1815, 313, 1004, 705, 1222, 1433, 1790, 1244, 582, 1765, 1106, 1559, 1172, 552, 838, 270,
     446, 1764, 988, 1362, 1206, 1621, 507, 680, 592, 503, 1181, 883, 289, 935, 1729, 657, 1117, 1282, 745, 1734, 604, 1670, 819, 1511, 331, 1154,
     1273, 1170, 1361, 254, 973, 289, 819, 644, 1024, 1521, 1628, 1334, 780, 1425, 700, 990, 1841, 1974, 907, 596, 476, 1307, 1410, 604, 695, 1563,
     368, 553, 932, 1612, 1348, 1538, 1339, 1568, 1429, 1483, 1071, 984, 979, 1012, 1416, 1313, 1037, 593, 1970, 1029, 1094, 1967, 628, 1089, 894,
     1320, 1419, 1059, 789, 1372, 1369, 510, 459, 606, 1730, 1098, 1057, 470, 477, 1545, 1619, 1622, 896, 544, 1123, 417, 1837, 1171, 505, 833, 408,
     1016, 1041, 1309, 276, 736, 930, 1135, 1528, 847, 1867, 1700, 1296, 1284, 1202, 1498, 1437, 609, 1257, 946, 1183, 1447, 1118, 920, 755, 881, 909,
     1247, 661, 1229, 1137, 332, 1753, 1979, 773, 1242, 1459, 512, 791, 1049, 764, 1097, 1136, 1454, 1237, 1030, 1747, 1981, 1366, 559, 552, 455,
     1315, 1377, 671, 453, 508, 1562, 417, 759, 1245, 1375, 1144, 1499, 303, 1025, 324, 739, 671, 982, 832, 1617, 1472, 1103, 1940, 1182, 843, 1046,
     656, 1035, 431, 1754, 927, 1376, 836, 1290, 503, 738, 1125, 1129, 1346, 1707, 1310, 1542, 1430, 587, 1195, 1000, 508, 924, 1054, 741, 1682, 324,
     1143, 1027, 1104, 1044, 992, 768, 455, 1589, 819, 1225, 1600, 986, 1420, 1749, 1719, 1066, 1544, 1411, 1515, 623, 960, 1153, 1090, 889, 1200,
     1380, 1241, 806, 1758, 616, 1335, 513, 981, 1596, 1674, 1382, 505, 1064, 960, 1350, 1943, 908, 1671, 477, 1413, 1126, 817, 1220, 673, 1297, 1354,
     1173, 1679, 1813, 1293, 1007, 676, 471, 882, 959, 1627, 1453, 1179, 664, 987, 1969, 1344, 1015, 1853, 1142, 1100, 1463, 832, 1149, 836, 919,
     1739, 852, 1111, 1001, 563, 1417, 1715, 858, 455, 1115, 1068, 945, 875, 919, 493, 1291, 1689, 1919, 982, 1345, 1249, 1368, 516, 1043, 1844, 1688,
     834, 1394, 1177, 938, 1385, 1947, 1745, 792, 1660, 1203, 1034, 1495, 952, 1905, 857, 649, 1075, 882, 1175, 1228, 1003, 1060, 720, 665, 1240, 987,
     508, 1292, 1120, 925, 1058, 1774, 1121, 482, 1469, 648, 1204, 413, 1096, 302, 704, 1008, 1517, 1110, 1992, 865, 815, 1577, 227, 1799, 648, 1178,
     1357, 286, 1795, 776, 1974, 654, 1363, 1239, 1555, 338, 1467, 274, 740, 929, 1180, 226, 1327, 1055, 1595, 1077, 1091, 1775, 680, 1030, 247, 1817,
     1706, 475, 797, 799, 1588, 1052, 531, 1985, 1399, 1061, 878, 1272, 522, 1024, 1299, 1899, 1214, 1069, 302, 893, 720, 387, 295, 1108, 225, 1450,
     1759, 1390, 1095, 330, 1362, 1254, 726, 982, 235, 1131, 238, 1869, 754, 445, 987, 951, 1006, 1156, 1223, 1259, 855, 1300, 1877, 539, 1196, 397,
     338, 1265, 1341, 1278, 271, 343, 681, 978, 1393, 268, 1669, 1718, 1531, 753, 330, 1067, 1815, 313, 1004, 705, 1222, 1433, 1790, 1244, 582, 1765,
     1106, 1559, 1172, 552, 838, 270, 446, 1764, 988, 1362, 1206, 1621, 507, 680, 592, 503, 1181, 883, 289, 935, 1729, 657, 1117, 1282, 745, 1734,
     604, 1670, 819, 1511, 331, 1154, 1273, 1170, 1361, 254, 973, 289, 819, 644, 1024, 1521, 1628, 1334, 780, 1425, 700, 990, 1841, 1974, 907, 596,
     476, 1307, 1410, 604, 695, 1563, 368, 553, 932, 1612, 1348, 1538, 1339, 1568, 1429, 1483, 1071, 984, 979, 1012, 1416, 1313, 1037, 593, 1970,
     1029, 1094, 1967, 628, 1089, 894, 1320, 1419, 1059, 789, 1372, 1369, 510, 459, 606, 1730, 1098, 1057, 470, 477, 1545, 1619, 1622, 896, 544, 1123,
     417, 1837, 1171, 505, 833, 408, 1016, 1041, 1309, 276, 736, 930, 1135, 1528, 847, 1867, 1700, 1296, 1284, 1202, 1498, 1437, 609, 1257, 946, 1183,
     1447, 1118, 920, 755, 881, 909, 1247, 661, 1229, 1137, 332, 1753, 1979, 773, 1242, 1459, 512, 791, 1049, 764, 1097, 1136, 1454, 1237, 1030, 1747,
     1981, 1366, 559, 552, 455, 1315, 1377, 671, 453, 508, 1562, 417, 759, 1245, 1375, 1144, 1499, 303, 1025, 324, 739, 671, 982, 832, 1617, 1472,
     1103, 1940, 1182, 843, 1046, 656, 1035, 431, 1754, 927, 1376, 836, 1290, 503, 738, 1125, 1129, 1346, 1707, 1310, 1542, 1430, 587, 1195, 1000,
     508, 924, 1054, 741, 1682, 324, 1143, 1027, 1104, 1044, 992, 768, 455, 1589, 819, 1225, 1600, 986, 1420, 1749, 1719, 1066, 1544, 1411, 1515, 623,
     960, 1153, 1090, 889, 1200, 1380, 1241, 806, 1758, 616, 1335, 513, 981, 1596, 1674, 1382, 505, 1064, 960, 1350, 1943, 908, 1671, 477, 1413, 1126,
     817, 1220, 673, 1297, 1354, 1173, 1679, 1813, 1293, 1007, 676, 471, 882, 959, 1627, 1453, 1179, 664, 987, 1969, 1344, 1015, 1853, 1142, 1100,
     1463, 832, 1149, 836, 919, 1739, 852, 1111, 1001, 563, 1417, 1715, 858, 455, 1115, 1068, 945, 875, 919, 493, 1291, 1689, 1919, 982, 1345, 1249,
     1368, 516, 1043, 1844, 1688, 834, 1394, 1177, 938, 1385, 1947, 1745, 792, 1660, 1203, 1034, 1495, 952, 1905, 857, 649, 1075, 882, 1175, 1228,
     1003, 1060, 720, 665, 1240, 987, 508, 1292, 1120, 925, 1058, 1774, 1121, 482, 1469, 648, 1204, 413, 1096, 302, 704, 1008, 1517, 1110, 1992, 865,
     815, 1577, 227, 1799, 648, 1178, 1357, 286, 1795, 776, 1974, 654, 1363, 1239, 1555, 338, 1467, 274, 740, 929, 1180, 226, 1327, 1055, 1595, 1077,
     1091, 1775, 680, 1030, 247, 1817, 1706, 475, 797, 799, 1588, 1052, 531, 1985, 1399, 1061, 878, 1272, 522, 1024, 1299, 1899, 1214, 1069, 302, 893,
     720, 387, 295, 1108, 225, 1450, 1759, 1390, 1095, 330, 1362, 1254, 726, 982, 235, 1131, 238, 1869, 754, 445, 987, 951, 1006, 1156, 1223, 1259,
     855, 1300, 1877, 539, 1196, 397, 338, 1265, 1341, 1278, 271, 343, 681, 978, 1393, 268, 1669, 1718, 1531, 753, 330, 1067, 1815, 313, 1004, 705,
     1222, 1433, 1790, 1244, 582, 1765, 1106, 1559, 1172, 552, 838, 270, 446, 1764, 988, 1362, 1206, 1621, 507, 680, 592, 503, 1181, 883, 289, 935,
     1729, 657, 1117, 1282, 745, 1734, 604, 1670, 819, 1511, 331, 1154, 1273, 1170, 1361, 254, 973, 289, 819, 644, 1024, 1521, 1628, 1334, 780, 1425,
     700, 990, 1841, 1974, 907, 596, 476, 1307, 1410, 604, 695, 1563, 368, 553, 932, 1612, 1348, 1538, 1339, 1568, 1429, 1483, 1071, 984, 979, 1012,
     1416, 1313, 1037, 593, 1970, 1029, 1094, 1967, 628, 1089, 894, 1320, 1419, 1059, 789, 1372, 1369, 510, 459, 606, 1730, 1098, 1057, 470, 477,
     1545, 1619, 1622, 896, 544, 1123, 417, 1837, 1171, 505, 833, 408, 1016, 1041, 1309, 276, 736, 930, 1135, 1528, 847, 1867, 1700, 1296, 1284, 1202,
     1498, 1437, 609, 1257, 946, 1183, 1447, 1118, 920, 755, 881, 909, 1247, 661, 1229, 1137, 332, 1753, 1979, 773, 1242, 1459, 512, 791, 1049, 764,
     1097, 1136, 1454, 1237, 1030, 1747, 1981, 1366, 559, 552, 455, 1315, 1377, 671, 453, 508, 1562, 417, 759, 1245, 1375, 1144, 1499, 303, 1025, 324,
     739, 671, 982, 832, 1617, 1472, 1103, 1940, 1182, 843, 1046, 656, 1035, 431, 1754, 927, 1376, 836, 1290, 503, 738, 1125, 1129, 1346, 1707, 1310,
     1542, 1430, 587, 1195, 1000, 508, 924, 1054, 741, 1682, 324, 1143, 1027, 1104, 1044, 992, 768, 455, 1589, 819, 1225, 1600, 986, 1420, 1749, 1719,
     1066, 1544, 1411, 1515, 623, 960, 1153, 1090, 889, 1200, 1380, 1241, 806, 1758, 616, 1335, 513, 981, 1596, 1674, 1382, 505, 1064, 960, 1350,
     1943, 908, 1671, 477, 1413, 1126, 817, 1220, 673, 1297, 1354, 1173, 1679, 1813, 1293, 1007, 676, 471, 882, 959, 1627, 1453, 1179, 664, 987, 1969,
     1344, 1015, 1853, 1142, 1100, 1463, 832, 1149, 836, 919, 1739, 852, 1111, 1001, 563, 1417, 1715, 858, 455, 1115, 1068, 945, 875, 919, 493, 1291,
     1689, 1919, 982, 1345, 1249, 1368, 516, 1043, 1844, 1688, 834, 1394, 1177, 938, 1385, 1947, 1745, 792, 1660, 1203, 1034, 1495, 952, 1905, 857,
     649, 1075, 882, 1175, 1228, 1003, 1060, 720, 665, 1240, 987, 508, 1292, 1120, 925, 1058, 1774, 1121, 482, 1469, 648, 1204, 413, 1096, 302, 704,
     1008, 1517, 1110, 1992, 865, 815, 1577, 227, 1799] @ replicate 572 0"

text \<open>\<open>while (loop-- > 0)\<close>, with \<open>n\<close> rounds left.\<close>

fun slab_test_loop :: "hardware \<Rightarrow> u64 \<Rightarrow> nat \<Rightarrow> u32 \<Rightarrow> kmem \<times> io \<Rightarrow> (kmem \<times> io) result" where
  "slab_test_loop hw u0 0 i (k, d) = Inr (k, d)"
| "slab_test_loop hw u0 (Suc n) i (k, d) =
     bindR (if n mod 100 = 0 then bindR (printk hw u0 ''...%d%%'' [Va_int (i * 10)] d) (\<lambda>d. Inr (i + 1, d)) else Inr (i, d)) (\<lambda>(i, d).
     bindR (run_test1 test_sizes k) (\<lambda>k.
     bindR (run_test test_sizes k) (\<lambda>k. slab_test_loop hw u0 n i (k, d))))"

definition test_slab :: "hardware \<Rightarrow> u64 \<Rightarrow> kmem \<times> io \<Rightarrow> (kmem \<times> io) result" where
  "test_slab hw u0 = (\<lambda>(k, d).
     bindR (log_info hw u0 ''Start slab test'' [] d) (\<lambda>d.
     let free_buddy_size_before = get_free_mem_size_from_buddy (region k) in
     bindR (slab_test_loop hw u0 1000 0 (k, d)) (\<lambda>(k, d).
     let free_buddy_size_after = get_free_mem_size_from_buddy (region k) in
     bindR (assert_that (free_buddy_size_after = free_buddy_size_before)) (\<lambda>_.
     bindR (printk hw u0 ''...100%%\<newline>'' [] d) (\<lambda>d.
     bindR (log_info hw u0 ''Slab test passed\<newline>'' [] d) (\<lambda>d. Inr (k, d)))))))"

section \<open>The heap test\<close>

fun kmalloc_test_round :: "nat list \<Rightarrow> kmem \<Rightarrow> kmem result" where
  "kmalloc_test_round [] k = Inr k"
| "kmalloc_test_round (i # is) k =
     bindR (kmalloc_real (push_bit i 1 - 1) k) (\<lambda>(ptr, size_real, k).
     bindR (kfree ptr k) (kmalloc_test_round is))"

fun kmalloc_test_loop :: "nat \<Rightarrow> kmem \<Rightarrow> kmem result" where
  "kmalloc_test_loop 0 k = Inr k"
| "kmalloc_test_loop (Suc n) k = bindR (kmalloc_test_round [1..<23] k) (kmalloc_test_loop n)"

definition kmalloc_test :: "hardware \<Rightarrow> u64 \<Rightarrow> kmem \<times> io \<Rightarrow> (kmem \<times> io) result" where
  "kmalloc_test hw u0 = (\<lambda>(k, d).
     let free_buddy_size_before = get_free_mem_size_from_buddy (region k) in
     bindR (kmalloc_test_loop 1000 k) (\<lambda>k.
     let free_buddy_size_after = get_free_mem_size_from_buddy (region k) in
     bindR (assert_that (free_buddy_size_after = free_buddy_size_before)) (\<lambda>_.
     bindR (log_info hw u0 ''kmalloc test passed\<newline>'' [] d) (\<lambda>d. Inr (k, d)))))"

section \<open>The whole of mm\_init\<close>

text \<open>\<open>Kmalloc.mm_init\<close> with its messages, followed by the self tests.\<close>

definition mm_init_tested :: "hardware \<Rightarrow> u64 \<Rightarrow> u32 \<Rightarrow> paddr_t \<Rightarrow> kmem \<times> io \<Rightarrow> (kmem \<times> io) result" where
  "mm_init_tested hw u0 up img_end = (\<lambda>(k, d).
     bindR (init_buddy img_end) (\<lambda>m.
     bindR (log_info hw u0 ''Buddy system initialized.\<newline>'' [] d) (\<lambda>d.
     bindR (print_buddy_info hw u0 m d) (\<lambda>d.
     bindR (init_slab (k\<lparr>region := m\<rparr>)) (\<lambda>k.
     bindR (log_info hw u0 ''Slab allocator initialized.\<newline>'' [] d) (\<lambda>d.
     bindR (print_slab_info hw u0 up k d) (\<lambda>d.
     bindR (test_slab hw u0 (k, d)) (kmalloc_test hw u0))))))))"

end
