(* ===== verification/Heap_Size.thy ===== *)
theory Heap_Size
  imports Kmalloc_Props
begin

text \<open>
  What the allocators never change: the size of the region. With the accounting of the buddy system this turns a
  comparison of free memory, as the self tests make it, into a statement about what is allocated.
\<close>

section \<open>The region\<close>

named_theorems size_kept

lemma region_step_size [size_kept]:
  "put_page i g m = Inr m' \<Longrightarrow> region_size m' = region_size m"
  "on_nodes w m = Inr m' \<Longrightarrow> region_size m' = region_size m"
  "lock_region m = Inr m' \<Longrightarrow> region_size m' = region_size m"
  by (auto simp: put_page_def on_nodes_def lock_region_def bindR_Inr split: if_splits)

lemma unlock_region_size [simp]: "region_size (unlock_region m) = region_size m"
  by (simp add: unlock_region_def)

lemma take_first_size [size_kept]: "take_first_chunk ix m = Inr (c, m') \<Longrightarrow> region_size m' = region_size m"
  by (auto simp: take_first_chunk_def bindR_Inr dest!: size_kept split: option.splits)

lemma split_halves_size [size_kept]: "split_halves c ord m = Inr (c', m') \<Longrightarrow> region_size m' = region_size m"
  by (auto simp: split_halves_def bindR_Inr Let_def dest!: size_kept)

lemma split_chunk_size [size_kept]: "split_chunk ord m = Inr (c, m') \<Longrightarrow> region_size m' = region_size m"
proof (induction ord m arbitrary: c m' rule: split_chunk.induct)
  case (1 ord m)
  show ?case
  proof (cases "ord < 1 \<or> ord \<ge> BUDDY_MAX_ORDER")
    case False
    then obtain ix c1 m1 where 2: "free_list_index ord = Inr ix"
      "(if nr_free m ix = 0 then split_chunk (ord + 1) m else take_first_chunk ix m) = Inr (c1, m1)"
      "(case c1 of None \<Rightarrow> Inr (None, m1) | Some d \<Rightarrow> split_halves d (ord - 1) m1) = Inr (c, m')"
      using 1(2) by (subst (asm) split_chunk.simps) (auto simp: bindR_Inr)
    have "region_size m1 = region_size m" using 1(1) [OF False 2(1)] 2(2) by (auto dest: size_kept split: if_splits)
    then show ?thesis using 2(3) by (auto dest: size_kept split: option.splits)
  qed (use 1(2) in \<open>subst (asm) split_chunk.simps, simp\<close>)
qed

text \<open>\<open>merge_chunk\<close> stops, or takes the buddy off its list and goes on with the merged chunk.\<close>

lemma merge_chunk_size [size_kept]: "merge_chunk c m = Inr (c', m') \<Longrightarrow> region_size m' = region_size m"
proof (induction c m arbitrary: c' m' rule: merge_chunk.induct)
  case (1 c m)
  from 1(2) consider "m' = m" | i p ix cm b pb u m1 m2 where "c = Some i" "get_page m i = Inr p" "free_list_index (page_order p) = Inr ix"
      "\<not> (nr_free m ix = 0 \<or> page_order p = BUDDY_MAX_ORDER - 1)"
      "virt_to_page m (ROUND_DOWN (page_to_virt m i) (BUDDY_CHUNK_SIZE (page_order p + 1))) = Some cm"
      "(if Some cm = Some i then Some (i + BUDDY_CHUNK_PAGES_COUNT (page_order p)) else Some cm) = Some b"
      "get_page m b = Inr pb" "\<not> (page_allocated pb = 1 \<or> page_order pb \<noteq> page_order p)"
      "page_in_list m (Some b) (FreeHead ix) = Inr u" "BUG_ON (\<not> u) = Inr ()" "on_nodes (list_del (PageNode b)) m = Inr m1"
      "put_page cm (\<lambda>q. q\<lparr>page_order := page_order p + 1\<rparr>) (m1\<lparr>nr_free := (nr_free m1)(ix := nr_free m1 ix - 1)\<rparr>) = Inr m2"
      "merge_chunk (Some cm) m2 = Inr (c', m')"
    by (subst (asm) merge_chunk.simps [of c m]) (auto simp: bindR_Inr Let_def split: option.split_asm if_split_asm)
  then show ?case
  proof cases
    case (2 i p ix cm b pb u m1 m2)
    have "region_size m' = region_size m2"
      by (rule 1(1) [OF 2(1-4) 2(5) [symmetric] 2(6) [symmetric] refl 2(7-11) refl 2(12,13)])
    then show ?thesis using 2(11,12) by (auto dest!: region_step_size)
  qed simp
qed

lemma buddy_get_size [size_kept]:
  assumes "buddy_get_pages ord m = Inr (p, m')"
  shows "region_size m' = region_size m"
proof -
  obtain m1 ix q m2 where 1: "lock_region m = Inr m1"
    "(if nr_free m1 ix = 0 then split_chunk (ord + 1) m1 else take_first_chunk ix m1) = Inr (q, m2)"
    "case q of None \<Rightarrow> m' = unlock_region m2 | Some i \<Rightarrow> \<exists>g m3. put_page i g m2 = Inr m3 \<and> m' = unlock_region m3"
  proof -
    obtain m1 ix q m2 where 2: "lock_region m = Inr m1"
      "(if nr_free m1 ix = 0 then split_chunk (ord + 1) m1 else take_first_chunk ix m1) = Inr (q, m2)"
      "(case q of None \<Rightarrow> Inr (None, unlock_region m2) | Some i \<Rightarrow> bindR (get_page m2 i) (\<lambda>r.
         if page_allocated r = 1 then Inl KERROR else bindR (BUG_ON (page_allocated r = 1)) (\<lambda>_. bindR (BUG_ON (page_order r \<noteq> ord)) (\<lambda>_.
         bindR (put_page i (\<lambda>p. p\<lparr>page_allocated := 1\<rparr>) m2) (\<lambda>m. Inr (q, unlock_region m)))))) = Inr (p, m')"
      using assms by (simp add: buddy_get_pages_def bindR_Inr [of _ _ "(p, m')"] del: split_paired_Ex) (auto simp del: if_split)
    then show ?thesis by (intro that [OF 2(1,2)]) (auto simp: bindR_Inr split: option.split_asm if_split_asm)
  qed
  have "region_size m2 = region_size m1" using 1(2) by (auto dest: split_chunk_size take_first_size split: if_splits)
  then show ?thesis using 1(1,3) by (auto dest!: region_step_size split: option.splits)
qed

lemma buddy_free_size [size_kept]:
  assumes "buddy_free_pages p m = Inr m'"
  shows "region_size m' = region_size m"
proof -
  obtain m1 i g m2 q m3 w m4 h where "lock_region m = Inr m1" "put_page i g m1 = Inr m2" "merge_chunk p m2 = Inr (q, m3)"
    "on_nodes w m3 = Inr m4" "m' = unlock_region (m4\<lparr>nr_free := h\<rparr>)"
    using assms unfolding buddy_free_pages_def by (auto simp: bindR_Inr split: option.split_asm)
  then show ?thesis by (auto dest!: region_step_size merge_chunk_size)
qed

section \<open>The heap\<close>

abbreviation mem_size :: "kmem \<Rightarrow> u64" where
  "mem_size k \<equiv> region_size (region k)"

lemma heap_step_region:
  "put_header s g k = Inr k' \<Longrightarrow> region k' = region k"
  "put_next_block b v k = Inr k' \<Longrightarrow> region k' = region k"
  "on_snodes w k = Inr k' \<Longrightarrow> region k' = region k"
  "lock_container ix k = Inr k' \<Longrightarrow> region k' = region k"
  by (auto simp: put_header_def put_next_block_def on_snodes_def lock_container_def bindR_Inr split: if_split_asm)

lemma set_current_region [simp]: "region (set_current ix s k) = region k" "region (unlock_container ix k) = region k"
  by (simp_all add: set_current_def)

lemma partial_region:
  assumes "get_from_partial_list ix k = Inr (s, k')"
  shows "region k' = region k"
proof -
  obtain e where e: "of_option (list_empty (PartialHead ix) (snodes k)) = Inr e"
    using assms by (auto simp: get_from_partial_list_def bindR_Inr)
  show ?thesis
  proof (cases e)
    case False
    then obtain n where n: "(case n of SlabNode t \<Rightarrow> bindR (on_snodes (list_del (SlabNode t)) k) (\<lambda>k. Inr (t, k)) | _ \<Rightarrow> Inl FAULT) = Inr (s, k')"
      using assms e by (auto simp: get_from_partial_list_def bindR_Inr [of "of_option (get_next (snodes k) (PartialHead ix))"])
    then show ?thesis by (cases n) (auto simp: bindR_Inr dest!: heap_step_region)
  qed (use assms e in \<open>simp add: get_from_partial_list_def\<close>)
qed

lemma free_block_region: "slab_get_free_block s k = Inr (b, k') \<Longrightarrow> region k' = region k"
  by (auto simp: slab_get_free_block_def bindR_Inr Let_def dest!: heap_step_region)

lemma put_block_region: "slab_put_block s b k = Inr k' \<Longrightarrow> region k' = region k"
  by (auto simp: slab_put_block_def bindR_Inr Let_def dest!: heap_step_region)

lemma link_blocks_keeps_region: "link_blocks sz lim b k = Some r \<Longrightarrow> r = Inr (b', k') \<Longrightarrow> region k' = region k"
proof (induction sz lim b k r rule: link_blocks.raw_induct [rotated, consumes 1])
  case (1 f sz lim b k r)
  show ?case
  proof (cases "b < lim")
    case True
    then obtain k1 where k1: "put_next_block b (b + sz) k = Inr k1" "f sz lim (b + sz) k1 = Some r"
      using 1(2,3) by (auto simp: Let_def split: sum.split_asm)
    then show ?thesis using 1(1) [OF k1(2) 1(3)] heap_step_region(2) by simp
  qed (use 1(2,3) in auto)
qed

lemmas heap_regions = heap_step_region partial_region free_block_region put_block_region link_blocks_keeps_region [OF _ refl]

lemma set_page_slabs_size: "set_page_slabs n i v m = Inr m' \<Longrightarrow> region_size m' = region_size m"
  by (induction n i v m rule: set_page_slabs.induct) (auto simp: bindR_Inr dest: region_step_size)

lemma update_region_size:
  "update_region f k = Inr k' \<Longrightarrow> (\<And>m'. f (region k) = Inr m' \<Longrightarrow> region_size m' = mem_size k) \<Longrightarrow> mem_size k' = mem_size k"
  by (auto simp: update_region_def bindR_Inr)

text \<open>A predicate that composes through \<^const>\<open>bindR\<close>: a run that returns leaves a region of size \<open>z\<close>.\<close>

definition sized :: "u64 \<Rightarrow> ('a \<Rightarrow> kmem) \<Rightarrow> 'a result \<Rightarrow> bool" where
  "sized z f r \<longleftrightarrow> (\<forall>x. r = Inr x \<longrightarrow> mem_size (f x) = z)"

lemma sized_Inr [simp]: "sized z f (Inr x) \<longleftrightarrow> mem_size (f x) = z"
  and sized_Inl [simp]: "sized z f (Inl e)"
  by (simp_all add: sized_def)

lemma sizedD: "sized z f r \<Longrightarrow> r = Inr x \<Longrightarrow> mem_size (f x) = z"
  by (simp add: sized_def)

lemma sized_bind:
  "sized z g r \<Longrightarrow> (\<And>x. r = Inr x \<Longrightarrow> mem_size (g x) = z \<Longrightarrow> sized z f (c x)) \<Longrightarrow> sized z f (bindR r c)"
  by (cases r) (auto simp: sized_def)

lemma sized_pure: "(\<And>x. r = Inr x \<Longrightarrow> sized z f (c x)) \<Longrightarrow> sized z f (bindR r c)"
  by (cases r) auto

lemma sized_steps:
  "mem_size k = z \<Longrightarrow> sized z (\<lambda>k. k) (put_header s g k)"
  "mem_size k = z \<Longrightarrow> sized z (\<lambda>k. k) (put_next_block b v k)"
  "mem_size k = z \<Longrightarrow> sized z (\<lambda>k. k) (on_snodes w k)"
  "mem_size k = z \<Longrightarrow> sized z (\<lambda>k. k) (lock_container ix k)"
  "mem_size k = z \<Longrightarrow> sized z (\<lambda>k. k) (update_region (set_page_slabs n i t) k)"
  "mem_size k = z \<Longrightarrow> sized z (\<lambda>k. k) (update_region (buddy_free_pages p) k)"
  "mem_size k = z \<Longrightarrow> sized z (\<lambda>k. k) (slab_put_block s b k)"
  "mem_size k = z \<Longrightarrow> sized z snd (get_from_partial_list ix k)"
  "mem_size k = z \<Longrightarrow> sized z snd (slab_get_free_block s k)"
  by (auto simp: sized_def dest!: heap_regions)
    (metis update_region_size set_page_slabs_size buddy_free_size)+

lemma alloc_slab_sized:
  assumes "mem_size k = z"
  shows "sized z snd (alloc_slab_from_buddy ord k)"
  unfolding alloc_slab_from_buddy_def Let_def
  apply (rule sized_pure)+
  apply (clarsimp split: option.split)
  using assms
  apply (intro conjI allI impI; simp add: buddy_get_size)
  apply (rule sized_bind [OF sized_steps(1)], simp add: buddy_get_size)
  apply (rule sized_bind [OF sized_steps(1)], simp)
  apply (clarsimp split: option.split)
  subgoal for _ _ _ _ _ r
    by (cases r)
      (auto dest!: link_blocks_keeps_region [OF _ refl] intro!: sized_bind [OF sized_steps(2)] sized_bind [OF sized_steps(5)])
  done

lemma set_new_current_sized:
  assumes "mem_size k = z"
  shows "sized z (\<lambda>k. k) (set_new_current_slab ix ord k)"
  unfolding set_new_current_slab_def Let_def
  by (rule sized_bind [OF sized_steps(8) [OF assms]]) (auto intro!: sized_bind [OF alloc_slab_sized])

lemma slab_alloc_order_sized:
  assumes "mem_size k = z"
  shows "sized z snd (slab_alloc_order ord k)"
  unfolding slab_alloc_order_def
  apply (rule sized_pure, rule sized_pure)
  apply (rule sized_bind [OF sized_steps(4) [OF assms]])
  apply (rule sized_bind [where g = snd])
   apply (simp add: alloc_slab_sized)
  apply clarsimp
  apply (rule sized_bind [OF sized_steps(9)], simp)
  apply clarsimp
  apply (rule sized_pure)
  apply (rule sized_bind [where g = "\<lambda>k. k"])
  by (auto intro!: sized_pure set_new_current_sized)

lemma put_slab_sized: "mem_size k = z \<Longrightarrow> sized z snd (put_slab_to_buddy s k)"
  unfolding put_slab_to_buddy_def
  apply (clarsimp split: option.split)
  apply (rule sized_pure)
  apply clarsimp
  apply (rule sized_bind [OF sized_steps(5)], simp)
  apply (rule sized_bind [OF sized_steps(6)])
  by simp_all

lemma slab_free_block_sized:
  assumes "mem_size k = z"
  shows "sized z snd (slab_free_block s b k)"
  unfolding slab_free_block_def Let_def
  apply (rule sized_pure, rule sized_pure, rule sized_pure)
  apply (rule sized_bind [OF sized_steps(4) [OF assms]])
  apply (rule sized_bind [OF sized_steps(7)], simp)
  apply (rule sized_pure)
  apply (simp only: if_split [of "sized z snd"] sized_Inr)
  apply (intro conjI impI)
    apply (rule sized_bind [OF sized_steps(3)], simp, rule sized_pure, simp)
   apply (rule sized_bind [OF put_slab_sized], simp)
   apply clarsimp
   apply (intro conjI impI)
    apply (rule sized_bind [OF sized_steps(8)]; clarsimp)
   apply (rule sized_bind [OF sized_steps(3)]; clarsimp)
  apply simp
  done

lemma slab_size_kept:
  "slab_alloc sz k = Inr (a, k') \<Longrightarrow> mem_size k' = mem_size k"
  "slab_free a k = Inr (err, k') \<Longrightarrow> mem_size k' = mem_size k"
proof -
  assume "slab_alloc sz k = Inr (a, k')"
  then show "mem_size k' = mem_size k"
    using sizedD [OF slab_alloc_order_sized [OF refl], of _ k "(a, k')"] by (auto simp: slab_alloc_def Let_def split: if_split_asm)
next
  assume "slab_free a k = Inr (err, k')"
  then show "mem_size k' = mem_size k"
    using sizedD [OF slab_free_block_sized [OF refl], of _ a k "(err, k')"] by (auto simp: slab_free_def bindR_Inr split: if_split_asm)
qed

lemma heap_size_kept:
  "kmalloc_real sz k = Inr (a, r, k') \<Longrightarrow> mem_size k' = mem_size k"
  "kfree a k = Inr k' \<Longrightarrow> mem_size k' = mem_size k"
proof -
  have "get_pages q k = Inr (b, k1) \<Longrightarrow> mem_size k1 = mem_size k" for q b k1
    by (auto simp: get_pages_def bindR_Inr dest!: buddy_get_size split: option.split_asm)
  then show "kmalloc_real sz k = Inr (a, r, k') \<Longrightarrow> mem_size k' = mem_size k"
    by (auto simp: kmalloc_real_def bindR_Inr dest!: slab_size_kept(1) split: if_split_asm)
  have "free_pages a k = Inr k' \<Longrightarrow> mem_size k' = mem_size k"
    by (auto simp: free_pages_def split: option.split_asm dest!: update_region_size intro: buddy_free_size)
  then show "kfree a k = Inr k' \<Longrightarrow> mem_size k' = mem_size k"
    by (auto simp: kfree_def bindR_Inr dest!: slab_size_kept(2) split: if_split_asm option.split_asm)
qed

end
