(* ===== verification/Selftest_Props.thy ===== *)
theory Selftest_Props
  imports Selftest Heap_Size PageTable_Props Irq_Props
begin

text \<open>
  What the self tests show and what they leave behind: they never fault, hang or lose memory; the heap test always
  passes, the slab test passes or stops at one of its assertions.
\<close>

section \<open>An idle heap\<close>

text \<open>No memory is allocated at all, not even to a slab.\<close>

definition heap_idle :: "kmem \<Rightarrow> bool" where
  "heap_idle k \<longleftrightarrow> (\<forall>ix < 6. sc_lock (slab_pool_g k ix) = 0) \<and>
     (\<exists>P. slab_core k Map.empty P \<and> pool_ok k Map.empty P) \<and> live_chunks (region k) = {}"

lemma no_objects [simp]: "slab_objects Map.empty = {}"
  by (simp add: slab_objects_def)

lemma live_none_big: "live_chunks m = {} \<Longrightarrow> big_objects m = {}"
  by (simp add: big_objects_def)

lemma idle_rep: "heap_idle k \<Longrightarrow> kmem_rep k {}"
  unfolding heap_idle_def kmem_rep_def using live_none_big no_objects by (metis Un_empty)

lemma idleI:
  assumes "kmem_rep k {}" "live_chunks (region k) = {}"
  shows "heap_idle k"
proof -
  obtain S P where S: "slab_core k S P" "pool_ok k S P" "\<forall>ix < 6. sc_lock (slab_pool_g k ix) = 0"
    using assms(1) unfolding kmem_rep_def by blast
  have "False" if s: "S s = Some (ord, F)" for s ord F
  proof -
    obtain i where "slab_at (region k) s i" using placed_at [OF S(1) s] .
    then show False using assms(2) by (simp add: slab_at_def)
  qed
  then have "S = Map.empty" by (intro ext) (metis not_None_eq prod.exhaust)
  then show ?thesis using S assms(2) unfolding heap_idle_def by blast
qed

lemma idle_from_core:
  assumes "slab_core k Map.empty P" "pool_ok k Map.empty P" "\<forall>ix < 6. sc_lock (slab_pool_g k ix) = 0" "big_objects (region k) = {}"
  shows "heap_idle k"
proof -
  note c = slab_coreD [OF assms(1)]
  have "live_chunks (region k) = {}"
  proof (rule ccontr)
    assume "live_chunks (region k) \<noteq> {}"
    then obtain i q where iq: "(i, q) \<in> live_chunks (region k)" by auto
    then have "page_slab (pages (region k) i) \<noteq> NULL" using assms(4) by (auto simp: big_objects_def)
    then show False using c(5) [OF chunk_span(6) [OF c(1) iq]] by simp
  qed
  then show ?thesis using assms unfolding heap_idle_def by blast
qed

lemma idle_free_size: "heap_idle k \<Longrightarrow> get_free_mem_size_from_buddy (region k) = mem_size k"
proof -
  assume "heap_idle k"
  then have "buddy_inv (region k)" "live_pages (region k) = 0"
    using slab_coreD(1) unfolding heap_idle_def by (auto simp: live_pages_def)
  from free_mem_size [OF this(1)] this(2) show ?thesis
    by (simp add: get_total_mem_size_from_buddy_def word_unat_eq_iff)
qed

lemma live_pages_zero:
  assumes "live_pages m = 0"
  shows "live_chunks m = {}"
proof -
  have "live_chunks m \<subseteq> (\<lambda>i. (i, nat (page_order (pages m i)))) ` {..<npages m}" by (auto simp: live_chunks_def)
  then have "finite (live_chunks m)" by (rule finite_subset) simp
  then show ?thesis using assms by (auto simp: live_pages_def sum_eq_0_iff)
qed

lemma free_size_idle:
  assumes "kmem_rep k {}" "get_free_mem_size_from_buddy (region k) = mem_size k"
  shows "heap_idle k"
proof -
  have inv: "buddy_inv (region k)" using assms(1) slab_coreD(1) unfolding kmem_rep_def by blast
  have "live_pages (region k) = 0"
    using free_mem_size [OF inv] assms(2) by (simp add: get_total_mem_size_from_buddy_def)
  from idleI [OF assms(1) live_pages_zero [OF this]] show ?thesis .
qed

section \<open>Blocks of the slabs\<close>

text \<open>A block of at most 2 KB goes back through \<open>slab_free\<close>.\<close>

lemma slab_free_correct:
  assumes rep: "kmem_rep k A" and x: "x \<in> A" "snd x \<le> 2 ^ 11"
  shows "\<exists>k'. slab_free (fst x) k = Inr (0, k') \<and> kmem_rep k' (A - {x})"
proof -
  obtain S P where core: "slab_core k S P" and A: "A = slab_objects S \<union> big_objects (region k)"
    using rep unfolding kmem_rep_def by blast
  have "x \<notin> big_objects (region k)"
  proof
    assume "x \<in> big_objects (region k)"
    then obtain q where "snd x = 2 ^ (12 + q)" by (auto simp: big_objects_def)
    moreover have "(2 :: nat) ^ 11 < 2 ^ (12 + q)" by (intro power_strict_increasing) simp_all
    ultimately show False using x(2) by simp
  qed
  then have xs: "x \<in> slab_objects S" using x(1) A by simp
  obtain s ord F j i where s: "S s = Some (ord, F)" "x = (blk s ord j, 2 ^ ord)" "j < blocks_of ord"
      "slab_at (region k) s i" "\<forall>p \<in> chunk_pages i 5. page_slab (pages (region k) p) = s" "s \<noteq> NULL"
    using slab_object_cases [OF core xs] by metis
  obtain p where p: "virt_to_page (region k) (fst x) = Some p" "p \<in> chunk_pages i 5"
    using blk_page [OF slab_coreD(1) [OF core] s(4) header_okD(3) [OF slab_coreD(3) [OF core s(1)]] s(3)] s(2) by auto
  obtain k' where k': "kfree (fst x) k = Inr k'" "kmem_rep k' (A - {x})" using kfree_correct [OF rep x(1)] by blast
  have nn: "fst x \<noteq> NULL" using slab_mapped(2) [OF core s(1,3)] s(2) by simp
  have "64 dvd unat (fst x)" by (rule kmem_object_aligned [OF rep x(1)])
  then have "fst x \<noteq> ZERO_SIZE_PTR" by (rule aligned_not_special)
  then obtain err where err: "slab_free (fst x) k = Inr (err, k')"
    using k'(1) p s(5,6) by (auto simp: kfree_def get_page_def bindR_Inr split: if_split_asm)
  then have "err = 0" using nn by (auto simp: slab_free_def bindR_Inr split: if_split_asm)
  then show ?thesis using err k'(2) by blast
qed

lemma slab_alloc_correct:
  assumes "kmem_rep k A"
  shows "\<exists>a k'. slab_alloc sz k = Inr (a, k') \<and> (a = NULL \<and> kmem_rep k' A \<or>
    a \<noteq> NULL \<and> (\<exists>n. (a, n) \<notin> A \<and> n \<le> 2 ^ 11 \<and> kmem_rep k' (insert (a, n) A)))"
proof (cases "size_to_slab_order sz = - 1")
  case True
  then show ?thesis using assms by (simp add: slab_alloc_def)
next
  case False
  then have sz: "0 < unat sz" "unat sz \<le> 2 ^ 11"
    using slab_constants(4) [of 11]
    by (auto simp: size_to_slab_order_def MAX_SLAB_BLOCK_ORDER_def word_less_nat_alt unat_gt_0 split: if_split_asm)
  obtain ix where ix: "size_to_slab_order sz = int (ix + 6)" "ix < 6"
    using size_to_slab_order_fits [OF sz] .
  have "(2 :: nat) ^ (ix + 6) \<le> 2 ^ 11" using ix(2) by (intro power_increasing) simp_all
  then show ?thesis using slab_alloc_order_correct [OF assms ix(2)] ix(1) unfolding slab_alloc_def by fastforce
qed

section \<open>One block from an idle heap\<close>

lemma idle_pool:
  assumes "pool_ok k Map.empty P" "cx < 6"
  shows "P cx = []" "current (slab_pool_g k cx) = NULL"
proof -
  note p = pool_okD [OF assms, unfolded pool_ix_def]
  have "set (P cx) = {}" using p by auto
  then show "P cx = []" by simp
  show "current (slab_pool_g k cx) = NULL" using p by auto
qed

lemma block_header:
  assumes core: "slab_core k S P" and S: "S s = Some (ord, F)" and j: "j < blocks_of ord"
  shows "slab_get_header (blk s ord j) k = Inr s"
proof -
  obtain i where i: "slab_at (region k) s i" "\<forall>j \<in> chunk_pages i 5. page_slab (pages (region k) j) = s" using placed_at [OF core S] .
  obtain p where p: "virt_to_page (region k) (blk s ord j) = Some p" "p \<in> chunk_pages i 5"
    using blk_page [OF slab_coreD(1) [OF core] i(1) header_okD(3) [OF slab_coreD(3) [OF core S]] j] .
  have "p < npages (region k)" using p(2) slab_at_facts(1) [OF slab_coreD(1) [OF core] i(1)] by (auto simp: chunk_pages_def)
  then show ?thesis using p i(2) header_mapped(2) [OF core S] by (simp add: slab_get_header_def get_page_def)
qed

text \<open>The only block of the only slab goes back: the slab returns to the buddy system.\<close>

lemma last_block_idle:
  assumes core: "slab_core k [s \<mapsto> (cx + 6, [2..<blocks_of (cx + 6)])] P" and P: "\<forall>jx < 6. P jx = []" and cx: "cx < 6"
    and cur: "\<And>jx. jx < 6 \<Longrightarrow> current (slab_pool_g k jx) = (if jx = cx then s else NULL)"
    and locks: "\<forall>jx < 6. sc_lock (slab_pool_g k jx) = 0" and big: "big_objects (region k) = {}"
  shows "\<exists>k'. slab_free_block s (blk s (cx + 6) 1) k = Inr (0, k') \<and> heap_idle k'"
proof -
  define n where "n = blocks_of (cx + 6)"
  define k0 where "k0 = k\<lparr>slab_pool_g := (slab_pool_g k)(cx := (slab_pool_g k cx)\<lparr>sc_lock := 1\<rparr>)\<rparr>"
  let ?S = "[s \<mapsto> (cx + 6, [2..<n])]" and ?S1 = "[s \<mapsto> (cx + 6, 1 # [2..<n])]"
  have S: "?S s = Some (cx + 6, [2..<n])" and S1: "?S1 s = Some (cx + 6, 1 # [2..<n])" by simp_all
  have core0: "slab_core k0 ?S P" using core by (simp add: k0_def n_def)
  have n: "64 \<le> n" using free_length(3) [of "cx + 6" "[2..<n]"] slab_coreD(3) [OF core0 S] by (simp add: header_ok_def n_def)
  have one: "1 \<le> (1 :: nat)" "1 < blocks_of (cx + 6)" "1 \<notin> set [2..<n]" using n by (simp_all add: n_def)
  obtain hs nb where
    put: "slab_put_block s (blk s (cx + 6) 1) k0 = Inr (k0\<lparr>headers := hs, next_block := nb\<rparr>)"
      "slab_core (k0\<lparr>headers := hs, next_block := nb\<rparr>) ?S1 P"
    by (rule slab_put_block_correct [OF core0 S one]) (simp only: fun_upd_upd)
  define k1 where "k1 = k0\<lparr>headers := hs, next_block := nb\<rparr>"
  have core1: "slab_core k1 ?S1 P" using put(2) by (simp add: k1_def)
  note h1 = header_okD [OF slab_coreD(3) [OF core1 S1]]
  have hd: "get_header k1 s = Inr (headers k1 s)" using header_mapped(1) [OF core1 S1] by (simp add: get_header_def)
  have fs: "free_set_ok (cx + 6) (1 # [2..<n])" using slab_coreD(3) [OF core1 S1] by (simp add: header_ok_def)
  have full: "length (1 # [2..<n]) + 1 = blocks_of (cx + 6)" using n by (simp add: n_def)
  from put_slab_to_buddy_correct [OF core1 S1 full] obtain m' where
    m': "put_slab_to_buddy s k1 = Inr (0, k1\<lparr>region := m'\<rparr>)" "slab_core (k1\<lparr>region := m'\<rparr>) (?S1(s := None)) P"
      "big_objects m' = big_objects (region k1)" .
  define k2 where "k2 = k1\<lparr>region := m'\<rparr>"
  have core2: "slab_core k2 Map.empty P" using m'(2) by (simp add: k2_def)
  have pool: "slab_pool_g k2 = slab_pool_g k0" "region k1 = region k" by (simp_all add: k2_def k1_def k0_def)
  have c: "current (slab_pool_g k2 cx) = s" using cur [OF cx] by (simp add: pool k0_def)
  have "get_from_partial_list cx k2 = Inr (NULL, k2)" using get_from_partial_list_correct [OF core2 cx] P cx by simp
  then have run: "slab_free_block s (blk s (cx + 6) 1) k = Inr (0, unlock_container cx (set_current cx NULL k2))"
    using slab_free_block_unfold [OF core [folded n_def] S cx, of "blk s (cx + 6) 1", folded k0_def] locks cx put(1) hd h1(6) m'(1) c
      free_count_cases [OF fs] n full
    by (simp add: k1_def [symmetric] k2_def [symmetric] n_def)
  moreover have "heap_idle (unlock_container cx (set_current cx NULL k2))"
  proof (rule idle_from_core)
    show "slab_core (unlock_container cx (set_current cx NULL k2)) Map.empty P" using core2 by (simp add: set_current_def)
    show "pool_ok (unlock_container cx (set_current cx NULL k2)) Map.empty P"
      using P cur by (auto simp: pool_ok_def pool_ix_def unlock_container_def set_current_def pool k0_def)
    show "\<forall>jx < 6. sc_lock (slab_pool_g (unlock_container cx (set_current cx NULL k2)) jx) = 0"
      using locks by (simp add: unlock_container_def set_current_def pool k0_def)
    show "big_objects (region (unlock_container cx (set_current cx NULL k2))) = {}" using m'(3) big pool(2) by (simp add: k2_def)
  qed
  ultimately show ?thesis by blast
qed

lemma no_slab_no_pages:
  assumes "slab_core k S P" "cx < 6" "alloc_slab_from_buddy (int (cx + 6)) k = Inr (- ENOMEM, k)"
  shows "buddy_get_pages (int 5) (region k) = Inr (None, region k)"
proof (rule buddy_get_pages_cases [OF slab_coreD(1) [OF assms(1)], of 5])
  fix i m1 assume "buddy_get_pages (int 5) (region k) = Inr (Some i, m1)"
  then show ?thesis
    using assms(2,3) by (auto simp: alloc_slab_from_buddy_def Let_def bindR_Inr ENOMEM_def split: option.split_asm)
qed simp_all

lemma alloc_free_idle:
  assumes idle: "heap_idle k" and cx: "cx < 6"
  shows "\<exists>a k1. slab_alloc_order (int (cx + 6)) k = Inr (a, k1) \<and>
    (a = NULL \<and> heap_idle k1 \<and> buddy_get_pages 5 (region k) = Inr (None, region k) \<or>
     a \<noteq> NULL \<and> (\<exists>k2. slab_free a k1 = Inr (0, k2) \<and> heap_idle k2))"
proof -
  obtain P where locks: "\<forall>jx < 6. sc_lock (slab_pool_g k jx) = 0" and core: "slab_core k Map.empty P" and pool: "pool_ok k Map.empty P"
      and live: "live_chunks (region k) = {}"
    using idle unfolding heap_idle_def by blast
  note none = idle_pool [OF pool] and big = live_none_big [OF live]
  define n where "n = blocks_of (cx + 6)"
  define k0 where "k0 = k\<lparr>slab_pool_g := (slab_pool_g k)(cx := (slab_pool_g k cx)\<lparr>sc_lock := 1\<rparr>)\<rparr>"
  have k0: "slab_core k0 Map.empty P" "region k0 = region k" using core by (simp_all add: k0_def)
  note run = slab_alloc_order_unfold [OF cx, of k, folded k0_def]
  show ?thesis
  proof (rule alloc_slab_from_buddy_correct [OF k0(1) cx refl])
    assume e: "alloc_slab_from_buddy (int (cx + 6)) k0 = Inr (- ENOMEM, k0)"
    have "slab_alloc_order (int (cx + 6)) k = Inr (NULL, unlock_container cx k0)"
      using run e none(2) [OF cx] locks cx by (simp add: ENOMEM_def)
    moreover have "heap_idle (unlock_container cx k0)"
      using locks k0 pool live by (auto simp: heap_idle_def pool_ok_def k0_def unlock_container_def)
    moreover have "buddy_get_pages 5 (region k) = Inr (None, region k)" using no_slab_no_pages [OF k0(1) cx e] k0(2) by simp
    ultimately show ?thesis by blast
  next
    fix s k1 assume a: "alloc_slab_from_buddy (int (cx + 6)) k0 = Inr (0, k1)" "s \<noteq> NULL"
      "slab_core k1 [s \<mapsto> (cx + 6, [1..<blocks_of (cx + 6)])] P" "big_objects (region k1) = big_objects (region k0)"
      "slab_pool_g k1 = (slab_pool_g k0)(cx := (slab_pool_g k0 cx)\<lparr>current := s\<rparr>)"
    have fs: "free_set_ok (cx + 6) [1..<n]" using slab_coreD(3) [OF a(3), of s] by (simp add: header_ok_def n_def)
    have n: "64 \<le> n" "n \<le> 2 ^ 11" using free_length(3,4) [OF fs] by (simp_all add: n_def)
    have S: "[s \<mapsto> (cx + 6, [1..<blocks_of (cx + 6)])] s = Some (cx + 6, 1 # [2..<n])" 
      using n upt_conv_Cons [of 1 n] by (simp only: n_def [symmetric]) (simp add: numeral_2_eq_2)
    obtain hs where hs: "slab_get_free_block s k1 = Inr (blk s (cx + 6) 1, k1\<lparr>headers := hs\<rparr>)"
        "slab_core (k1\<lparr>headers := hs\<rparr>) [s \<mapsto> (cx + 6, [2..<n])] P" "free_block_count (hs s) = of_nat (length [2..<n])"
      by (rule slab_get_free_block_correct [OF a(3) S]) (simp only: fun_upd_upd slab_header.select_convs)
    define k2 where "k2 = k1\<lparr>headers := hs\<rparr>"
    have nz: "free_block_count (hs s) \<noteq> 0" using hs(3) n unat32_of_nat [of "n - 2"] by (auto simp flip: unat_eq_0)
    have hd: "get_header k2 s = Inr (hs s)"
      using header_mapped(1) [OF hs(2), of s] by (simp add: get_header_def k2_def)
    have cur: "current (slab_pool_g k2 jx) = (if jx = cx then s else current (slab_pool_g k jx))" for jx
      by (simp add: k2_def a(5) k0_def)
    have alloc: "slab_alloc_order (int (cx + 6)) k = Inr (blk s (cx + 6) 1, unlock_container cx k2)"
      using run a(1) none(2) [OF cx] locks cx hs(1) hd nz cur [of cx] a(5) by (simp add: k2_def [symmetric])
    have j: "1 < blocks_of (cx + 6)" using n by (simp add: n_def)
    have core3: "slab_core (unlock_container cx k2) [s \<mapsto> (cx + 6, [2..<blocks_of (cx + 6)])] P" using hs(2) by (simp add: k2_def n_def)
    note nn = slab_mapped(2) [OF core3 _ j, of s]
    have "\<exists>k4. slab_free_block s (blk s (cx + 6) 1) (unlock_container cx k2) = Inr (0, k4) \<and> heap_idle k4"
    proof (rule last_block_idle [OF core3 _ cx])
      show "current (slab_pool_g (unlock_container cx k2) jx) = (if jx = cx then s else NULL)" if "jx < 6" for jx
        using that none(2) cur [of jx] by (auto simp: unlock_container_def)
      show "\<forall>jx < 6. sc_lock (slab_pool_g (unlock_container cx k2) jx) = 0"
        using locks by (simp add: unlock_container_def k2_def a(5) k0_def)
    qed (use none(1) big a(4) k0(2) in \<open>simp_all add: k2_def\<close>)
    then obtain k4 where k4: "slab_free_block s (blk s (cx + 6) 1) (unlock_container cx k2) = Inr (0, k4)" "heap_idle k4" by blast
    have "(2 :: nat) ^ 6 dvd 2 ^ (cx + 6)" by (rule le_imp_power_dvd) simp
    then have "2 ^ 6 dvd unat (blk s (cx + 6) 1)" using block_aligned [OF core3 _ j, of s] dvd_trans by fastforce
    then have "is_aligned (blk s (cx + 6) 1) MIN_SLAB_BLOCK_ORDER"
      using is_aligned_iff [of 6 "blk s (cx + 6) 1"] by (simp add: MIN_SLAB_BLOCK_ORDER_def)
    then have "slab_free (blk s (cx + 6) 1) (unlock_container cx k2) = Inr (0, k4)"
      using nn k4(1) block_header [OF core3 _ j, of s] by (simp add: slab_free_def)
    then show ?thesis using alloc nn k4(2) by auto
  qed
qed

section \<open>Sequences of blocks\<close>

lemma assert_that_simps [simp]: "assert_that True = Inr ()" "assert_that False = Inl BUG"
  by (simp_all add: assert_that_def)

definition small_objects :: "(vaddr_t \<times> nat) list \<Rightarrow> (vaddr_t \<times> nat) set \<Rightarrow> bool" where
  "small_objects xs A \<longleftrightarrow> distinct xs \<and> set xs \<inter> A = {} \<and> (\<forall>x \<in> set xs. snd x \<le> 2 ^ 11)"

lemma alloc_all_correct:
  assumes "kmem_rep k A"
  shows "alloc_all szs k = Inl BUG \<or> (\<exists>xs k'. alloc_all szs k = Inr (map fst xs, k') \<and> small_objects xs A \<and>
    kmem_rep k' (set xs \<union> A) \<and> mem_size k' = mem_size k)"
  using assms
proof (induction szs arbitrary: k A)
  case Nil
  then show ?case by (auto simp: small_objects_def intro: exI [of _ "[]"])
next
  case (Cons sz szs)
  obtain a k1 where a: "slab_alloc sz k = Inr (a, k1)" "a = NULL \<or> (\<exists>n. (a, n) \<notin> A \<and> n \<le> 2 ^ 11 \<and> kmem_rep k1 (insert (a, n) A))"
    using slab_alloc_correct [OF Cons.prems, of sz] by blast
  show ?case
  proof (cases "a = NULL")
    case False
    then obtain n where n: "(a, n) \<notin> A" "n \<le> 2 ^ 11" "kmem_rep k1 (insert (a, n) A)" using a(2) by blast
    from Cons.IH [OF n(3)] show ?thesis
    proof (elim disjE exE conjE)
      fix xs k' assume x: "alloc_all szs k1 = Inr (map fst xs, k')" "small_objects xs (insert (a, n) A)"
        "kmem_rep k' (set xs \<union> insert (a, n) A)" "mem_size k' = mem_size k1"
      then have "small_objects ((a, n) # xs) A" using n by (auto simp: small_objects_def)
      then show ?thesis using a(1) False x slab_size_kept(1) [OF a(1)]
        by (intro disjI2 exI [of _ "(a, n) # xs"] exI [of _ k']) simp
    qed (use a(1) False in simp)
  qed (use a(1) in simp)
qed

lemma free_all_correct:
  assumes "kmem_rep k (set xs \<union> A)" "small_objects xs A"
  shows "\<exists>k'. free_all (map fst xs) k = Inr k' \<and> kmem_rep k' A \<and> mem_size k' = mem_size k"
  using assms
proof (induction xs arbitrary: k)
  case (Cons x xs)
  then have x: "x \<in> set (x # xs) \<union> A" "snd x \<le> 2 ^ 11" "set (x # xs) \<union> A - {x} = set xs \<union> A" "small_objects xs A"
    by (auto simp: small_objects_def)
  obtain k1 where k1: "slab_free (fst x) k = Inr (0, k1)" "kmem_rep k1 (set xs \<union> A)"
    using slab_free_correct [OF Cons.prems(1) x(1,2)] x(3) by auto
  from Cons.IH [OF k1(2) x(4)] show ?case using k1(1) slab_size_kept(2) [OF k1(1)] by auto
qed simp

lemma alloc_free_each_correct:
  assumes "kmem_rep k A"
  shows "alloc_free_each szs k = Inl BUG \<or> (\<exists>k'. alloc_free_each szs k = Inr k' \<and> kmem_rep k' A \<and> mem_size k' = mem_size k)"
  using assms
proof (induction szs arbitrary: k)
  case (Cons sz szs)
  obtain a k1 where a: "slab_alloc sz k = Inr (a, k1)" "a = NULL \<or> (\<exists>n. (a, n) \<notin> A \<and> n \<le> 2 ^ 11 \<and> kmem_rep k1 (insert (a, n) A))"
    using slab_alloc_correct [OF Cons.prems, of sz] by blast
  show ?case
  proof (cases "a = NULL")
    case True
    then show ?thesis using a(1) by (simp add: slab_free_def EINVAL_def)
  next
    case False
    then obtain n where n: "(a, n) \<notin> A" "n \<le> 2 ^ 11" "kmem_rep k1 (insert (a, n) A)" using a(2) by blast
    obtain k2 where k2: "slab_free a k1 = Inr (0, k2)" "kmem_rep k2 A"
      using slab_free_correct [OF n(3), of "(a, n)"] n(1,2) by auto
    from Cons.IH [OF k2(2)] show ?thesis
      using a(1) k2(1) slab_size_kept(1) [OF a(1)] slab_size_kept(2) [OF k2(1)] by auto
  qed
qed simp

lemma small_objects_rev: "small_objects (rev xs) A = small_objects xs A"
  by (simp add: small_objects_def)

lemma run_test_correct:
  assumes "kmem_rep k A"
  shows "run_test szs k = Inl BUG \<or> (\<exists>k'. run_test szs k = Inr k' \<and> kmem_rep k' A \<and> mem_size k' = mem_size k)"
proof -
  let ?ss = "take NUM_OPERATIONS szs"
  from alloc_all_correct [OF assms, of ?ss] show ?thesis
  proof (elim disjE exE conjE)
    fix xs k1 assume 1: "alloc_all ?ss k = Inr (map fst xs, k1)" "small_objects xs A" "kmem_rep k1 (set xs \<union> A)" "mem_size k1 = mem_size k"
    from free_all_correct [of k1 "rev xs" A] 1 obtain k2 where
      2: "free_all (rev (map fst xs)) k1 = Inr k2" "kmem_rep k2 A" "mem_size k2 = mem_size k" by (auto simp: small_objects_rev rev_map)
    from alloc_all_correct [OF 2(2), of ?ss] show ?thesis
    proof (elim disjE exE conjE)
      fix ys k3 assume 3: "alloc_all ?ss k2 = Inr (map fst ys, k3)" "small_objects ys A" "kmem_rep k3 (set ys \<union> A)" "mem_size k3 = mem_size k2"
      then show ?thesis using 1(1) 2 free_all_correct [OF 3(3,2)]
        by (cases "compare_allocations (map fst xs) (map fst ys)") (auto simp: run_test_def)
    qed (use 1(1) 2(1) in \<open>simp add: run_test_def\<close>)
  qed (simp add: run_test_def)
qed

section \<open>The heap test\<close>

lemma null_unmapped:
  assumes "kmem_rep k A"
  shows "virt_to_page (region k) NULL = None"
proof -
  obtain S P where core: "slab_core k S P" using assms unfolding kmem_rep_def by blast
  have "region_ok (region k)" using slab_coreD(1) [OF core] buddy_repD(1) by (auto simp: buddy_inv_def)
  then show ?thesis using virt_to_page_frame [of "region k" NULL 0 0] slab_coreD(2) [OF core] by simp
qed

lemma kfree_null: "kmem_rep k A \<Longrightarrow> kfree NULL k = Inr k"
  by (simp add: kfree_def null_unmapped ZERO_SIZE_PTR_def)

lemma kfree_slab_free:
  assumes "slab_free a k = Inr (0, k')" "a \<noteq> NULL"
  shows "kfree a k = Inr k'"
proof -
  have al: "is_aligned a MIN_SLAB_BLOCK_ORDER" using assms by (auto simp: slab_free_def split: if_split_asm)
  then have "64 dvd unat a" using is_aligned_iff [of 6 a] by (simp add: MIN_SLAB_BLOCK_ORDER_def)
  then have "a \<noteq> ZERO_SIZE_PTR" by (rule aligned_not_special)
  moreover obtain s where "slab_get_header a k = Inr s" using assms al by (auto simp: slab_free_def bindR_Inr)
  then obtain i p where "virt_to_page (region k) a = Some i" "get_page (region k) i = Inr p" "page_slab p \<noteq> NULL"
    by (auto simp: slab_get_header_def bindR_Inr split: option.split_asm if_split_asm)
  ultimately show ?thesis using assms(1) by (simp add: kfree_def)
qed

lemma kmalloc_free_small:
  assumes "heap_idle k" "0 < unat sz" "unat sz \<le> 2 ^ 11"
  shows "\<exists>p r k1 k2. kmalloc_real sz k = Inr (p, r, k1) \<and> kfree p k1 = Inr k2 \<and> heap_idle k2"
proof -
  obtain cx where cx: "size_to_slab_order sz = int (cx + 6)" "cx < 6" using size_to_slab_order_fits [OF assms(2,3)] .
  obtain a k1 where a: "slab_alloc_order (int (cx + 6)) k = Inr (a, k1)"
    "a = NULL \<and> heap_idle k1 \<or> a \<noteq> NULL \<and> (\<exists>k2. slab_free a k1 = Inr (0, k2) \<and> heap_idle k2)"
    using alloc_free_idle [OF assms(1) cx(2)] by blast
  have "sz \<le> slab_order_to_size MAX_SLAB_BLOCK_ORDER"
    using assms(3) slab_constants(4) [of 11] by (auto simp: word_le_nat_alt MAX_SLAB_BLOCK_ORDER_def)
  then have run: "kmalloc_real sz k = Inr (a, Some (slab_order_to_size (int (cx + 6))), k1)"
    using a(1) cx(1) by (simp add: kmalloc_real_def slab_alloc_def)
  from a(2) show ?thesis
  proof (elim disjE conjE exE)
    assume "a = NULL" "heap_idle k1"
    then show ?thesis using run kfree_null [OF idle_rep] by blast
  next
    fix k2 assume "a \<noteq> NULL" "slab_free a k1 = Inr (0, k2)" "heap_idle k2"
    then show ?thesis using run kfree_slab_free by blast
  qed
qed

lemma pages_free_idle:
  assumes idle: "heap_idle k" and q: "q \<le> 10"
  shows "\<exists>a k1 k2. get_pages (int q) k = Inr (a, k1) \<and> kfree a k1 = Inr k2 \<and> heap_idle k2"
proof -
  obtain P where core: "slab_core k Map.empty P" and live: "live_chunks (region k) = {}"
    using idle unfolding heap_idle_def by blast
  note c = slab_coreD [OF core]
  show ?thesis
  proof (rule buddy_get_pages_cases [OF c(1) q])
    assume "buddy_get_pages (int q) (region k) = Inr (None, region k)"
    then have "get_pages (int q) k = Inr (NULL, k)" by (simp add: get_pages_def)
    then show ?thesis using kfree_null [OF idle_rep [OF idle]] idle by blast
  next
    fix i m1 assume run: "buddy_get_pages (int q) (region k) = Inr (Some i, m1)" and got: "got_chunk (region k) i q m1"
    have inv: "buddy_inv m1" and lay: "same_layout (region k) m1" and l1: "live_chunks m1 = {(i, q)}"
      using got live by (auto simp: got_chunk_def)
    have i: "(i, q) \<in> live_chunks m1" using l1 by simp
    note sp = chunk_span [OF inv i]
    have "page_slab (pages m1 i) = page_slab (pages (region k) i)" "npages m1 = npages (region k)"
      using lay by (simp_all add: same_layout_def)
    then have nul: "page_slab (pages m1 i) = NULL" using c(5) [of i] sp(6) by auto
    obtain m2 where m2: "buddy_free_pages (Some i) m1 = Inr m2" "live_chunks m2 = {}"
      using buddy_free_pages_correct [OF inv i] l1 by auto
    have get: "get_pages (int q) k = Inr (page_to_virt m1 i, k\<lparr>region := m1\<rparr>)" using run by (simp add: get_pages_def)
    have "(64 :: nat) dvd (base_frame m1 + i) * 4096" by (rule dvd_mult) simp
    then have "page_to_virt m1 i \<noteq> ZERO_SIZE_PTR" by (intro aligned_not_special) (simp only: sp(1))
    then have free: "kfree (page_to_virt m1 i) (k\<lparr>region := m1\<rparr>) = Inr (k\<lparr>region := m2\<rparr>)"
      using sp(5,6) nul m2(1) by (simp add: kfree_def get_page_def free_pages_def update_region_def)
    have "base_frame m1 = base_frame (region k)" using lay by (simp add: same_layout_def base_frame_def)
    then have "\<exists>n. kmem_rep (k\<lparr>region := m1\<rparr>) {(page_to_virt m1 i, n)}"
      using get_pages_correct [OF idle_rep [OF idle] q] get sp(1) slab_coreD(2) [OF core] by auto
    then have "kmem_rep (k\<lparr>region := m2\<rparr>) {}" using kfree_correct [of "k\<lparr>region := m1\<rparr>"] free by fastforce
    then have "heap_idle (k\<lparr>region := m2\<rparr>)" by (rule idleI) (simp add: m2(2))
    then show ?thesis using get free by blast
  qed
qed

lemma kmalloc_free_idle:
  assumes "heap_idle k" "0 < unat sz"
  shows "\<exists>p r k1 k2. kmalloc_real sz k = Inr (p, r, k1) \<and> kfree p k1 = Inr k2 \<and> heap_idle k2"
proof (cases "unat sz \<le> 2 ^ 11")
  case False
  then have big: "\<not> sz \<le> slab_order_to_size MAX_SLAB_BLOCK_ORDER"
    using slab_constants(4) [of 11] by (auto simp: word_le_nat_alt MAX_SLAB_BLOCK_ORDER_def)
  have mx: "sz \<le> BUDDY_CHUNK_SIZE (BUDDY_MAX_ORDER - 1) \<longleftrightarrow> unat sz \<le> 2 ^ 22"
    using BUDDY_CHUNK_SIZE_eq [of 10] by (simp add: word_le_nat_alt BUDDY_MAX_ORDER_def)
  show ?thesis
  proof (cases "unat sz \<le> 2 ^ 22")
    case True
    obtain q where q: "size_to_page_order sz = int q" "q \<le> 10" using size_to_page_order_fits [OF assms(2) True] .
    then show ?thesis using pages_free_idle [OF assms(1) q(2)] big mx True by (force simp: kmalloc_real_def)
  next
    case False
    then show ?thesis using big mx kfree_null [OF idle_rep [OF assms(1)]] assms(1) by (simp add: kmalloc_real_def)
  qed
qed (use kmalloc_free_small assms in blast)

lemma kmalloc_test_round_idle:
  "heap_idle k \<Longrightarrow> \<forall>i \<in> set is. 1 \<le> i \<and> i < 64 \<Longrightarrow> 
     \<exists>k'. kmalloc_test_round is k = Inr k' \<and> heap_idle k' \<and> mem_size k' = mem_size k"
proof (induction "is" arbitrary: k)
  case (Cons i "is")
  have "unat (push_bit i 1 :: u64) = 2 ^ i" using Cons.prems(2) by (simp add: push_bit_eq_mult unat_2p)
  moreover have "(1 :: u64) \<le> push_bit i 1"
    using calculation by (simp add: word_le_nat_alt)
  ultimately have "unat (push_bit i 1 - 1 :: u64) = 2 ^ i - 1" by (simp add: unat_sub)
  moreover have "(2 :: nat) ^ 1 \<le> 2 ^ i" using Cons.prems(2) by (intro power_increasing) auto
  ultimately have "0 < unat (push_bit i 1 - 1 :: u64)" by simp
  from kmalloc_free_idle [OF Cons.prems(1) this] obtain p r k1 k2 where
    r: "kmalloc_real (push_bit i 1 - 1) k = Inr (p, r, k1)" "kfree p k1 = Inr k2" "heap_idle k2" by blast
  then show ?case using Cons.IH [of k2] Cons.prems(2) heap_size_kept(1) [OF r(1)] heap_size_kept(2) [OF r(2)] by simp
qed simp

lemma kmalloc_test_loop_idle:
  "heap_idle k \<Longrightarrow> \<exists>k'. kmalloc_test_loop n k = Inr k' \<and> heap_idle k' \<and> mem_size k' = mem_size k"
proof (induction n arbitrary: k)
  case (Suc n)
  have "\<forall>i \<in> set [1..<23]. 1 \<le> i \<and> i < (64 :: nat)" by simp
  from kmalloc_test_round_idle [OF Suc.prems this] obtain k1 where
    "kmalloc_test_round [1..<23] k = Inr k1" "heap_idle k1" "mem_size k1 = mem_size k" by blast
  then show ?case using Suc.IH [of k1] by simp
qed simp

section \<open>Messages\<close>

definition only_prints :: "io \<Rightarrow> io \<Rightarrow> bool" where
  "only_prints d d' \<longleftrightarrow> (\<exists>s. sends d s d')"

lemma only_prints_refl [simp]: "only_prints d d"
  unfolding only_prints_def using sends_nil by blast

lemma only_prints_trans: "only_prints d d1 \<Longrightarrow> only_prints d1 d2 \<Longrightarrow> only_prints d d2"
  unfolding only_prints_def using sends_trans by blast

lemma printk_text:
  "well_formed fmt args \<Longrightarrow> drains hw \<Longrightarrow> \<exists>d'. printk hw u0 fmt args d = Inr d' \<and> only_prints d d'"
  using printk_returns unfolding only_prints_def by blast

lemma log_text_plain:
  assumes "drains hw" "\<forall>c \<in> set fmt. c \<noteq> CHR ''%''"
  shows "\<exists>d'. log_info hw u0 fmt args d = Inr d' \<and> only_prints d d'"
proof -
  have "well_formed ((''[INFO] '' @ fmt) @ []) args" using assms(2) by (intro well_formed_text fmt_end) auto
  then show ?thesis using printk_text [OF _ assms(1)] by (simp add: log_info_def)
qed

lemma kmalloc_test_passes:
  assumes "heap_idle k" "drains hw"
  shows "\<exists>k' d'. kmalloc_test hw u0 (k, d) = Inr (k', d') \<and> heap_idle k' \<and> mem_size k' = mem_size k \<and> only_prints d d'"
proof -
  obtain k' where k': "kmalloc_test_loop 1000 k = Inr k'" "heap_idle k'" "mem_size k' = mem_size k"
    using kmalloc_test_loop_idle [OF assms(1)] by blast
  obtain d' where "log_info hw u0 ''kmalloc test passed\<newline>'' [] d = Inr d'" "only_prints d d'"
    using log_text_plain [OF assms(2), of "''kmalloc test passed\<newline>''" u0 "[]" d] by auto
  then show ?thesis using k' idle_free_size [OF assms(1)] idle_free_size [OF k'(2)] by (simp add: kmalloc_test_def Let_def)
qed

section \<open>The slab test\<close>

lemma percent_text: "well_formed ''...%d%%'' [Va_int x]" "well_formed ''...100%%\<newline>'' []"
proof -
  have "well_formed (''...'' @ ''%d'' @ CHR ''%'' # CHR ''%'' # []) [Va_int x]"
    by (intro well_formed_text well_formed_d fmt_escaped fmt_end) auto
  then show "well_formed ''...%d%%'' [Va_int x]" by simp
  have "well_formed (''...100'' @ CHR ''%'' # CHR ''%'' # ''\<newline>'' @ []) []"
    by (intro well_formed_text fmt_escaped fmt_end) auto
  then show "well_formed ''...100%%\<newline>'' []" by simp
qed

lemma slab_test_loop_correct:
  assumes "drains hw" "kmem_rep k {}"
  shows "slab_test_loop hw u0 n i (k, d) = Inl BUG \<or>
    (\<exists>k' d'. slab_test_loop hw u0 n i (k, d) = Inr (k', d') \<and> kmem_rep k' {} \<and> mem_size k' = mem_size k \<and> only_prints d d')"
  using assms(2)
proof (induction n arbitrary: i k d)
  case (Suc n)
  obtain i1 d1 where d1: "(if n mod 100 = 0 then bindR (printk hw u0 ''...%d%%'' [Va_int (i * 10)] d) (\<lambda>d. Inr (i + 1, d)) else Inr (i, d)) = Inr (i1, d1)"
    "only_prints d d1"
    using printk_text [OF percent_text(1) assms(1), of u0 "i * 10" d] by (cases "n mod 100 = 0") auto
  note step = slab_test_loop.simps(2) [of hw u0 n i k d, unfolded d1(1), simplified]
  from alloc_free_each_correct [OF Suc.prems, of "take NUM_OPERATIONS test_sizes"] show ?case
  proof (elim disjE exE conjE)
    fix k1 assume k1: "alloc_free_each (take NUM_OPERATIONS test_sizes) k = Inr k1" "kmem_rep k1 {}" "mem_size k1 = mem_size k"
    from run_test_correct [OF k1(2), of test_sizes] show ?thesis
    proof (elim disjE exE conjE)
      fix k2 assume k2: "run_test test_sizes k1 = Inr k2" "kmem_rep k2 {}" "mem_size k2 = mem_size k1"
      then show ?thesis using Suc.IH [OF k2(2), of i1 d1] step k1 d1(2) by (auto simp: run_test1_def intro: only_prints_trans)
    qed (use step k1(1) in \<open>simp add: run_test1_def\<close>)
  qed (use step in \<open>simp add: run_test1_def\<close>)
qed simp

lemma test_slab_outcome:
  assumes "heap_idle k" "drains hw"
  shows "test_slab hw u0 (k, d) = Inl BUG \<or>
    (\<exists>k' d'. test_slab hw u0 (k, d) = Inr (k', d') \<and> heap_idle k' \<and> mem_size k' = mem_size k \<and> only_prints d d')"
proof -
  obtain d1 where d1: "log_info hw u0 ''Start slab test'' [] d = Inr d1" "only_prints d d1"
    using log_text_plain [OF assms(2), of "''Start slab test''" u0 "[]" d] by auto
  from slab_test_loop_correct [OF assms(2) idle_rep [OF assms(1)], of u0 1000 0 d1] show ?thesis
  proof (elim disjE exE conjE)
    fix k2 d2 assume 2: "slab_test_loop hw u0 1000 0 (k, d1) = Inr (k2, d2)" "kmem_rep k2 {}" "mem_size k2 = mem_size k" "only_prints d1 d2"
    obtain d3 where d3: "printk hw u0 ''...100%%\<newline>'' [] d2 = Inr d3" "only_prints d2 d3"
      using printk_text [OF percent_text(2) assms(2)] by blast
    obtain d4 where d4: "log_info hw u0 ''Slab test passed\<newline>'' [] d3 = Inr d4" "only_prints d3 d4"
      using log_text_plain [OF assms(2), of "''Slab test passed\<newline>''" u0 "[]" d3] by auto
    have run: "test_slab hw u0 (k, d) = (if get_free_mem_size_from_buddy (region k2) = mem_size k then Inr (k2, d4) else Inl BUG)"
      using d1(1) 2(1) d3(1) d4(1) idle_free_size [OF assms(1)] by (simp add: test_slab_def Let_def)
    have "only_prints d d4" using d1(2) 2(4) d3(2) d4(2) only_prints_trans by blast
    then show ?thesis using run free_size_idle [OF 2(2)] 2(3) by (simp split: if_split)
  qed (use d1(1) in \<open>simp add: test_slab_def Let_def\<close>)
qed

text \<open>The first part of the slab test passes on every idle heap with enough memory.\<close>

lemma idle_alloc_free:
  assumes idle: "heap_idle k" and room: "SLAB_SIZE \<le> mem_size k" and sz: "0 < unat sz" "unat sz \<le> 2 ^ 11"
  shows "\<exists>a k1 k2. slab_alloc sz k = Inr (a, k1) \<and> slab_free a k1 = Inr (0, k2) \<and> heap_idle k2 \<and> mem_size k2 = mem_size k"
proof -
  obtain cx where cx: "size_to_slab_order sz = int (cx + 6)" "cx < 6" using size_to_slab_order_fits [OF sz] .
  have inv: "buddy_inv (region k)" "live_chunks (region k) = {}" using idle slab_coreD(1) unfolding heap_idle_def by blast+
  have ok: "region_ok (region k)" using inv(1) buddy_repD(1) by (auto simp: buddy_inv_def)
  have "unat SLAB_SIZE = 32 * 4096" by (simp add: SLAB_SIZE_def PAGE_SHIFT_def)
  then have n: "32 \<le> npages (region k)" using room ok by (simp add: region_ok_def word_le_nat_alt)
  have "1024 dvd base_frame (region k) + npages (region k)" using ok by (simp add: region_ok_def dvd_eq_mod_eq_0)
  then have "32 dvd base_frame (region k) + npages (region k)" by (rule dvd_trans [rotated]) simp
  then have "32 dvd base_frame (region k) + npages (region k) - 32" by (rule dvd_diff_nat) simp
  then have "2 ^ 5 dvd base_frame (region k) + (npages (region k) - 32)" using n by simp
  moreover have "npages (region k) - 32 + 2 ^ 5 \<le> npages (region k)" using n by simp
  ultimately have "buddy_get_pages (int 5) (region k) \<noteq> Inr (None, region k)"
    using buddy_get_pages_correct [OF inv(1), of 5] exhausted_blocks [OF inv(1), of 5 "npages (region k) - 32"] inv(2) by auto
  then obtain a k1 k2 where r: "slab_alloc sz k = Inr (a, k1)" "slab_free a k1 = Inr (0, k2)" "heap_idle k2"
    using alloc_free_idle [OF idle cx(2)] cx(1) by (auto simp: slab_alloc_def)
  then show ?thesis using slab_size_kept(1) [OF r(1)] slab_size_kept(2) [OF r(2)] by auto
qed

lemma alloc_free_each_passes:
  "heap_idle k \<Longrightarrow> SLAB_SIZE \<le> mem_size k \<Longrightarrow> \<forall>sz \<in> set szs. 0 < unat sz \<and> unat sz \<le> 2 ^ 11 \<Longrightarrow>
     \<exists>k'. alloc_free_each szs k = Inr k' \<and> heap_idle k' \<and> mem_size k' = mem_size k"
proof (induction szs arbitrary: k)
  case (Cons sz szs)
  then obtain a k1 k2 where "slab_alloc sz k = Inr (a, k1)" "slab_free a k1 = Inr (0, k2)" "heap_idle k2" "mem_size k2 = mem_size k"
    using idle_alloc_free [of k sz] by auto
  then show ?case using Cons.IH [of k2] Cons.prems(2,3) by simp
qed simp

lemma test_sizes_served: "\<forall>sz \<in> set (take NUM_OPERATIONS test_sizes). 0 < unat sz \<and> unat sz \<le> 2 ^ 11"
proof -
  have "list_all (\<lambda>sz. 0 < sz \<and> sz \<le> 2048) (take NUM_OPERATIONS test_sizes)"
    unfolding test_sizes_def NUM_OPERATIONS_def by simp
  then show ?thesis by (auto simp: list_all_iff word_le_nat_alt word_less_nat_alt)
qed

section \<open>The messages of mm\_init\<close>

lemma well_formed_ld:
  assumes "well_formed fmt args" "unat x < 2 ^ 63"
  shows "well_formed (''%ld'' @ fmt) (Va_long x # args)"
proof -
  have u: "uint x = int (unat x)" by simp
  have "int (unat x) < 2 ^ 63" using assms(2) by (metis of_nat_less_iff of_nat_numeral of_nat_power)
  then have "- (2 ^ 63) \<le> uint x" "uint x < 2 ^ 63" using u by linarith+
  then have "signed_take_bit 63 (uint x) = uint x" by (rule signed_take_bit_int_eq_self)
  then have "sint x = uint x" unfolding sint_uint by simp
  then have "0 \<le> sint x" by simp
  then have "sint x \<noteq> - (2 ^ 63)" by simp
  then have "well_formed (CHR ''%'' # CHR ''l'' # CHR ''d'' # fmt) (Va_long x # args)"
    using assms by (intro fmt_directive [where ?fmt2.0 = "CHR ''l'' # CHR ''d'' # fmt" and ?args2.0 = "Va_long x # args"])
      (simp_all add: cur_def parse_flags_def width_end_def conv_kind_def long_kind_def takes_def Let_def)
  then show ?thesis by simp
qed

lemma free_list_bound:
  assumes "buddy_inv m" "q \<le> 10"
  shows "unat (nr_free m q) < 2 ^ 63"
proof -
  obtain ch L where rep: "buddy_rep m {} 0 (npages m) ch L" using assms(1) by (auto simp: buddy_inv_def)
  then have "length (L q) \<le> npages m" "npages m < 2 ^ 52" "nr_free m q = of_nat (length (L q))"
    using buddy_rep_length [OF rep assms(2)] npages_bound buddy_repD(1) assms(2) by (auto simp: buddy_rep_def lists_agree_def)
  then show ?thesis by (simp add: unat_of_nat)
qed

lemma print_free_lists_returns:
  assumes "drains hw" "\<forall>q \<in> set qs. unat (nr q) < 2 ^ 63"
  shows "\<exists>d'. print_free_lists hw u0 nr qs d = Inr d' \<and> only_prints d d'"
  using assms(2)
proof (induction qs arbitrary: d)
  case (Cons q qs)
  have "well_formed (''[INFO] order '' @ ''%d'' @ '': '' @ ''%ld'' @ ''\<newline>'' @ []) [Va_int (of_nat q), Va_long (nr q)]"
    by (intro well_formed_text well_formed_d well_formed_ld fmt_end) (use Cons.prems in auto)
  then obtain d1 where "log_info hw u0 ''order %d: %ld\<newline>'' [Va_int (of_nat q), Va_long (nr q)] d = Inr d1" "only_prints d d1"
    using printk_text [OF _ assms(1)] by (simp add: log_info_def) blast
  then show ?case using Cons.IH [of d1] Cons.prems only_prints_trans by auto
qed simp

lemma mega_kilo: "unat ((x :: u64) div 1024 div 1024) < 2 ^ 63" "unat (x div 1024 mod 1024) < 2 ^ 63"
proof -
  have "unat x < 2 ^ 64" using unsigned_less [of x] by simp
  then have "unat x div 1024 < 2 ^ 63" by simp
  then show "unat (x div 1024 div 1024) < 2 ^ 63" "unat (x div 1024 mod 1024) < 2 ^ 63"
    by (auto simp: unat_div unat_mod intro: le_less_trans [OF div_le_dividend] le_less_trans [OF mod_less_eq_dividend])
qed

lemma memory_line:
  assumes "drains hw" "unat a < 2 ^ 63" "unat b < 2 ^ 63" "unat c < 2 ^ 63" "unat e < 2 ^ 63"
  shows "\<exists>d'. log_info hw u0 ''Free Memory size: %ldMB %ldKB, Total Memory size: %ldMB %ldKB\<newline>''
    [Va_long a, Va_long b, Va_long c, Va_long e] d = Inr d' \<and> only_prints d d'"
proof -
  have "well_formed (''[INFO] Free Memory size: '' @ ''%ld'' @ ''MB '' @ ''%ld'' @ ''KB, Total Memory size: '' @ ''%ld'' @ ''MB '' @ ''%ld'' @ ''KB\<newline>'' @ [])
      [Va_long a, Va_long b, Va_long c, Va_long e]"
    by (intro well_formed_text well_formed_ld fmt_end assms(2-5)) auto
  from printk_text [OF this assms(1)] show ?thesis unfolding log_info_def by simp
qed

lemma print_buddy_info_returns:
  assumes "buddy_inv m" "drains hw"
  shows "\<exists>d'. print_buddy_info hw u0 m d = Inr d' \<and> only_prints d d'"
proof -
  have "npages m < 2 ^ 52" using assms(1) npages_bound buddy_repD(1) unfolding buddy_inv_def by blast
  then have "unat (get_free_pages_nums_from_buddy m) < 2 ^ 63" using free_pages_count [OF assms(1)] by simp
  then have "well_formed (''[INFO] Free pages has '' @ ''%ld'' @ '': \<newline>'' @ []) [Va_long (get_free_pages_nums_from_buddy m)]"
    by (intro well_formed_text well_formed_ld fmt_end) auto
  then obtain d1 where d1: "log_info hw u0 ''Free pages has %ld: \<newline>'' [Va_long (get_free_pages_nums_from_buddy m)] d = Inr d1" "only_prints d d1"
    using printk_text [OF _ assms(2)] by (simp add: log_info_def) blast
  have "\<forall>q \<in> set [0..<nat BUDDY_MAX_ORDER]. unat (nr_free m q) < 2 ^ 63"
    using free_list_bound [OF assms(1)] by (auto simp: BUDDY_MAX_ORDER_def)
  from print_free_lists_returns [OF assms(2) this] obtain d2 where
    d2: "print_free_lists hw u0 (nr_free m) [0..<nat BUDDY_MAX_ORDER] d1 = Inr d2" "only_prints d1 d2" by blast
  let ?f = "get_free_mem_size_from_buddy m" and ?t = "get_total_mem_size_from_buddy m"
  have b: "unat (?f div 1024 div 1024) < 2 ^ 63" "unat (?f div 1024 mod 1024) < 2 ^ 63"
      "unat (?t div 1024 div 1024) < 2 ^ 63" "unat (?t div 1024 mod 1024) < 2 ^ 63"
    using mega_kilo by blast+
  obtain d3 where d3: "log_info hw u0 ''Free Memory size: %ldMB %ldKB, Total Memory size: %ldMB %ldKB\<newline>''
      [Va_long (?f div 1024 div 1024), Va_long (?f div 1024 mod 1024), Va_long (?t div 1024 div 1024), Va_long (?t div 1024 mod 1024)] d2 = Inr d3"
      "only_prints d2 d3"
    using memory_line [OF assms(2) b] by blast
  have "print_buddy_info hw u0 m d = Inr d3" unfolding print_buddy_info_def d1(1) d2(1) d3(1) bindR_simps ..
  then show ?thesis using d1(2) d2(2) d3(2) only_prints_trans by blast
qed

lemma print_counts_returns:
  assumes "drains hw"
  shows "\<exists>d'. print_counts hw u0 up n cs d = Inr d' \<and> only_prints d d'"
proof (induction cs arbitrary: n d)
  case (Cons c cs)
  let ?args = "[Va_int (of_nat n), Va_long ((or) (push_bit 32 (ucast up)) (ucast c))]"
  have "well_formed (''[INFO] slab pool of order-'' @ ''%d'' @ '': free block count '' @ ''%lu'' @ ''\<newline>'' @ []) ?args"
    by (intro well_formed_text well_formed_d well_formed_lu fmt_end) auto
  then obtain d1 where "log_info hw u0 ''slab pool of order-%d: free block count %lu\<newline>'' ?args d = Inr d1" "only_prints d d1"
    using printk_text [OF _ assms] by (simp add: log_info_def) blast
  then show ?case using Cons.IH [of "n + 1" d1] only_prints_trans by auto
qed simp

text \<open>With no slab every count is 0.\<close>

lemma idle_counts:
  assumes "heap_idle k"
  shows "\<forall>c \<in> set cs. c < 6 \<Longrightarrow> slab_counts k cs = Inr (replicate (length cs) 0)"
proof (induction cs)
  case (Cons c cs)
  obtain P where core: "slab_core k Map.empty P" and pool: "pool_ok k Map.empty P" using assms unfolding heap_idle_def by blast
  have c: "c < 6" using Cons.prems by simp
  have "dlist (snodes k) (PartialHead c) []" using partial_dlist [OF core c] idle_pool(1) [OF pool c] by simp
  from for_each_in_list_correct [OF this] obtain n where
    "get_next (snodes k) (PartialHead c) = Some n" "for_each_in_list (snodes k) (PartialHead c) n [] = Some (Some [])" by blast
  then have "calculate_slab_free_block_count k c = Inr 0"
    using idle_pool(2) [OF pool c] by (simp add: calculate_slab_free_block_count_def)
  then show ?case using Cons by simp
qed simp

lemma print_slab_info_returns:
  assumes "heap_idle k" "drains hw"
  shows "\<exists>d'. print_slab_info hw u0 up k d = Inr d' \<and> only_prints d d'"
  using idle_counts [OF assms(1), of "[0..<SLAB_POOL_SIZE]"] print_counts_returns [OF assms(2)]
  by (simp add: print_slab_info_def)

section \<open>Properties\<close>

lemma boot_heap_idle:
  assumes "unat img_end \<le> 0x3E800000" "dom (snodes k) = slab_cells"
  obtains m k' where "init_buddy img_end = Inr m" "buddy_inv m" "init_slab (k\<lparr>region := m\<rparr>) = Inr k'" "heap_idle k'" "SLAB_SIZE \<le> mem_size k'"
proof -
  obtain k' where k': "mm_init img_end k = Inr k'" "kmem_rep k' {}" using mm_init_correct [OF assms] .
  obtain m where m: "init_buddy img_end = Inr m" "buddy_inv m" "live_chunks m = {}"
      "npages m + array_pages (avail_pages img_end) = avail_pages img_end"
    using init_buddy_correct [OF assms(1)] by metis
  have s: "init_slab (k\<lparr>region := m\<rparr>) = Inr k'" using k'(1) m(1) by (simp add: mm_init_def)
  have "region k' = m" using init_containers_region [of 6 "k\<lparr>region := m\<rparr>" k'] s by (simp add: init_slab_def)
  then have r: "heap_idle k'" "region k' = m" using idleI [OF k'(2)] m(3) by simp_all
  have "region_ok m" using m(2) buddy_repD(1) by (auto simp: buddy_inv_def)
  then have "unat (region_size m) = npages m * 4096" by (simp add: region_ok_def)
  moreover have "1024 \<le> npages m" using region_pages [OF assms(1)] m(4) by simp
  moreover have "unat SLAB_SIZE = 32 * 4096" by (simp add: SLAB_SIZE_def PAGE_SHIFT_def)
  ultimately have "SLAB_SIZE \<le> region_size m" by (simp add: word_le_nat_alt)
  then show ?thesis using that m(1,2) s r by blast
qed

text \<open>C39: The tests that always pass. On a heap with nothing allocated and room for a slab, the first part of the slab
  test, a thousand blocks each given back at once, and the whole heap test, a thousand rounds over
  all block and chunk sizes, return; their assertions on the free memory hold, all memory is free
  again, and nothing but text went to the serial port.\<close>

theorem heap_test_passes:
  assumes "heap_idle k" "SLAB_SIZE \<le> mem_size k" "drains hw"
  shows "(\<exists>k'. run_test1 test_sizes k = Inr k' \<and> heap_idle k' \<and> mem_size k' = mem_size k) \<and>
    (\<exists>k' d'. kmalloc_test hw u0 (k, d) = Inr (k', d') \<and> heap_idle k' \<and> mem_size k' = mem_size k \<and> only_prints d d')"
  using alloc_free_each_passes [OF assms(1,2) test_sizes_served] kmalloc_test_passes [OF assms(1,3)] by (simp add: run_test1_def)

theorem heap_test_passes_witness:
  "\<exists>k k' d'. mm_init 0x100000 raw_memory = Inr k \<and> kmalloc_test timer_hw 0 (k, \<lparr>reads = 0, writes = []\<rparr>) = Inr (k', d') \<and> heap_idle k'"
proof -
  obtain m k where k: "init_buddy 0x100000 = Inr m" "init_slab (raw_memory\<lparr>region := m\<rparr>) = Inr k" "heap_idle k" "SLAB_SIZE \<le> mem_size k"
    by (rule boot_heap_idle [of "0x100000", OF _ raw_memory_nodes]) auto
  from heap_test_passes [OF k(3,4) timer_drains] k(1,2) show ?thesis by (fastforce simp: mm_init_def)
qed



end
