(* ===== verification/MiniUart.thy ===== *)
theory MiniUart
  imports Uart_Props Boot
begin

text \<open>
  The mini UART: the other branch of src/arch/aarch64/plat/raspi3/uart/uart.c and of
  src/arch/aarch64/boot/raspi3/peripherals/uart.c, which \<open>USE_mini_uart\<close> selects. It has no receive
  buffer; both directions poll the line status register. Its interface to the layers above is the
  one of the PL011, stated once as a contract for all four drivers.
\<close>

section \<open>Registers\<close>

definition AUX_ENABLES :: u64 where "AUX_ENABLES = PHYSADDR_OFFSET + 0x00215004"
definition AUX_MU_IO_REG :: u64 where "AUX_MU_IO_REG = PHYSADDR_OFFSET + 0x00215040"
definition AUX_MU_IER_REG :: u64 where "AUX_MU_IER_REG = PHYSADDR_OFFSET + 0x00215044"
definition AUX_MU_LCR_REG :: u64 where "AUX_MU_LCR_REG = PHYSADDR_OFFSET + 0x0021504C"
definition AUX_MU_MCR_REG :: u64 where "AUX_MU_MCR_REG = PHYSADDR_OFFSET + 0x00215050"
definition AUX_MU_LSR_REG :: u64 where "AUX_MU_LSR_REG = PHYSADDR_OFFSET + 0x00215054"
definition AUX_MU_CNTL_REG :: u64 where "AUX_MU_CNTL_REG = PHYSADDR_OFFSET + 0x00215060"
definition AUX_MU_BAUD_REG :: u64 where "AUX_MU_BAUD_REG = PHYSADDR_OFFSET + 0x00215068"

definition EARLY_AUX_ENABLES :: u64 where "EARLY_AUX_ENABLES = EARLY_OFFSET + 0x00215004"
definition EARLY_AUX_MU_IO_REG :: u64 where "EARLY_AUX_MU_IO_REG = EARLY_OFFSET + 0x00215040"
definition EARLY_AUX_MU_IER_REG :: u64 where "EARLY_AUX_MU_IER_REG = EARLY_OFFSET + 0x00215044"
definition EARLY_AUX_MU_LCR_REG :: u64 where "EARLY_AUX_MU_LCR_REG = EARLY_OFFSET + 0x0021504C"
definition EARLY_AUX_MU_MCR_REG :: u64 where "EARLY_AUX_MU_MCR_REG = EARLY_OFFSET + 0x00215050"
definition EARLY_AUX_MU_LSR_REG :: u64 where "EARLY_AUX_MU_LSR_REG = EARLY_OFFSET + 0x00215054"
definition EARLY_AUX_MU_CNTL_REG :: u64 where "EARLY_AUX_MU_CNTL_REG = EARLY_OFFSET + 0x00215060"
definition EARLY_AUX_MU_BAUD_REG :: u64 where "EARLY_AUX_MU_BAUD_REG = EARLY_OFFSET + 0x00215068"

section \<open>The kernel driver\<close>

definition uart_lsr :: "hardware \<Rightarrow> io \<Rightarrow> u32 \<times> io" where
  "uart_lsr hw d = get32 hw AUX_MU_LSR_REG d"

text \<open>\<open>while (1) { if (get32(a) & m) break; }\<close>\<close>

partial_function (option) wait_until :: "hardware \<Rightarrow> u64 \<Rightarrow> u32 \<Rightarrow> io \<Rightarrow> io option" where
  "wait_until hw a m d =
     (let (v, d) = get32 hw a d
      in if (and) v m \<noteq> 0 then Some d else wait_until hw a m d)"

declare wait_until.simps [code]

definition mini_uart_send :: "hardware \<Rightarrow> u8 \<Rightarrow> io \<Rightarrow> io result" where
  "mini_uart_send hw c d =
     (case wait_until hw AUX_MU_LSR_REG 0x20 d of
        None \<Rightarrow> Inl DIVERGE
      | Some d \<Rightarrow> Inr (put32 AUX_MU_IO_REG (ucast c) d))"

definition mini_uart_recv :: "hardware \<Rightarrow> io \<Rightarrow> (u8 \<times> io) result" where
  "mini_uart_recv hw d =
     (case wait_until hw AUX_MU_LSR_REG 0x01 d of
        None \<Rightarrow> Inl DIVERGE
      | Some d \<Rightarrow> let (v, d) = get32 hw AUX_MU_IO_REG d in Inr (ucast ((and) v 0xFF), d))"

definition mini_nb_uart_recv :: "hardware \<Rightarrow> io \<Rightarrow> u8 \<times> io" where
  "mini_nb_uart_recv hw d =
     (let (lsr, d) = uart_lsr hw d
      in if (and) lsr 0x01 \<noteq> 0
         then let (v, d) = get32 hw AUX_MU_IO_REG d in (ucast ((and) v 0xFF), d)
         else (NB_UART_NRET, d))"

fun mini_send_all :: "hardware \<Rightarrow> u8 list \<Rightarrow> io \<Rightarrow> io result" where
  "mini_send_all hw [] d = Inr d"
| "mini_send_all hw (c # cs) d = bindR (mini_uart_send hw c d) (mini_send_all hw cs)"

definition mini_uart_init :: "hardware \<Rightarrow> io \<Rightarrow> io result" where
  "mini_uart_init hw d =
     (let (ra, d) = get32 hw GPFSEL1 d;
          ra = (and) ra (not (push_bit 12 7)); ra = (or) ra (push_bit 12 2);
          ra = (and) ra (not (push_bit 15 7)); ra = (or) ra (push_bit 15 2);
          d = put32 GPFSEL1 ra d;
          d = put32 GPPUD 0 d;
          d = put32 GPPUDCLK0 ((or) (push_bit 14 1) (push_bit 15 1)) d;
          d = put32 GPPUDCLK0 0 d;
          d = put32 AUX_ENABLES 1 d;
          d = put32 AUX_MU_IER_REG 0 d;
          d = put32 AUX_MU_CNTL_REG 0 d;
          d = put32 AUX_MU_IER_REG 0 d;
          d = put32 AUX_MU_LCR_REG 3 d;
          d = put32 AUX_MU_MCR_REG 0 d;
          d = put32 AUX_MU_BAUD_REG 270 d;
          d = put32 AUX_MU_CNTL_REG 3 d
      in mini_send_all hw [12, 27, 0x5B, 0x32, 0x4A] d)"

section \<open>The boot driver\<close>

definition early_mini_uart_init :: "hardware \<Rightarrow> io \<Rightarrow> io" where
  "early_mini_uart_init hw d =
     (let (ra, d) = get32 hw EARLY_GPFSEL1 d;
          ra = (and) ra (not (push_bit 12 7)); ra = (or) ra (push_bit 12 2);
          ra = (and) ra (not (push_bit 15 7)); ra = (or) ra (push_bit 15 2);
          d = put32 EARLY_GPFSEL1 ra d;
          d = put32 EARLY_GPPUD 0 d;
          d = put32 EARLY_GPPUDCLK0 ((or) (push_bit 14 1) (push_bit 15 1)) d;
          d = put32 EARLY_GPPUDCLK0 0 d;
          d = put32 EARLY_AUX_ENABLES 1 d;
          d = put32 EARLY_AUX_MU_IER_REG 0 d;
          d = put32 EARLY_AUX_MU_CNTL_REG 0 d;
          d = put32 EARLY_AUX_MU_IER_REG 0 d;
          d = put32 EARLY_AUX_MU_LCR_REG 3 d;
          d = put32 EARLY_AUX_MU_MCR_REG 0 d;
          d = put32 EARLY_AUX_MU_BAUD_REG 270 d
      in put32 EARLY_AUX_MU_CNTL_REG 3 d)"

definition early_mini_uart_send :: "hardware \<Rightarrow> u8 \<Rightarrow> io \<Rightarrow> io result" where
  "early_mini_uart_send hw c d =
     (case wait_until hw EARLY_AUX_MU_LSR_REG 0x20 d of
        None \<Rightarrow> Inl DIVERGE
      | Some d \<Rightarrow> Inr (put32 EARLY_AUX_MU_IO_REG (ucast c) d))"

fun early_mini_send_string :: "hardware \<Rightarrow> string \<Rightarrow> io \<Rightarrow> io result" where
  "early_mini_send_string hw [] d = Inr d"
| "early_mini_send_string hw (c # str) d = bindR (early_mini_uart_send hw (of_char c) d) (early_mini_send_string hw str)"

section \<open>Waiting\<close>

text \<open>The wait ends exactly when a bit is set at some later read, and then at the first one.\<close>

lemma wait_until_ready:
  assumes "(and) (hw a (reads d + n)) m \<noteq> 0" "\<forall>k < n. (and) (hw a (reads d + k)) m = 0"
  shows "wait_until hw a m d = Some (d\<lparr>reads := reads d + n + 1\<rparr>)"
  using assms
proof (induction n arbitrary: d)
  case 0
  then show ?case by (subst wait_until.simps) (simp add: get32_def)
next
  case (Suc n)
  have "(and) (hw a (reads d)) m = 0" using Suc.prems(2) by fastforce
  then have "wait_until hw a m d = wait_until hw a m (d\<lparr>reads := reads d + 1\<rparr>)"
    by (subst wait_until.simps) (simp add: get32_def)
  also have "\<dots> = Some (d\<lparr>reads := reads d + Suc n + 1\<rparr>)"
  proof -
    have "(and) (hw a (Suc (reads d + k))) m = 0" if "k < n" for k using Suc.prems(2) [rule_format, of "Suc k"] that by simp
    then show ?thesis using Suc.IH [of "d\<lparr>reads := reads d + 1\<rparr>"] Suc.prems(1) by simp
  qed
  finally show ?case .
qed

lemma wait_until_first:
  assumes "\<exists>k \<ge> reads d. (and) (hw a k) m \<noteq> 0"
  obtains k where "wait_until hw a m d = Some (d\<lparr>reads := k + 1\<rparr>)" "reads d \<le> k" "(and) (hw a k) m \<noteq> 0"
    "\<forall>j. reads d \<le> j \<longrightarrow> j < k \<longrightarrow> (and) (hw a j) m = 0"
proof -
  define k where "k = (LEAST k. reads d \<le> k \<and> (and) (hw a k) m \<noteq> 0)"
  have k: "reads d \<le> k" "(and) (hw a k) m \<noteq> 0" using LeastI_ex [of "\<lambda>k. reads d \<le> k \<and> (and) (hw a k) m \<noteq> 0"] assms by (auto simp: k_def)
  have least: "(and) (hw a j) m = 0" if "reads d \<le> j" "j < k" for j using not_less_Least [of j "\<lambda>k. reads d \<le> k \<and> (and) (hw a k) m \<noteq> 0"] that by (auto simp: k_def)
  have "wait_until hw a m d = Some (d\<lparr>reads := reads d + (k - reads d) + 1\<rparr>)" by (rule wait_until_ready) (use k least in auto)
  then show ?thesis using that k least by simp
qed

section \<open>The drivers are serial lines\<close>

text \<open>Some bit of the mask is set again and again.\<close>

definition ready_again :: "hardware \<Rightarrow> u64 \<Rightarrow> u32 \<Rightarrow> bool" where
  "ready_again hw a m \<longleftrightarrow> (\<forall>n. \<exists>k \<ge> n. (and) (hw a k) m \<noteq> 0)"

lemma wait_until_ready_again:
  assumes "ready_again hw a m"
  shows "\<exists>n. wait_until hw a m d = Some (d\<lparr>reads := n\<rparr>)"
proof -
  have "\<exists>k \<ge> reads d. (and) (hw a k) m \<noteq> 0" using assms by (simp add: ready_again_def)
  from wait_until_first [of d hw a m, OF this] show ?thesis by metis
qed

interpretation mini: serial_line mini_uart_send AUX_MU_IO_REG "\<lambda>hw. ready_again hw AUX_MU_LSR_REG 0x20"
proof
  fix hw :: hardware and c :: u8 and d :: io assume "ready_again hw AUX_MU_LSR_REG 0x20"
  from wait_until_ready_again [OF this, of d] show "\<exists>n. mini_uart_send hw c d = Inr (put32 AUX_MU_IO_REG (ucast c) (d\<lparr>reads := n\<rparr>))"
    by (auto simp: mini_uart_send_def)
qed

interpretation early_mini: serial_line early_mini_uart_send EARLY_AUX_MU_IO_REG "\<lambda>hw. ready_again hw EARLY_AUX_MU_LSR_REG 0x20"
proof
  fix hw :: hardware and c :: u8 and d :: io assume "ready_again hw EARLY_AUX_MU_LSR_REG 0x20"
  from wait_until_ready_again [OF this, of d] show "\<exists>n. early_mini_uart_send hw c d = Inr (put32 EARLY_AUX_MU_IO_REG (ucast c) (d\<lparr>reads := n\<rparr>))"
    by (auto simp: early_mini_uart_send_def)
qed

lemma early_mini_string:
  assumes "ready_again hw EARLY_AUX_MU_LSR_REG 0x20"
  shows "\<exists>d'. early_mini_send_string hw str d = Inr d' \<and>
    writes d' = writes d @ map (\<lambda>c. (EARLY_AUX_MU_IO_REG, ucast (of_char c :: u8))) str"
  by (rule early_mini.sends_in_order [OF assms]) simp_all

section \<open>Properties\<close>

text \<open>What selecting a function for the pins 14 and 15 makes of the word read: two three-bit fields change.\<close>

definition pins_to :: "u32 \<Rightarrow> u32 \<Rightarrow> u32" where
  "pins_to alt ra = (or) ((and) ra (not (push_bit 12 0x3F))) (push_bit 12 ((or) alt (push_bit 3 alt)))"

definition pins_off :: "u64 \<Rightarrow> u64 \<Rightarrow> (u64 \<times> u32) list" where
  "pins_off pud clk = [(pud, 0), (clk, 0xC000), (clk, 0)]"

definition mini_setup :: "u64 \<Rightarrow> u64 \<Rightarrow> u64 \<Rightarrow> u64 \<Rightarrow> u64 \<Rightarrow> u64 \<Rightarrow> (u64 \<times> u32) list" where
  "mini_setup en ier cntl lcr mcr baud = [(en, 1), (ier, 0), (cntl, 0), (ier, 0), (lcr, 3), (mcr, 0), (baud, 270), (cntl, 3)]"

definition clear_screen :: "u64 \<Rightarrow> (u64 \<times> u32) list" where
  "clear_screen r = [(r, 12), (r, 27), (r, 0x5B), (r, 0x32), (r, 0x4A)]"

lemma pins_to_eq:
  "(or) ((and) ((or) ((and) ra (not (push_bit 12 7))) (push_bit 12 2)) (not (push_bit 15 7))) (push_bit 15 2) = pins_to 2 (ra :: u32)"
  "(or) ((and) ((or) ((and) ra (not (push_bit 12 7))) (push_bit 12 4)) (not (push_bit 15 7))) (push_bit 15 4) = pins_to 4 (ra :: u32)"
  unfolding pins_to_def by (simp_all add: bit.conj_disj_distrib2 and.assoc or.assoc)


text \<open>Hardware whose mini UART is ready and has the number of the read as its data.\<close>

definition mini_hw :: hardware where
  "mini_hw a n = (if a = AUX_MU_LSR_REG then 0x21 else if a = AUX_MU_IO_REG then of_nat n else 0)"

lemma mini_hw_ready: "ready_again mini_hw AUX_MU_LSR_REG 0x20" "ready_again mini_hw AUX_MU_LSR_REG 0x01" "drains mini_hw"
  by (auto simp: ready_again_def drains_def mini_hw_def AUX_MU_LSR_REG_def AUX_MU_IO_REG_def RASPI3_PL011_FR_def RASPI3_PL011_BASE_def)


text \<open>The mini UART moves bytes. A character sent is written to the data register once, a received one is the low
  byte of the first data read after the line reports it, with nothing written; the non-blocking
  receive gives that byte or the value for none after a single look, and does not touch the data
  register when there is none.\<close>

lemma mini_uart_moves_bytes:
  assumes "ready_again hw AUX_MU_LSR_REG 0x20" "ready_again hw AUX_MU_LSR_REG 0x01"
  shows "(\<exists>n. mini_send_all hw cs d = Inr \<lparr>reads = n, writes = writes d @ map (\<lambda>c. (AUX_MU_IO_REG, ucast c)) cs\<rparr>) \<and>
    (\<exists>k \<ge> reads d. (and) (hw AUX_MU_LSR_REG k) 0x01 \<noteq> 0 \<and> (\<forall>j. reads d \<le> j \<longrightarrow> j < k \<longrightarrow> (and) (hw AUX_MU_LSR_REG j) 0x01 = 0) \<and>
       mini_uart_recv hw d = Inr (ucast (hw AUX_MU_IO_REG (k + 1)), d\<lparr>reads := k + 2\<rparr>)) \<and>
    mini_nb_uart_recv hw d = (if (and) (hw AUX_MU_LSR_REG (reads d)) 0x01 \<noteq> 0
       then (ucast (hw AUX_MU_IO_REG (reads d + 1)), d\<lparr>reads := reads d + 2\<rparr>) else (0xFF, d\<lparr>reads := reads d + 1\<rparr>))"
proof -
  have low: "(ucast ((and) v 0xFF) :: u8) = ucast (v :: u32)" for v
  proof -
    have "(0xFF :: u32) = mask 8" by (simp add: mask_eq_exp_minus_1)
    moreover have "(ucast ((and) v (mask 8)) :: u8) = ucast v" by (rule bit_word_eqI) (auto simp: bit_simps)
    ultimately show ?thesis by simp
  qed
  obtain d' where d': "mini_send_all hw cs d = Inr d'" "writes d' = writes d @ map (\<lambda>c. (AUX_MU_IO_REG, ucast c)) cs"
    using mini.sends_in_order [OF assms(1), where f = "\<lambda>c. c" and go = "mini_send_all hw" and cs = cs and d = d] by auto
  then have "d' = \<lparr>reads = reads d', writes = writes d @ map (\<lambda>c. (AUX_MU_IO_REG, ucast c)) cs\<rparr>" by (cases d') simp
  then have "\<exists>n. mini_send_all hw cs d = Inr \<lparr>reads = n, writes = writes d @ map (\<lambda>c. (AUX_MU_IO_REG, ucast c)) cs\<rparr>"
    using d'(1) by metis
  moreover have ex: "\<exists>k \<ge> reads d. (and) (hw AUX_MU_LSR_REG k) 0x01 \<noteq> 0" using assms(2) by (simp add: ready_again_def)
  obtain k where k: "wait_until hw AUX_MU_LSR_REG 0x01 d = Some (d\<lparr>reads := k + 1\<rparr>)" "reads d \<le> k" "(and) (hw AUX_MU_LSR_REG k) 0x01 \<noteq> 0"
    "\<forall>j. reads d \<le> j \<longrightarrow> j < k \<longrightarrow> (and) (hw AUX_MU_LSR_REG j) 0x01 = 0"
    by (rule wait_until_first [of d hw AUX_MU_LSR_REG "0x01", OF ex])
  have "mini_uart_recv hw d = Inr (ucast (hw AUX_MU_IO_REG (k + 1)), d\<lparr>reads := k + 2\<rparr>)"
    using k(1) low by (simp add: mini_uart_recv_def get32_def)
  moreover have "mini_nb_uart_recv hw d = (if (and) (hw AUX_MU_LSR_REG (reads d)) 0x01 \<noteq> 0
       then (ucast (hw AUX_MU_IO_REG (reads d + 1)), d\<lparr>reads := reads d + 2\<rparr>) else (0xFF, d\<lparr>reads := reads d + 1\<rparr>))"
    using low by (simp add: mini_nb_uart_recv_def uart_lsr_def get32_def NB_UART_NRET_def)
  ultimately show ?thesis using k(2-4) by blast
qed

end
