(* ===== verification/PteFormat.thy ===== *)
theory PteFormat
  imports PageTable_Props BootPt
begin

text \<open>
  The four views of a page table entry, the union \<open>pte_t\<close> of src/include/arch/aarch64/arch/mm/page_table.h: bit-fields
  packed from bit 0 upwards, as the compiler lays them out on this machine. The accessors of
  \<open>PageTable\<close> are those of the view for pages.
\<close>

section \<open>Layouts\<close>

type_synonym layout = "(string \<times> nat) list"

definition table_layout :: layout where
  "table_layout = [(''is_valid'', 1), (''is_table'', 1), (''ignored1'', 10), (''next_table_addr'', 36), (''reserved'', 4), (''ignored2'', 7),
     (''PXNTable'', 1), (''XNTable'', 1), (''APTable'', 2), (''NSTable'', 1)]"

definition l1_block_layout :: layout where
  "l1_block_layout = [(''is_valid'', 1), (''is_table'', 1), (''attr_index'', 3), (''NS'', 1), (''AP'', 2), (''SH'', 2), (''AF'', 1), (''nG'', 1),
     (''reserved1'', 4), (''nT'', 1), (''reserved2'', 13), (''pfn'', 18), (''reserved3'', 2), (''GP'', 1), (''reserved4'', 1), (''DBM'', 1),
     (''Contiguous'', 1), (''PXN'', 1), (''UXN'', 1), (''soft_reserved'', 4), (''PBHA'', 4)]"

definition l2_block_layout :: layout where
  "l2_block_layout = [(''is_valid'', 1), (''is_table'', 1), (''attr_index'', 3), (''NS'', 1), (''AP'', 2), (''SH'', 2), (''AF'', 1), (''nG'', 1),
     (''reserved1'', 4), (''nT'', 1), (''reserved2'', 4), (''pfn'', 27), (''reserved3'', 2), (''GP'', 1), (''reserved4'', 1), (''DBM'', 1),
     (''Contiguous'', 1), (''PXN'', 1), (''UXN'', 1), (''soft_reserved'', 4), (''PBHA'', 4)]"

definition l3_page_layout :: layout where
  "l3_page_layout = [(''is_valid'', 1), (''is_page'', 1), (''attr_index'', 3), (''NS'', 1), (''AP'', 2), (''SH'', 2), (''AF'', 1), (''nG'', 1),
     (''pfn'', 36), (''reserved'', 3), (''DBM'', 1), (''Contiguous'', 1), (''PXN'', 1), (''UXN'', 1), (''soft_reserved'', 4), (''PBHA'', 4),
     (''ignored'', 1)]"

text \<open>Offset and width of a field.\<close>

fun field_at :: "layout \<Rightarrow> string \<Rightarrow> (nat \<times> nat) option" where
  "field_at [] f = None"
| "field_at ((g, w) # l) f = (if g = f then Some (0, w) else map_option (\<lambda>(off, v). (w + off, v)) (field_at l f))"

definition read_field :: "layout \<Rightarrow> string \<Rightarrow> u64 \<Rightarrow> u64 option" where
  "read_field l f e = map_option (\<lambda>(off, w). get_field off w e) (field_at l f)"

definition write_field :: "layout \<Rightarrow> string \<Rightarrow> u64 \<Rightarrow> u64 \<Rightarrow> u64 option" where
  "write_field l f v e = map_option (\<lambda>(off, w). set_field off w v e) (field_at l f)"

section \<open>Fields do not overlap\<close>

lemma field_at_bound: "field_at l f = Some (off, w) \<Longrightarrow> off + w \<le> sum_list (map snd l) \<and> (f, w) \<in> set l"
  by (induction l f arbitrary: off w rule: field_at.induct) (auto split: if_split_asm)

lemma field_at_apart:
  "field_at l f = Some (off, w) \<Longrightarrow> field_at l g = Some (off', w') \<Longrightarrow> f \<noteq> g \<Longrightarrow> off + w \<le> off' \<or> off' + w' \<le> off"
  by (induction l f arbitrary: off w off' w' rule: field_at.induct) (fastforce split: if_split_asm)+

lemma layout_widths:
  "l \<in> {table_layout, l1_block_layout, l2_block_layout, l3_page_layout} \<Longrightarrow> sum_list (map snd l) = 64"
  by (auto simp: table_layout_def l1_block_layout_def l2_block_layout_def l3_page_layout_def)

lemma write_read:
  assumes "sum_list (map snd l) = 64" "write_field l f v e = Some e'"
  shows "\<exists>w. (f, w) \<in> set l \<and> read_field l f e' = Some (take_bit w v)"
    "g \<noteq> f \<Longrightarrow> read_field l g e' = read_field l g e"
proof -
  obtain off w where f: "field_at l f = Some (off, w)" "e' = set_field off w v e" using assms(2) by (auto simp: write_field_def)
  note b = field_at_bound [OF f(1)]
  show "\<exists>w. (f, w) \<in> set l \<and> read_field l f e' = Some (take_bit w v)"
    using f b assms(1) by (intro exI [of _ w]) (simp add: read_field_def)
  show "read_field l g e' = read_field l g e" if "g \<noteq> f"
  proof (cases "field_at l g")
    case None
    then show ?thesis by (simp add: read_field_def)
  next
    case (Some p)
    obtain off' w' where p: "p = (off', w')" by (cases p)
    have "off' + w' \<le> off \<or> off + w \<le> off'" using field_at_apart [of l g off' w' f off w] f(1) Some p that by simp
    then have "get_field off' w' e' = get_field off' w' e" unfolding f(2) by (rule get_set_field_other)
    then show ?thesis using Some p by (simp add: read_field_def)
  qed
qed

text \<open>The accessors of the code are the fields of the view for pages, and its table entries fill the view for tables.\<close>

lemma page_accessors:
  "write_field l3_page_layout ''is_valid'' v e = Some (set_is_valid v e)" "write_field l3_page_layout ''is_page'' v e = Some (set_is_table v e)"
  "write_field l3_page_layout ''attr_index'' v e = Some (set_attr_index v e)" "write_field l3_page_layout ''AP'' v e = Some (set_AP v e)"
  "write_field l3_page_layout ''SH'' v e = Some (set_SH v e)" "write_field l3_page_layout ''AF'' v e = Some (set_AF v e)"
  "write_field l3_page_layout ''nG'' v e = Some (set_nG v e)" "write_field l3_page_layout ''pfn'' v e = Some (set_pfn v e)"
  "write_field l3_page_layout ''PXN'' v e = Some (set_PXN v e)" "write_field l3_page_layout ''UXN'' v e = Some (set_UXN v e)"
  "write_field table_layout ''next_table_addr'' v e = Some (set_pfn v e)"
  by (simp_all add: write_field_def l3_page_layout_def table_layout_def set_is_valid_def set_is_table_def set_attr_index_def set_AP_def
      set_SH_def set_AF_def set_nG_def set_pfn_def set_PXN_def set_UXN_def numeral_2_eq_2)

section \<open>Properties\<close>

text \<open>The views of an entry. Each of the four views fills the 64 bits; a field that is written reads back, cut to its
  width, and no other field of the view changes. But the views for blocks have one reserved bit too
  many: the bit the boot code sets to keep user code from executing a block is \<open>UXN\<close> only in the view for
  pages, the view for blocks calls it \<open>PXN\<close>.\<close>

lemma pte_views:
  assumes "l \<in> {table_layout, l1_block_layout, l2_block_layout, l3_page_layout}" "write_field l f v e = Some e'"
  shows "sum_list (map snd l) = 64 \<and> (\<exists>w. (f, w) \<in> set l \<and> read_field l f e' = Some (take_bit w v)) \<and>
    (\<forall>g. g \<noteq> f \<longrightarrow> read_field l g e' = read_field l g e) \<and>
    read_field l3_page_layout ''UXN'' BOOT_UXN = Some 1 \<and> read_field l2_block_layout ''UXN'' BOOT_UXN = Some 0 \<and>
    read_field l2_block_layout ''PXN'' BOOT_UXN = Some 1"
proof -
  note w = layout_widths [OF assms(1)]
  have "read_field l3_page_layout ''UXN'' BOOT_UXN = Some 1" "read_field l2_block_layout ''UXN'' BOOT_UXN = Some 0"
    "read_field l2_block_layout ''PXN'' BOOT_UXN = Some 1"
    by (simp_all add: read_field_def l3_page_layout_def l2_block_layout_def get_field_def BOOT_UXN_def drop_bit_push_bit)
  then show ?thesis using w write_read [OF w assms(2)] by blast
qed

end
